(* ===== verification/Prelude.thy ===== *)
theory Prelude
  imports Main "HOL-Library.Word" "HOL-Library.List_Lexorder" "HOL-Library.Char_ord"
begin

text \<open>
  Shared vocabulary of the development: the names of Rust's machine integers, saturating
  arithmetic, big-endian byte strings, and Rust's standard ordered map
  \<^verbatim>\<open>std::collections::BTreeMap\<close> as an association list in ascending key order. Every component
  theory builds on the lemmas proved here; the collections \<open>bt\<close> and \<open>sat\<close> gather the
  rewrite rules that the component proofs use.
\<close>

named_theorems bt \<open>facts about ordered maps\<close>
named_theorems sat \<open>facts about saturating arithmetic\<close>

section \<open>Machine integers\<close>

type_synonym u8 = "8 word"
type_synonym u16 = "16 word"
type_synonym u32 = "32 word"
type_synonym u64 = "64 word"
type_synonym uuid = "128 word"
type_synonym bytes = "u8 list"

text \<open>
  Lengths, counts and sequence numbers that a run of the program cannot bring near the end of
  their range are \<open>nat\<close>; time stamps, protocol fields and everything whose wrap-around or
  saturation the code handles keep their width.
\<close>

definition saturating_sub :: "'a::len word \<Rightarrow> 'a word \<Rightarrow> 'a word" where
  "saturating_sub a b = (if a < b then 0 else a - b)"

definition saturating_add :: "'a::len word \<Rightarrow> 'a word \<Rightarrow> 'a word" where
  "saturating_add a b = (if a + b < a then - 1 else a + b)"

definition saturating_mul :: "'a::len word \<Rightarrow> 'a word \<Rightarrow> 'a word" where
  "saturating_mul a b = (if 2 ^ LENGTH('a) \<le> unat a * unat b then - 1 else a * b)"

definition checked_sub :: "'a::len word \<Rightarrow> 'a word \<Rightarrow> 'a word option" where
  "checked_sub a b = (if a < b then None else Some (a - b))"

lemma unat_word_max: "unat (- 1 :: 'a::len word) = 2 ^ LENGTH('a) - 1"
  by (simp add: unsigned_minus_1_eq_mask mask_eq_exp_minus_1)

lemma unat_lt_exp: "unat (a :: 'a::len word) < 2 ^ LENGTH('a)"
  by (rule unsigned_less)

lemma unat_saturating_sub [sat]: "unat (saturating_sub a b) = unat a - unat b"
proof (cases "a < b")
  case True
  then show ?thesis by (simp add: saturating_sub_def word_less_nat_alt)
next
  case False
  then show ?thesis by (simp add: saturating_sub_def unat_sub not_less)
qed

lemma unat_saturating_add [sat]:
  "unat (saturating_add (a :: 'a::len word) b) = min (unat a + unat b) (2 ^ LENGTH('a) - 1)"
proof (cases "unat a + unat b < 2 ^ LENGTH('a)")
  case True
  then have "unat (a + b) = unat a + unat b" by (simp add: unat_word_ariths)
  moreover from this have "\<not> a + b < a" by (simp add: word_less_nat_alt)
  moreover have "unat a + unat b \<le> 2 ^ LENGTH('a) - 1" using True by linarith
  ultimately show ?thesis by (simp add: saturating_add_def min_def)
next
  case False
  have la: "unat a < 2 ^ LENGTH('a)" and lb: "unat b < 2 ^ LENGTH('a)"
    by (rule unat_lt_exp)+
  have "(unat a + unat b) mod 2 ^ LENGTH('a) = (unat a + unat b) - 2 ^ LENGTH('a)"
    using False la lb by (metis add_less_mono le_mod_geq less_diff_conv2 linorder_not_less mod_less)
  then have "unat (a + b) < unat a"
    using False la lb by (simp only: unat_word_ariths)
  then have "saturating_add a b = - 1" by (simp add: saturating_add_def word_less_nat_alt)
  moreover have "2 ^ LENGTH('a) - 1 \<le> unat a + unat b" using False by linarith
  ultimately show ?thesis by (simp only: unat_word_max min_absorb2)
qed

lemma unat_saturating_mul [sat]:
  "unat (saturating_mul (a :: 'a::len word) b) = min (unat a * unat b) (2 ^ LENGTH('a) - 1)"
proof (cases "unat a * unat b < 2 ^ LENGTH('a)")
  case True
  then have "unat a * unat b \<le> 2 ^ LENGTH('a) - 1" by linarith
  then have "min (unat a * unat b) (2 ^ LENGTH('a) - 1) = unat a * unat b" by simp
  moreover have "unat (saturating_mul a b) = unat a * unat b"
    using True by (simp add: saturating_mul_def unat_word_ariths)
  ultimately show ?thesis by (simp only:)
next
  case False
  then have "saturating_mul a b = - 1" by (simp add: saturating_mul_def)
  moreover have "2 ^ LENGTH('a) - 1 \<le> unat a * unat b" using False by linarith
  ultimately show ?thesis by (simp only: unat_word_max min_absorb2)
qed

lemma saturating_sub_le [sat]: "saturating_sub a b \<le> a"
  by (simp add: word_le_nat_alt unat_saturating_sub)

lemma le_saturating_add [sat]: "(a :: 'a::len word) \<le> saturating_add a b"
proof -
  have "unat a \<le> 2 ^ LENGTH('a) - 1" using unat_lt_exp [of a] by linarith
  then show ?thesis by (simp add: word_le_nat_alt unat_saturating_add)
qed

section \<open>Big-endian byte strings\<close>

text \<open>\<open>be_bytes n x\<close> is the low \<open>n\<close> bytes of \<open>x\<close>, most significant first, as
  \<^verbatim>\<open>to_be_bytes\<close> gives them; \<open>be_nat\<close> reads such a string back.\<close>

primrec be_bytes :: "nat \<Rightarrow> nat \<Rightarrow> bytes" where
  "be_bytes 0 x = []"
| "be_bytes (Suc n) x = word_of_nat (x div 256 ^ n) # be_bytes n x"

primrec be_nat :: "bytes \<Rightarrow> nat" where
  "be_nat [] = 0"
| "be_nat (b # bs) = unat b * 256 ^ length bs + be_nat bs"

lemma length_be_bytes [simp]: "length (be_bytes n x) = n"
  by (induction n) simp_all

lemma unat_byte_of_nat: "unat (word_of_nat n :: u8) = n mod 256"
  by (simp add: unat_of_nat)

lemma be_nat_be_bytes_mod: "be_nat (be_bytes n x) = x mod 256 ^ n"
proof (induction n)
  case 0
  then show ?case by simp
next
  case (Suc n)
  have "x mod 256 ^ Suc n = 256 ^ n * (x div 256 ^ n mod 256) + x mod 256 ^ n"
    by (metis mod_mult2_eq power_Suc2)
  then show ?case by (simp only: be_bytes.simps be_nat.simps length_be_bytes Suc unat_byte_of_nat mult.commute)
qed

lemma be_bytes_4:
  "be_bytes 4 n = [word_of_nat (n div 16777216), word_of_nat (n div 65536), word_of_nat (n div 256), word_of_nat n]"
proof -
  have four: "(4 :: nat) = Suc (Suc (Suc (Suc 0)))" by simp
  show ?thesis unfolding four by simp
qed

lemma be_nat_be_bytes: "x < 256 ^ n \<Longrightarrow> be_nat (be_bytes n x) = x"
  by (simp add: be_nat_be_bytes_mod)

lemma be_bytes_inject:
  assumes "x < 256 ^ n" and "y < 256 ^ n"
  shows "be_bytes n x = be_bytes n y \<longleftrightarrow> x = y"
  using assms by (metis be_nat_be_bytes)

text \<open>Byte strings of one width compare lexicographically as the numbers compare: this is
  what makes a time stamp written big-endian a sort key.\<close>

lemma be_nat_bound: "be_nat bs < 256 ^ length bs"
proof (induction bs)
  case Nil
  then show ?case by simp
next
  case (Cons b bs)
  have "unat b < 256" using unat_lt_exp [of b] by simp
  then have "unat b + 1 \<le> 256" by linarith
  then have "(unat b + 1) * 256 ^ length bs \<le> 256 * 256 ^ length bs" by (rule mult_le_mono1)
  then have "unat b * 256 ^ length bs + 256 ^ length bs \<le> 256 ^ length (b # bs)"
    by (simp only: add_mult_distrib mult_1 length_Cons power_Suc)
  with Cons show ?case by (simp only: be_nat.simps)
qed

lemma be_nat_less:
  assumes "length xs = length ys" and "xs < ys"
  shows "be_nat xs < be_nat ys"
  using assms
proof (induction xs ys rule: list_induct2)
  case Nil
  then show ?case by simp
next
  case (Cons x xs y ys)
  show ?case
  proof (cases "x = y")
    case True
    with Cons show ?thesis by simp
  next
    case False
    with Cons.prems have "unat x + 1 \<le> unat y" by (simp add: word_less_nat_alt)
    then have "(unat x + 1) * 256 ^ length xs \<le> unat y * 256 ^ length xs"
      by (rule mult_le_mono1)
    then show ?thesis using be_nat_bound [of xs] Cons.hyps by simp
  qed
qed

lemma be_bytes_less:
  assumes "x < 256 ^ n" and "y < 256 ^ n"
  shows "be_bytes n x < be_bytes n y \<longleftrightarrow> x < y"
proof -
  have "be_bytes n x < be_bytes n y \<Longrightarrow> x < y"
    using be_nat_less [of "be_bytes n x" "be_bytes n y"] assms by (simp add: be_nat_be_bytes)
  moreover have "be_bytes n y < be_bytes n x \<Longrightarrow> y < x"
    using be_nat_less [of "be_bytes n y" "be_bytes n x"] assms by (simp add: be_nat_be_bytes)
  ultimately show ?thesis using assms
    by (metis be_bytes_inject linorder_less_linear order_less_asym)
qed

lemma append_less_same_length:
  "length xs = length ys \<Longrightarrow> xs @ us < ys @ vs \<longleftrightarrow> xs < ys \<or> (xs = ys \<and> us < (vs :: 'a::linorder list))"
  by (induction xs ys rule: list_induct2) auto

text \<open>A Rust string seen as its bytes: a HOL \<open>char\<close> is one byte.\<close>

definition str_bytes :: "string \<Rightarrow> bytes" where
  "str_bytes = map (\<lambda>c. word_of_nat (of_char c))"

definition bytes_str :: "bytes \<Rightarrow> string" where
  "bytes_str = map (\<lambda>b. char_of (unat b))"

lemma length_str_bytes [simp]: "length (str_bytes s) = length s"
  by (simp add: str_bytes_def)

lemma of_char_less_256: "(of_char c :: nat) < 256"
  using nat_of_char_less_256 by auto

lemma bytes_str_str_bytes [simp]: "bytes_str (str_bytes s) = s"
proof -
  have "char_of ((of_char c :: nat) mod 256) = c" for c
    using of_char_less_256 [of c] by simp
  then show ?thesis by (simp add: bytes_str_def str_bytes_def o_def unat_of_nat map_idI)
qed

lemma str_bytes_inject [simp]: "str_bytes a = str_bytes b \<longleftrightarrow> a = b"
  by (metis bytes_str_str_bytes)

section \<open>Ordered maps\<close>

text \<open>
  A \<^verbatim>\<open>BTreeMap\<close> is the list of its entries in strictly ascending key order. Equality of two
  such lists is equality of the maps (\<open>bt_unique\<close>), and iterating the map is reading the list.
\<close>

type_synonym ('k, 'v) btree = "('k \<times> 'v) list"

definition bt_ok :: "('k::linorder, 'v) btree \<Rightarrow> bool" where
  "bt_ok m = sorted_wrt (<) (map fst m)"

fun bt_insert :: "'k::linorder \<Rightarrow> 'v \<Rightarrow> ('k, 'v) btree \<Rightarrow> ('k, 'v) btree" where
  "bt_insert k v [] = [(k, v)]"
| "bt_insert k v ((x, y) # m) =
     (if k < x then (k, v) # (x, y) # m
      else if k = x then (k, v) # m
      else (x, y) # bt_insert k v m)"

definition bt_remove :: "'k \<Rightarrow> ('k, 'v) btree \<Rightarrow> ('k, 'v) btree" where
  "bt_remove k = filter (\<lambda>p. fst p \<noteq> k)"

text \<open>\<^verbatim>\<open>collect()\<close> into a map: insertions in iteration order, so a later entry wins.\<close>

definition bt_collect :: "('k::linorder \<times> 'v) list \<Rightarrow> ('k, 'v) btree" where
  "bt_collect kvs = fold (\<lambda>(k, v). bt_insert k v) kvs []"

lemma bt_ok_Nil [simp, bt]: "bt_ok []"
  by (simp add: bt_ok_def)

lemma bt_ok_Cons [bt]: "bt_ok ((k, v) # m) \<longleftrightarrow> (\<forall>x \<in> fst ` set m. k < x) \<and> bt_ok m"
  by (auto simp: bt_ok_def)

lemma fst_set_bt_insert [bt]: "fst ` set (bt_insert k v m) = insert k (fst ` set m)"
  by (induction k v m rule: bt_insert.induct) auto

lemma bt_ok_insert [bt]: "bt_ok m \<Longrightarrow> bt_ok (bt_insert k v m)"
  by (induction k v m rule: bt_insert.induct) (auto simp: bt)

lemma map_of_bt_insert [bt]: "bt_ok m \<Longrightarrow> map_of (bt_insert k v m) = (map_of m)(k \<mapsto> v)"
proof (induction k v m rule: bt_insert.induct)
  case (2 k v x y m)
  then show ?case by (auto simp: bt fun_eq_iff)
qed simp

lemma bt_ok_remove [bt]: "bt_ok m \<Longrightarrow> bt_ok (bt_remove k m)"
  by (induction m) (auto simp: bt_remove_def bt)

lemma map_of_bt_remove [bt]: "map_of (bt_remove k m) = (map_of m)(k := None)"
  by (induction m) (auto simp: bt_remove_def fun_eq_iff)

lemma bt_ok_filter [bt]: "bt_ok m \<Longrightarrow> bt_ok (filter P m)"
  by (induction m) (auto simp: bt)

lemma bt_ok_distinct: "bt_ok m \<Longrightarrow> distinct (map fst m)"
  by (induction m) (force simp: bt)+

lemma bt_ok_collect [bt]: "bt_ok (bt_collect kvs)"
proof -
  have "bt_ok m \<Longrightarrow> bt_ok (fold (\<lambda>(k, v). bt_insert k v) kvs m)" for m
    by (induction kvs arbitrary: m) (auto simp: bt)
  then show ?thesis by (simp add: bt_collect_def)
qed

lemma length_bt_insert_le: "length (bt_insert k v m) \<le> Suc (length m)"
  by (induction k v m rule: bt_insert.induct) auto

lemma length_bt_collect_le: "length (bt_collect kvs) \<le> length kvs"
proof -
  have "length (fold (\<lambda>(k, v). bt_insert k v) kvs m) \<le> length m + length kvs" for m
  proof (induction kvs arbitrary: m)
    case Nil
    then show ?case by simp
  next
    case (Cons p kvs)
    obtain k v where "p = (k, v)" by (cases p)
    then show ?case using Cons [of "bt_insert k v m"] length_bt_insert_le [of k v m] by simp
  qed
  from this [of "[]"] show ?thesis by (simp add: bt_collect_def)
qed

lemma set_bt_insert_subset: "set (bt_insert k v m) \<subseteq> insert (k, v) (set m)"
  by (induction k v m rule: bt_insert.induct) auto

lemma set_bt_collect_subset: "set (bt_collect kvs) \<subseteq> set kvs"
proof -
  have "set (fold (\<lambda>(k, v). bt_insert k v) kvs m) \<subseteq> set m \<union> set kvs" for m
  proof (induction kvs arbitrary: m)
    case (Cons p kvs)
    then show ?case using set_bt_insert_subset by (cases p) fastforce
  qed simp
  from this [of "[]"] show ?thesis by (simp add: bt_collect_def)
qed

lemma bt_insert_max: "(\<forall>x \<in> fst ` set m. x < k) \<Longrightarrow> bt_insert k v m = m @ [(k, v)]"
  by (induction k v m rule: bt_insert.induct) auto

lemma bt_ok_le_last: "bt_ok m \<Longrightarrow> r \<in> set m \<Longrightarrow> fst r \<le> fst (last m)"
proof (induction m)
  case (Cons p m)
  obtain k v where p: "p = (k, v)" by (cases p)
  show ?case
  proof (cases "m = []")
    case False
    then have "last m \<in> set m" by simp
    then have "k < fst (last m)" using Cons.prems(1) p by (simp add: bt)
    then show ?thesis using Cons p False by (auto simp: bt intro: less_imp_le)
  qed (use Cons p in simp)
qed simp

text \<open>Two maps with the same bindings are the same list.\<close>

lemma map_of_min_key:
  assumes "bt_ok ((k, v) # m)"
  shows "map_of ((k, v) # m) x = Some y \<Longrightarrow> k \<le> x"
  using assms by (auto simp: bt split: if_splits dest!: map_of_SomeD)

lemma bt_unique:
  assumes "bt_ok xs" and "bt_ok ys" and "map_of xs = map_of ys"
  shows "xs = ys"
  using assms
proof (induction xs arbitrary: ys)
  case Nil
  then show ?case by (metis map_of.simps(1) map_of_eq_empty_iff)
next
  case (Cons p xs)
  obtain k v where p: "p = (k, v)" by (cases p)
  have yk: "map_of ys k = Some v" using Cons.prems(3) p by (metis map_of_Cons_code(2))
  then obtain k' v' ys' where ys: "ys = (k', v') # ys'" by (cases ys) auto
  have "map_of ((k, v) # xs) k' = Some v'" using Cons.prems(3) p ys by (metis map_of_Cons_code(2))
  then have "k \<le> k'" using Cons.prems(1) p map_of_min_key [of k v xs k' v'] by simp
  moreover have "k' \<le> k" using Cons.prems(2) ys yk map_of_min_key [of k' v' ys' k v] by simp
  ultimately have kk: "k = k'" by simp
  have vv: "v = v'" using yk ys kk by simp
  have "map_of xs = (map_of (p # xs))(k := None)" "map_of ys' = (map_of ys)(k := None)"
    using Cons.prems(1,2) p ys kk by (auto simp: bt fun_eq_iff map_of_eq_None_iff)
  then have "map_of xs = map_of ys'" using Cons.prems(3) by metis
  then show ?case using Cons p ys kk vv by (simp add: bt)
qed

section \<open>The newest of a list\<close>

definition last_n :: "nat \<Rightarrow> 'a list \<Rightarrow> 'a list" where
  "last_n n xs = drop (length xs - n) xs"

lemma last_n_last_n_append: "last_n n (last_n n xs @ ys) = last_n n (xs @ ys)"
  by (cases "length xs \<le> n") (auto simp: last_n_def add.commute)

lemma last_n_snoc: "length xs \<le> n \<Longrightarrow> 0 < n \<Longrightarrow> drop (length xs + 1 - n) (xs @ [x]) = last_n n (xs @ [x])"
  by (simp add: last_n_def)

lemma length_last_n [simp]: "length (last_n n xs) = min (length xs) n"
  by (simp add: last_n_def)

section \<open>Serialisation\<close>

text \<open>
  The interface of a serde encoder (\<^verbatim>\<open>serde_json\<close>, third party) at one type: what \<^verbatim>\<open>to_vec\<close> and
  \<^verbatim>\<open>from_slice\<close> return, \<open>None\<close> for an error. \<open>codec_ok c V\<close> is the round trip on the values \<open>V\<close>;
  it is relative to a set because serde_json does not read back everything it writes (a NaN
  becomes \<^verbatim>\<open>null\<close>, and nesting deeper than 128 is refused).
\<close>

record 'e codec =
  enc :: "'e \<Rightarrow> bytes option"
  dec :: "bytes \<Rightarrow> 'e option"

definition codec_ok :: "'e codec \<Rightarrow> 'e set \<Rightarrow> bool" where
  "codec_ok c V \<longleftrightarrow> (\<forall>e \<in> V. \<forall>b. enc c e = Some b \<longrightarrow> dec c b = Some e)"

lemma codec_okD: "codec_ok c V \<Longrightarrow> e \<in> V \<Longrightarrow> enc c e = Some b \<Longrightarrow> dec c b = Some e"
  by (simp add: codec_ok_def)

text \<open>An encoder that knows a list of values and writes the position of the first that matches: a
  concrete instance on which theorems about encoders can be applied.\<close>

fun index_of :: "'e \<Rightarrow> 'e list \<Rightarrow> nat option" where
  "index_of e [] = None"
| "index_of e (x # xs) = (if e = x then Some 0 else map_option Suc (index_of e xs))"

definition table_codec :: "'e list \<Rightarrow> 'e codec" where
  "table_codec vs =
     \<lparr>enc = (\<lambda>e. case index_of e vs of None \<Rightarrow> None | Some i \<Rightarrow> if i < 256 then Some [word_of_nat i] else None),
      dec = (\<lambda>b. case b of [w] \<Rightarrow> if unat w < length vs then Some (vs ! unat w) else None | _ \<Rightarrow> None)\<rparr>"

lemma index_of_nth: "index_of e xs = Some i \<Longrightarrow> i < length xs \<and> xs ! i = e"
  by (induction xs arbitrary: i) (auto split: if_splits)

lemma table_codec_ok [simp]: "codec_ok (table_codec vs) V"
  by (auto simp: codec_ok_def table_codec_def unat_of_nat dest: index_of_nth split: option.splits if_splits)

lemma table_codec_enc:
  "enc (table_codec vs) e = Some b \<longleftrightarrow> (\<exists>i. index_of e vs = Some i \<and> i < 256 \<and> b = [word_of_nat i])"
  by (auto simp: table_codec_def split: option.splits if_splits)

end
