(* ===== verification/Event.thy ===== *)
theory Event
  imports Prelude Complex_Main
begin

text \<open>
  The event model and the subscription filter of the plugin contract
  (\<^verbatim>\<open>crates/aegis-sdk/src/event.rs\<close>, \<^verbatim>\<open>crates/aegis-sdk/src/plugin.rs\<close>).

  An \<^verbatim>\<open>f64\<close> is the number it denotes, an infinity or NaN; the two zeros are one value, since no
  code modelled here tells them apart. \<^verbatim>\<open>Uuid::new_v4()\<close> and \<^verbatim>\<open>now_ns()\<close> are arguments of the
  functions that call them. A \<^verbatim>\<open>serde_json::Value\<close> is a \<open>json\<close>: a number is
  held as its text, an object as its members in the order of their keys.
\<close>

datatype f64 = NaN | PosInf | NegInf | Fin real

datatype json = JNull | JBool bool | JNum string | JStr string | JArr "json list" | JObj "(string \<times> json) list"

section \<open>Events\<close>

datatype severity = Info | Low | Medium | High | Critical

datatype verdict = Human | Agent | Uncertain

fun verdict_display :: "verdict \<Rightarrow> string" where
  "verdict_display Human = ''human''"
| "verdict_display Agent = ''agent''"
| "verdict_display Uncertain = ''uncertain''"

datatype event_payload =
    ProcessExec (pe_pid: u32) (pe_ppid: u32) (pe_uid: u32) (pe_exe: string)
      (pe_cmdline: "string list") (pe_cwd: "string option")
  | SessionStart (ss_session_id: string) (ss_tty: "string option") (ss_user: string)
      (ss_remote: "string option")
  | SessionEnd (se_session_id: string)
  | Keystroke (ks_session_id: string) (inter_arrival_ns: u64) (is_paste: bool) (burst_len: u32)
  | CommandObserved (co_session_id: string) (co_command_len: u32) (co_token_count: u32)
      (co_shannon_entropy: f64) (co_had_backspace: bool) (edit_distance_prev: u32)
      (inter_command_ns: u64) (co_command_hash: string)
  | Score (sc_subject: string) (sc_model: string) (sc_score: f64)
      (sc_features: "(string, f64) btree")
  | Detection (dt_subject: string) (dt_verdict: verdict) (dt_confidence: f64) (dt_model: string)
      (dt_reasons: "string list") (dt_features: "(string, f64) btree")
  | Alert (al_severity: severity) (al_title: string) (al_detail: string)
      (al_subject: "string option")
  | Heartbeat (uptime_s: u64)
  | Custom json

fun default_kind :: "event_payload \<Rightarrow> string" where
  "default_kind (ProcessExec _ _ _ _ _ _) = ''process.exec''"
| "default_kind (SessionStart _ _ _ _) = ''session.start''"
| "default_kind (SessionEnd _) = ''session.end''"
| "default_kind (Keystroke _ _ _ _) = ''input.keystroke''"
| "default_kind (CommandObserved _ _ _ _ _ _ _ _) = ''command.observed''"
| "default_kind (Score _ _ _ _) = ''score''"
| "default_kind (Detection _ _ _ _ _ _) = ''detection''"
| "default_kind (Alert _ _ _ _) = ''alert''"
| "default_kind (Heartbeat _) = ''heartbeat''"
| "default_kind (Custom _) = ''custom''"

record event =
  ev_id :: uuid
  ts_ns :: u64
  agent_id :: string
  source :: string
  kind :: string
  payload :: event_payload
  labels :: "(string, string) btree"

definition event_new :: "uuid \<Rightarrow> u64 \<Rightarrow> string \<Rightarrow> string \<Rightarrow> event_payload \<Rightarrow> event" where
  "event_new new_id now aid src pl =
     \<lparr>ev_id = new_id, ts_ns = now, agent_id = aid, source = src,
      kind = default_kind pl, payload = pl, labels = []\<rparr>"

definition with_label :: "string \<Rightarrow> string \<Rightarrow> event \<Rightarrow> event" where
  "with_label k v ev = ev\<lparr>labels := bt_insert k v (labels ev)\<rparr>"

definition with_kind :: "string \<Rightarrow> event \<Rightarrow> event" where
  "with_kind k ev = ev\<lparr>kind := k\<rparr>"

lemma event_new_kind [simp]: "kind (event_new i n a s p) = default_kind p"
  by (simp add: event_new_def)

section \<open>Subscriptions\<close>

datatype subscriptions = SubAll | SubNone | SubKinds "string set"

definition subscription_kinds :: "string list \<Rightarrow> subscriptions" where
  "subscription_kinds ks = SubKinds (set ks)"

fun sub_matches :: "subscriptions \<Rightarrow> string \<Rightarrow> bool" where
  "sub_matches SubAll k = True"
| "sub_matches SubNone k = False"
| "sub_matches (SubKinds ks) k = (k \<in> ks)"

lemma sub_matches_kinds [simp]: "sub_matches (subscription_kinds ks) k \<longleftrightarrow> k \<in> set ks"
  by (simp add: subscription_kinds_def)

end
