(* ===== verification/Redb.thy ===== *)
theory Redb
  imports Prelude "HOL-Library.RBT"
begin

text \<open>
  The interface of the embedded key/value store (\<^verbatim>\<open>redb\<close>, a third-party crate) as the spill
  and the server store use it. A table is an unknown state type with a record of operations; the
  locale \<open>ordered_table\<close> states what the crate documents of them: point lookups see the last
  insert, and iteration yields the rows once each in ascending key order. Everything the two
  clients rely on is proved inside the locale from those laws. The library's red-black trees provide
  the interface and are what the witnesses run on.

  Every fallible call of a transaction has its outcome in a \<open>redb_io\<close> argument, so that each
  early return of the client code (\<^verbatim>\<open>?\<close>) is a branch of the model. A transaction that is not
  committed leaves the table as it was.
\<close>

record ('t, 'k, 'v) table_ops =
  tempty :: 't
  tget :: "'t \<Rightarrow> 'k \<Rightarrow> 'v option"
  tinsert :: "'k \<Rightarrow> 'v \<Rightarrow> 't \<Rightarrow> 't"
  tremove :: "'k \<Rightarrow> 't \<Rightarrow> 't"
  trows :: "'t \<Rightarrow> ('k \<times> 'v) list"

record 'k redb_io =
  begin_ok :: bool
  open_ok :: bool
  op_ok :: "'k \<Rightarrow> bool"
  commit_ok :: bool

definition io_fine :: "'k redb_io" where
  "io_fine = \<lparr>begin_ok = True, open_ok = True, op_ok = (\<lambda>_. True), commit_ok = True\<rparr>"

definition io_good :: "'k redb_io \<Rightarrow> bool" where
  "io_good io \<longleftrightarrow> begin_ok io \<and> open_ok io \<and> (\<forall>k. op_ok io k) \<and> commit_ok io"

lemma io_good_fine [simp]: "io_good io_fine"
  by (simp add: io_good_def io_fine_def)

lemma io_goodD:
  assumes "io_good io"
  shows "begin_ok io" "open_ok io" "op_ok io k" "commit_ok io"
  using assms by (simp_all add: io_good_def)

locale ordered_table =
  fixes T :: "('t, 'k::linorder, 'v) table_ops"
  assumes rows_empty: "trows T (tempty T) = []"
    and rows_ok: "bt_ok (trows T t)"
    and get_rows: "tget T t = map_of (trows T t)"
    and get_insert: "tget T (tinsert T k v t) = (tget T t)(k \<mapsto> v)"
    and get_remove: "tget T (tremove T k t) = (tget T t)(k := None)"
begin

text \<open>Iteration order is determined by the lookups alone.\<close>

lemma rows_eqI: "bt_ok m \<Longrightarrow> tget T t = map_of m \<Longrightarrow> trows T t = m"
  by (intro bt_unique) (simp_all add: rows_ok flip: get_rows)

lemma rows_insert: "trows T (tinsert T k v t) = bt_insert k v (trows T t)"
  by (rule rows_eqI) (simp_all add: bt rows_ok get_insert flip: get_rows)

lemma rows_remove: "trows T (tremove T k t) = bt_remove k (trows T t)"
  by (rule rows_eqI) (simp_all add: bt rows_ok get_remove flip: get_rows)

lemma rows_insert_max:
  "(\<And>x. x \<in> fst ` set (trows T t) \<Longrightarrow> x < k) \<Longrightarrow> trows T (tinsert T k v t) = trows T t @ [(k, v)]"
  by (simp add: rows_insert bt_insert_max)

lemma rows_fold_remove:
  "trows T (fold (tremove T) ks t) = filter (\<lambda>p. fst p \<notin> set ks) (trows T t)"
  by (induction ks arbitrary: t) (auto simp: rows_remove bt_remove_def intro: filter_cong)

lemma get_Some_iff: "tget T t k = Some v \<longleftrightarrow> (k, v) \<in> set (trows T t)"
  using bt_ok_distinct [OF rows_ok] by (auto simp: get_rows dest: map_of_SomeD)

lemmas table_rows = rows_empty rows_insert rows_remove rows_fold_remove

end

section \<open>A provider: red-black trees\<close>

definition rbt_table :: "(('k::linorder, 'v) rbt, 'k, 'v) table_ops" where
  "rbt_table = \<lparr>tempty = RBT.empty, tget = RBT.lookup, tinsert = RBT.insert,
     tremove = RBT.delete, trows = RBT.entries\<rparr>"

lemma sorted_distinct_strict: "sorted xs \<Longrightarrow> distinct xs \<Longrightarrow> sorted_wrt (<) (xs :: 'a::linorder list)"
  by (simp add: strict_sorted_iff)

interpretation rbt: ordered_table "rbt_table :: (('k::linorder, 'v) rbt, 'k, 'v) table_ops"
proof unfold_locales
  show "trows rbt_table (tempty rbt_table) = ([] :: ('k \<times> 'v) list)"
    by (simp add: rbt_table_def) (metis RBT.map_of_entries RBT.lookup_empty map_of_eq_empty_iff)
  show "bt_ok (trows rbt_table t)" for t :: "('k, 'v) rbt"
    by (simp add: rbt_table_def bt_ok_def sorted_distinct_strict RBT.sorted_entries RBT.distinct_entries)
  show "tget rbt_table t = map_of (trows rbt_table t)" for t :: "('k, 'v) rbt"
    by (simp add: rbt_table_def RBT.map_of_entries)
  show "tget rbt_table (tinsert rbt_table k v t) = (tget rbt_table t)(k \<mapsto> v)" for k v and t :: "('k, 'v) rbt"
    by (simp add: rbt_table_def)
  show "tget rbt_table (tremove rbt_table k t) = (tget rbt_table t)(k := None)" for k and t :: "('k, 'v) rbt"
    by (simp add: rbt_table_def)
qed

lemma rbt_table_ordered: "ordered_table rbt_table"
  by (rule rbt.ordered_table_axioms)

end
