(* ===== verification/Text.thy ===== *)
theory Text
  imports Prelude
begin

text \<open>
  Rust's \<^verbatim>\<open>str\<close>. A string is its list of bytes (a HOL \<open>char\<close> is one byte), so \<^verbatim>\<open>len\<close> is the length
  of the list. The functions that look at characters see the list cut at the leading bytes of
  its UTF-8 sequences (\<open>str_chars\<close>), and classify those short byte strings as the Unicode tables
  of the standard library do. Decimal printing and parsing follow \<^verbatim>\<open>format!\<close> and \<^verbatim>\<open>str::parse\<close>.
\<close>

abbreviation byte_of :: "char \<Rightarrow> nat" where
  "byte_of c \<equiv> of_char c"

definition is_cont :: "char \<Rightarrow> bool" where
  "is_cont c \<longleftrightarrow> 128 \<le> byte_of c \<and> byte_of c < 192"

function str_chars :: "string \<Rightarrow> string list" where
  "str_chars [] = []"
| "str_chars (c # cs) = (c # takeWhile is_cont cs) # str_chars (dropWhile is_cont cs)"
  by pat_completeness auto
termination
  by (relation "measure length") (auto simp: length_dropWhile_le le_imp_less_Suc)

lemma concat_str_chars [simp]: "concat (str_chars s) = s"
  by (induction s rule: str_chars.induct) auto

definition is_ascii :: "string \<Rightarrow> bool" where
  "is_ascii s \<longleftrightarrow> list_all (\<lambda>c. byte_of c < 128) s"

lemma is_ascii_simps [simp]:
  "is_ascii []" "is_ascii (c # s) \<longleftrightarrow> byte_of c < 128 \<and> is_ascii s"
  "is_ascii (s @ t) \<longleftrightarrow> is_ascii s \<and> is_ascii t"
  by (simp_all add: is_ascii_def)

lemma is_ascii_replicate [simp]: "is_ascii (replicate k c) \<longleftrightarrow> k = 0 \<or> byte_of c < 128"
  by (induction k) auto

lemma str_chars_ascii: "is_ascii s \<Longrightarrow> str_chars s = map (\<lambda>c. [c]) s"
proof (induction s)
  case (Cons c s)
  then have "takeWhile is_cont s = []" "dropWhile is_cont s = s"
    by (cases s; simp add: is_cont_def)+
  with Cons show ?case by simp
qed simp

section \<open>Character classes\<close>

text \<open>\<^verbatim>\<open>char::is_control\<close>: general category Cc, U+0000..U+001F and U+007F..U+009F.\<close>

definition char_is_control :: "string \<Rightarrow> bool" where
  "char_is_control ch =
     (case map byte_of ch of
        [b] \<Rightarrow> b < 32 \<or> b = 127
      | [b, d] \<Rightarrow> b = 194 \<and> 128 \<le> d \<and> d < 160
      | _ \<Rightarrow> False)"

text \<open>\<^verbatim>\<open>char::is_whitespace\<close>: the White_Space property.\<close>

definition char_is_whitespace :: "string \<Rightarrow> bool" where
  "char_is_whitespace ch =
     (case map byte_of ch of
        [b] \<Rightarrow> (9 \<le> b \<and> b \<le> 13) \<or> b = 32
      | [b, d] \<Rightarrow> b = 194 \<and> (d = 133 \<or> d = 160)
      | [b, d, e] \<Rightarrow>
          (b = 225 \<and> d = 154 \<and> e = 128)
          \<or> (b = 226 \<and> d = 128 \<and> ((128 \<le> e \<and> e \<le> 138) \<or> e = 168 \<or> e = 169 \<or> e = 175))
          \<or> (b = 226 \<and> d = 129 \<and> e = 159)
          \<or> (b = 227 \<and> d = 128 \<and> e = 128)
      | _ \<Rightarrow> False)"

section \<open>Trimming, prefixes and splitting\<close>

definition trim_end_chars :: "(string \<Rightarrow> bool) \<Rightarrow> string \<Rightarrow> string" where
  "trim_end_chars P s = concat (rev (dropWhile P (rev (str_chars s))))"

definition trim_start_chars :: "(string \<Rightarrow> bool) \<Rightarrow> string \<Rightarrow> string" where
  "trim_start_chars P s = concat (dropWhile P (str_chars s))"

definition str_trim :: "string \<Rightarrow> string" where
  "str_trim s = trim_end_chars char_is_whitespace (trim_start_chars char_is_whitespace s)"

fun strip_prefix :: "string \<Rightarrow> string \<Rightarrow> string option" where
  "strip_prefix [] s = Some s"
| "strip_prefix (p # ps) [] = None"
| "strip_prefix (p # ps) (c # cs) = (if p = c then strip_prefix ps cs else None)"

definition starts_with :: "string \<Rightarrow> string \<Rightarrow> bool" where
  "starts_with p s \<longleftrightarrow> strip_prefix p s \<noteq> None"

lemma strip_prefix_append [simp]: "strip_prefix p (p @ s) = Some s"
  by (induction p) simp_all

lemma strip_prefix_Some: "strip_prefix p s = Some t \<longleftrightarrow> s = p @ t"
  by (induction p s rule: strip_prefix.induct) auto

text \<open>\<^verbatim>\<open>rsplit_once\<close> at an ASCII character.\<close>

definition rsplit_once :: "char \<Rightarrow> string \<Rightarrow> (string \<times> string) option" where
  "rsplit_once c s =
     (if c \<in> set s
      then let after = rev (takeWhile (\<lambda>x. x \<noteq> c) (rev s))
           in Some (take (length s - length after - 1) s, after)
      else None)"

lemma rsplit_once_append:
  assumes "c \<notin> set t"
  shows "rsplit_once c (s @ c # t) = Some (s, t)"
proof -
  have "takeWhile (\<lambda>x. x \<noteq> c) (rev (s @ c # t)) = rev t"
    using assms by (auto simp: takeWhile_append)
  then show ?thesis by (simp add: rsplit_once_def Let_def)
qed

lemma trim_ascii_id:
  assumes "is_ascii s" and "\<not> P [hd s]" and "\<not> P [last s]" and "s \<noteq> []"
  shows "trim_end_chars P s = s" "trim_start_chars P s = s"
proof -
  have ch: "str_chars s = map (\<lambda>c. [c]) s" using assms(1) by (rule str_chars_ascii)
  have "dropWhile P (rev (str_chars s)) = rev (str_chars s)"
    using assms(3,4) ch by (simp add: dropWhile_eq_self_iff hd_rev last_map)
  then show "trim_end_chars P s = s" unfolding trim_end_chars_def by simp
  have "dropWhile P (str_chars s) = str_chars s"
    using assms(2,4) ch by (simp add: dropWhile_eq_self_iff hd_map)
  then show "trim_start_chars P s = s" unfolding trim_start_chars_def by simp
qed

lemma str_trim_id:
  assumes "is_ascii s" and "s \<noteq> []" and "\<not> char_is_whitespace [hd s]" and "\<not> char_is_whitespace [last s]"
  shows "str_trim s = s"
  using assms by (simp add: str_trim_def trim_ascii_id)

text \<open>Text with nothing to trim, such as the output of a hex or base64 encoder.\<close>

definition plain_text :: "string \<Rightarrow> bool" where
  "plain_text s \<longleftrightarrow> is_ascii s \<and> (\<forall>c \<in> set s. \<not> char_is_whitespace [c])"

lemma str_trim_Nil [simp]: "str_trim [] = []"
  by (simp add: str_trim_def trim_start_chars_def trim_end_chars_def)

lemma str_trim_plain: "plain_text s \<Longrightarrow> str_trim s = s"
  by (cases "s = []") (auto simp: plain_text_def intro: str_trim_id)

section \<open>Decimal numbers\<close>

fun dec_str :: "nat \<Rightarrow> string" where
  "dec_str n = (if n < 10 then [char_of (48 + n)] else dec_str (n div 10) @ [char_of (48 + n mod 10)])"

declare dec_str.simps [simp del]

definition is_digit :: "char \<Rightarrow> bool" where
  "is_digit c \<longleftrightarrow> 48 \<le> byte_of c \<and> byte_of c < 58"

definition dec_value :: "string \<Rightarrow> nat" where
  "dec_value s = foldl (\<lambda>n c. 10 * n + (byte_of c - 48)) 0 s"

text \<open>\<^verbatim>\<open>parse::<u16>\<close> and its kin: an optional plus sign, at least one digit, no overflow.\<close>

definition parse_unsigned :: "nat \<Rightarrow> string \<Rightarrow> nat option" where
  "parse_unsigned bits s =
     (let digits = (if s \<noteq> [] \<and> hd s = CHR ''+'' \<and> tl s \<noteq> [] then tl s else s)
      in if digits \<noteq> [] \<and> list_all is_digit digits \<and> dec_value digits < 2 ^ bits
         then Some (dec_value digits) else None)"

lemma digit_char: "d < 10 \<Longrightarrow> byte_of (char_of (48 + d) :: char) = 48 + d"
  by simp

lemma dec_str_digits: "list_all is_digit (dec_str n) \<and> dec_str n \<noteq> []"
proof (induction n rule: dec_str.induct)
  case (1 n)
  then show ?case by (subst (1 2) dec_str.simps) (cases "n < 10", auto simp: is_digit_def [of "char_of _"])
qed

lemma dec_value_snoc: "dec_value (s @ [c]) = 10 * dec_value s + (byte_of c - 48)"
  by (simp add: dec_value_def)

lemma dec_value_dec_str [simp]: "dec_value (dec_str n) = n"
proof (induction n rule: dec_str.induct)
  case (1 n)
  show ?case
  proof (cases "n < 10")
    case True
    then show ?thesis by (subst dec_str.simps) (simp add: dec_value_def)
  next
    case False
    then have "dec_value (dec_str (n div 10)) = n div 10" using 1 by simp
    then show ?thesis using False by (subst dec_str.simps) (simp add: dec_value_snoc)
  qed
qed

lemma is_digit_props: "is_digit c \<Longrightarrow> byte_of c < 128 \<and> c \<noteq> CHR '':'' \<and> c \<noteq> CHR ''/'' \<and> c \<noteq> CHR ''+'' \<and> \<not> char_is_whitespace [c]"
  by (auto simp: is_digit_def char_is_whitespace_def)

lemma dec_str_props:
  "is_ascii (dec_str n)" "CHR '':'' \<notin> set (dec_str n)" "CHR ''/'' \<notin> set (dec_str n)"
  using dec_str_digits [of n] by (auto simp: is_ascii_def list_all_iff dest: is_digit_props)

lemma parse_unsigned_dec_str: "n < 2 ^ bits \<Longrightarrow> parse_unsigned bits (dec_str n) = Some n"
proof -
  assume "n < 2 ^ bits"
  moreover have "hd (dec_str n) \<noteq> CHR ''+''"
    using dec_str_digits [of n] by (cases "dec_str n") (auto dest: is_digit_props)
  ultimately show ?thesis using dec_str_digits [of n] by (simp add: parse_unsigned_def Let_def)
qed

section \<open>UTF-8\<close>

text \<open>\<^verbatim>\<open>str::from_utf8\<close>: the well-formed byte sequences of the Unicode standard.\<close>

definition in_range :: "nat \<Rightarrow> nat \<Rightarrow> u8 \<Rightarrow> bool" where
  "in_range lo hi b \<longleftrightarrow> lo \<le> unat b \<and> unat b \<le> hi"

fun utf8_valid :: "bytes \<Rightarrow> bool" where
  "utf8_valid [] = True"
| "utf8_valid (b # bs) =
     (if in_range 0 127 b then utf8_valid bs
      else case bs of
        [] \<Rightarrow> False
      | c # cs \<Rightarrow>
          if in_range 194 223 b then in_range 128 191 c \<and> utf8_valid cs
          else case cs of
            [] \<Rightarrow> False
          | d # ds \<Rightarrow>
              if in_range 224 239 b then
                in_range (if unat b = 224 then 160 else 128) (if unat b = 237 then 159 else 191) c
                \<and> in_range 128 191 d \<and> utf8_valid ds
              else case ds of
                [] \<Rightarrow> False
              | e # es \<Rightarrow>
                  in_range 240 244 b
                  \<and> in_range (if unat b = 240 then 144 else 128) (if unat b = 244 then 143 else 191) c
                  \<and> in_range 128 191 d \<and> in_range 128 191 e \<and> utf8_valid es)"

definition from_utf8 :: "bytes \<Rightarrow> string option" where
  "from_utf8 b = (if utf8_valid b then Some (bytes_str b) else None)"

lemma str_bytes_bytes_str [simp]: "str_bytes (bytes_str b) = b"
proof -
  have "word_of_nat (of_char (char_of (unat w) :: char)) = (w :: u8)" for w
  proof -
    have "unat w < 256" using unat_lt_exp [of w] by simp
    then have "of_char (char_of (unat w) :: char) = unat w" by simp
    then show ?thesis by simp
  qed
  then show ?thesis by (simp add: str_bytes_def bytes_str_def o_def map_idI)
qed

lemma bytes_str_Nil [simp]: "bytes_str b = [] \<longleftrightarrow> b = []"
  by (simp add: bytes_str_def)

text \<open>\<^verbatim>\<open>is_char_boundary\<close> for an index within the string.\<close>

definition is_char_boundary :: "string \<Rightarrow> nat \<Rightarrow> bool" where
  "is_char_boundary s i \<longleftrightarrow> i = 0 \<or> i = length s \<or> (i < length s \<and> \<not> is_cont (s ! i))"

end
