(* ===== verification/Proto.thy ===== *)
theory Proto
  imports Event Text
begin

text \<open>
  The wire protocol (\<^verbatim>\<open>crates/aegis-proto/src/lib.rs\<close>): its messages and the length-prefixed
  framing. The JSON encoding of a message is the parameter \<open>mc\<close>. A byte stream is the list of
  the segments that arrive on it: a read returns at most what it asked for and at most one
  segment, an empty list is the end of the stream, and \<open>IoFail\<close> is a failed read.
\<close>

section \<open>Messages\<close>

definition PROTO_VERSION :: u16 where "PROTO_VERSION = 1"

definition MAX_FRAME_BYTES :: nat where "MAX_FRAME_BYTES = 16 * 1024 * 1024"

definition READ_CHUNK_BYTES :: nat where "READ_CHUNK_BYTES = 64 * 1024"

datatype server_command =
    Rescore string
  | SetConfig string json
  | Isolate string
  | Noop

datatype message =
    ClientHello (ch_version: u16) (ch_agent_id: string) (ch_hostname: string) (ch_os: string)
      (ch_pubkey: bytes)
  | ServerHello (sh_version: u16) (sh_accepted: bool) (sh_reason: "string option")
  | EnrollRequest (er_token: string) (er_hostname: string) (er_os: string) (er_pubkey: bytes)
  | EnrollResponse (ep_accepted: bool) (ep_agent_id: string) (ep_reason: "string option")
  | EventBatch (eb_id: uuid) (eb_events: "event list")
  | BatchAck (ba_id: uuid) (ba_accepted: u32)
  | Command (cm_id: uuid) (cm_command: server_command)
  | CommandResult (cr_id: uuid) (cr_ok: bool) (cr_detail: "string option")
  | Ping
  | Pong

datatype proto_error = Io | Serde | FrameTooLarge nat | Closed

section \<open>Writing a frame\<close>

text \<open>\<open>write_ok\<close>: whether the three writes to the stream succeed. The result is what is put on
  the wire.\<close>

definition write_message :: "message codec \<Rightarrow> bool \<Rightarrow> message \<Rightarrow> proto_error + bytes" where
  "write_message mc write_ok m =
     (case enc mc m of
        None \<Rightarrow> Inl Serde
      | Some b \<Rightarrow>
          if MAX_FRAME_BYTES < length b then Inl (FrameTooLarge (length b))
          else if \<not> write_ok then Inl Io
          else Inr (be_bytes 4 (unat (word_of_nat (length b) :: u32)) @ b))"

section \<open>Reading a frame\<close>

datatype segment = Data bytes | IoFail

text \<open>One \<^verbatim>\<open>read\<close> into a buffer of \<open>n\<close> bytes: \<open>None\<close> is an I/O error, an empty byte string the
  end of the stream.\<close>

fun read_some :: "nat \<Rightarrow> segment list \<Rightarrow> (bytes \<times> segment list) option" where
  "read_some n [] = Some ([], [])"
| "read_some n (IoFail # segs) = None"
| "read_some n (Data b # segs) =
     (if length b \<le> n then Some (b, segs) else Some (take n b, Data (drop n b) # segs))"

text \<open>\<^verbatim>\<open>read_exact\<close>: \<open>Closed\<close> stands for the \<^verbatim>\<open>UnexpectedEof\<close> that \<open>read_message\<close> maps to it.\<close>

fun read_exact :: "nat \<Rightarrow> segment list \<Rightarrow> proto_error + bytes \<times> segment list" where
  "read_exact n segs =
     (if n = 0 then Inr ([], segs)
      else case segs of
        [] \<Rightarrow> Inl Closed
      | IoFail # rest \<Rightarrow> Inl Io
      | Data b # rest \<Rightarrow>
          if b = [] then Inl Closed
          else if n \<le> length b then Inr (take n b, if length b = n then rest else Data (drop n b) # rest)
          else (case read_exact (n - length b) rest of
                  Inl e \<Rightarrow> Inl e
                | Inr (b', rest') \<Rightarrow> Inr (b @ b', rest')))"

declare read_exact.simps [simp del]

lemma read_some_length: "read_some n segs = Some (b, segs') \<Longrightarrow> length b \<le> n"
  by (cases "(n, segs)" rule: read_some.cases) (auto split: if_splits)

text \<open>The body loop. \<open>peak\<close> follows the size to which the buffer has been resized, so that the
  bound on the memory a peer can pin is a statement about the loop.\<close>

function read_body ::
  "nat \<Rightarrow> bytes \<Rightarrow> nat \<Rightarrow> segment list \<Rightarrow> nat \<times> (proto_error + bytes \<times> segment list)" where
  "read_body len buf peak segs =
     (if \<not> length buf < len then (peak, Inr (buf, segs))
      else let want = min (length buf + READ_CHUNK_BYTES) len;
               peak' = max peak want
           in case read_some (want - length buf) segs of
                None \<Rightarrow> (peak', Inl Io)
              | Some ([], segs') \<Rightarrow> (peak', Inl Closed)
              | Some (b # bs, segs') \<Rightarrow> read_body len (buf @ b # bs) peak' segs')"
  by pat_completeness auto
termination
  by (relation "measure (\<lambda>(len, buf, peak, segs). len - length buf)") auto

declare read_body.simps [simp del]

definition read_message :: "message codec \<Rightarrow> segment list \<Rightarrow> proto_error + message \<times> segment list" where
  "read_message mc segs =
     (case read_exact 4 segs of
        Inl e \<Rightarrow> Inl e
      | Inr (len_buf, segs1) \<Rightarrow>
          let len = be_nat len_buf
          in if MAX_FRAME_BYTES < len then Inl (FrameTooLarge len)
             else (case read_body len [] (min len READ_CHUNK_BYTES) segs1 of
                     (peak, Inl e) \<Rightarrow> Inl e
                   | (peak, Inr (buf, segs2)) \<Rightarrow>
                       (case dec mc buf of
                          None \<Rightarrow> Inl Serde
                        | Some m \<Rightarrow> Inr (m, segs2))))"

section \<open>Streams and their bytes\<close>

definition stream_ok :: "segment list \<Rightarrow> bool" where
  "stream_ok segs \<longleftrightarrow> (\<forall>s \<in> set segs. \<exists>b. s = Data b \<and> b \<noteq> [])"

fun seg_bytes :: "segment \<Rightarrow> bytes" where
  "seg_bytes (Data b) = b"
| "seg_bytes IoFail = []"

definition stream_bytes :: "segment list \<Rightarrow> bytes" where
  "stream_bytes segs = concat (map seg_bytes segs)"

lemma stream_simps [simp]:
  "stream_ok []" "stream_ok (Data b # segs) \<longleftrightarrow> b \<noteq> [] \<and> stream_ok segs" "\<not> stream_ok (IoFail # segs)"
  "stream_bytes [] = []" "stream_bytes (Data b # segs) = b @ stream_bytes segs"
  by (auto simp: stream_ok_def stream_bytes_def)

lemma stream_cases:
  assumes "stream_ok segs"
  obtains "segs = []" | b rest where "segs = Data b # rest" "b \<noteq> []" "stream_ok rest"
  using assms by (cases segs) (auto simp: stream_ok_def)

text \<open>Reading a known prefix returns it, however the bytes were cut into segments.\<close>

lemma read_exact_stream:
  assumes "stream_ok segs" and "stream_bytes segs = xs @ ys"
  shows "\<exists>segs'. read_exact (length xs) segs = Inr (xs, segs') \<and> stream_ok segs' \<and> stream_bytes segs' = ys"
  using assms
proof (induction segs arbitrary: xs)
  case Nil
  then show ?case by (simp add: read_exact.simps)
next
  case (Cons s segs)
  then obtain b where s: "s = Data b" "b \<noteq> []" "stream_ok segs" by (cases s) auto
  have eq: "b @ stream_bytes segs = xs @ ys" using Cons.prems(2) s by simp
  consider "xs = []" | "xs \<noteq> []" "length xs \<le> length b" | "length b < length xs" by linarith
  then show ?case
  proof cases
    case 1
    then show ?thesis using Cons.prems s by (simp add: read_exact.simps)
  next
    case 2
    have "xs = take (length xs) b" using eq 2 by (metis append_eq_conv_conj take_append diff_is_0_eq take_0 append_Nil2)
    moreover have "ys = drop (length xs) b @ stream_bytes segs"
      using eq 2 by (metis append_eq_conv_conj drop_append diff_is_0_eq drop_0)
    ultimately show ?thesis using 2 s by (subst read_exact.simps) auto
  next
    case 3
    obtain xs' where xs': "xs = b @ xs'" "stream_bytes segs = xs' @ ys"
      using eq 3 by (auto simp: append_eq_append_conv2)
    obtain segs' where "read_exact (length xs') segs = Inr (xs', segs')" "stream_ok segs'" "stream_bytes segs' = ys"
      using Cons.IH [OF s(3) xs'(2)] by blast
    then show ?thesis using 3 s xs'(1) by (subst read_exact.simps) auto
  qed
qed

lemma read_exact_short:
  assumes "stream_ok segs" and "length (stream_bytes segs) < n"
  shows "read_exact n segs = Inl Closed"
  using assms
proof (induction segs arbitrary: n)
  case Nil
  then show ?case by (simp add: read_exact.simps)
next
  case (Cons s segs)
  then obtain b where "s = Data b" "b \<noteq> []" "stream_ok segs" by (cases s) auto
  with Cons show ?case by (subst read_exact.simps) auto
qed

lemma read_some_stream:
  assumes "stream_ok segs" and "0 < n" and "read_some n segs = r"
  shows "\<exists>b segs'. r = Some (b, segs') \<and> stream_ok segs' \<and> b @ stream_bytes segs' = stream_bytes segs
       \<and> (b = [] \<longleftrightarrow> stream_bytes segs = []) \<and> length b \<le> n"
  using assms by (cases rule: stream_cases [OF assms(1)]) auto

lemma read_body_stream:
  assumes "stream_ok segs" and "stream_bytes segs = xs @ ys" and "length buf + length xs = len"
  shows "\<exists>p segs'. read_body len buf peak segs = (p, Inr (buf @ xs, segs')) \<and> stream_ok segs' \<and> stream_bytes segs' = ys"
  using assms
proof (induction len buf peak segs arbitrary: xs rule: read_body.induct)
  case (1 len buf peak segs)
  show ?case
  proof (cases "length buf < len")
    case False
    have "xs = []" using False 1(4) by auto
    then show ?thesis using False 1(2,3) by (subst read_body.simps) simp
  next
    case True
    let ?want = "min (length buf + READ_CHUNK_BYTES) len"
    have pos: "0 < ?want - length buf" using True by (simp add: READ_CHUNK_BYTES_def)
    obtain b segs1 where r: "read_some (?want - length buf) segs = Some (b, segs1)" "stream_ok segs1"
      "b @ stream_bytes segs1 = xs @ ys" "b = [] \<longleftrightarrow> stream_bytes segs = []" "length b \<le> ?want - length buf"
      using read_some_stream [OF 1(2) pos refl] 1(3) by auto
    have "xs \<noteq> []" using True 1(4) by auto
    then have "b \<noteq> []" using r(4) 1(3) by simp
    then obtain c cs where b: "b = c # cs" by (cases b) auto
    have "length b \<le> length xs" using r(5) 1(4) by simp
    then obtain xs' where xs': "xs = b @ xs'" "stream_bytes segs1 = xs' @ ys"
      using r(3) by (auto simp: append_eq_append_conv2)
    have "\<exists>p segs'. read_body len (buf @ c # cs) (max peak ?want) segs1 = (p, Inr ((buf @ c # cs) @ xs', segs'))
        \<and> stream_ok segs' \<and> stream_bytes segs' = ys"
      using 1(1) [OF _ refl refl, of "(b, segs1)" b segs1 c cs xs'] True r b xs' 1(4) by simp
    then show ?thesis using True r(1) b xs'(1) by (subst read_body.simps) (simp add: Let_def)
  qed
qed

text \<open>A body cut short is \<open>Closed\<close>, whatever was announced.\<close>

lemma read_body_short:
  assumes "stream_ok segs" and "length buf + length (stream_bytes segs) < len"
  shows "snd (read_body len buf peak segs) = Inl Closed"
  using assms
proof (induction len buf peak segs rule: read_body.induct)
  case (1 len buf peak segs)
  let ?want = "min (length buf + READ_CHUNK_BYTES) len"
  have pos: "0 < ?want - length buf" "length buf < len" using 1(3) by (simp_all add: READ_CHUNK_BYTES_def)
  obtain b segs1 where r: "read_some (?want - length buf) segs = Some (b, segs1)" "stream_ok segs1"
    "b @ stream_bytes segs1 = stream_bytes segs"
    using read_some_stream [OF 1(2) pos(1) refl] by auto
  show ?case
  proof (cases b)
    case Nil
    then show ?thesis using pos r(1) by (subst read_body.simps) (simp add: Let_def)
  next
    case (Cons c cs)
    have "length b + length (stream_bytes segs1) = length (stream_bytes segs)"
      using r(3) by (metis length_append)
    then have "snd (read_body len (buf @ c # cs) (max peak ?want) segs1) = Inl Closed"
      using 1(1) [OF _ refl refl, of "(b, segs1)" b segs1 c cs] pos r(1,2) Cons 1(3) by simp
    then show ?thesis using pos r(1) Cons by (subst read_body.simps) (simp add: Let_def)
  qed
qed

text \<open>The buffer is never resized beyond the bytes that arrived plus one chunk.\<close>

lemma read_some_bytes:
  "read_some n segs = Some (b, segs') \<Longrightarrow> length b + length (stream_bytes segs') = length (stream_bytes segs)"
  by (cases "(n, segs)" rule: read_some.cases) (auto simp: stream_bytes_def split: if_splits)

lemma read_body_peak:
  "fst (read_body len buf peak segs) \<le> max peak (length buf + length (stream_bytes segs) + READ_CHUNK_BYTES)"
proof (induction len buf peak segs rule: read_body.induct)
  case (1 len buf peak segs)
  let ?want = "min (length buf + READ_CHUNK_BYTES) len"
  show ?case
  proof (cases "length buf < len")
    case False
    then show ?thesis by (subst read_body.simps) simp
  next
    case True
    show ?thesis
    proof (cases "read_some (?want - length buf) segs")
      case None
      then show ?thesis using True by (subst read_body.simps) (simp add: Let_def)
    next
      case (Some p)
      obtain b segs1 where p: "p = (b, segs1)" by fastforce
      show ?thesis
      proof (cases b)
        case Nil
        then show ?thesis using True Some p by (subst read_body.simps) (simp add: Let_def)
      next
        case (Cons c cs)
        have len: "length b + length (stream_bytes segs1) = length (stream_bytes segs)"
          using read_some_bytes Some p by simp
        have "fst (read_body len (buf @ c # cs) (max peak ?want) segs1)
            \<le> max (max peak ?want) (length (buf @ c # cs) + length (stream_bytes segs1) + READ_CHUNK_BYTES)"
          using 1 [OF _ refl refl, of p b segs1 c cs] True Some p Cons by simp
        then show ?thesis using True Some p Cons len
          by (subst read_body.simps) (simp add: Let_def)
      qed
    qed
  qed
qed

section \<open>Frames\<close>

lemma frame_prefix:
  assumes "length b \<le> MAX_FRAME_BYTES"
  shows "be_nat (be_bytes 4 (unat (word_of_nat (length b) :: u32))) = length b"
proof -
  have "unat (word_of_nat (length b) :: u32) = length b"
    using assms by (simp add: MAX_FRAME_BYTES_def unat_of_nat)
  then show ?thesis using assms by (simp add: MAX_FRAME_BYTES_def be_nat_be_bytes)
qed

lemma write_message_Inr:
  "write_message mc ok m = Inr w \<longleftrightarrow>
     (\<exists>b. ok \<and> enc mc m = Some b \<and> length b \<le> MAX_FRAME_BYTES
       \<and> w = be_bytes 4 (unat (word_of_nat (length b) :: u32)) @ b)"
  by (auto simp: write_message_def split: option.splits if_splits)

lemma read_message_frame:
  assumes "stream_ok segs" and "stream_bytes segs = be_bytes 4 (unat (word_of_nat (length b) :: u32)) @ b @ rest"
    and "length b \<le> MAX_FRAME_BYTES"
  shows "\<exists>segs'. stream_ok segs' \<and> stream_bytes segs' = rest \<and>
     read_message mc segs = (case dec mc b of None \<Rightarrow> Inl Serde | Some m \<Rightarrow> Inr (m, segs'))"
proof -
  let ?h = "be_bytes 4 (unat (word_of_nat (length b) :: u32))"
  obtain segs1 where h: "read_exact 4 segs = Inr (?h, segs1)" "stream_ok segs1" "stream_bytes segs1 = b @ rest"
    using read_exact_stream [OF assms(1,2)] by auto
  obtain p segs2 where "read_body (length b) [] (min (length b) READ_CHUNK_BYTES) segs1 = (p, Inr (b, segs2))"
    "stream_ok segs2" "stream_bytes segs2 = rest"
    using read_body_stream [OF h(2,3), of "[]" "length b" "min (length b) READ_CHUNK_BYTES"] by auto
  then show ?thesis using h(1) frame_prefix [OF assms(3)] assms(3)
    by (intro exI [of _ segs2]) (simp add: read_message_def Let_def split: option.splits)
qed

section \<open>A connection\<close>

text \<open>The two directions of an established TLS stream as one endpoint sees them: the segments still
  to arrive, what has been written, and the outcomes of the coming writes (a write past the end of
  the list succeeds).\<close>

record conn =
  inp :: "segment list"
  out :: bytes
  wok :: "bool list"

definition send_msg :: "message codec \<Rightarrow> message \<Rightarrow> conn \<Rightarrow> (proto_error + unit) \<times> conn" where
  "send_msg mc m c =
     (case write_message mc (wok c = [] \<or> hd (wok c)) m of
        Inl e \<Rightarrow> (Inl e, c\<lparr>wok := tl (wok c)\<rparr>)
      | Inr w \<Rightarrow> (Inr (), c\<lparr>out := out c @ w, wok := tl (wok c)\<rparr>))"

definition recv_msg :: "message codec \<Rightarrow> conn \<Rightarrow> (proto_error + message) \<times> conn" where
  "recv_msg mc c =
     (case read_message mc (inp c) of
        Inl e \<Rightarrow> (Inl e, c)
      | Inr (m, segs) \<Rightarrow> (Inr m, c\<lparr>inp := segs\<rparr>))"

text \<open>The frame of a message, where it has one.\<close>

definition frame :: "message codec \<Rightarrow> message \<Rightarrow> bytes" where
  "frame mc m = (case write_message mc True m of Inl e \<Rightarrow> [] | Inr w \<Rightarrow> w)"

definition sendable :: "message codec \<Rightarrow> message \<Rightarrow> bool" where
  "sendable mc m \<longleftrightarrow> (\<exists>b. enc mc m = Some b \<and> length b \<le> MAX_FRAME_BYTES \<and> dec mc b = Some m)"

lemma frame_nonempty: "sendable mc m \<Longrightarrow> frame mc m \<noteq> []"
proof -
  assume "sendable mc m"
  then obtain b where b: "enc mc m = Some b" "length b \<le> MAX_FRAME_BYTES" by (auto simp: sendable_def)
  then have "frame mc m = be_bytes 4 (unat (word_of_nat (length b) :: u32)) @ b"
    by (simp add: frame_def write_message_def)
  then have "length (frame mc m) = 4 + length b" by (simp only: length_append length_be_bytes)
  then show ?thesis by auto
qed

lemma send_msg_sendable:
  assumes "sendable mc m" and "wok c = []"
  shows "send_msg mc m c = (Inr (), c\<lparr>out := out c @ frame mc m\<rparr>)"
  using assms by (auto simp: send_msg_def frame_def sendable_def write_message_def)

lemma send_msg_inp [simp]: "inp (snd (send_msg mc m c)) = inp c"
  by (simp add: send_msg_def split: sum.splits)

lemma recv_msg_out [simp]: "out (snd (recv_msg mc c)) = out c" "wok (snd (recv_msg mc c)) = wok c"
  by (simp_all add: recv_msg_def split: sum.splits prod.splits)

lemma recv_msg_frame:
  assumes "sendable mc m" and "stream_ok (inp c)" and "stream_bytes (inp c) = frame mc m @ rest"
  shows "\<exists>segs. recv_msg mc c = (Inr m, c\<lparr>inp := segs\<rparr>) \<and> stream_ok segs \<and> stream_bytes segs = rest"
proof -
  obtain b where b: "enc mc m = Some b" "length b \<le> MAX_FRAME_BYTES" "dec mc b = Some m"
    using assms(1) by (auto simp: sendable_def)
  then have "frame mc m = be_bytes 4 (unat (word_of_nat (length b) :: u32)) @ b"
    by (simp add: frame_def write_message_def)
  then obtain segs where "stream_ok segs" "stream_bytes segs = rest" "read_message mc (inp c) = Inr (m, segs)"
    using read_message_frame [OF assms(2), of b rest mc] assms(3) b by auto
  then show ?thesis by (auto simp: recv_msg_def)
qed

lemma sendable_table:
  assumes "m \<in> set vs" and "length vs \<le> 256"
  shows "sendable (table_codec vs) m"
proof -
  have "\<exists>i. index_of m xs = Some i" if "m \<in> set xs" for xs
    using that by (induction xs) auto
  then obtain i where i: "index_of m vs = Some i" using assms(1) by blast
  then have "i < 256" using index_of_nth assms(2) by fastforce
  then have e: "enc (table_codec vs) m = Some [word_of_nat i]" using i by (simp add: table_codec_def)
  then have "dec (table_codec vs) [word_of_nat i] = Some m"
    by (rule codec_okD [OF table_codec_ok UNIV_I])
  then show ?thesis using e by (simp add: sendable_def MAX_FRAME_BYTES_def)
qed

section \<open>Properties\<close>

text \<open>C39: a frame that was written is read back as the same message however the network cut it into
  segments, and the reader leaves exactly the bytes that follow it. The JSON decoder is assumed to
  read back this one encoding.\<close>

theorem frame_roundtrip:
  assumes "write_message mc True m = Inr w" and "dec mc (drop 4 w) = Some m"
    and "stream_ok segs" and "stream_bytes segs = w @ rest"
  shows "\<exists>segs'. read_message mc segs = Inr (m, segs') \<and> stream_ok segs' \<and> stream_bytes segs' = rest"
proof -
  obtain b where b: "length b \<le> MAX_FRAME_BYTES" "w = be_bytes 4 (unat (word_of_nat (length b) :: u32)) @ b"
    using assms(1) unfolding write_message_Inr by blast
  have "stream_bytes segs = be_bytes 4 (unat (word_of_nat (length b) :: u32)) @ b @ rest"
    unfolding assms(4) b(2) append_assoc by (rule refl)
  from read_message_frame [OF assms(3) this b(1), of mc] obtain segs' where s: "stream_ok segs'"
    "stream_bytes segs' = rest" "read_message mc segs = (case dec mc b of None \<Rightarrow> Inl Serde | Some m \<Rightarrow> Inr (m, segs'))"
    by blast
  have "dec mc b = Some m" using assms(2) unfolding b(2) by simp
  then have "read_message mc segs = Inr (m, segs')" using s(3) by simp
  then show ?thesis using s(1,2) by blast
qed

theorem frame_roundtrip_witness:
  "\<exists>segs'. read_message (table_codec [Pong, Ping]) [Data [0, 0], Data [0], Data [1, 1, 7]] = Inr (Ping, segs')
     \<and> stream_ok segs' \<and> stream_bytes segs' = [7]"
proof (rule frame_roundtrip)
  show "write_message (table_codec [Pong, Ping]) True Ping = Inr [0, 0, 0, 1, 1]"
    by (simp add: write_message_def table_codec_def MAX_FRAME_BYTES_def be_bytes_4)
qed (simp_all add: table_codec_def)

text \<open>What is not a frame is refused: a stream that ends within the length prefix or within the
  announced body is \<open>Closed\<close>, and a prefix above the maximum is \<open>FrameTooLarge\<close> whatever follows it,
  without reading on.\<close>

theorem read_message_rejects:
  assumes "stream_ok segs"
  shows "(length (stream_bytes segs) < 4 \<longrightarrow> read_message mc segs = Inl Closed)
    \<and> (\<forall>h rest. stream_bytes segs = h @ rest \<and> length h = 4 \<and> MAX_FRAME_BYTES < be_nat h
         \<longrightarrow> read_message mc segs = Inl (FrameTooLarge (be_nat h)))
    \<and> (\<forall>h rest. stream_bytes segs = h @ rest \<and> length h = 4 \<and> be_nat h \<le> MAX_FRAME_BYTES
           \<and> length rest < be_nat h \<longrightarrow> read_message mc segs = Inl Closed)"
proof (intro conjI allI impI; (elim conjE)?)
  assume "length (stream_bytes segs) < 4"
  then show "read_message mc segs = Inl Closed"
    using read_exact_short [OF assms] by (simp add: read_message_def)
next
  fix h rest
  assume h: "stream_bytes segs = h @ rest" "length h = 4" "MAX_FRAME_BYTES < be_nat h"
  obtain segs' where "read_exact 4 segs = Inr (h, segs')"
    using read_exact_stream [OF assms h(1)] h(2) by auto
  then show "read_message mc segs = Inl (FrameTooLarge (be_nat h))"
    using h(3) by (simp add: read_message_def)
next
  fix h rest
  assume h: "stream_bytes segs = h @ rest" "length h = 4" "be_nat h \<le> MAX_FRAME_BYTES" "length rest < be_nat h"
  obtain segs' where e: "read_exact 4 segs = Inr (h, segs')" "stream_ok segs'" "stream_bytes segs' = rest"
    using read_exact_stream [OF assms h(1)] h(2) by auto
  have "snd (read_body (be_nat h) [] (min (be_nat h) READ_CHUNK_BYTES) segs') = Inl Closed"
    using read_body_short [OF e(2)] e(3) h(4) by simp
  then obtain p where "read_body (be_nat h) [] (min (be_nat h) READ_CHUNK_BYTES) segs' = (p, Inl Closed)"
    by (metis prod.collapse)
  then show "read_message mc segs = Inl Closed"
    using e(1) h(3) by (simp add: read_message_def)
qed

theorem read_message_rejects_witness:
  "read_message (table_codec [Ping]) [Data [255], Data [0, 0, 0, 1]] = Inl (FrameTooLarge 4278190080)"
proof -
  have "stream_ok [Data [255], Data [0, 0, 0, 1]]" by simp
  from read_message_rejects [OF this, of "table_codec [Ping]"]
  have "stream_bytes [Data [255], Data [0, 0, 0, 1]] = [255, 0, 0, 0] @ [1] \<and> length [255 :: u8, 0, 0, 0] = 4
      \<and> MAX_FRAME_BYTES < be_nat [255, 0, 0, 0]
      \<longrightarrow> read_message (table_codec [Ping]) [Data [255], Data [0, 0, 0, 1]] = Inl (FrameTooLarge (be_nat [255, 0, 0, 0]))"
    by blast
  then show ?thesis by (simp add: MAX_FRAME_BYTES_def)
qed

text \<open>The buffer a peer can make the reader hold is bounded by what the peer has sent plus one chunk
  of 64 KiB, whatever length it announced and however the connection behaves.\<close>

theorem read_body_memory:
  "fst (read_body len [] (min len READ_CHUNK_BYTES) segs) \<le> length (stream_bytes segs) + READ_CHUNK_BYTES"
  using read_body_peak [of len "[]" "min len READ_CHUNK_BYTES" segs] by simp

end
