(* ===== verification/Auth.thy ===== *)
theory Auth
  imports Proto
begin

text \<open>
  Certificate pinning (\<^verbatim>\<open>crates/aegis-proto/src/pin.rs\<close>), the session-authentication digest
  (\<^verbatim>\<open>crates/aegis-proto/src/tls.rs\<close>), its signing by the agent
  (\<^verbatim>\<open>plugins/plugin-transport/src/auth.rs\<close>), the identity files and the enrollment blob
  (\<^verbatim>\<open>plugins/plugin-transport/src/identity.rs\<close>).

  The third-party primitives are the fields of a \<open>crypto\<close> record: SHA-256, Ed25519 signing and
  strict verification, hex and base64. What the code relies on of them is named in \<open>crypto_ok\<close>.
  \<^verbatim>\<open>rustls\<close> builders and the handshake itself are not modelled: the peer's leaf certificate and
  the exported keying material are arguments.
\<close>

section \<open>Primitives\<close>

record 'sk crypto =
  sha256 :: "bytes \<Rightarrow> bytes"
  verifying_key :: "'sk \<Rightarrow> bytes"
  ed_sign :: "'sk \<Rightarrow> bytes \<Rightarrow> bytes"
  key_of_seed :: "bytes \<Rightarrow> 'sk"
  seed_of_key :: "'sk \<Rightarrow> bytes"
  key_parses :: "bytes \<Rightarrow> bool"
  verify_strict :: "bytes \<Rightarrow> bytes \<Rightarrow> bytes \<Rightarrow> bool"
  b64_encode :: "bytes \<Rightarrow> string"
  b64_decode :: "string \<Rightarrow> bytes option"
  hex_encode :: "bytes \<Rightarrow> string"
  hex_decode :: "string \<Rightarrow> bytes option"

definition PIN_LEN :: nat where "PIN_LEN = 32"

text \<open>Functional correctness of the primitives, no security claim: lengths, and that what one
  function writes the other reads.\<close>

definition crypto_ok :: "'sk crypto \<Rightarrow> bool" where
  "crypto_ok C \<longleftrightarrow>
     (\<forall>b. length (sha256 C b) = 32)
   \<and> (\<forall>sk. length (verifying_key C sk) = 32 \<and> key_parses C (verifying_key C sk))
   \<and> (\<forall>sk m. length (ed_sign C sk m) = 64 \<and> verify_strict C (verifying_key C sk) m (ed_sign C sk m))
   \<and> (\<forall>sk. length (seed_of_key C sk) = 32 \<and> key_of_seed C (seed_of_key C sk) = sk)
   \<and> (\<forall>b. b64_decode C (b64_encode C b) = Some b \<and> plain_text (b64_encode C b))
   \<and> (\<forall>b. length b = 64 \<longrightarrow> length (b64_encode C b) \<le> 128)
   \<and> (\<forall>b. hex_decode C (hex_encode C b) = Some b \<and> plain_text (hex_encode C b))"

lemma crypto_okD:
  assumes "crypto_ok C"
  shows "length (sha256 C b) = 32" "length (verifying_key C sk) = 32" "key_parses C (verifying_key C sk)"
    "length (ed_sign C sk m) = 64" "verify_strict C (verifying_key C sk) m (ed_sign C sk m)"
    "length (seed_of_key C sk) = 32" "key_of_seed C (seed_of_key C sk) = sk"
    "b64_decode C (b64_encode C b) = Some b" "str_trim (b64_encode C b) = b64_encode C b"
    "length b = 64 \<Longrightarrow> length (b64_encode C b) \<le> 128"
    "hex_decode C (hex_encode C b) = Some b" "str_trim (hex_encode C b) = hex_encode C b"
    "plain_text (b64_encode C b)"
  using assms by (simp_all add: crypto_ok_def str_trim_plain)

section \<open>Pins\<close>

definition fingerprint :: "'sk crypto \<Rightarrow> bytes \<Rightarrow> bytes" where
  "fingerprint C cert_der = sha256 C cert_der"

unbundle bit_operations_syntax

text \<open>The accumulator loop of the constant-time comparison, over the indices \<open>0..<PIN_LEN\<close>.\<close>

fun ct_acc :: "nat list \<Rightarrow> bytes \<Rightarrow> bytes \<Rightarrow> u8 \<Rightarrow> u8" where
  "ct_acc [] a b acc = acc"
| "ct_acc (i # is) a b acc = ct_acc is a b (acc OR (a ! i XOR b ! i))"

definition ct_eq :: "bytes \<Rightarrow> bytes \<Rightarrow> bool" where
  "ct_eq a b \<longleftrightarrow> ct_acc [0..<PIN_LEN] a b 0 = 0"

definition parse_pin_hex :: "'sk crypto \<Rightarrow> string \<Rightarrow> bytes option" where
  "parse_pin_hex C s =
     (case hex_decode C (str_trim s) of
        None \<Rightarrow> None
      | Some b \<Rightarrow> if length b = PIN_LEN then Some b else None)"

text \<open>The loop of \<^verbatim>\<open>verify_server_cert\<close> scans the whole pin set.\<close>

definition verify_server_cert :: "'sk crypto \<Rightarrow> bytes list \<Rightarrow> bytes \<Rightarrow> bool" where
  "verify_server_cert C pins end_entity =
     (let presented = fingerprint C end_entity
      in fold (\<lambda>pin matched. matched \<or> ct_eq presented pin) pins False)"

definition bind_pin :: "'sk crypto \<Rightarrow> bytes list option \<Rightarrow> bytes \<Rightarrow> bytes" where
  "bind_pin C peer_certs fallback =
     (case peer_certs of Some (leaf # _) \<Rightarrow> fingerprint C leaf | _ \<Rightarrow> fallback)"

lemma word_or_eq_0: "(a OR b :: 'a::len word) = 0 \<longleftrightarrow> a = 0 \<and> b = 0"
  by (auto simp: bit_eq_iff bit_or_iff)

lemma word_xor_eq_0: "(a XOR b :: 'a::len word) = 0 \<longleftrightarrow> a = b"
  by (auto simp: bit_eq_iff bit_xor_iff)

lemma ct_acc_eq_0: "ct_acc is a b acc = 0 \<longleftrightarrow> acc = 0 \<and> (\<forall>i \<in> set is. a ! i = b ! i)"
  by (induction "is" arbitrary: acc) (auto simp: word_or_eq_0 word_xor_eq_0)

lemma ct_eq_iff:
  assumes "length a = PIN_LEN" and "length b = PIN_LEN"
  shows "ct_eq a b \<longleftrightarrow> a = b"
  using assms by (auto simp: ct_eq_def ct_acc_eq_0 list_eq_iff_nth_eq)

lemma fold_or: "fold (\<lambda>x m. m \<or> P x) xs m \<longleftrightarrow> m \<or> (\<exists>x \<in> set xs. P x)"
  by (induction xs arbitrary: m) auto

lemma verify_server_cert_iff:
  assumes "crypto_ok C" and "\<forall>p \<in> set pins. length p = PIN_LEN"
  shows "verify_server_cert C pins cert \<longleftrightarrow> fingerprint C cert \<in> set pins"
proof -
  have "length (fingerprint C cert) = PIN_LEN"
    using assms(1) by (simp add: fingerprint_def crypto_okD PIN_LEN_def)
  then show ?thesis using assms(2) by (auto simp: verify_server_cert_def fold_or ct_eq_iff)
qed

section \<open>The session-authentication digest\<close>

definition AUTH_LABEL :: bytes where
  "AUTH_LABEL = str_bytes ''aegis-session-auth-v1''"

definition auth_preimage :: "bytes \<Rightarrow> string \<Rightarrow> bytes \<Rightarrow> bytes \<Rightarrow> bytes" where
  "auth_preimage pin aid nonce32 tls_exporter =
     AUTH_LABEL @ pin @ str_bytes aid @ nonce32 @ tls_exporter"

definition auth_challenge_digest :: "'sk crypto \<Rightarrow> bytes \<Rightarrow> string \<Rightarrow> bytes \<Rightarrow> bytes \<Rightarrow> bytes" where
  "auth_challenge_digest C pin aid nonce32 tls_exporter =
     sha256 C (auth_preimage pin aid nonce32 tls_exporter)"

text \<open>The hashed bytes determine every input, since all but the agent id have a fixed width.\<close>

lemma auth_preimage_inject:
  assumes "length p = PIN_LEN" "length p' = PIN_LEN" "length n = 32" "length n' = 32"
    and "length x = 32" "length x' = 32"
    and "auth_preimage p a n x = auth_preimage p' a' n' x'"
  shows "p = p' \<and> a = a' \<and> n = n' \<and> x = x'"
proof -
  have eq: "p @ (str_bytes a @ (n @ x)) = p' @ (str_bytes a' @ (n' @ x'))"
    using assms(7) by (simp add: auth_preimage_def)
  then have "p = p'" and rest: "str_bytes a @ (n @ x) = str_bytes a' @ (n' @ x')"
    using assms(1,2) by (simp_all add: append_eq_append_conv)
  moreover have "length (n @ x) = length (n' @ x')" using assms(3-6) by simp
  then have "str_bytes a = str_bytes a'" and "n @ x = n' @ x'"
    using rest by (simp_all add: append_eq_append_conv)
  ultimately show ?thesis using assms(3,4) by (simp add: append_eq_append_conv)
qed

section \<open>Challenge and signature\<close>

definition uuid_bytes :: "uuid \<Rightarrow> bytes" where
  "uuid_bytes u = be_bytes 16 (unat u)"

lemma uuid_bytes_inject [simp]: "uuid_bytes a = uuid_bytes b \<longleftrightarrow> a = b"
proof -
  have "unat u < 256 ^ 16" for u :: uuid using unat_lt_exp [of u] by simp
  then show ?thesis by (simp add: uuid_bytes_def be_bytes_inject word_unat_eq_iff)
qed

lemma length_uuid_bytes [simp]: "length (uuid_bytes u) = 16"
  by (simp add: uuid_bytes_def)

text \<open>\<open>nonce_from_challenge\<close> is written twice in the code, once per end.\<close>

definition nonce_from_challenge :: "'sk crypto \<Rightarrow> uuid \<Rightarrow> bytes" where
  "nonce_from_challenge C challenge_id = sha256 C (uuid_bytes challenge_id)"

definition server_nonce_from_challenge :: "'sk crypto \<Rightarrow> uuid \<Rightarrow> bytes" where
  "server_nonce_from_challenge C challenge_id = sha256 C (uuid_bytes challenge_id)"

definition sign_auth :: "'sk crypto \<Rightarrow> 'sk \<Rightarrow> bytes \<Rightarrow> string \<Rightarrow> bytes \<Rightarrow> bytes \<Rightarrow> string" where
  "sign_auth C sk pin aid nonce32 tls_exporter =
     b64_encode C (ed_sign C sk (auth_challenge_digest C pin aid nonce32 tls_exporter))"

definition verify_challenge ::
  "'sk crypto \<Rightarrow> bytes \<Rightarrow> bytes \<Rightarrow> string \<Rightarrow> uuid \<Rightarrow> bytes \<Rightarrow> string \<Rightarrow> bool" where
  "verify_challenge C stored_pubkey pin aid challenge_id tls_exporter sig_b64 =
     (if \<not> key_parses C stored_pubkey then False
      else let trimmed = str_trim sig_b64
           in if 128 < length trimmed then False
              else (case b64_decode C trimmed of
                      None \<Rightarrow> False
                    | Some raw \<Rightarrow>
                        if length raw \<noteq> 64 then False
                        else verify_strict C stored_pubkey
                               (auth_challenge_digest C pin aid
                                  (server_nonce_from_challenge C challenge_id) tls_exporter) raw))"

definition cert_fingerprint :: "'sk crypto \<Rightarrow> bytes \<Rightarrow> string" where
  "cert_fingerprint C server_cert_der = hex_encode C (fingerprint C server_cert_der)"

lemma verify_challenge_sound:
  assumes "verify_challenge C pk pin a cid x s"
  shows "\<exists>raw. length raw = 64 \<and> b64_decode C (str_trim s) = Some raw
       \<and> verify_strict C pk (auth_challenge_digest C pin a (nonce_from_challenge C cid) x) raw"
  using assms
  by (auto simp: verify_challenge_def Let_def server_nonce_from_challenge_def nonce_from_challenge_def
      split: if_splits option.splits)

lemma verify_challenge_sign:
  assumes "crypto_ok C"
  shows "verify_challenge C (verifying_key C sk) pin a cid x (sign_auth C sk pin a (nonce_from_challenge C cid) x)"
  using crypto_okD [OF assms]
  by (simp add: verify_challenge_def sign_auth_def server_nonce_from_challenge_def nonce_from_challenge_def not_less)

section \<open>The identity files\<close>

text \<open>A directory is a map from file names to contents. Each write has its outcome: opening may fail
  and leave the old file, or writing may fail after the file was truncated.\<close>

datatype write_outcome = WriteOk | OpenFailed | WroteOnly bytes

type_synonym dir = "string \<rightharpoonup> bytes"

record identity_file =
  if_agent_id :: string
  if_server_pins :: "string list"
  if_enrolled_at_ns :: u64

record 'sk enrolled =
  en_agent_id :: string
  signing_key :: 'sk
  server_pins :: "bytes list"

datatype identity_error = Unreadable | Unparsable | BadSeed | BadPin nat | NoPins | WriteFailed

definition IDENTITY_FILE :: string where "IDENTITY_FILE = ''identity.json''"

definition KEY_FILE :: string where "KEY_FILE = ''agent_ed25519.key''"

fun parse_pins :: "'sk crypto \<Rightarrow> nat \<Rightarrow> string list \<Rightarrow> identity_error + bytes list" where
  "parse_pins C i [] = Inr []"
| "parse_pins C i (p # ps) =
     (case parse_pin_hex C p of
        None \<Rightarrow> Inl (BadPin i)
      | Some pin \<Rightarrow> (case parse_pins C (i + 1) ps of Inl e \<Rightarrow> Inl e | Inr pins \<Rightarrow> Inr (pin # pins)))"

definition load_identity ::
  "'sk crypto \<Rightarrow> identity_file codec \<Rightarrow> dir \<Rightarrow> identity_error + 'sk enrolled option" where
  "load_identity C ic d =
     (case d IDENTITY_FILE of
        None \<Rightarrow> Inr None
      | Some text \<Rightarrow>
          (case dec ic text of
             None \<Rightarrow> Inl Unparsable
           | Some f \<Rightarrow>
               (case d KEY_FILE of
                  None \<Rightarrow> Inl Unreadable
                | Some seed \<Rightarrow>
                    if length seed \<noteq> 32 then Inl BadSeed
                    else (case parse_pins C 0 (if_server_pins f) of
                            Inl e \<Rightarrow> Inl e
                          | Inr [] \<Rightarrow> Inl NoPins
                          | Inr (p # ps) \<Rightarrow>
                              Inr (Some \<lparr>en_agent_id = if_agent_id f, signing_key = key_of_seed C seed,
                                         server_pins = p # ps\<rparr>)))))"

definition write_private :: "write_outcome \<Rightarrow> string \<Rightarrow> bytes \<Rightarrow> dir \<Rightarrow> (identity_error + unit) \<times> dir" where
  "write_private w path b d =
     (case w of
        WriteOk \<Rightarrow> (Inr (), d(path \<mapsto> b))
      | OpenFailed \<Rightarrow> (Inl WriteFailed, d)
      | WroteOnly b' \<Rightarrow> (Inl WriteFailed, d(path \<mapsto> b')))"

definition persist_identity ::
  "'sk crypto \<Rightarrow> identity_file codec \<Rightarrow> write_outcome \<Rightarrow> write_outcome \<Rightarrow> u64 \<Rightarrow> string \<Rightarrow> 'sk \<Rightarrow> bytes list \<Rightarrow> dir
   \<Rightarrow> (identity_error + unit) \<times> dir" where
  "persist_identity C ic w1 w2 now aid sk pins d =
     (case enc ic \<lparr>if_agent_id = aid, if_server_pins = map (hex_encode C) pins, if_enrolled_at_ns = now\<rparr> of
        None \<Rightarrow> (Inl Unparsable, d)
      | Some json \<Rightarrow>
          (case write_private w1 IDENTITY_FILE json d of
             (Inl e, d1) \<Rightarrow> (Inl e, d1)
           | (Inr _, d1) \<Rightarrow> write_private w2 KEY_FILE (seed_of_key C sk) d1))"

lemma parse_pins_encoded:
  assumes "crypto_ok C"
  shows "\<forall>p \<in> set pins. length p = PIN_LEN \<Longrightarrow> parse_pins C i (map (hex_encode C) pins) = Inr pins"
  by (induction pins arbitrary: i) (simp_all add: parse_pin_hex_def crypto_okD [OF assms])

section \<open>The enrollment blob\<close>

datatype blob_error = NoPrefix | BadBase64 | TooShort | BadUtf8

definition parse_enroll_blob :: "'sk crypto \<Rightarrow> string \<Rightarrow> blob_error + string \<times> bytes" where
  "parse_enroll_blob C line =
     (case map_option str_trim (strip_prefix ''AEGIS-ENROLL'' (str_trim line)) of
        None \<Rightarrow> Inl NoPrefix
      | Some b64 \<Rightarrow>
          (case b64_decode C b64 of
             None \<Rightarrow> Inl BadBase64
           | Some raw \<Rightarrow>
               if length raw \<le> PIN_LEN then Inl TooShort
               else let split = length raw - PIN_LEN
                    in (case from_utf8 (take split raw) of
                          None \<Rightarrow> Inl BadUtf8
                        | Some token \<Rightarrow> Inr (token, drop split raw))))"

lemma parse_enroll_blob_sound:
  assumes "parse_enroll_blob C line = Inr (token, pin)"
  shows "length pin = PIN_LEN \<and> token \<noteq> [] \<and>
    (\<exists>b64. str_trim line = ''AEGIS-ENROLL'' @ b64 \<and> b64_decode C (str_trim b64) = Some (str_bytes token @ pin))"
  using assms
  by (auto simp: parse_enroll_blob_def Let_def from_utf8_def strip_prefix_Some bytes_str_Nil PIN_LEN_def
      split: option.splits if_splits) 

section \<open>A provider of the primitives\<close>

text \<open>A concrete \<open>crypto\<close> record that satisfies \<open>crypto_ok\<close>, so that theorems resting on it can
  be applied at concrete inputs. Keys are 256-bit words, both text encodings write two letters per
  byte, and the hash keeps 32 bytes; none of it is meant to be secure.\<close>

definition toy_hash :: "bytes \<Rightarrow> bytes" where
  "toy_hash b = be_bytes 32 (be_nat b)"

fun toy_hex :: "bytes \<Rightarrow> string" where
  "toy_hex [] = []"
| "toy_hex (b # bs) = char_of (97 + unat b div 16) # char_of (97 + unat b mod 16) # toy_hex bs"

fun toy_unhex :: "string \<Rightarrow> bytes option" where
  "toy_unhex [] = Some []"
| "toy_unhex [c] = None"
| "toy_unhex (c # d # s) =
     map_option ((#) (word_of_nat ((byte_of c - 97) * 16 + (byte_of d - 97)))) (toy_unhex s)"

definition toy_pub :: "256 word \<Rightarrow> bytes" where
  "toy_pub k = be_bytes 32 (unat k)"

definition toy_crypto :: "256 word crypto" where
  "toy_crypto =
     \<lparr>sha256 = toy_hash, verifying_key = toy_pub, ed_sign = (\<lambda>k m. toy_pub k @ toy_hash m),
      key_of_seed = (\<lambda>s. word_of_nat (be_nat s)), seed_of_key = toy_pub, key_parses = (\<lambda>_. True),
      verify_strict = (\<lambda>pk m s. s = pk @ toy_hash m), b64_encode = toy_hex, b64_decode = toy_unhex,
      hex_encode = toy_hex, hex_decode = toy_unhex\<rparr>"

lemma toy_unhex_hex [simp]: "toy_unhex (toy_hex b) = Some b"
proof (induction b)
  case (Cons w b)
  have "unat w < 256" using unat_lt_exp [of w] by simp
  moreover from this have "unat w div 16 < 16" "unat w mod 16 < 16" by auto
  ultimately have "word_of_nat ((byte_of (char_of (97 + unat w div 16) :: char) - 97) * 16
      + (byte_of (char_of (97 + unat w mod 16) :: char) - 97)) = w"
    by simp
  with Cons show ?case by simp
qed simp

lemma length_toy_hex [simp]: "length (toy_hex b) = 2 * length b"
  by (induction b) simp_all

lemma toy_hex_letters: "list_all (\<lambda>c. 97 \<le> byte_of c \<and> byte_of c < 113) (toy_hex b)"
proof (induction b)
  case (Cons w b)
  have "unat w < 256" using unat_lt_exp [of w] by simp
  then have "unat w div 16 < 16" "unat w mod 16 < 16" by auto
  with Cons show ?case by simp
qed simp

lemma plain_toy_hex [simp]: "plain_text (toy_hex b)"
  using toy_hex_letters [of b] by (auto simp: plain_text_def is_ascii_def list_all_iff char_is_whitespace_def)

lemma toy_crypto_ok: "crypto_ok toy_crypto"
proof -
  have "word_of_nat (be_nat (be_bytes 32 (unat k))) = k" for k :: "256 word"
    using unat_lt_exp [of k] by (simp add: be_nat_be_bytes)
  then show ?thesis by (simp add: crypto_ok_def toy_crypto_def toy_hash_def toy_pub_def)
qed

section \<open>Properties\<close>

text \<open>The certificate verifier accepts a server exactly when the SHA-256 fingerprint of its leaf is in
  the pin set: the constant-time comparison is equality, and scanning on after a match changes nothing.\<close>

theorem pinned_verifier_exact:
  assumes "crypto_ok C" and "\<forall>p \<in> set pins. length p = PIN_LEN"
  shows "verify_server_cert C pins cert \<longleftrightarrow> fingerprint C cert \<in> set pins"
  using assms by (rule verify_server_cert_iff)

theorem pinned_verifier_exact_witness:
  "verify_server_cert toy_crypto [replicate 32 0, fingerprint toy_crypto [7]] [7]
   \<longleftrightarrow> fingerprint toy_crypto [7] \<in> set [replicate 32 0, fingerprint toy_crypto [7]]"
  by (rule pinned_verifier_exact [OF toy_crypto_ok])
     (simp add: PIN_LEN_def fingerprint_def crypto_okD [OF toy_crypto_ok])

text \<open>The signed digest binds pin, agent id, nonce and channel together: two sessions that differ in any
  of them hash different byte strings, so their digests differ unless SHA-256 collides on exactly
  those two strings.\<close>

theorem auth_digest_binds:
  assumes "length p = PIN_LEN" "length p' = PIN_LEN" "length n = 32" "length n' = 32"
    and "length x = 32" "length x' = 32" and "(p, a, n, x) \<noteq> (p', a', n', x')"
    and "auth_preimage p a n x \<noteq> auth_preimage p' a' n' x'
      \<Longrightarrow> sha256 C (auth_preimage p a n x) \<noteq> sha256 C (auth_preimage p' a' n' x')"
  shows "auth_challenge_digest C p a n x \<noteq> auth_challenge_digest C p' a' n' x'"
  using assms(7,8) auth_preimage_inject [OF assms(1-6)] by (auto simp: auth_challenge_digest_def)

theorem auth_digest_binds_witness:
  "auth_challenge_digest (toy_crypto\<lparr>sha256 := rev\<rparr>) (replicate 32 1) ''ab'' (replicate 32 2) (replicate 32 3)
   \<noteq> auth_challenge_digest (toy_crypto\<lparr>sha256 := rev\<rparr>) (replicate 32 1) ''a'' (replicate 32 2) (replicate 32 3)"
  by (rule auth_digest_binds) (simp_all add: PIN_LEN_def)

text \<open>What enrollment persists is what the forwarder loads: the same agent id, signing key and pins.
  If instead the key cannot be written, a first enrollment loads as an error and never as an identity
  with a wrong key.\<close>

theorem identity_roundtrip:
  assumes "crypto_ok C" and "codec_ok ic UNIV" and "\<forall>p \<in> set pins. length p = PIN_LEN" and "pins \<noteq> []"
    and "persist_identity C ic WriteOk w2 now aid sk pins d = (r, d')" and "d KEY_FILE = None"
    and "enc ic \<lparr>if_agent_id = aid, if_server_pins = map (hex_encode C) pins, if_enrolled_at_ns = now\<rparr> \<noteq> None"
  shows "case w2 of
      WriteOk \<Rightarrow> load_identity C ic d' = Inr (Some \<lparr>en_agent_id = aid, signing_key = sk, server_pins = pins\<rparr>)
    | OpenFailed \<Rightarrow> load_identity C ic d' = Inl Unreadable
    | WroteOnly b \<Rightarrow> length b \<noteq> 32 \<longrightarrow> load_identity C ic d' = Inl BadSeed"
proof -
  let ?f = "\<lparr>if_agent_id = aid, if_server_pins = map (hex_encode C) pins, if_enrolled_at_ns = now\<rparr>"
  obtain json where j: "enc ic ?f = Some json" using assms(7) by auto
  have dj: "dec ic json = Some ?f" using codec_okD [OF assms(2) UNIV_I j] .
  have d': "d' = snd (write_private w2 KEY_FILE (seed_of_key C sk) (d(IDENTITY_FILE \<mapsto> json)))"
    using assms(5) j by (simp add: persist_identity_def write_private_def [of WriteOk])
  have ne: "KEY_FILE \<noteq> IDENTITY_FILE" by (simp add: KEY_FILE_def IDENTITY_FILE_def)
  obtain p ps where "pins = p # ps" using assms(4) by (cases pins) auto
  then show ?thesis
    using d' dj ne assms(6) parse_pins_encoded [OF assms(1,3), of 0] crypto_okD(6,7) [OF assms(1)]
    by (cases w2) (simp_all add: load_identity_def write_private_def)
qed

definition demo_identity :: identity_file where
  "demo_identity = \<lparr>if_agent_id = ''a'', if_server_pins = map (hex_encode toy_crypto) [replicate 32 9], if_enrolled_at_ns = 4\<rparr>"

theorem identity_roundtrip_witness:
  "load_identity toy_crypto (table_codec [demo_identity])
      (snd (persist_identity toy_crypto (table_codec [demo_identity]) WriteOk WriteOk 4 ''a'' 5 [replicate 32 9] Map.empty))
    = Inr (Some \<lparr>en_agent_id = ''a'', signing_key = 5, server_pins = [replicate 32 9]\<rparr>)"
proof -
  obtain r d' where p: "persist_identity toy_crypto (table_codec [demo_identity]) WriteOk WriteOk 4 ''a'' 5 [replicate 32 9] Map.empty = (r, d')"
    by fastforce
  have "enc (table_codec [demo_identity])
      \<lparr>if_agent_id = ''a'', if_server_pins = map (hex_encode toy_crypto) [replicate 32 9], if_enrolled_at_ns = 4\<rparr> \<noteq> None"
    by (simp only: demo_identity_def [symmetric]) (simp add: table_codec_def)
  from identity_roundtrip [OF toy_crypto_ok table_codec_ok _ _ p _ this] show ?thesis
    using p by (simp add: PIN_LEN_def)
qed

text \<open>An enrollment blob built from a token and a pin parses back to them, whatever surrounds it; and
  whatever line is accepted yields a 32-byte pin and a non-empty token.\<close>

theorem enroll_blob_roundtrip:
  assumes "crypto_ok C" and "length pin = PIN_LEN" and "token \<noteq> []" and "utf8_valid (str_bytes token)"
    and "b64_encode C (str_bytes token @ pin) \<noteq> []"
  shows "parse_enroll_blob C (''AEGIS-ENROLL '' @ b64_encode C (str_bytes token @ pin)) = Inr (token, pin)
    \<and> (\<forall>line t p. parse_enroll_blob C line = Inr (t, p) \<longrightarrow> length p = PIN_LEN \<and> t \<noteq> [])"
proof -
  let ?b = "b64_encode C (str_bytes token @ pin)"
  have plain: "plain_text ?b" using assms(1) by (rule crypto_okD)
  have "str_trim (''AEGIS-ENROLL '' @ ?b) = ''AEGIS-ENROLL '' @ ?b"
    using plain assms(5) by (intro str_trim_id) (auto simp: plain_text_def char_is_whitespace_def)
  moreover have "str_trim (CHR '' '' # ?b) = ?b"
  proof -
    have a: "is_ascii (CHR '' '' # ?b)" using plain by (simp add: plain_text_def)
    have "\<not> char_is_whitespace [hd ?b]" using plain assms(5) by (simp add: plain_text_def)
    then have "trim_start_chars char_is_whitespace (CHR '' '' # ?b) = ?b"
      using plain assms(5) unfolding trim_start_chars_def str_chars_ascii [OF a]
      by (cases ?b) (simp_all add: char_is_whitespace_def [of "'' ''"] dropWhile_eq_self_iff)
    then show ?thesis using plain assms(5)
      by (simp add: str_trim_def trim_ascii_id plain_text_def)
  qed
  ultimately have "parse_enroll_blob C (''AEGIS-ENROLL '' @ ?b) = Inr (token, pin)"
    using assms(2-4) crypto_okD(8) [OF assms(1)]
    by (simp add: parse_enroll_blob_def Let_def from_utf8_def)
  then show ?thesis using parse_enroll_blob_sound by blast
qed

theorem enroll_blob_roundtrip_witness:
  "parse_enroll_blob toy_crypto (''AEGIS-ENROLL '' @ b64_encode toy_crypto (str_bytes ''tok'' @ replicate 32 7))
     = Inr (''tok'', replicate 32 7)"
proof -
  have "utf8_valid (str_bytes ''tok'')" by (simp add: str_bytes_def in_range_def)
  from enroll_blob_roundtrip [OF toy_crypto_ok _ _ this, of "replicate 32 7"] show ?thesis
    by (simp add: PIN_LEN_def toy_crypto_def str_bytes_def)
qed

end
