(* ===== verification/Store.thy ===== *)
theory Store
  imports Event Redb Text Auth
begin

text \<open>
  The embedded datastore of the server (\<^verbatim>\<open>crates/aegis-server/src/store.rs\<close>): seven redb tables,
  append-only logs under time-ordered composite keys, latest-per-subject cells, and the atomic
  burn-and-enroll transaction.

  Parameters: the tables (\<open>T\<close>, one set of operations at keys and values of bytes, laws in
  \<open>ordered_table\<close>), the postcard encodings of the rows (\<open>P\<close>), the JSON encoding of a payload
  (\<open>pj\<close>), the outcomes of one transaction (\<open>io\<close>), the \<^verbatim>\<open>uuid\<close> crate's text form, and the drawn
  UUIDs and clock readings. The database mutex makes every operation one atomic step.
\<close>

section \<open>Rows and tables\<close>

record event_row =
  er_id :: bytes
  er_ts_ns :: u64
  er_agent_id :: string
  er_source :: string
  er_kind :: string
  er_payload_json :: bytes

record detection_row =
  dr_agent_id :: string
  dr_subject :: string
  dr_verdict :: string
  dr_confidence :: f64
  dr_model :: string
  dr_reasons :: "string list"
  dr_ts_ns :: u64

record score_row =
  sr_agent_id :: string
  sr_subject :: string
  sr_model :: string
  sr_score :: f64
  sr_ts_ns :: u64

record alert_row =
  ar_id :: string
  ar_agent_id :: string
  ar_severity :: string
  ar_title :: string
  ar_detail :: string
  ar_subject :: "string option"
  ar_ts_ns :: u64
  ar_acknowledged :: bool

record agent_row =
  ag_agent_id :: string
  ag_hostname :: string
  ag_os :: string
  ag_pubkey :: bytes
  ag_enrolled_at_ns :: u64
  ag_last_seen_ns :: u64

record token_row =
  tk_created_at_ns :: u64
  tk_label :: string
  tk_used :: bool

datatype enroll_reject = UnknownToken | TokenUsed | TokenExpired

record postcard =
  pc_event :: "event_row codec"
  pc_index :: "bytes list codec"
  pc_detection :: "detection_row codec"
  pc_score :: "score_row codec"
  pc_alert :: "alert_row codec"
  pc_agent :: "agent_row codec"
  pc_token :: "token_row codec"

record 't store =
  t_events :: 't
  t_index :: 't
  t_detections :: 't
  t_scores :: 't
  t_alerts :: 't
  t_agents :: 't
  t_tokens :: 't

datatype store_error = DbFailed | EncodeFailed | DecodeFailed

definition AGENT_EVENT_INDEX_LIMIT :: nat where "AGENT_EVENT_INDEX_LIMIT = 10000"

definition RETENTION_NS :: u64 where "RETENTION_NS = 30 * 24 * 60 * 60 * 1000000000"

section \<open>Keys\<close>

definition composite_key :: "u64 \<Rightarrow> uuid \<Rightarrow> bytes" where
  "composite_key ts i = be_bytes 8 (unat ts) @ uuid_bytes i"

definition subject_key :: "string \<Rightarrow> string \<Rightarrow> string" where
  "subject_key aid subject = aid @ '':'' @ subject"

section \<open>Opening\<close>

text \<open>The seven tables found in (or created into) the file.\<close>

definition store_open :: "bytes redb_io \<Rightarrow> 't store \<Rightarrow> store_error + 't store" where
  "store_open io found =
     (if begin_ok io \<and> open_ok io \<and> commit_ok io then Inr found else Inl DbFailed)"

section \<open>Reads and writes of one cell\<close>

text \<open>\<^verbatim>\<open>table.get\<close> followed by \<^verbatim>\<open>from_bytes\<close>, as every reader does it.\<close>

definition read_cell ::
  "('t, bytes, bytes) table_ops \<Rightarrow> 'r codec \<Rightarrow> bytes redb_io \<Rightarrow> bytes \<Rightarrow> 't \<Rightarrow> store_error + 'r option" where
  "read_cell T c io k t =
     (if \<not> op_ok io k then Inl DbFailed
      else case tget T t k of
             None \<Rightarrow> Inr None
           | Some v \<Rightarrow> (case dec c v of None \<Rightarrow> Inl DecodeFailed | Some r \<Rightarrow> Inr (Some r)))"

text \<open>Encode, open a write transaction, insert, commit: the shape of the single-table writers.\<close>

definition write_cell ::
  "('t, bytes, bytes) table_ops \<Rightarrow> 'r codec \<Rightarrow> bytes redb_io \<Rightarrow> bytes \<Rightarrow> 'r \<Rightarrow> 't \<Rightarrow> store_error + 't" where
  "write_cell T c io k r t =
     (case enc c r of
        None \<Rightarrow> Inl EncodeFailed
      | Some b \<Rightarrow>
          if begin_ok io \<and> open_ok io \<and> op_ok io k \<and> commit_ok io then Inr (tinsert T k b t)
          else Inl DbFailed)"

fun decode_rows :: "'r codec \<Rightarrow> bytes redb_io \<Rightarrow> (bytes \<times> bytes) list \<Rightarrow> store_error + (bytes \<times> 'r) list" where
  "decode_rows c io [] = Inr []"
| "decode_rows c io ((k, v) # rows) =
     (if \<not> op_ok io k then Inl DbFailed
      else case dec c v of
             None \<Rightarrow> Inl DecodeFailed
           | Some r \<Rightarrow> (case decode_rows c io rows of Inl e \<Rightarrow> Inl e | Inr rs \<Rightarrow> Inr ((k, r) # rs)))"

text \<open>A read transaction over the whole of one table.\<close>

definition read_all ::
  "('t, bytes, bytes) table_ops \<Rightarrow> 'r codec \<Rightarrow> bytes redb_io \<Rightarrow> 't \<Rightarrow> store_error + (bytes \<times> 'r) list" where
  "read_all T c io t =
     (if begin_ok io \<and> open_ok io then decode_rows c io (trows T t) else Inl DbFailed)"

section \<open>Write path\<close>

definition event_row_of :: "bytes \<Rightarrow> event \<Rightarrow> event_row" where
  "event_row_of json ev =
     \<lparr>er_id = uuid_bytes (ev_id ev), er_ts_ns = ts_ns ev, er_agent_id = agent_id ev,
      er_source = source ev, er_kind = kind ev, er_payload_json = json\<rparr>"

definition push_index_key :: "bytes \<Rightarrow> bytes list \<Rightarrow> bytes list" where
  "push_index_key key keys =
     (let keys' = keys @ [key] in drop (length keys' - AGENT_EVENT_INDEX_LIMIT) keys')"

definition write_event ::
  "('t, bytes, bytes) table_ops \<Rightarrow> postcard \<Rightarrow> event_payload codec \<Rightarrow> bytes redb_io \<Rightarrow> event \<Rightarrow> 't store
   \<Rightarrow> (store_error + unit) \<times> 't store" where
  "write_event T P pj io ev st =
     (case enc pj (payload ev) of
        None \<Rightarrow> (Inl EncodeFailed, st)
      | Some json \<Rightarrow>
     (case enc (pc_event P) (event_row_of json ev) of
        None \<Rightarrow> (Inl EncodeFailed, st)
      | Some b \<Rightarrow>
          let key = composite_key (ts_ns ev) (ev_id ev); ik = str_bytes (agent_id ev)
          in if \<not> (begin_ok io \<and> open_ok io \<and> op_ok io key) then (Inl DbFailed, st)
             else let events' = tinsert T key b (t_events st)
                  in case read_cell T (pc_index P) io ik (t_index st) of
                       Inl e \<Rightarrow> (Inl e, st)
                     | Inr old \<Rightarrow>
                         let keys = push_index_key key (case old of None \<Rightarrow> [] | Some ks \<Rightarrow> ks)
                         in case enc (pc_index P) keys of
                              None \<Rightarrow> (Inl EncodeFailed, st)
                            | Some ib \<Rightarrow>
                                if \<not> commit_ok io then (Inl DbFailed, st)
                                else (Inr (), st\<lparr>t_events := events', t_index := tinsert T ik ib (t_index st)\<rparr>)))"

definition upsert_detection ::
  "('t, bytes, bytes) table_ops \<Rightarrow> postcard \<Rightarrow> bytes redb_io \<Rightarrow> detection_row \<Rightarrow> 't store
   \<Rightarrow> (store_error + unit) \<times> 't store" where
  "upsert_detection T P io row st =
     (case write_cell T (pc_detection P) io (str_bytes (subject_key (dr_agent_id row) (dr_subject row))) row
             (t_detections st) of
        Inl e \<Rightarrow> (Inl e, st)
      | Inr t \<Rightarrow> (Inr (), st\<lparr>t_detections := t\<rparr>))"

definition upsert_score ::
  "('t, bytes, bytes) table_ops \<Rightarrow> postcard \<Rightarrow> bytes redb_io \<Rightarrow> score_row \<Rightarrow> 't store
   \<Rightarrow> (store_error + unit) \<times> 't store" where
  "upsert_score T P io row st =
     (case write_cell T (pc_score P) io (str_bytes (subject_key (sr_agent_id row) (sr_subject row))) row
             (t_scores st) of
        Inl e \<Rightarrow> (Inl e, st)
      | Inr t \<Rightarrow> (Inr (), st\<lparr>t_scores := t\<rparr>))"

definition alert_key :: "(string \<Rightarrow> uuid option) \<Rightarrow> uuid \<Rightarrow> alert_row \<Rightarrow> bytes" where
  "alert_key parse_uuid fresh row =
     composite_key (ar_ts_ns row) (case parse_uuid (ar_id row) of Some u \<Rightarrow> u | None \<Rightarrow> fresh)"

definition append_alert ::
  "('t, bytes, bytes) table_ops \<Rightarrow> postcard \<Rightarrow> (string \<Rightarrow> uuid option) \<Rightarrow> uuid \<Rightarrow> bytes redb_io
   \<Rightarrow> alert_row \<Rightarrow> 't store \<Rightarrow> (store_error + unit) \<times> 't store" where
  "append_alert T P parse_uuid fresh io row st =
     (case write_cell T (pc_alert P) io (alert_key parse_uuid fresh row) row (t_alerts st) of
        Inl e \<Rightarrow> (Inl e, st)
      | Inr t \<Rightarrow> (Inr (), st\<lparr>t_alerts := t\<rparr>))"

definition touch_agent ::
  "('t, bytes, bytes) table_ops \<Rightarrow> postcard \<Rightarrow> bytes redb_io \<Rightarrow> string \<Rightarrow> u64 \<Rightarrow> 't store
   \<Rightarrow> (store_error + unit) \<times> 't store" where
  "touch_agent T P io aid ts st =
     (if \<not> (begin_ok io \<and> open_ok io) then (Inl DbFailed, st)
      else case read_cell T (pc_agent P) io (str_bytes aid) (t_agents st) of
             Inl e \<Rightarrow> (Inl e, st)
           | Inr None \<Rightarrow> if commit_ok io then (Inr (), st) else (Inl DbFailed, st)
           | Inr (Some row) \<Rightarrow>
               (case write_cell T (pc_agent P) io (str_bytes aid) (row\<lparr>ag_last_seen_ns := ts\<rparr>) (t_agents st) of
                  Inl e \<Rightarrow> (Inl e, st)
                | Inr t \<Rightarrow> (Inr (), st\<lparr>t_agents := t\<rparr>)))"

section \<open>Tokens and enrollment\<close>

definition insert_token ::
  "('t, bytes, bytes) table_ops \<Rightarrow> postcard \<Rightarrow> bytes redb_io \<Rightarrow> string \<Rightarrow> token_row \<Rightarrow> 't store
   \<Rightarrow> (store_error + unit) \<times> 't store" where
  "insert_token T P io token row st =
     (case write_cell T (pc_token P) io (str_bytes token) row (t_tokens st) of
        Inl e \<Rightarrow> (Inl e, st)
      | Inr t \<Rightarrow> (Inr (), st\<lparr>t_tokens := t\<rparr>))"

definition store_list_tokens ::
  "('t, bytes, bytes) table_ops \<Rightarrow> postcard \<Rightarrow> bytes redb_io \<Rightarrow> 't store
   \<Rightarrow> store_error + (string \<times> token_row) list" where
  "store_list_tokens T P io st =
     map_sum id (map (\<lambda>(k, r). (bytes_str k, r))) (read_all T (pc_token P) io (t_tokens st))"

definition revoke_token_if_unused ::
  "('t, bytes, bytes) table_ops \<Rightarrow> postcard \<Rightarrow> bytes redb_io \<Rightarrow> string \<Rightarrow> 't store
   \<Rightarrow> (store_error + bool) \<times> 't store" where
  "revoke_token_if_unused T P io token st =
     (if \<not> (begin_ok io \<and> open_ok io) then (Inl DbFailed, st)
      else case read_cell T (pc_token P) io (str_bytes token) (t_tokens st) of
             Inl e \<Rightarrow> (Inl e, st)
           | Inr existing \<Rightarrow>
               let removed = (case existing of Some row \<Rightarrow> \<not> tk_used row | None \<Rightarrow> False);
                   t = (if removed then tremove T (str_bytes token) (t_tokens st) else t_tokens st)
               in if \<not> commit_ok io then (Inl DbFailed, st)
                  else (Inr removed, st\<lparr>t_tokens := t\<rparr>))"

text \<open>\<open>new_id\<close> is the text of the drawn UUID.\<close>

definition enroll_txn ::
  "('t, bytes, bytes) table_ops \<Rightarrow> postcard \<Rightarrow> bytes redb_io \<Rightarrow> string \<Rightarrow> string \<Rightarrow> u64 \<Rightarrow> u64 \<Rightarrow> string \<Rightarrow> string
   \<Rightarrow> bytes \<Rightarrow> 't store \<Rightarrow> (store_error + (enroll_reject + string \<times> agent_row)) \<times> 't store" where
  "enroll_txn T P io new_id token now validity_ns host os pubkey st =
     (if \<not> (begin_ok io \<and> open_ok io) then (Inl DbFailed, st)
      else case read_cell T (pc_token P) io (str_bytes token) (t_tokens st) of
             Inl e \<Rightarrow> (Inl e, st)
           | Inr None \<Rightarrow> (Inr (Inl UnknownToken), st)
           | Inr (Some row) \<Rightarrow>
               if tk_used row then (Inr (Inl TokenUsed), st)
               else if validity_ns < saturating_sub now (tk_created_at_ns row) then (Inr (Inl TokenExpired), st)
               else (case enc (pc_token P) (row\<lparr>tk_used := True\<rparr>) of
                       None \<Rightarrow> (Inl EncodeFailed, st)
                     | Some tb \<Rightarrow>
                         let tokens' = tinsert T (str_bytes token) tb (t_tokens st);
                             agent = \<lparr>ag_agent_id = new_id, ag_hostname = host, ag_os = os, ag_pubkey = pubkey,
                                      ag_enrolled_at_ns = now, ag_last_seen_ns = now\<rparr>
                         in case enc (pc_agent P) agent of
                              None \<Rightarrow> (Inl EncodeFailed, st)
                            | Some ab \<Rightarrow>
                                if \<not> (op_ok io (str_bytes new_id) \<and> commit_ok io) then (Inl DbFailed, st)
                                else (Inr (Inr (new_id, agent)),
                                      st\<lparr>t_tokens := tokens',
                                         t_agents := tinsert T (str_bytes new_id) ab (t_agents st)\<rparr>)))"

section \<open>Read path\<close>

definition store_agents ::
  "('t, bytes, bytes) table_ops \<Rightarrow> postcard \<Rightarrow> bytes redb_io \<Rightarrow> 't store \<Rightarrow> store_error + agent_row list" where
  "store_agents T P io st = map_sum id (map snd) (read_all T (pc_agent P) io (t_agents st))"

definition store_agent ::
  "('t, bytes, bytes) table_ops \<Rightarrow> postcard \<Rightarrow> bytes redb_io \<Rightarrow> string \<Rightarrow> 't store
   \<Rightarrow> store_error + agent_row option" where
  "store_agent T P io aid st =
     (if begin_ok io \<and> open_ok io then read_cell T (pc_agent P) io (str_bytes aid) (t_agents st)
      else Inl DbFailed)"

text \<open>\<^verbatim>\<open>range(..).rev().take(limit)\<close>\<close>

definition alerts_recent ::
  "('t, bytes, bytes) table_ops \<Rightarrow> postcard \<Rightarrow> bytes redb_io \<Rightarrow> nat \<Rightarrow> 't store \<Rightarrow> store_error + alert_row list" where
  "alerts_recent T P io limit st =
     (if begin_ok io \<and> open_ok io
      then map_sum id (map snd) (decode_rows (pc_alert P) io (take limit (rev (trows T (t_alerts st)))))
      else Inl DbFailed)"

definition store_score ::
  "('t, bytes, bytes) table_ops \<Rightarrow> postcard \<Rightarrow> bytes redb_io \<Rightarrow> string \<Rightarrow> string \<Rightarrow> 't store
   \<Rightarrow> store_error + score_row option" where
  "store_score T P io aid subject st =
     (if begin_ok io \<and> open_ok io
      then read_cell T (pc_score P) io (str_bytes (subject_key aid subject)) (t_scores st) else Inl DbFailed)"

definition store_detection ::
  "('t, bytes, bytes) table_ops \<Rightarrow> postcard \<Rightarrow> bytes redb_io \<Rightarrow> string \<Rightarrow> string \<Rightarrow> 't store
   \<Rightarrow> store_error + detection_row option" where
  "store_detection T P io aid subject st =
     (if begin_ok io \<and> open_ok io
      then read_cell T (pc_detection P) io (str_bytes (subject_key aid subject)) (t_detections st) else Inl DbFailed)"

fun lookup_events ::
  "('t, bytes, bytes) table_ops \<Rightarrow> event_row codec \<Rightarrow> bytes redb_io \<Rightarrow> 't \<Rightarrow> bytes list
   \<Rightarrow> store_error + event_row list" where
  "lookup_events T c io t [] = Inr []"
| "lookup_events T c io t (k # ks) =
     (case read_cell T c io k t of
        Inl e \<Rightarrow> Inl e
      | Inr found \<Rightarrow>
          (case lookup_events T c io t ks of
             Inl e \<Rightarrow> Inl e
           | Inr rs \<Rightarrow> Inr (case found of None \<Rightarrow> rs | Some r \<Rightarrow> r # rs)))"

definition usize_max :: nat where "usize_max = 2 ^ 64 - 1"

definition events_for_agent ::
  "('t, bytes, bytes) table_ops \<Rightarrow> postcard \<Rightarrow> bytes redb_io \<Rightarrow> string \<Rightarrow> nat \<Rightarrow> nat \<Rightarrow> 't store
   \<Rightarrow> store_error + event_row list" where
  "events_for_agent T P io aid page page_size st =
     (if \<not> (begin_ok io \<and> open_ok io) then Inl DbFailed
      else case read_cell T (pc_index P) io (str_bytes aid) (t_index st) of
             Inl e \<Rightarrow> Inl e
           | Inr None \<Rightarrow> Inr []
           | Inr (Some keys) \<Rightarrow>
               let total = length keys; skip = min (page * page_size) usize_max
               in if total \<le> skip then Inr []
                  else let stop = total - skip; start = stop - page_size
                       in lookup_events T (pc_event P) io (t_events st) (rev (take (stop - start) (drop start keys))))"

definition store_scores ::
  "('t, bytes, bytes) table_ops \<Rightarrow> postcard \<Rightarrow> bytes redb_io \<Rightarrow> 't store \<Rightarrow> store_error + score_row list" where
  "store_scores T P io st = map_sum id (map snd) (read_all T (pc_score P) io (t_scores st))"

definition scores_for_agent ::
  "('t, bytes, bytes) table_ops \<Rightarrow> postcard \<Rightarrow> bytes redb_io \<Rightarrow> string \<Rightarrow> 't store
   \<Rightarrow> store_error + score_row list" where
  "scores_for_agent T P io aid st = map_sum id (filter (\<lambda>r. sr_agent_id r = aid)) (store_scores T P io st)"

definition store_detections ::
  "('t, bytes, bytes) table_ops \<Rightarrow> postcard \<Rightarrow> bytes redb_io \<Rightarrow> 't store \<Rightarrow> store_error + detection_row list" where
  "store_detections T P io st = map_sum id (map snd) (read_all T (pc_detection P) io (t_detections st))"

definition detections_for_agent ::
  "('t, bytes, bytes) table_ops \<Rightarrow> postcard \<Rightarrow> bytes redb_io \<Rightarrow> string \<Rightarrow> 't store
   \<Rightarrow> store_error + detection_row list" where
  "detections_for_agent T P io aid st =
     map_sum id (filter (\<lambda>r. dr_agent_id r = aid)) (store_detections T P io st)"

text \<open>The scan stops at the first alert with the id.\<close>

fun find_alert ::
  "alert_row codec \<Rightarrow> bytes redb_io \<Rightarrow> string \<Rightarrow> (bytes \<times> bytes) list \<Rightarrow> store_error + alert_row option" where
  "find_alert c io i [] = Inr None"
| "find_alert c io i ((k, v) # rows) =
     (if \<not> op_ok io k then Inl DbFailed
      else case dec c v of
             None \<Rightarrow> Inl DecodeFailed
           | Some r \<Rightarrow> if ar_id r = i then Inr (Some r) else find_alert c io i rows)"

definition acknowledge_alert ::
  "('t, bytes, bytes) table_ops \<Rightarrow> postcard \<Rightarrow> (string \<Rightarrow> uuid option) \<Rightarrow> uuid \<Rightarrow> bytes redb_io \<Rightarrow> string \<Rightarrow> 't store
   \<Rightarrow> (store_error + bool) \<times> 't store" where
  "acknowledge_alert T P parse_uuid fresh io i st =
     (if \<not> (begin_ok io \<and> open_ok io) then (Inl DbFailed, st)
      else case find_alert (pc_alert P) io i (trows T (t_alerts st)) of
             Inl e \<Rightarrow> (Inl e, st)
           | Inr None \<Rightarrow> if commit_ok io then (Inr False, st) else (Inl DbFailed, st)
           | Inr (Some row) \<Rightarrow>
               (case write_cell T (pc_alert P) io (alert_key parse_uuid fresh row)
                       (row\<lparr>ar_acknowledged := True\<rparr>) (t_alerts st) of
                  Inl e \<Rightarrow> (Inl e, st)
                | Inr t \<Rightarrow> (Inr True, st\<lparr>t_alerts := t\<rparr>)))"

section \<open>Retention\<close>

definition cutoff_key :: "u64 \<Rightarrow> bytes" where
  "cutoff_key cutoff_ts = be_bytes 8 (unat cutoff_ts) @ replicate 16 0"

text \<open>\<^verbatim>\<open>retain_in(..cutoff, |_, _| false)\<close>\<close>

definition drop_below :: "('t, bytes, bytes) table_ops \<Rightarrow> bytes \<Rightarrow> 't \<Rightarrow> 't" where
  "drop_below T cutoff t = fold (tremove T) (filter (\<lambda>k. k < cutoff) (map fst (trows T t))) t"

fun prune_rewrites ::
  "bytes list codec \<Rightarrow> bytes redb_io \<Rightarrow> u64 \<Rightarrow> (bytes \<times> bytes) list \<Rightarrow> store_error + (bytes \<times> bytes list) list" where
  "prune_rewrites c io cutoff_ts [] = Inr []"
| "prune_rewrites c io cutoff_ts ((k, v) # rows) =
     (if \<not> op_ok io k then Inl DbFailed
      else case dec c v of
             None \<Rightarrow> Inl DecodeFailed
           | Some keys \<Rightarrow>
               let kept = filter (\<lambda>key. unat cutoff_ts \<le> be_nat (take 8 key)) keys
               in case prune_rewrites c io cutoff_ts rows of
                    Inl e \<Rightarrow> Inl e
                  | Inr rw \<Rightarrow> Inr (if length kept \<noteq> length keys then (k, kept) # rw else rw))"

fun apply_rewrites ::
  "('t, bytes, bytes) table_ops \<Rightarrow> bytes list codec \<Rightarrow> bytes redb_io \<Rightarrow> (bytes \<times> bytes list) list \<Rightarrow> 't
   \<Rightarrow> store_error + 't" where
  "apply_rewrites T c io [] t = Inr t"
| "apply_rewrites T c io ((k, kept) # rw) t =
     (if kept = [] then
        (if op_ok io k then apply_rewrites T c io rw (tremove T k t) else Inl DbFailed)
      else case enc c kept of
             None \<Rightarrow> Inl EncodeFailed
           | Some b \<Rightarrow> if op_ok io k then apply_rewrites T c io rw (tinsert T k b t) else Inl DbFailed)"

definition prune ::
  "('t, bytes, bytes) table_ops \<Rightarrow> postcard \<Rightarrow> bytes redb_io \<Rightarrow> u64 \<Rightarrow> 't store \<Rightarrow> (store_error + unit) \<times> 't store" where
  "prune T P io cutoff_ts st =
     (if \<not> (begin_ok io \<and> open_ok io) then (Inl DbFailed, st)
      else case prune_rewrites (pc_index P) io cutoff_ts (trows T (t_index st)) of
             Inl e \<Rightarrow> (Inl e, st)
           | Inr rw \<Rightarrow>
               (case apply_rewrites T (pc_index P) io rw (t_index st) of
                  Inl e \<Rightarrow> (Inl e, st)
                | Inr idx \<Rightarrow>
                    if \<not> commit_ok io then (Inl DbFailed, st)
                    else (Inr (), st\<lparr>t_events := drop_below T (cutoff_key cutoff_ts) (t_events st),
                                     t_alerts := drop_below T (cutoff_key cutoff_ts) (t_alerts st),
                                     t_index := idx\<rparr>)))"

text \<open>\<open>reclaimed\<close> is the result of redb's own \<^verbatim>\<open>compact\<close>.\<close>

definition store_compact ::
  "('t, bytes, bytes) table_ops \<Rightarrow> postcard \<Rightarrow> bytes redb_io \<Rightarrow> bool option \<Rightarrow> u64 \<Rightarrow> u64 \<Rightarrow> 't store
   \<Rightarrow> (store_error + bool) \<times> 't store" where
  "store_compact T P io reclaimed now retention_ns st =
     (case (case checked_sub now retention_ns of
              None \<Rightarrow> (Inr (), st)
            | Some cutoff_ts \<Rightarrow> prune T P io cutoff_ts st) of
        (Inl e, st') \<Rightarrow> (Inl e, st')
      | (Inr _, st') \<Rightarrow> (case reclaimed of None \<Rightarrow> (Inl DbFailed, st') | Some r \<Rightarrow> (Inr r, st')))"

section \<open>Rows of derived events\<close>

definition detection_row_of :: "event \<Rightarrow> detection_row option" where
  "detection_row_of ev =
     (case payload ev of
        Detection subject v conf model reasons _ \<Rightarrow>
          Some \<lparr>dr_agent_id = agent_id ev, dr_subject = subject, dr_verdict = verdict_display v,
                dr_confidence = conf, dr_model = model, dr_reasons = reasons, dr_ts_ns = ts_ns ev\<rparr>
      | _ \<Rightarrow> None)"

definition score_row_of :: "event \<Rightarrow> score_row option" where
  "score_row_of ev =
     (case payload ev of
        Score subject model s _ \<Rightarrow>
          Some \<lparr>sr_agent_id = agent_id ev, sr_subject = subject, sr_model = model, sr_score = s,
                sr_ts_ns = ts_ns ev\<rparr>
      | _ \<Rightarrow> None)"

fun severity_lower :: "severity \<Rightarrow> string" where
  "severity_lower Info = ''info''"
| "severity_lower Low = ''low''"
| "severity_lower Medium = ''medium''"
| "severity_lower High = ''high''"
| "severity_lower Critical = ''critical''"

definition alert_row_of :: "string \<Rightarrow> event \<Rightarrow> alert_row option" where
  "alert_row_of new_id ev =
     (case payload ev of
        Alert sev title detail subject \<Rightarrow>
          Some \<lparr>ar_id = new_id, ar_agent_id = agent_id ev, ar_severity = severity_lower sev,
                ar_title = title, ar_detail = detail, ar_subject = subject, ar_ts_ns = ts_ns ev,
                ar_acknowledged = False\<rparr>
      | _ \<Rightarrow> None)"

end
