(* ===== verification/Store_Facts.thy ===== *)
theory Store_Facts
  imports Store
begin

text \<open>
  What the datastore operations do, stated on the abstract tables: a table seen through its
  decoder is a map from keys to rows (\<open>tbl\<close>). The locale \<open>datastore\<close> collects the laws of the two
  third-party interfaces (redb and postcard) and everything the operations guarantee under them.
\<close>

section \<open>Abstract tables\<close>

definition tbl :: "('t, bytes, bytes) table_ops \<Rightarrow> 'r codec \<Rightarrow> 't \<Rightarrow> bytes \<Rightarrow> 'r option" where
  "tbl T c t k = (case tget T t k of None \<Rightarrow> None | Some v \<Rightarrow> dec c v)"

definition postcard_ok :: "postcard \<Rightarrow> bool" where
  "postcard_ok P \<longleftrightarrow> codec_ok (pc_event P) UNIV \<and> codec_ok (pc_index P) UNIV \<and> codec_ok (pc_detection P) UNIV
     \<and> codec_ok (pc_score P) UNIV \<and> codec_ok (pc_alert P) UNIV \<and> codec_ok (pc_agent P) UNIV
     \<and> codec_ok (pc_token P) UNIV"

definition table_postcard ::
  "event_row list \<Rightarrow> bytes list list \<Rightarrow> detection_row list \<Rightarrow> score_row list \<Rightarrow> alert_row list
   \<Rightarrow> agent_row list \<Rightarrow> token_row list \<Rightarrow> postcard" where
  "table_postcard es is ds ss as gs ts =
     \<lparr>pc_event = table_codec es, pc_index = table_codec is, pc_detection = table_codec ds,
      pc_score = table_codec ss, pc_alert = table_codec as, pc_agent = table_codec gs,
      pc_token = table_codec ts\<rparr>"

lemma table_postcard_ok [simp]: "postcard_ok (table_postcard es is ds ss as gs ts)"
  by (simp add: postcard_ok_def table_postcard_def)

text \<open>Every index entry is bounded and points at stored rows.\<close>

definition index_ok :: "('t, bytes, bytes) table_ops \<Rightarrow> postcard \<Rightarrow> 't store \<Rightarrow> bool" where
  "index_ok T P st \<longleftrightarrow>
     (\<forall>a keys. tbl T (pc_index P) (t_index st) a = Some keys \<longrightarrow>
        length keys \<le> AGENT_EVENT_INDEX_LIMIT \<and>
        (\<forall>k \<in> set keys. length k = 24 \<and> tbl T (pc_event P) (t_events st) k \<noteq> None))"

text \<open>Every alert sits under a key that starts with its own time stamp.\<close>

definition alerts_ok :: "('t, bytes, bytes) table_ops \<Rightarrow> postcard \<Rightarrow> 't store \<Rightarrow> bool" where
  "alerts_ok T P st \<longleftrightarrow>
     (\<forall>(k, v) \<in> set (trows T (t_alerts st)).
        \<exists>r. dec (pc_alert P) v = Some r \<and> (\<exists>u. k = composite_key (ar_ts_ns r) u))"

section \<open>Keys\<close>

lemma length_composite_key [simp]: "length (composite_key ts u) = 24"
  by (simp add: composite_key_def)

lemma unat_u64_bound: "unat (x :: u64) < 256 ^ 8"
  using unat_lt_exp [of x] by simp

lemma unat_uuid_bound: "unat (x :: uuid) < 256 ^ 16"
  using unat_lt_exp [of x] by simp

lemma ts_bytes [simp]:
  "be_bytes 8 (unat (a :: u64)) < be_bytes 8 (unat (b :: u64)) \<longleftrightarrow> a < b"
  "be_bytes 8 (unat a) = be_bytes 8 (unat b) \<longleftrightarrow> a = b"
  "be_nat (be_bytes 8 (unat a)) = unat a"
  using be_bytes_less [OF unat_u64_bound unat_u64_bound, of a b]
    be_bytes_inject [OF unat_u64_bound unat_u64_bound, of a b] be_nat_be_bytes [OF unat_u64_bound, of a]
  by (simp_all only: word_less_nat_alt word_unat_eq_iff)

lemma uuid_bytes_less: "uuid_bytes a < uuid_bytes b \<longleftrightarrow> a < b"
  using be_bytes_less [OF unat_uuid_bound unat_uuid_bound, of a b]
  by (simp only: uuid_bytes_def word_less_nat_alt)

lemma composite_key_less:
  "composite_key a u < composite_key b v \<longleftrightarrow> a < b \<or> (a = b \<and> u < v)"
  by (simp add: composite_key_def append_less_same_length uuid_bytes_less)

lemma composite_key_inject: "composite_key a u = composite_key b v \<longleftrightarrow> a = b \<and> u = v"
  by (simp add: composite_key_def)

lemma composite_key_ts [simp]: "be_nat (take 8 (composite_key ts u)) = unat ts"
  by (simp add: composite_key_def)

lemma not_less_zeros: "\<not> us < replicate (length us) (0 :: u8)"
  by (induction us) (auto simp: word_less_nat_alt)

lemma take8_less: 
  assumes "length k = 24"
  shows "k < cutoff_key c \<longleftrightarrow> be_nat (take 8 k) < unat c"
proof -
  have k: "k = take 8 k @ drop 8 k" "length (take 8 k) = length (be_bytes 8 (unat c))" "length (drop 8 k) = 16"
    using assms by simp_all
  have "be_bytes 8 (be_nat (take 8 k)) = take 8 k" if "length (take 8 k) = 8"
  proof -
    have "be_nat (be_bytes 8 (be_nat (take 8 k))) = be_nat (take 8 k)"
      using be_nat_bound [of "take 8 k"] that by (simp add: be_nat_be_bytes del: length_take)
    then show ?thesis
      using be_nat_less that by (metis length_be_bytes linorder_less_linear order_less_irrefl)
  qed
  then have b: "take 8 k = be_bytes 8 (be_nat (take 8 k))" using k(2) by simp
  have lt: "be_nat (take 8 k) < 256 ^ 8" using be_nat_bound [of "take 8 k"] k(2) by simp
  have "k < cutoff_key c \<longleftrightarrow> take 8 k < be_bytes 8 (unat c)"
    unfolding cutoff_key_def
    using append_less_same_length [OF k(2), of "drop 8 k" "replicate 16 0"] not_less_zeros [of "drop 8 k"] k(1,3)
    by simp
  also have "\<dots> \<longleftrightarrow> be_nat (take 8 k) < unat c"
    by (subst b) (simp only: be_bytes_less [OF lt unat_u64_bound])
  finally show ?thesis .
qed

text \<open>A colon-free agent id makes the cell key unambiguous.\<close>

lemma subject_key_inject:
  assumes "CHR '':'' \<notin> set a" and "CHR '':'' \<notin> set b" and "subject_key a s = subject_key b t"
  shows "a = b \<and> s = t"
proof -
  have "takeWhile (\<lambda>c. c \<noteq> CHR '':'') (subject_key a s) = a" if "CHR '':'' \<notin> set a" for a s
    using that by (auto simp: subject_key_def takeWhile_append)
  then have "a = b" using assms by metis
  then show ?thesis using assms(3) by (simp add: subject_key_def)
qed

section \<open>Cells\<close>

locale datastore = ordered_table T for T :: "('t, bytes, bytes) table_ops" +
  fixes P :: postcard
  assumes postcard: "postcard_ok P"
begin

lemma codecs:
  "codec_ok (pc_event P) UNIV" "codec_ok (pc_index P) UNIV" "codec_ok (pc_detection P) UNIV"
  "codec_ok (pc_score P) UNIV" "codec_ok (pc_alert P) UNIV" "codec_ok (pc_agent P) UNIV"
  "codec_ok (pc_token P) UNIV"
  using postcard by (simp_all add: postcard_ok_def)

lemma tbl_insert: "codec_ok c UNIV \<Longrightarrow> enc c r = Some b \<Longrightarrow> tbl T c (tinsert T k b t) = (tbl T c t)(k \<mapsto> r)"
  by (auto simp: tbl_def fun_eq_iff get_insert codec_okD)

lemma tbl_remove: "tbl T c (tremove T k t) = (tbl T c t)(k := None)"
  by (auto simp: tbl_def fun_eq_iff get_remove)

lemma read_cell_Inr:
  "read_cell T c io k t = Inr r \<Longrightarrow> tbl T c t k = r"
  by (auto simp: read_cell_def tbl_def split: if_splits option.splits)

lemma read_cell_None:
  "read_cell T c io k t = Inr None \<Longrightarrow> tget T t k = None"
  by (auto simp: read_cell_def split: if_splits option.splits)

lemma write_cell_Inr:
  assumes "codec_ok c UNIV" and "write_cell T c io k r t = Inr t'"
  shows "tbl T c t' = (tbl T c t)(k \<mapsto> r)"
  using assms by (auto simp: write_cell_def tbl_insert split: if_splits option.splits)

lemma read_cell_good:
  "io_good io \<Longrightarrow> tget T t k = None \<or> tbl T c t k \<noteq> None \<Longrightarrow> read_cell T c io k t = Inr (tbl T c t k)"
  by (auto simp: read_cell_def tbl_def io_goodD split: option.splits)

section \<open>The event log and its index\<close>

lemma write_event_Inr:
  assumes "write_event T P pj io ev st = (Inr (), st')"
  shows "\<exists>json. enc pj (payload ev) = Some json
    \<and> tbl T (pc_event P) (t_events st')
        = (tbl T (pc_event P) (t_events st))(composite_key (ts_ns ev) (ev_id ev) \<mapsto> event_row_of json ev)
    \<and> tbl T (pc_index P) (t_index st')
        = (tbl T (pc_index P) (t_index st))(str_bytes (agent_id ev) \<mapsto>
             push_index_key (composite_key (ts_ns ev) (ev_id ev))
               (case tbl T (pc_index P) (t_index st) (str_bytes (agent_id ev)) of None \<Rightarrow> [] | Some ks \<Rightarrow> ks))
    \<and> t_detections st' = t_detections st \<and> t_scores st' = t_scores st \<and> t_alerts st' = t_alerts st
    \<and> t_agents st' = t_agents st \<and> t_tokens st' = t_tokens st"
  using assms
  by (auto simp: write_event_def Let_def tbl_insert codecs dest: read_cell_Inr
      split: option.splits if_splits sum.splits)

lemma write_event_error: "write_event T P pj io ev st = (Inl e, st') \<Longrightarrow> st' = st"
  by (auto simp: write_event_def Let_def split: option.splits if_splits sum.splits)

lemma push_index_key_props:
  "length (push_index_key key keys) \<le> AGENT_EVENT_INDEX_LIMIT \<or> length keys > AGENT_EVENT_INDEX_LIMIT"
  "set (push_index_key key keys) \<subseteq> insert key (set keys)"
  by (auto simp: push_index_key_def Let_def dest: in_set_dropD)

lemma push_index_key_last:
  "\<exists>ks. push_index_key key keys = ks @ [key] \<and> (\<exists>n. ks = drop n keys)"
  by (auto simp: push_index_key_def Let_def AGENT_EVENT_INDEX_LIMIT_def)

lemma write_event_index_ok:
  assumes "index_ok T P st" and "write_event T P pj io ev st = (r, st')"
  shows "index_ok T P st'"
proof (cases r)
  case (Inl e)
  then show ?thesis using assms write_event_error by metis
next
  case (Inr u)
  let ?key = "composite_key (ts_ns ev) (ev_id ev)"
  let ?old = "case tbl T (pc_index P) (t_index st) (str_bytes (agent_id ev)) of None \<Rightarrow> [] | Some ks \<Rightarrow> ks"
  obtain json where ev: "tbl T (pc_event P) (t_events st')
        = (tbl T (pc_event P) (t_events st))(?key \<mapsto> event_row_of json ev)"
    and ix: "tbl T (pc_index P) (t_index st')
        = (tbl T (pc_index P) (t_index st))(str_bytes (agent_id ev) \<mapsto> push_index_key ?key ?old)"
    using write_event_Inr [of pj io ev st st'] assms(2) Inr by auto
  have old: "length ?old \<le> AGENT_EVENT_INDEX_LIMIT"
    "\<forall>k \<in> set ?old. length k = 24 \<and> tbl T (pc_event P) (t_events st) k \<noteq> None"
    using assms(1) by (cases "tbl T (pc_index P) (t_index st) (str_bytes (agent_id ev))"; auto simp: index_ok_def)+
  show ?thesis unfolding index_ok_def
  proof (intro allI impI)
    fix a keys
    assume k: "tbl T (pc_index P) (t_index st') a = Some keys"
    show "length keys \<le> AGENT_EVENT_INDEX_LIMIT \<and>
        (\<forall>k \<in> set keys. length k = 24 \<and> tbl T (pc_event P) (t_events st') k \<noteq> None)"
    proof (cases "a = str_bytes (agent_id ev)")
      case True
      then have "keys = push_index_key ?key ?old" using k ix by simp
      then show ?thesis using push_index_key_props [of ?key ?old] old ev by fastforce
    next
      case False
      then show ?thesis using k ix ev assms(1) by (auto simp: index_ok_def)
    qed
  qed
qed

lemma lookup_events_good:
  assumes "io_good io" and "\<forall>k \<in> set ks. tbl T c t k \<noteq> None"
  shows "lookup_events T c io t ks = Inr (map (\<lambda>k. the (tbl T c t k)) ks)"
  using assms by (induction ks) (auto simp: read_cell_good)

lemma page_slice:
  assumes "skip < length keys"
  shows "rev (take (length keys - skip - (length keys - skip - n)) (drop (length keys - skip - n) keys))
       = take n (drop skip (rev keys))"
proof -
  have "take n (drop skip (rev keys)) = rev (drop (length keys - skip - n) (take (length keys - skip) keys))"
    using assms by (simp add: drop_rev take_rev)
  then show ?thesis by (simp add: drop_take)
qed

lemma events_for_agent_page:
  assumes "index_ok T P st" and "io_good io" and "tget T (t_index st) (str_bytes a) = None
      \<or> tbl T (pc_index P) (t_index st) (str_bytes a) \<noteq> None"
  shows "events_for_agent T P io a page n st =
     Inr (map (\<lambda>k. the (tbl T (pc_event P) (t_events st) k))
       (take n (drop (page * n)
         (rev (case tbl T (pc_index P) (t_index st) (str_bytes a) of None \<Rightarrow> [] | Some ks \<Rightarrow> ks)))))"
proof (cases "tbl T (pc_index P) (t_index st) (str_bytes a)")
  case None
  then show ?thesis using read_cell_good [OF assms(2,3)] assms(2)
    by (simp add: events_for_agent_def io_goodD)
next
  case (Some keys)
  have len: "length keys \<le> AGENT_EVENT_INDEX_LIMIT"
    and pts: "\<forall>k \<in> set keys. tbl T (pc_event P) (t_events st) k \<noteq> None"
    using assms(1) Some by (auto simp: index_ok_def)
  let ?skip = "min (page * n) usize_max"
  show ?thesis
  proof (cases "length keys \<le> ?skip")
    case True
    then show ?thesis using read_cell_good [OF assms(2,3)] assms(2) Some
      by (simp add: events_for_agent_def io_goodD Let_def)
  next
    case False
    then have skip: "?skip = page * n" "page * n < length keys"
      using len by (auto simp: min_def usize_max_def AGENT_EVENT_INDEX_LIMIT_def split: if_splits)
    have "\<forall>k \<in> set (take n (drop (page * n) (rev keys))). tbl T (pc_event P) (t_events st) k \<noteq> None"
      using pts by (auto dest!: in_set_takeD in_set_dropD)
    note found = lookup_events_good [OF assms(2) this]
    have "events_for_agent T P io a page n st
        = lookup_events T (pc_event P) io (t_events st) (take n (drop (page * n) (rev keys)))"
      unfolding events_for_agent_def Let_def page_slice [OF skip(2), of n, symmetric]
      using read_cell_good [OF assms(2,3)] assms(2) Some skip by (simp add: io_goodD)
    then show ?thesis using found Some by simp
  qed
qed

section \<open>Latest-per-subject cells\<close>

lemma upsert_detection_Inr:
  assumes "upsert_detection T P io row st = (Inr (), st')"
  shows "tbl T (pc_detection P) (t_detections st')
       = (tbl T (pc_detection P) (t_detections st))(str_bytes (subject_key (dr_agent_id row) (dr_subject row)) \<mapsto> row)
     \<and> t_events st' = t_events st \<and> t_index st' = t_index st \<and> t_scores st' = t_scores st \<and> t_alerts st' = t_alerts st \<and> t_agents st' = t_agents st \<and> t_tokens st' = t_tokens st"
  using assms by (auto simp: upsert_detection_def codecs dest: write_cell_Inr [rotated] split: sum.splits)

lemma upsert_score_Inr:
  assumes "upsert_score T P io row st = (Inr (), st')"
  shows "tbl T (pc_score P) (t_scores st')
       = (tbl T (pc_score P) (t_scores st))(str_bytes (subject_key (sr_agent_id row) (sr_subject row)) \<mapsto> row)
     \<and> t_events st' = t_events st \<and> t_index st' = t_index st \<and> t_detections st' = t_detections st \<and> t_alerts st' = t_alerts st \<and> t_agents st' = t_agents st \<and> t_tokens st' = t_tokens st"
  using assms by (auto simp: upsert_score_def codecs dest: write_cell_Inr [rotated] split: sum.splits)

section \<open>Agents, tokens and enrollment\<close>

lemma touch_agent_tbl:
  assumes "touch_agent T P io a ts st = (r, st')"
  shows "(tbl T (pc_agent P) (t_agents st') = tbl T (pc_agent P) (t_agents st) \<or>
     (\<exists>row. tbl T (pc_agent P) (t_agents st) (str_bytes a) = Some row \<and>
        tbl T (pc_agent P) (t_agents st')
          = (tbl T (pc_agent P) (t_agents st))(str_bytes a \<mapsto> row\<lparr>ag_last_seen_ns := ts\<rparr>)))
    \<and> t_events st' = t_events st \<and> t_index st' = t_index st \<and> t_detections st' = t_detections st \<and> t_scores st' = t_scores st \<and> t_alerts st' = t_alerts st \<and> t_tokens st' = t_tokens st"
  using assms
  by (auto simp: touch_agent_def codecs dest!: read_cell_Inr write_cell_Inr [OF codecs(6)]
      split: if_splits sum.splits option.splits)

lemma insert_token_Inr:
  assumes "insert_token T P io token row st = (Inr (), st')"
  shows "tbl T (pc_token P) (t_tokens st') = (tbl T (pc_token P) (t_tokens st))(str_bytes token \<mapsto> row)
     \<and> t_events st' = t_events st \<and> t_index st' = t_index st \<and> t_detections st' = t_detections st \<and> t_scores st' = t_scores st \<and> t_alerts st' = t_alerts st \<and> t_agents st' = t_agents st"
  using assms by (auto simp: insert_token_def codecs dest: write_cell_Inr [rotated] split: sum.splits)

lemma insert_token_error: "insert_token T P io token row st = (Inl e, st') \<Longrightarrow> st' = st"
  by (auto simp: insert_token_def split: sum.splits)

lemma revoke_token_Inr:
  assumes "revoke_token_if_unused T P io token st = (Inr removed, st')"
  shows "removed = (case tbl T (pc_token P) (t_tokens st) (str_bytes token) of Some row \<Rightarrow> \<not> tk_used row | None \<Rightarrow> False)
    \<and> tbl T (pc_token P) (t_tokens st')
       = (if removed then (tbl T (pc_token P) (t_tokens st))(str_bytes token := None)
          else tbl T (pc_token P) (t_tokens st))
    \<and> t_events st' = t_events st \<and> t_index st' = t_index st \<and> t_detections st' = t_detections st \<and> t_scores st' = t_scores st \<and> t_alerts st' = t_alerts st \<and> t_agents st' = t_agents st"
  using assms
  by (auto simp: revoke_token_if_unused_def Let_def tbl_remove dest!: read_cell_Inr
      split: if_splits sum.splits option.splits)

lemma revoke_token_error: "revoke_token_if_unused T P io token st = (Inl e, st') \<Longrightarrow> st' = st"
  by (auto simp: revoke_token_if_unused_def Let_def split: if_splits sum.splits)

lemma enroll_txn_accept:
  assumes "enroll_txn T P io new_id token now validity host os pk st = (Inr (Inr (a, row)), st')"
  shows "\<exists>tk. tbl T (pc_token P) (t_tokens st) (str_bytes token) = Some tk \<and> \<not> tk_used tk
    \<and> unat now - unat (tk_created_at_ns tk) \<le> unat validity
    \<and> a = new_id \<and> row = \<lparr>ag_agent_id = new_id, ag_hostname = host, ag_os = os, ag_pubkey = pk,
                          ag_enrolled_at_ns = now, ag_last_seen_ns = now\<rparr>
    \<and> tbl T (pc_token P) (t_tokens st')
        = (tbl T (pc_token P) (t_tokens st))(str_bytes token \<mapsto> tk\<lparr>tk_used := True\<rparr>)
    \<and> tbl T (pc_agent P) (t_agents st') = (tbl T (pc_agent P) (t_agents st))(str_bytes new_id \<mapsto> row)
    \<and> t_events st' = t_events st \<and> t_index st' = t_index st \<and> t_detections st' = t_detections st \<and> t_scores st' = t_scores st \<and> t_alerts st' = t_alerts st"
  using assms
  by (auto simp: enroll_txn_def Let_def tbl_insert codecs not_less word_le_nat_alt unat_saturating_sub
      dest!: read_cell_Inr split: if_splits sum.splits option.splits)

lemma enroll_txn_other:
  assumes "enroll_txn T P io new_id token now validity host os pk st = (r, st')"
    and "\<forall>p. r \<noteq> Inr (Inr p)"
  shows "st' = st"
  using assms by (auto simp: enroll_txn_def Let_def split: if_splits sum.splits option.splits)

lemma enroll_txn_reject:
  assumes "enroll_txn T P io new_id token now validity host os pk st = (Inr (Inl why), st')"
  shows "case why of
      UnknownToken \<Rightarrow> tbl T (pc_token P) (t_tokens st) (str_bytes token) = None
    | TokenUsed \<Rightarrow> \<exists>tk. tbl T (pc_token P) (t_tokens st) (str_bytes token) = Some tk \<and> tk_used tk
    | TokenExpired \<Rightarrow> \<exists>tk. tbl T (pc_token P) (t_tokens st) (str_bytes token) = Some tk
         \<and> unat validity < unat now - unat (tk_created_at_ns tk)"
  using assms
  by (auto simp: enroll_txn_def Let_def word_less_nat_alt unat_saturating_sub
      dest!: read_cell_Inr split: if_splits sum.splits option.splits)

section \<open>Alerts\<close>

lemma append_alert_Inr:
  assumes "append_alert T P pu fresh io row st = (Inr (), st')"
  shows "\<exists>b. enc (pc_alert P) row = Some b
     \<and> st' = st\<lparr>t_alerts := tinsert T (alert_key pu fresh row) b (t_alerts st)\<rparr>"
  using assms by (auto simp: append_alert_def write_cell_def split: sum.splits option.splits if_splits)

lemma append_alert_ok:
  assumes "alerts_ok T P st" and "append_alert T P pu fresh io row st = (r, st')"
  shows "alerts_ok T P st'"
proof (cases r)
  case (Inl e)
  then have "st' = st" using assms(2) by (auto simp: append_alert_def split: sum.splits)
  then show ?thesis using assms(1) by simp
next
  case (Inr u)
  then obtain b where b: "enc (pc_alert P) row = Some b"
    "st' = st\<lparr>t_alerts := tinsert T (alert_key pu fresh row) b (t_alerts st)\<rparr>"
    using append_alert_Inr assms(2) by (metis old.unit.exhaust)
  have "dec (pc_alert P) b = Some row" using b(1) codecs(5) by (simp add: codec_okD)
  then show ?thesis
    using assms(1) b(2) set_bt_insert_subset [of "alert_key pu fresh row" b "trows T (t_alerts st)"]
    by (fastforce simp: alerts_ok_def rows_insert alert_key_def)
qed

lemma decode_rows_Inr:
  "decode_rows c io rows = Inr rs \<Longrightarrow> map fst rs = map fst rows \<and> map (Some \<circ> snd) rs = map (dec c \<circ> snd) rows"
  by (induction rows arbitrary: rs) (auto split: if_splits option.splits sum.splits)

lemma decode_rows_good:
  "io_good io \<Longrightarrow> \<forall>(k, v) \<in> set rows. dec c v \<noteq> None \<Longrightarrow>
   decode_rows c io rows = Inr (map (\<lambda>(k, v). (k, the (dec c v))) rows)"
  by (induction rows) (auto simp: io_goodD)

lemma alerts_recent_good:
  assumes "alerts_ok T P st" and "io_good io"
  shows "alerts_recent T P io limit st =
    Inr (take limit (rev (map (\<lambda>(k, v). the (dec (pc_alert P) v)) (trows T (t_alerts st)))))"
proof -
  have "\<forall>(k, v) \<in> set (take limit (rev (trows T (t_alerts st)))). dec (pc_alert P) v \<noteq> None"
    using assms(1) by (fastforce simp: alerts_ok_def dest: in_set_takeD)
  from decode_rows_good [OF assms(2) this] show ?thesis
    using assms(2) by (simp add: alerts_recent_def io_goodD take_map rev_map o_def case_prod_unfold)
qed

lemma alerts_time_sorted:
  assumes "alerts_ok T P st"
  shows "sorted (map (\<lambda>(k, v). unat (ar_ts_ns (the (dec (pc_alert P) v)))) (trows T (t_alerts st)))"
proof -
  have rows: "sorted_wrt (<) (map fst (trows T (t_alerts st)))"
    using rows_ok by (simp add: bt_ok_def)
  have "ar_ts_ns (the (dec (pc_alert P) (snd x))) \<le> ar_ts_ns (the (dec (pc_alert P) (snd y)))"
    if xy: "x \<in> set (trows T (t_alerts st))" "y \<in> set (trows T (t_alerts st))" "fst x < fst y" for x y
  proof -
    obtain u v where "fst x = composite_key (ar_ts_ns (the (dec (pc_alert P) (snd x)))) u"
      "fst y = composite_key (ar_ts_ns (the (dec (pc_alert P) (snd y)))) v"
      using assms xy(1,2) by (fastforce simp: alerts_ok_def)
    then show ?thesis using xy(3) by (auto simp: composite_key_less dest: order.strict_implies_order)
  qed
  with rows show ?thesis
    by (simp add: sorted_map sorted_wrt_map case_prod_unfold word_le_nat_alt)
       (rule sorted_wrt_mono_rel, auto)
qed

section \<open>Retention\<close>

lemma drop_below_get: "tget T (drop_below T cutoff t) = (\<lambda>k. if k < cutoff then None else tget T t k)"
proof
  fix k
  have rows: "trows T (drop_below T cutoff t) = filter (\<lambda>p. \<not> fst p < cutoff) (trows T t)"
    unfolding drop_below_def rows_fold_remove by (rule filter_cong) auto
  have "map_of (filter (\<lambda>p. \<not> fst p < cutoff) m) k = (if k < cutoff then None else map_of m k)" for m :: "(bytes \<times> bytes) list"
    by (induction m) auto
  then show "tget T (drop_below T cutoff t) k = (if k < cutoff then None else tget T t k)"
    by (simp add: get_rows rows)
qed

lemma drop_below_tbl: "tbl T c (drop_below T cutoff t) = (\<lambda>k. if k < cutoff then None else tbl T c t k)"
  by (simp add: tbl_def drop_below_get fun_eq_iff)

abbreviation fresh_keys :: "u64 \<Rightarrow> bytes list \<Rightarrow> bytes list" where
  "fresh_keys cutoff_ts keys \<equiv> filter (\<lambda>key. unat cutoff_ts \<le> be_nat (take 8 key)) keys"

lemma prune_rewrites_Inr:
  assumes "prune_rewrites c io cutoff_ts rows = Inr rw" and "distinct (map fst rows)"
  shows "map_of rw k = (case map_of rows k of None \<Rightarrow> None
      | Some v \<Rightarrow> (case dec c v of None \<Rightarrow> None
         | Some keys \<Rightarrow> if length (fresh_keys cutoff_ts keys) \<noteq> length keys then Some (fresh_keys cutoff_ts keys) else None))
    \<and> fst ` set rw \<subseteq> fst ` set rows \<and> distinct (map fst rw)"
  using assms
proof (induction rows arbitrary: rw)
  case (Cons p rows)
  obtain k' v where p: "p = (k', v)" by (cases p)
  obtain keys rw' where d: "dec c v = Some keys" "prune_rewrites c io cutoff_ts rows = Inr rw'"
    "rw = (if length (fresh_keys cutoff_ts keys) \<noteq> length keys then (k', fresh_keys cutoff_ts keys) # rw' else rw')"
    using Cons.prems(1) p by (auto simp: Let_def split: if_splits option.splits sum.splits)
  note ih = Cons.IH [OF d(2)]
  have k': "k' \<notin> fst ` set rows" "distinct (map fst rows)" using Cons.prems(2) p by auto
  then have "map_of rows k' = None" "map_of rw' k' = None"
    using ih by (auto simp: map_of_eq_None_iff)
  then show ?case using ih k' p d by auto
qed simp

lemma apply_rewrites_Inr:
  assumes "codec_ok c UNIV" and "apply_rewrites T c io rw t = Inr t'" and "distinct (map fst rw)"
  shows "tbl T c t' k = (case map_of rw k of None \<Rightarrow> tbl T c t k
      | Some kept \<Rightarrow> if kept = [] then None else Some kept)"
  using assms(2,3)
proof (induction rw arbitrary: t)
  case (Cons p rw)
  obtain k' kept where p: "p = (k', kept)" by (cases p)
  have k': "map_of rw k' = None" using Cons.prems(2) p by (simp add: map_of_eq_None_iff)
  show ?case
  proof (cases "kept = []")
    case True
    then have "apply_rewrites T c io rw (tremove T k' t) = Inr t'"
      using Cons.prems(1) p by (auto split: if_splits)
    from Cons.IH [OF this] show ?thesis using Cons.prems(2) p True k' by (auto simp: tbl_remove split: option.splits)
  next
    case False
    then obtain b where "enc c kept = Some b" "apply_rewrites T c io rw (tinsert T k' b t) = Inr t'"
      using Cons.prems(1) p by (auto split: option.splits if_splits)
    with Cons.IH [OF this(2)] show ?thesis using Cons.prems(2) p False k' tbl_insert [OF assms(1)] by (auto split: option.splits)
  qed
qed simp

lemma prune_Inr:
  assumes "prune T P io cutoff_ts st = (Inr (), st')"
  shows "tbl T (pc_event P) (t_events st')
      = (\<lambda>k. if k < cutoff_key cutoff_ts then None else tbl T (pc_event P) (t_events st) k)"
    and "tbl T (pc_alert P) (t_alerts st')
      = (\<lambda>k. if k < cutoff_key cutoff_ts then None else tbl T (pc_alert P) (t_alerts st) k)"
    and "tbl T (pc_index P) (t_index st')
      = (\<lambda>a. case tbl T (pc_index P) (t_index st) a of None \<Rightarrow> None
          | Some keys \<Rightarrow> if fresh_keys cutoff_ts keys = [] \<and> keys \<noteq> [] then None else Some (fresh_keys cutoff_ts keys))"
    and "t_detections st' = t_detections st \<and> t_scores st' = t_scores st \<and> t_agents st' = t_agents st
       \<and> t_tokens st' = t_tokens st"
proof -
  obtain rw idx where rw: "prune_rewrites (pc_index P) io cutoff_ts (trows T (t_index st)) = Inr rw"
    and idx: "apply_rewrites T (pc_index P) io rw (t_index st) = Inr idx"
    and st': "st' = st\<lparr>t_events := drop_below T (cutoff_key cutoff_ts) (t_events st),
                       t_alerts := drop_below T (cutoff_key cutoff_ts) (t_alerts st), t_index := idx\<rparr>"
    using assms by (auto simp: prune_def split: if_splits sum.splits)
  show "tbl T (pc_event P) (t_events st')
      = (\<lambda>k. if k < cutoff_key cutoff_ts then None else tbl T (pc_event P) (t_events st) k)"
    "tbl T (pc_alert P) (t_alerts st')
      = (\<lambda>k. if k < cutoff_key cutoff_ts then None else tbl T (pc_alert P) (t_alerts st) k)"
    "t_detections st' = t_detections st \<and> t_scores st' = t_scores st \<and> t_agents st' = t_agents st
       \<and> t_tokens st' = t_tokens st"
    using st' by (simp_all add: drop_below_tbl)
  note look = prune_rewrites_Inr [OF rw bt_ok_distinct [OF rows_ok]]
  show "tbl T (pc_index P) (t_index st')
      = (\<lambda>a. case tbl T (pc_index P) (t_index st) a of None \<Rightarrow> None
          | Some keys \<Rightarrow> if fresh_keys cutoff_ts keys = [] \<and> keys \<noteq> [] then None else Some (fresh_keys cutoff_ts keys))"
  proof
    fix a
    have fk: "length (fresh_keys cutoff_ts keys) = length keys \<Longrightarrow> fresh_keys cutoff_ts keys = keys" for keys
      by (metis filter_id_conv length_filter_less less_irrefl)
    show "tbl T (pc_index P) (t_index st') a = (case tbl T (pc_index P) (t_index st) a of None \<Rightarrow> None
          | Some keys \<Rightarrow> if fresh_keys cutoff_ts keys = [] \<and> keys \<noteq> [] then None else Some (fresh_keys cutoff_ts keys))"
    proof (cases "tbl T (pc_index P) (t_index st) a")
      case None
      then have "map_of rw a = None" using look [of a] by (auto simp: tbl_def get_rows split: option.splits)
      then show ?thesis using None apply_rewrites_Inr [OF codecs(2) idx, of a] look [of a] st' by simp
    next
      case (Some keys)
      then obtain v where v: "map_of (trows T (t_index st)) a = Some v" "dec (pc_index P) v = Some keys"
        by (auto simp: tbl_def get_rows split: option.splits)
      have rwa: "map_of rw a = (if length (fresh_keys cutoff_ts keys) \<noteq> length keys
          then Some (fresh_keys cutoff_ts keys) else None)" and dist: "distinct (map fst rw)"
        using look [of a] v by simp_all
      have ap: "tbl T (pc_index P) (t_index st') a = (case map_of rw a of None \<Rightarrow> Some keys
          | Some kept \<Rightarrow> if kept = [] then None else Some kept)"
        using apply_rewrites_Inr [OF codecs(2) idx dist, of a] Some st' by (simp split: option.splits)
      show ?thesis
      proof (cases "length (fresh_keys cutoff_ts keys) = length keys")
        case True
        then show ?thesis using ap rwa Some fk [OF True] by (simp split: if_splits)
      next
        case False
        then have "keys \<noteq> []" by auto
        then show ?thesis using ap rwa Some False by simp
      qed
    qed
  qed
qed

lemma prune_error: "prune T P io cutoff_ts st = (Inl e, st') \<Longrightarrow> st' = st"
  by (auto simp: prune_def split: if_splits sum.splits)

lemma prune_index_ok:
  assumes "index_ok T P st" and "prune T P io cutoff_ts st = (r, st')"
  shows "index_ok T P st'"
proof (cases r)
  case (Inl e)
  then show ?thesis using assms prune_error by metis
next
  case (Inr u)
  then have run: "prune T P io cutoff_ts st = (Inr (), st')" using assms(2) by simp
  show ?thesis unfolding index_ok_def
  proof (intro allI impI)
    fix a keys
    assume k: "tbl T (pc_index P) (t_index st') a = Some keys"
    then obtain old where old: "tbl T (pc_index P) (t_index st) a = Some old" "keys = fresh_keys cutoff_ts old"
      unfolding prune_Inr(3) [OF run] by (auto split: option.splits if_splits)
    then have "length old \<le> AGENT_EVENT_INDEX_LIMIT"
      "\<forall>k \<in> set old. length k = 24 \<and> tbl T (pc_event P) (t_events st) k \<noteq> None"
      using assms(1) by (auto simp: index_ok_def)
    then show "length keys \<le> AGENT_EVENT_INDEX_LIMIT \<and>
        (\<forall>k \<in> set keys. length k = 24 \<and> tbl T (pc_event P) (t_events st') k \<noteq> None)"
      using old(2) order_trans [OF length_filter_le]
      by (auto simp: prune_Inr(1) [OF run] take8_less)
  qed
qed

end

text \<open>The model's operations over red-black trees and listed encodings provide the interface.\<close>

interpretation rbt_store: datastore rbt_table "table_postcard es is ds ss as gs ts" for es "is" ds ss as gs ts
  by (intro datastore.intro datastore_axioms.intro rbt_table_ordered table_postcard_ok)

lemma rbt_datastore: "datastore rbt_table (table_postcard es is ds ss as gs ts)"
  by (rule rbt_store.datastore_axioms)

section \<open>Properties\<close>

text \<open>Composite keys sort by time stamp first and then by id, as byte strings compare, and no two
  events share one unless they share both.\<close>

theorem composite_key_order:
  "(composite_key a u < composite_key b v \<longleftrightarrow> a < b \<or> (a = b \<and> u < v))
   \<and> (composite_key a u = composite_key b v \<longleftrightarrow> a = b \<and> u = v)"
  by (simp add: composite_key_less composite_key_inject)

text \<open>A page of an agent's events is exactly the requested slice of that agent's index, newest first,
  with no hole: pages of one size tile the index, and a page past the end is empty.\<close>

theorem events_for_agent_pages:
  assumes "datastore T P" and "index_ok T P st" and "io_good io"
    and "tget T (t_index st) (str_bytes a) = Some v" and "dec (pc_index P) v = Some keys"
  shows "events_for_agent T P io a page n st
     = Inr (map (\<lambda>k. the (tbl T (pc_event P) (t_events st) k)) (take n (drop (page * n) (rev keys))))"
proof -
  have "tbl T (pc_index P) (t_index st) (str_bytes a) = Some keys" using assms(4,5) by (simp add: tbl_def)
  then show ?thesis using datastore.events_for_agent_page [OF assms(1-3), of a page n] by simp
qed

definition demo_row :: event_row where
  "demo_row = \<lparr>er_id = uuid_bytes 3, er_ts_ns = 7, er_agent_id = ''a'', er_source = ''s'', er_kind = ''heartbeat'',
     er_payload_json = [1]\<rparr>"

abbreviation demo_pc :: postcard where
  "demo_pc \<equiv> table_postcard [demo_row] [[composite_key 7 3]] [] [] [] [] []"

definition demo_indexed :: "(bytes, bytes) rbt store" where
  "demo_indexed =
     \<lparr>t_events = tinsert rbt_table (composite_key 7 3) [0] (tempty rbt_table),
      t_index = tinsert rbt_table (str_bytes ''a'') [0] (tempty rbt_table),
      t_detections = tempty rbt_table, t_scores = tempty rbt_table, t_alerts = tempty rbt_table,
      t_agents = tempty rbt_table, t_tokens = tempty rbt_table\<rparr>"

lemma demo_indexed_cells:
  "tbl rbt_table (pc_index demo_pc) (t_index demo_indexed) = [str_bytes ''a'' \<mapsto> [composite_key 7 3]]"
  "tbl rbt_table (pc_event demo_pc) (t_events demo_indexed) = [composite_key 7 3 \<mapsto> demo_row]"
  by (simp_all add: fun_eq_iff tbl_def demo_indexed_def rbt.get_insert table_postcard_def table_codec_def)
     (simp_all add: rbt_table_def)

lemma demo_index_ok: "index_ok rbt_table demo_pc demo_indexed"
  unfolding index_ok_def demo_indexed_cells by (simp add: AGENT_EVENT_INDEX_LIMIT_def)

theorem events_for_agent_pages_witness:
  "events_for_agent rbt_table demo_pc io_fine ''a'' 0 5 demo_indexed = Inr [demo_row]"
proof -
  have "events_for_agent rbt_table demo_pc io_fine ''a'' 0 5 demo_indexed
      = Inr (map (\<lambda>k. the (tbl rbt_table (pc_event demo_pc) (t_events demo_indexed) k)) (take 5 (drop (0 * 5) (rev [composite_key 7 3]))))"
    by (rule events_for_agent_pages [OF rbt_datastore demo_index_ok, where v = "[0]"])
       (simp_all add: demo_indexed_def rbt.get_insert table_postcard_def table_codec_def)
  then show ?thesis by (simp add: demo_indexed_cells)
qed

text \<open>C40: writing events and the retention sweep keep the index of every agent bounded and free of dangling
  keys, on every outcome of their database calls.\<close>

theorem store_index_invariant:
  assumes "datastore T P" and "index_ok T P st"
  shows "index_ok T P (snd (write_event T P pj io ev st))
    \<and> index_ok T P (snd (store_compact T P io reclaimed now retention st))"
proof -
  have w: "index_ok T P (snd (write_event T P pj io ev st))"
    using datastore.write_event_index_ok [OF assms] by (metis surjective_pairing)
  have p: "index_ok T P (snd (prune T P io c st))" for c
    using datastore.prune_index_ok [OF assms] by (metis surjective_pairing)
  have "snd (store_compact T P io reclaimed now retention st)
      = (case checked_sub now retention of None \<Rightarrow> st | Some c \<Rightarrow> snd (prune T P io c st))"
    by (simp add: store_compact_def split: option.splits prod.splits sum.splits)
  then show ?thesis using w p assms(2) by (auto split: option.splits)
qed

theorem store_index_invariant_witness:
  "index_ok rbt_table demo_pc (snd (write_event rbt_table demo_pc (table_codec [Heartbeat 1]) io_fine
      (event_new 3 7 ''a'' ''s'' (Heartbeat 1)) demo_indexed))"
  using store_index_invariant [OF rbt_datastore demo_index_ok] by blast

text \<open>C40: a retention sweep that succeeds removes exactly the events and alerts stamped before the cutoff and
  keeps every other row; before the cutoff exists (a clock near the epoch) it removes nothing; and it never
  touches detections, scores, agents or tokens.\<close>

theorem compact_removes_expired:
  assumes "datastore T P" and "store_compact T P io reclaimed now retention st = (Inr r, st')"
  shows "(\<forall>ts u. tbl T (pc_event P) (t_events st') (composite_key ts u)
        = (if unat retention \<le> unat now \<and> unat ts < unat now - unat retention then None
           else tbl T (pc_event P) (t_events st) (composite_key ts u)))
    \<and> (\<forall>ts u. tbl T (pc_alert P) (t_alerts st') (composite_key ts u)
        = (if unat retention \<le> unat now \<and> unat ts < unat now - unat retention then None
           else tbl T (pc_alert P) (t_alerts st) (composite_key ts u)))
    \<and> t_detections st' = t_detections st \<and> t_scores st' = t_scores st \<and> t_agents st' = t_agents st
    \<and> t_tokens st' = t_tokens st"
proof (cases "now < retention")
  case True
  then have "st' = st" using assms(2) by (auto simp: store_compact_def checked_sub_def split: option.splits)
  then show ?thesis using True by (simp add: word_less_nat_alt)
next
  case False
  then have le: "unat retention \<le> unat now" by (simp add: word_le_nat_alt not_less)
  then have c: "unat (now - retention) = unat now - unat retention"
    by (simp add: unat_sub word_le_nat_alt)
  have run: "prune T P io (now - retention) st = (Inr (), st')"
    using assms(2) False by (auto simp: store_compact_def checked_sub_def split: option.splits prod.splits sum.splits)
  show ?thesis
    using datastore.prune_Inr [OF assms(1) run] le c by (simp add: take8_less)
qed

lemma demo_compact:
  "\<exists>st'. store_compact rbt_table demo_pc io_fine (Some True) 100 10 demo_indexed = (Inr True, st')"
proof -
  have ix: "trows rbt_table (t_index demo_indexed) = [(str_bytes ''a'', [0])]"
    by (simp add: demo_indexed_def rbt.rows_insert rbt.rows_empty)
  have "dec (pc_index demo_pc) [0] = Some [composite_key 7 3]" by (simp add: table_postcard_def table_codec_def)
  then have "prune_rewrites (pc_index demo_pc) io_fine 90 (trows rbt_table (t_index demo_indexed)) = Inr [(str_bytes ''a'', [])]"
    unfolding ix by (simp add: io_fine_def)
  then show ?thesis by (simp add: store_compact_def checked_sub_def prune_def io_fine_def)
qed

theorem compact_removes_expired_witness:
  "\<exists>st'. store_compact rbt_table demo_pc io_fine (Some True) 100 10 demo_indexed = (Inr True, st')
     \<and> tbl rbt_table (pc_event demo_pc) (t_events st') (composite_key 7 3) = None"
proof -
  obtain st' where r: "store_compact rbt_table demo_pc io_fine (Some True) 100 10 demo_indexed = (Inr True, st')"
    using demo_compact by blast
  show ?thesis using compact_removes_expired [OF rbt_datastore r] r by simp
qed

text \<open>The alert feed is newest first: \<open>alerts_recent\<close> returns the first \<open>limit\<close> rows of one list that
  holds every stored alert and is sorted by descending time stamp; appending keeps the invariant this
  rests on, whatever the outcome.\<close>

theorem alerts_recent_sorted:
  assumes "datastore T P" and "alerts_ok T P st" and "io_good io"
  shows "\<exists>rows. (\<forall>limit. alerts_recent T P io limit st = Inr (take limit rows))
      \<and> sorted (map (\<lambda>r. unat (ar_ts_ns r)) (rev rows)) \<and> length rows = length (trows T (t_alerts st))
    \<and> alerts_ok T P (snd (append_alert T P pu fresh io2 row st))"
proof -
  let ?rows = "rev (map (\<lambda>(k, v). the (dec (pc_alert P) v)) (trows T (t_alerts st)))"
  have "alerts_ok T P (snd (append_alert T P pu fresh io2 row st))"
    using datastore.append_alert_ok [OF assms(1,2)] by (metis surjective_pairing)
  moreover have "sorted (map (\<lambda>r. unat (ar_ts_ns r)) (rev ?rows))"
    using datastore.alerts_time_sorted [OF assms(1,2)] by (simp add: o_def case_prod_unfold)
  ultimately show ?thesis
    using datastore.alerts_recent_good [OF assms] by (intro exI [of _ ?rows]) simp
qed

theorem alerts_recent_sorted_witness:
  "\<exists>rows. alerts_recent rbt_table demo_pc io_fine 5 demo_indexed = Inr (take 5 rows) \<and> length rows = 0"
proof -
  have "alerts_ok rbt_table demo_pc demo_indexed" by (simp add: alerts_ok_def demo_indexed_def rbt.rows_empty)
  from alerts_recent_sorted [OF rbt_datastore this io_good_fine] show ?thesis
    by (auto simp: demo_indexed_def rbt.rows_empty)
qed

text \<open>A risk-score cell belongs to one agent and subject: after an upsert a reader of the same pair gets
  the new row and a reader of any other pair what it got before, for agent ids without a colon.\<close>

theorem score_cells_separate:
  assumes "datastore T P" and "io_good io2" and "upsert_score T P io row st = (Inr (), st')"
    and "CHR '':'' \<notin> set (sr_agent_id row)" and "CHR '':'' \<notin> set a"
  shows "store_score T P io2 a s st'
     = (if a = sr_agent_id row \<and> s = sr_subject row then Inr (Some row) else store_score T P io2 a s st)"
proof -
  let ?k = "str_bytes (subject_key (sr_agent_id row) (sr_subject row))"
  obtain b where b: "enc (pc_score P) row = Some b" "t_scores st' = tinsert T ?k b (t_scores st)"
    using assms(3) by (auto simp: upsert_score_def write_cell_def split: sum.splits option.splits if_splits)
  have d: "dec (pc_score P) b = Some row" using datastore.codecs(4) [OF assms(1)] b(1) by (simp add: codec_okD)
  have "subject_key a s = subject_key (sr_agent_id row) (sr_subject row) \<longleftrightarrow> a = sr_agent_id row \<and> s = sr_subject row"
    using subject_key_inject [OF assms(5,4)] by blast
  then show ?thesis
    using b(2) d assms(2) ordered_table.get_insert [of T] datastore.axioms(1) [OF assms(1)]
    by (auto simp: store_score_def read_cell_def io_goodD)
qed

definition demo_score :: score_row where
  "demo_score = \<lparr>sr_agent_id = ''a'', sr_subject = ''uid:0'', sr_model = ''m'', sr_score = Fin 1, sr_ts_ns = 1\<rparr>"

theorem score_cells_separate_witness:
  "\<exists>st'. store_score rbt_table (table_postcard [] [] [] [demo_score] [] [] []) io_fine ''a'' ''uid:0'' st' = Inr (Some demo_score)"
proof -
  have u: "upsert_score rbt_table (table_postcard [] [] [] [demo_score] [] [] []) io_fine demo_score demo_indexed
      = (Inr (), demo_indexed\<lparr>t_scores := tinsert rbt_table (str_bytes (subject_key ''a'' ''uid:0'')) [0] (t_scores demo_indexed)\<rparr>)"
    by (simp add: upsert_score_def write_cell_def table_postcard_def table_codec_def io_fine_def demo_score_def)
  show ?thesis
    using score_cells_separate [OF rbt_datastore io_good_fine u, of "''a''" "''uid:0''"] by (auto simp: demo_score_def)
qed

end
