(* ===== verification/Enroll.thy ===== *)
theory Enroll
  imports Store_Facts
begin

text \<open>
  Enrollment policy (\<^verbatim>\<open>crates/aegis-server/src/enroll.rs\<close>): one-time tokens, the limits on what a
  peer may store, and the mapping of rejections to reasons. Session authentication of the same
  file is in theory \<open>Auth\<close>. The random token bytes, the clock and the drawn agent id are
  arguments.
\<close>

definition TOKEN_VALIDITY_NS :: u64 where "TOKEN_VALIDITY_NS = 24 * 60 * 60 * 1000000000"

definition TOKEN_BYTES :: nat where "TOKEN_BYTES = 32"

definition MAX_ENROLL_FIELD_LEN :: nat where "MAX_ENROLL_FIELD_LEN = 255"

definition MAX_TOKEN_LABEL_LEN :: nat where "MAX_TOKEN_LABEL_LEN = 256"

datatype token_error = LabelTooLong nat | TokenStore store_error

datatype enroll_outcome = Accepted (oc_agent_id: string) | Rejected (oc_reason: string)

definition create_token ::
  "('t, bytes, bytes) table_ops \<Rightarrow> postcard \<Rightarrow> 'sk crypto \<Rightarrow> bytes redb_io \<Rightarrow> bytes \<Rightarrow> u64 \<Rightarrow> string \<Rightarrow> 't store
   \<Rightarrow> (token_error + string \<times> token_row) \<times> 't store" where
  "create_token T P C io raw now label st =
     (if MAX_TOKEN_LABEL_LEN < length label then (Inl (LabelTooLong (length label)), st)
      else let token = hex_encode C raw;
               row = \<lparr>tk_created_at_ns = now, tk_label = label, tk_used = False\<rparr>
           in case insert_token T P io token row st of
                (Inl e, st') \<Rightarrow> (Inl (TokenStore e), st')
              | (Inr _, st') \<Rightarrow> (Inr (token, row), st'))"

definition list_tokens ::
  "('t, bytes, bytes) table_ops \<Rightarrow> postcard \<Rightarrow> bytes redb_io \<Rightarrow> 't store
   \<Rightarrow> store_error + (string \<times> token_row) list" where
  "list_tokens T P io st = store_list_tokens T P io st"

definition revoke_token ::
  "('t, bytes, bytes) table_ops \<Rightarrow> postcard \<Rightarrow> bytes redb_io \<Rightarrow> string \<Rightarrow> 't store
   \<Rightarrow> (store_error + bool) \<times> 't store" where
  "revoke_token T P io token st = revoke_token_if_unused T P io token st"

fun reject_reason :: "enroll_reject \<Rightarrow> string" where
  "reject_reason UnknownToken = ''unknown or invalid enrollment token''"
| "reject_reason TokenUsed = ''enrollment token already used''"
| "reject_reason TokenExpired = ''enrollment token expired''"

definition enroll ::
  "('t, bytes, bytes) table_ops \<Rightarrow> postcard \<Rightarrow> bytes redb_io \<Rightarrow> string \<Rightarrow> u64 \<Rightarrow> string \<Rightarrow> string \<Rightarrow> string
   \<Rightarrow> bytes \<Rightarrow> 't store \<Rightarrow> (store_error + enroll_outcome) \<times> 't store" where
  "enroll T P io new_id now token host os pubkey st =
     (if MAX_ENROLL_FIELD_LEN < length host \<or> MAX_ENROLL_FIELD_LEN < length os
      then (Inr (Rejected (''hostname/os too long (max '' @ dec_str MAX_ENROLL_FIELD_LEN @ '' bytes each)'')), st)
      else case enroll_txn T P io new_id token now TOKEN_VALIDITY_NS host os pubkey st of
             (Inl e, st') \<Rightarrow> (Inl e, st')
           | (Inr (Inr (a, row)), st') \<Rightarrow> (Inr (Accepted a), st')
           | (Inr (Inl reject), st') \<Rightarrow> (Inr (Rejected (reject_reason reject)), st'))"

section \<open>One use per token\<close>

text \<open>The operations that touch the token table, with their arguments and outcomes.\<close>

datatype token_op =
    OpCreate "bytes redb_io" bytes u64 string
  | OpRevoke "bytes redb_io" string
  | OpEnroll "bytes redb_io" string u64 string string string bytes
  | OpTouch "bytes redb_io" string u64

text \<open>The state after one operation, and the token it burned.\<close>

fun token_step ::
  "('t, bytes, bytes) table_ops \<Rightarrow> postcard \<Rightarrow> 'sk crypto \<Rightarrow> token_op \<Rightarrow> 't store \<Rightarrow> string option \<times> 't store" where
  "token_step T P C (OpCreate io raw now label) st = (None, snd (create_token T P C io raw now label st))"
| "token_step T P C (OpRevoke io token) st = (None, snd (revoke_token T P io token st))"
| "token_step T P C (OpTouch io a ts) st = (None, snd (touch_agent T P io a ts st))"
| "token_step T P C (OpEnroll io new_id now token host os pk) st =
     (case enroll T P io new_id now token host os pk st of
        (Inr (Accepted a), st') \<Rightarrow> (Some token, st')
      | (_, st') \<Rightarrow> (None, st'))"

fun burned :: "('t, bytes, bytes) table_ops \<Rightarrow> postcard \<Rightarrow> 'sk crypto \<Rightarrow> token_op list \<Rightarrow> 't store \<Rightarrow> string list" where
  "burned T P C [] st = []"
| "burned T P C (op # ops) st =
     (case token_step T P C op st of
        (None, st') \<Rightarrow> burned T P C ops st'
      | (Some token, st') \<Rightarrow> token # burned T P C ops st')"

fun creates :: "'sk crypto \<Rightarrow> string \<Rightarrow> token_op \<Rightarrow> bool" where
  "creates C token (OpCreate io raw now label) \<longleftrightarrow> hex_encode C raw = token"
| "creates C token _ \<longleftrightarrow> False"

text \<open>A token that is absent or used stays so, whatever happens, until it is created again.\<close>

definition dead_token :: "('t, bytes, bytes) table_ops \<Rightarrow> postcard \<Rightarrow> string \<Rightarrow> 't store \<Rightarrow> bool" where
  "dead_token T P token st \<longleftrightarrow>
     (case tbl T (pc_token P) (t_tokens st) (str_bytes token) of None \<Rightarrow> True | Some tk \<Rightarrow> tk_used tk)"

context datastore
begin

lemma enroll_accepted:
  assumes "enroll T P io new_id now token host os pk st = (Inr (Accepted a), st')"
  shows "length host \<le> MAX_ENROLL_FIELD_LEN \<and> length os \<le> MAX_ENROLL_FIELD_LEN \<and>
    (\<exists>row. enroll_txn T P io new_id token now TOKEN_VALIDITY_NS host os pk st = (Inr (Inr (a, row)), st'))"
  using assms by (auto simp: enroll_def split: if_splits prod.splits sum.splits)

lemma enroll_not_accepted:
  assumes "enroll T P io new_id now token host os pk st = (r, st')" and "\<forall>a. r \<noteq> Inr (Accepted a)"
  shows "st' = st"
  using assms enroll_txn_other
  by (fastforce simp: enroll_def split: if_splits prod.splits sum.splits)

lemma token_step_tokens:
  assumes "token_step T P C op st = (b, st')" and "\<not> creates C token op"
  shows "b = Some token \<longrightarrow> \<not> dead_token T P token st \<and> dead_token T P token st'"
    and "dead_token T P token st \<longrightarrow> dead_token T P token st'"
proof -
  have "(b = Some token \<longrightarrow> \<not> dead_token T P token st \<and> dead_token T P token st') \<and> (dead_token T P token st \<longrightarrow> dead_token T P token st')"
  proof (cases op)
    case (OpCreate io raw now label)
    obtain r where r: "create_token T P C io raw now label st = (r, st')" "b = None"
      using assms(1) OpCreate by (cases "create_token T P C io raw now label st") auto
    show ?thesis
    proof (cases r)
      case (Inl e)
      then have "st' = st" using r insert_token_error
        by (fastforce simp: create_token_def Let_def split: if_splits prod.splits sum.splits)
      then show ?thesis using r by simp
    next
      case (Inr p)
      then show ?thesis using r OpCreate assms(2)
        by (auto simp: create_token_def Let_def dead_token_def dest!: insert_token_Inr
            split: if_splits prod.splits sum.splits)
    qed
  next
    case (OpRevoke io tok)
    obtain r where r: "revoke_token_if_unused T P io tok st = (r, st')" "b = None"
      using assms(1) OpRevoke by (cases "revoke_token_if_unused T P io tok st") (auto simp: revoke_token_def)
    show ?thesis
    proof (cases r)
      case (Inl e)
      then have "st' = st" using r by (auto dest: revoke_token_error)
      then show ?thesis using r by simp
    next
      case (Inr p)
      then show ?thesis using r revoke_token_Inr [of io tok st p st'] by (auto simp: dead_token_def)
    qed
  next
    case (OpTouch io a ts)
    obtain r where "touch_agent T P io a ts st = (r, st')" "b = None"
      using assms(1) OpTouch by (cases "touch_agent T P io a ts st") auto
    then show ?thesis by (auto simp: dead_token_def dest: touch_agent_tbl)
  next
    case (OpEnroll io new_id now tok host os pk)
    obtain r where r: "enroll T P io new_id now tok host os pk st = (r, st')"
      using assms(1) OpEnroll by (auto split: prod.splits sum.splits enroll_outcome.splits)
    show ?thesis
    proof (cases "\<exists>a. r = Inr (Accepted a)")
      case False
      then have "st' = st" "b = None"
        using r enroll_not_accepted assms(1) OpEnroll by (fastforce split: sum.splits enroll_outcome.splits)+
      then show ?thesis by simp
    next
      case True
      then obtain a row where "enroll_txn T P io new_id tok now TOKEN_VALIDITY_NS host os pk st = (Inr (Inr (a, row)), st')"
        using r enroll_accepted by blast
      from enroll_txn_accept [OF this] have "\<not> dead_token T P tok st" "dead_token T P tok st'"
        "\<And>t. t \<noteq> tok \<Longrightarrow> dead_token T P t st' = dead_token T P t st"
        by (auto simp: dead_token_def)
      moreover have "b = Some tok" using assms(1) OpEnroll r True by auto
      ultimately show ?thesis by (cases "tok = token") auto
    qed
  qed
  then show "b = Some token \<longrightarrow> \<not> dead_token T P token st \<and> dead_token T P token st'"
    and "dead_token T P token st \<longrightarrow> dead_token T P token st'" by auto
qed

lemma burned_dead:
  "dead_token T P token st \<Longrightarrow> \<forall>op \<in> set ops. \<not> creates C token op \<Longrightarrow> token \<notin> set (burned T P C ops st)"
proof (induction ops arbitrary: st)
  case (Cons op ops)
  obtain b st' where s: "token_step T P C op st = (b, st')" by fastforce
  show ?case using token_step_tokens [OF s, of token] Cons s by (cases b) auto
qed simp

lemma burned_once:
  "\<forall>op \<in> set ops. \<not> creates C token op \<Longrightarrow> count_list (burned T P C ops st) token \<le> 1"
proof (induction ops arbitrary: st)
  case (Cons op ops)
  obtain b st' where s: "token_step T P C op st = (b, st')" by fastforce
  show ?case
  proof (cases "b = Some token")
    case True
    then have "token \<notin> set (burned T P C ops st')"
      using token_step_tokens [OF s, of token] Cons.prems burned_dead [of token st' ops C] by simp
    then show ?thesis using s True by (simp add: count_list_0_iff)
  next
    case False
    then show ?thesis using s Cons by (cases b) auto
  qed
qed simp

end

section \<open>Properties\<close>


definition demo_token :: token_row where
  "demo_token = \<lparr>tk_created_at_ns = 5, tk_label = ''l'', tk_used = False\<rparr>"

definition demo_enrolled :: agent_row where
  "demo_enrolled = \<lparr>ag_agent_id = ''n'', ag_hostname = ''h'', ag_os = ''o'', ag_pubkey = [1], ag_enrolled_at_ns = 6,
     ag_last_seen_ns = 6\<rparr>"

definition demo_enroll_pc :: postcard where
  "demo_enroll_pc = table_postcard [] [] [] [] [] [demo_enrolled] [demo_token, demo_token\<lparr>tk_used := True\<rparr>]"

definition demo_enroll_store :: "(bytes, bytes) rbt store" where
  "demo_enroll_store = demo_indexed\<lparr>t_tokens := tinsert rbt_table (str_bytes ''t'') [0] (tempty rbt_table)\<rparr>"

lemma demo_enroll_datastore: "datastore rbt_table demo_enroll_pc"
  unfolding demo_enroll_pc_def by (rule rbt_datastore)

lemma demo_enroll_accepts:
  "\<exists>st'. enroll rbt_table demo_enroll_pc io_fine ''n'' 6 ''t'' ''h'' ''o'' [1] demo_enroll_store = (Inr (Accepted ''n''), st')"
proof -
  have r: "read_cell rbt_table (pc_token demo_enroll_pc) io_fine (str_bytes ''t'') (t_tokens demo_enroll_store) = Inr (Some demo_token)"
    by (simp add: read_cell_def demo_enroll_store_def demo_enroll_pc_def table_postcard_def table_codec_def io_fine_def rbt.get_insert)
  have e: "enc (pc_token demo_enroll_pc) (demo_token\<lparr>tk_used := True\<rparr>) \<noteq> None"
    by (simp add: demo_enroll_pc_def table_postcard_def table_codec_def)
  have a: "enc (pc_agent demo_enroll_pc) \<lparr>ag_agent_id = ''n'', ag_hostname = ''h'', ag_os = ''o'', ag_pubkey = [1],
      ag_enrolled_at_ns = 6, ag_last_seen_ns = 6\<rparr> \<noteq> None"
    by (simp add: demo_enroll_pc_def table_postcard_def table_codec_def demo_enrolled_def)
  show ?thesis using r e a
    by (auto simp: enroll_def enroll_txn_def MAX_ENROLL_FIELD_LEN_def TOKEN_VALIDITY_NS_def saturating_sub_def
        demo_token_def io_fine_def Let_def)
qed


text \<open>C2: an enrollment token is burned at most once over any sequence of token creations, revocations,
  enrollments and liveness updates, with any outcomes, as long as the same 32 random bytes are not drawn
  for a new token; a token that is absent or used can never be burned.\<close>

theorem token_burned_once:
  assumes "datastore T P" and "\<forall>op \<in> set ops. \<not> creates C token op"
  shows "count_list (burned T P C ops st) token \<le> 1
     \<and> (dead_token T P token st \<longrightarrow> token \<notin> set (burned T P C ops st))"
  using datastore.burned_once [OF assms] datastore.burned_dead [OF assms(1) _ assms(2)] by blast

theorem token_burned_once_witness:
  "count_list (burned rbt_table demo_enroll_pc toy_crypto
      [OpEnroll io_fine ''n'' 6 ''t'' ''h'' ''o'' [1], OpEnroll io_fine ''n'' 6 ''t'' ''h'' ''o'' [1]] demo_enroll_store) ''t'' \<le> 1"
  using token_burned_once [OF demo_enroll_datastore, of
      "[OpEnroll io_fine ''n'' 6 ''t'' ''h'' ''o'' [1], OpEnroll io_fine ''n'' 6 ''t'' ''h'' ''o'' [1]]" toy_crypto "''t''" demo_enroll_store]
  by simp

end
