(* ===== verification/Router.thy ===== *)
theory Router
  imports Proto
begin

text \<open>
  The live command router (\<^verbatim>\<open>crates/aegis-server/src/registry.rs\<close>): which command channel serves
  which connected agent. The channels are tokio's (third party): their operations are the record
  \<open>mpsc\<close>, and the locale \<open>channels\<close> states the documented laws of a bounded FIFO that the router
  relies on. The lock around the map makes each operation one atomic step.
\<close>

datatype send_outcome = SendOk | SendFull | SendClosed

record ('c, 'h, 'm) mpsc =
  same_channel :: "'c \<Rightarrow> 'c \<Rightarrow> bool"
  try_send :: "'c \<Rightarrow> 'm \<Rightarrow> 'h \<Rightarrow> send_outcome \<times> 'h"
  queued :: "'c \<Rightarrow> 'h \<Rightarrow> 'm list"

datatype router_error = NotConnected | ChannelFull

type_synonym 'c router = "string \<rightharpoonup> 'c"

definition router_new :: "'c router" where
  "router_new = Map.empty"

definition register :: "string \<Rightarrow> 'c \<Rightarrow> 'c router \<Rightarrow> 'c router" where
  "register aid tx r = r(aid \<mapsto> tx)"

definition unregister :: "('c, 'h, 'm) mpsc \<Rightarrow> string \<Rightarrow> 'c \<Rightarrow> 'c router \<Rightarrow> 'c router" where
  "unregister M aid tx r =
     (case r aid of
        Some current \<Rightarrow> if same_channel M current tx then r(aid := None) else r
      | None \<Rightarrow> r)"

definition router_send ::
  "('c, 'h, 'm) mpsc \<Rightarrow> string \<Rightarrow> 'm \<Rightarrow> 'c router \<Rightarrow> 'h \<Rightarrow> (router_error + unit) \<times> 'h" where
  "router_send M aid cmd r h =
     (case r aid of
        Some tx \<Rightarrow>
          (case try_send M tx cmd h of
             (SendOk, h') \<Rightarrow> (Inr (), h')
           | (SendFull, h') \<Rightarrow> (Inl ChannelFull, h')
           | (SendClosed, h') \<Rightarrow> (Inl NotConnected, h'))
      | None \<Rightarrow> (Inl NotConnected, h))"

definition is_connected :: "string \<Rightarrow> 'c router \<Rightarrow> bool" where
  "is_connected aid r \<longleftrightarrow> r aid \<noteq> None"

definition connected_count :: "'c router \<Rightarrow> nat" where
  "connected_count r = card (dom r)"

section \<open>The laws of a bounded channel\<close>

locale channels =
  fixes M :: "('c, 'h, 'm) mpsc"
  assumes same_refl: "same_channel M c c"
    and same_sym: "same_channel M c d \<Longrightarrow> same_channel M d c"
    and sent: "try_send M c m h = (SendOk, h') \<Longrightarrow>
      queued M d h' = (if same_channel M d c then queued M d h @ [m] else queued M d h)"
    and not_sent: "try_send M c m h = (why, h') \<Longrightarrow> why \<noteq> SendOk \<Longrightarrow> h' = h"
begin

lemma unregister_register:
  "unregister M aid old (register aid new r) = (if same_channel M new old then r(aid := None) else register aid new r)"
  by (auto simp: unregister_def register_def)

lemma unregister_other: "a \<noteq> aid \<Longrightarrow> unregister M aid tx r a = r a"
  by (auto simp: unregister_def split: option.splits)

lemma send_Inr:
  assumes "router_send M aid cmd r h = (Inr (), h')"
  shows "\<exists>tx. r aid = Some tx \<and>
    (\<forall>d. queued M d h' = (if same_channel M d tx then queued M d h @ [cmd] else queued M d h))"
  using assms by (auto simp: router_send_def sent split: option.splits prod.splits send_outcome.splits)

lemma send_Inl: "router_send M aid cmd r h = (Inl e, h') \<Longrightarrow> h' = h"
  by (auto simp: router_send_def split: option.splits prod.splits send_outcome.splits dest: not_sent)

end

section \<open>A provider: numbered bounded queues\<close>

definition fifo_mpsc :: "nat \<Rightarrow> (nat, nat \<Rightarrow> 'm list, 'm) mpsc" where
  "fifo_mpsc depth =
     \<lparr>same_channel = (=),
      try_send = (\<lambda>c m h. if depth \<le> length (h c) then (SendFull, h) else (SendOk, h(c := h c @ [m]))),
      queued = (\<lambda>c h. h c)\<rparr>"

interpretation fifo: channels "fifo_mpsc depth" for depth
  by unfold_locales (auto simp: fifo_mpsc_def split: if_splits)

lemma fifo_channels: "channels (fifo_mpsc depth)"
  by (rule fifo.channels_axioms)

section \<open>Properties\<close>

text \<open>When a reconnected agent's old session ends late, its unregistration leaves the new session in
  place; when the ending session is the registered one, the agent becomes unreachable; other agents are
  never affected.\<close>

theorem unregister_keeps_newer:
  assumes "channels M"
  shows "unregister M aid old (register aid new r) aid = (if same_channel M new old then None else Some new)
    \<and> (a = aid \<or> unregister M aid old (register aid new r) a = r a)"
  using channels.unregister_register [OF assms, of aid old new r] by (auto simp: register_def)

theorem unregister_keeps_newer_witness:
  "unregister (fifo_mpsc 1 :: (nat, nat \<Rightarrow> nat list, nat) mpsc) ''a'' 1 (register ''a'' 2 (register ''a'' 1 Map.empty)) ''a'' = Some 2"
  using unregister_keeps_newer [where M = "fifo_mpsc 1" and aid = "''a''" and old = 1 and new = 2
      and r = "register ''a'' 1 Map.empty", OF fifo_channels, THEN conjunct1]
  by (simp add: fifo_mpsc_def)

text \<open>A command that is accepted is appended to the queue of the channel the agent last registered and
  to no other; a refused one changes no queue, and is refused as not connected for an agent that is not
  registered.\<close>

theorem router_send_delivers:
  assumes "channels M"
  shows "case router_send M aid cmd r h of
      (Inr _, h') \<Rightarrow> (\<exists>tx. r aid = Some tx
         \<and> (\<forall>d. queued M d h' = queued M d h @ (if same_channel M d tx then [cmd] else [])))
    | (Inl e, h') \<Rightarrow> h' = h \<and> (is_connected aid r \<or> e = NotConnected)"
proof (cases "fst (router_send M aid cmd r h)")
  case (Inl e)
  then obtain h' where s: "router_send M aid cmd r h = (Inl e, h')" by (metis prod.collapse)
  have "is_connected aid r \<or> e = NotConnected"
    using s by (auto simp: router_send_def is_connected_def split: option.splits)
  then show ?thesis using s channels.send_Inl [OF assms s] by simp
next
  case (Inr u)
  then obtain h' where s: "router_send M aid cmd r h = (Inr (), h')" by (metis prod.collapse old.unit.exhaust)
  show ?thesis using channels.send_Inr [OF assms s] s by auto
qed

theorem router_send_delivers_witness:
  "\<exists>h'. router_send (fifo_mpsc 1) ''a'' (7 :: nat) [''a'' \<mapsto> 3] (\<lambda>_. []) = (Inr (), h') \<and> h' 3 = [7]"
proof -
  have s: "router_send (fifo_mpsc 1) ''a'' (7 :: nat) [''a'' \<mapsto> 3] (\<lambda>_. []) = (Inr (), (\<lambda>_. [])(3 := [7]))"
    by (simp add: router_send_def fifo_mpsc_def)
  show ?thesis
    using router_send_delivers [OF fifo_channels, where aid = "''a''" and cmd = "7 :: nat" and r = "[''a'' \<mapsto> 3]" and h = "\<lambda>_. []"] s
    by (intro exI [of _ "(\<lambda>_. [])(3 := [7])"]) simp
qed

end
