(* ===== verification/Ingest.thy ===== *)
theory Ingest
  imports Enroll Router
begin

text \<open>
  The ingest side of the server (\<^verbatim>\<open>crates/aegis-server/src/ingest.rs\<close>): the de-duplication window,
  the sanitising of agent-supplied fields, the connection state machine (enroll, or authenticate
  and then stream) and the session read loop.

  The clock, the outcomes of store transactions and the elapsing of deadlines are supplied from
  outside; a counter in the session state selects the next clock reading and transaction outcome.
  Binding, accepting, certificate files and TLS itself are not modelled.
\<close>

section \<open>Limits\<close>

definition MAX_CONNECTIONS :: nat where "MAX_CONNECTIONS = 1024"
definition DEDUP_CAPACITY :: nat where "DEDUP_CAPACITY = 65536"
definition GLOBAL_DEDUP_CAPACITY :: nat where "GLOBAL_DEDUP_CAPACITY = 262144"
definition MAX_TS_SKEW_NS :: u64 where "MAX_TS_SKEW_NS = 60 * 60 * 1000000000"
definition MAX_SOURCE_LEN :: nat where "MAX_SOURCE_LEN = 128"
definition MAX_LABELS :: nat where "MAX_LABELS = 32"
definition MAX_LABEL_KV_LEN :: nat where "MAX_LABEL_KV_LEN = 256"

definition INGESTIBLE_KINDS :: "string list" where
  "INGESTIBLE_KINDS =
     [''input.keystroke'', ''command.observed'', ''session.start'', ''session.end'', ''process.exec'',
      ''heartbeat'']"

definition is_ingestible :: "string \<Rightarrow> bool" where
  "is_ingestible k \<longleftrightarrow> k \<in> set INGESTIBLE_KINDS"

section \<open>The de-duplication window\<close>

record dedup =
  dw_set :: "uuid set"
  dw_order :: "uuid list"
  dw_capacity :: nat

definition dedup_new :: "nat \<Rightarrow> dedup" where
  "dedup_new cap = \<lparr>dw_set = {}, dw_order = [], dw_capacity = max cap 1\<rparr>"

definition dedup_insert :: "uuid \<Rightarrow> dedup \<Rightarrow> bool \<times> dedup" where
  "dedup_insert i w =
     (if i \<in> dw_set w then (False, w)
      else let w1 = (if dw_capacity w \<le> length (dw_order w)
                     then (case dw_order w of
                             [] \<Rightarrow> w
                           | oldest # rest \<Rightarrow> w\<lparr>dw_order := rest, dw_set := dw_set w - {oldest}\<rparr>)
                     else w)
           in (True, w1\<lparr>dw_order := dw_order w1 @ [i], dw_set := insert i (dw_set w1)\<rparr>))"

definition dedup_ok :: "dedup \<Rightarrow> bool" where
  "dedup_ok w \<longleftrightarrow> dw_set w = set (dw_order w) \<and> distinct (dw_order w)
     \<and> length (dw_order w) \<le> dw_capacity w \<and> 1 \<le> dw_capacity w"

lemma dedup_ok_new [simp]: "dedup_ok (dedup_new cap)"
  by (simp add: dedup_ok_def dedup_new_def)

lemma dw_order_new [simp]: "dw_order (dedup_new cap) = []"
  by (simp add: dedup_new_def)

lemma dedup_insert_spec:
  assumes "dedup_ok w" and "dedup_insert i w = (fresh, w')"
  shows "dedup_ok w' \<and> dw_capacity w' = dw_capacity w \<and> (fresh \<longleftrightarrow> i \<notin> set (dw_order w))
    \<and> (fresh \<longrightarrow> dw_order w' = drop (length (dw_order w) + 1 - dw_capacity w) (dw_order w @ [i]))
    \<and> (\<not> fresh \<longrightarrow> w' = w)"
proof (cases "i \<in> dw_set w")
  case True
  then show ?thesis using assms by (auto simp: dedup_insert_def dedup_ok_def)
next
  case False
  show ?thesis
  proof (cases "dw_capacity w \<le> length (dw_order w)")
    case full: True
    then have len: "length (dw_order w) = dw_capacity w" and "dw_order w \<noteq> []" using assms(1) by (auto simp: dedup_ok_def)
    then obtain x xs where o: "dw_order w = x # xs" by (cases "dw_order w") auto
    have r: "fresh" "w' = w\<lparr>dw_order := xs @ [i], dw_set := insert i (dw_set w - {x})\<rparr>"
      using assms(2) False full o by (auto simp: dedup_insert_def)
    have ok: "dw_set w = insert x (set xs)" "x \<notin> set xs" "distinct xs" "1 \<le> dw_capacity w"
      using assms(1) o by (simp_all add: dedup_ok_def)
    have "dw_set w - {x} = set xs" using ok by auto
    then have w': "dw_set w' = insert i (set xs)" "dw_order w' = xs @ [i]" "dw_capacity w' = dw_capacity w"
      using r(2) by simp_all
    have i: "i \<noteq> x" "i \<notin> set xs" using False ok(1) by auto
    have cap: "dw_capacity w = Suc (length xs)" using len o by simp
    have "dedup_ok w'" unfolding dedup_ok_def w' cap using i ok(3) by simp
    moreover have "drop (length (dw_order w) + 1 - dw_capacity w) (dw_order w @ [i]) = xs @ [i]"
      unfolding o cap by simp
    moreover have "i \<notin> set (dw_order w)" using i o by simp
    ultimately show ?thesis using r(1) w'(2,3) by metis
  next
    case room: False
    have r: "fresh" "w' = w\<lparr>dw_order := dw_order w @ [i], dw_set := insert i (dw_set w)\<rparr>"
      using assms(2) False room by (auto simp: dedup_insert_def)
    then have w': "dw_set w' = insert i (dw_set w)" "dw_order w' = dw_order w @ [i]" "dw_capacity w' = dw_capacity w"
      by simp_all
    have i: "i \<notin> set (dw_order w)" using False assms(1) by (simp add: dedup_ok_def)
    then have "dedup_ok w'" using assms(1) room by (simp add: dedup_ok_def w')
    moreover have "length (dw_order w) + 1 - dw_capacity w = 0" using room by simp
    ultimately show ?thesis using r(1) w'(2,3) i by (metis drop0)
  qed
qed

section \<open>Sanitising\<close>

fun boundary_below :: "string \<Rightarrow> nat \<Rightarrow> nat" where
  "boundary_below s 0 = 0"
| "boundary_below s (Suc n) = (if is_char_boundary s (Suc n) then Suc n else boundary_below s n)"

definition truncate_to :: "string \<Rightarrow> nat \<Rightarrow> string" where
  "truncate_to s mx = (if length s \<le> mx then s else take (boundary_below s mx) s)"

definition sanitize_ingest_fields :: "u64 \<Rightarrow> event \<Rightarrow> event" where
  "sanitize_ingest_fields now ev =
     (let lo = saturating_sub now MAX_TS_SKEW_NS;
          hi = saturating_add now MAX_TS_SKEW_NS;
          ev1 = (if ts_ns ev < lo \<or> hi < ts_ns ev then ev\<lparr>ts_ns := now\<rparr> else ev);
          ev2 = ev1\<lparr>source := truncate_to (source ev1) MAX_SOURCE_LEN\<rparr>
      in if MAX_LABELS < length (labels ev2)
            \<or> list_ex (\<lambda>(k, v). MAX_LABEL_KV_LEN < length k \<or> MAX_LABEL_KV_LEN < length v) (labels ev2)
         then ev2\<lparr>labels := bt_collect (map (\<lambda>(k, v). (truncate_to k MAX_LABEL_KV_LEN, truncate_to v MAX_LABEL_KV_LEN))
                                      (take MAX_LABELS (labels ev2)))\<rparr>
         else ev2)"

lemma boundary_below_le: "boundary_below s n \<le> n"
  by (induction n) (auto intro: le_SucI)

lemma boundary_below_boundary: "is_char_boundary s (boundary_below s n)"
  by (induction n) (auto simp: is_char_boundary_def)

lemma boundary_below_max: "m \<le> n \<Longrightarrow> is_char_boundary s m \<Longrightarrow> m \<le> boundary_below s n"
  by (induction n) (auto simp: le_Suc_eq)

lemma length_truncate_to: "length (truncate_to s mx) \<le> mx"
  using boundary_below_le [of s mx] by (auto simp: truncate_to_def intro: le_trans)

text \<open>The fields an agent supplies, after sanitising at clock reading \<open>now\<close>.\<close>

definition sane :: "u64 \<Rightarrow> event \<Rightarrow> bool" where
  "sane now ev \<longleftrightarrow>
     unat now - unat MAX_TS_SKEW_NS \<le> unat (ts_ns ev) \<and> unat (ts_ns ev) \<le> unat now + unat MAX_TS_SKEW_NS
     \<and> length (source ev) \<le> MAX_SOURCE_LEN \<and> length (labels ev) \<le> MAX_LABELS
     \<and> list_all (\<lambda>(k, v). length k \<le> MAX_LABEL_KV_LEN \<and> length v \<le> MAX_LABEL_KV_LEN) (labels ev)"

lemma sanitize_kind [simp]:
  "kind (sanitize_ingest_fields now ev) = kind ev"
  "agent_id (sanitize_ingest_fields now ev) = agent_id ev"
  "ev_id (sanitize_ingest_fields now ev) = ev_id ev"
  "payload (sanitize_ingest_fields now ev) = payload ev"
  by (simp_all add: sanitize_ingest_fields_def Let_def)

lemma sanitize_ts:
  "unat now - unat MAX_TS_SKEW_NS \<le> unat (ts_ns (sanitize_ingest_fields now ev))
   \<and> unat (ts_ns (sanitize_ingest_fields now ev)) \<le> unat now + unat MAX_TS_SKEW_NS"
proof -
  let ?lo = "saturating_sub now MAX_TS_SKEW_NS" and ?hi = "saturating_add now MAX_TS_SKEW_NS"
  have ts: "ts_ns (sanitize_ingest_fields now ev) = (if ts_ns ev < ?lo \<or> ?hi < ts_ns ev then now else ts_ns ev)"
    by (simp add: sanitize_ingest_fields_def Let_def)
  have "unat ?hi \<le> unat now + unat MAX_TS_SKEW_NS" by (simp add: unat_saturating_add)
  then show ?thesis using unat_saturating_sub [of now MAX_TS_SKEW_NS]
    by (auto simp: ts not_less word_le_nat_alt)
qed

lemma sanitize_labels:
  "length (labels (sanitize_ingest_fields now ev)) \<le> MAX_LABELS
   \<and> list_all (\<lambda>(k, v). length k \<le> MAX_LABEL_KV_LEN \<and> length v \<le> MAX_LABEL_KV_LEN)
       (labels (sanitize_ingest_fields now ev))"
proof (cases "MAX_LABELS < length (labels ev)
    \<or> list_ex (\<lambda>(k, v). MAX_LABEL_KV_LEN < length k \<or> MAX_LABEL_KV_LEN < length v) (labels ev)")
  case True
  let ?kvs = "map (\<lambda>(k, v). (truncate_to k MAX_LABEL_KV_LEN, truncate_to v MAX_LABEL_KV_LEN)) (take MAX_LABELS (labels ev))"
  have l: "labels (sanitize_ingest_fields now ev) = bt_collect ?kvs"
    using True by (auto simp: sanitize_ingest_fields_def Let_def)
  have "length (bt_collect ?kvs) \<le> MAX_LABELS"
    using length_bt_collect_le [of ?kvs] by simp
  moreover have "\<forall>p \<in> set ?kvs. case p of (k, v) \<Rightarrow> length k \<le> MAX_LABEL_KV_LEN \<and> length v \<le> MAX_LABEL_KV_LEN"
    using length_truncate_to by auto
  then have "\<forall>p \<in> set (bt_collect ?kvs). case p of (k, v) \<Rightarrow> length k \<le> MAX_LABEL_KV_LEN \<and> length v \<le> MAX_LABEL_KV_LEN"
    using set_bt_collect_subset [of ?kvs] by (meson subsetD)
  ultimately show ?thesis unfolding l by (simp add: list_all_iff)
next
  case False
  then have "labels (sanitize_ingest_fields now ev) = labels ev"
    by (simp add: sanitize_ingest_fields_def Let_def)
  then show ?thesis using False by (auto simp: list_all_iff list_ex_iff not_less)
qed

lemma sanitize_sane: "sane now (sanitize_ingest_fields now ev)"
proof -
  have "length (source (sanitize_ingest_fields now ev)) \<le> MAX_SOURCE_LEN"
    by (simp add: sanitize_ingest_fields_def Let_def length_truncate_to)
  then show ?thesis using sanitize_ts sanitize_labels by (simp add: sane_def)
qed

section \<open>Properties\<close>

text \<open>Inserting ids one after another: the accepted ones, and the window afterwards.\<close>

fun dedup_run :: "uuid list \<Rightarrow> dedup \<Rightarrow> uuid list \<times> dedup" where
  "dedup_run [] w = ([], w)"
| "dedup_run (i # is) w =
     (let (new, w1) = dedup_insert i w; (acc, w2) = dedup_run is w1
      in (if new then i # acc else acc, w2))"

lemma dedup_run_order:
  "dedup_ok w \<Longrightarrow> dedup_run is w = (acc, w') \<Longrightarrow>
   dedup_ok w' \<and> dw_capacity w' = dw_capacity w \<and> dw_order w' = last_n (dw_capacity w) (dw_order w @ acc)"
proof (induction "is" arbitrary: w acc)
  case Nil
  then show ?case by (simp add: dedup_ok_def last_n_def)
next
  case (Cons i xs)
  obtain new w1 where i: "dedup_insert i w = (new, w1)" by fastforce
  obtain acc1 where r: "dedup_run xs w1 = (acc1, w')" "acc = (if new then i # acc1 else acc1)"
    using Cons.prems(2) i by (auto split: prod.splits)
  note spec = dedup_insert_spec [OF Cons.prems(1) i]
  have ih: "dedup_ok w'" "dw_capacity w' = dw_capacity w" "dw_order w' = last_n (dw_capacity w) (dw_order w1 @ acc1)"
    using Cons.IH [OF _ r(1)] spec by auto
  show ?case
  proof (cases new)
    case True
    have "length (dw_order w) \<le> dw_capacity w" "0 < dw_capacity w" using Cons.prems(1) by (auto simp: dedup_ok_def)
    then have "dw_order w1 = last_n (dw_capacity w) (dw_order w @ [i])"
      using spec True last_n_snoc by metis
    then have "dw_order w' = last_n (dw_capacity w) ((dw_order w @ [i]) @ acc1)"
      using ih(3) by (simp only: last_n_last_n_append)
    then show ?thesis using ih(1,2) r(2) True by simp
  next
    case False
    then show ?thesis using ih r(2) spec by simp
  qed
qed

text \<open>After any stream of ids the window refuses an id exactly when it is among the last \<open>capacity\<close> ids it
  accepted: eviction is first-in first-out, a recently accepted id can never be accepted again, and an
  id seen only in refused positions is not forgotten early.\<close>

theorem dedup_window_fifo:
  "let (acc, w) = dedup_run is (dedup_new cap)
   in fst (dedup_insert i w) = (i \<notin> set (last_n (max cap 1) acc)) \<and> length (dw_order w) \<le> max cap 1"
proof -
  obtain acc w where r: "dedup_run is (dedup_new cap) = (acc, w)" by fastforce
  have w: "dedup_ok w" "dw_order w = last_n (max cap 1) acc" "dw_capacity w = max cap 1"
    using dedup_run_order [OF dedup_ok_new r] by (auto simp: dedup_new_def)
  obtain new w1 where i: "dedup_insert i w = (new, w1)" by fastforce
  have "new = (i \<notin> set (last_n (max cap 1) acc))" using dedup_insert_spec [OF w(1) i] w(2) by simp
  then show ?thesis using r i w by (simp add: dedup_ok_def)
qed

lemma bt_list_all_not_ex:
  "list_all (\<lambda>(k, v). length k \<le> n \<and> length v \<le> n) xs
   \<longleftrightarrow> \<not> list_ex (\<lambda>(k, v). n < length k \<or> n < length v) xs"
  by (auto simp: list_all_iff list_ex_iff not_less)

text \<open>Sanitising bounds every agent-supplied field (time stamp within an hour of the server clock, source
  and labels within their limits), leaves identity, kind, id and payload alone, and changes nothing in an
  event that is already within the bounds.\<close>

theorem sanitize_bounds:
  "sane now (sanitize_ingest_fields now ev)
   \<and> ev_id (sanitize_ingest_fields now ev) = ev_id ev \<and> agent_id (sanitize_ingest_fields now ev) = agent_id ev
   \<and> kind (sanitize_ingest_fields now ev) = kind ev \<and> payload (sanitize_ingest_fields now ev) = payload ev
   \<and> (sane now ev \<longrightarrow> sanitize_ingest_fields now ev = ev)"
proof -
  have "sanitize_ingest_fields now ev = ev" if s: "sane now ev"
  proof -
    have "\<not> ts_ns ev < saturating_sub now MAX_TS_SKEW_NS"
      using s by (simp add: sane_def not_less word_le_nat_alt unat_saturating_sub)
    moreover have "\<not> saturating_add now MAX_TS_SKEW_NS < ts_ns ev"
      using s unat_lt_exp [of "ts_ns ev"] by (simp add: sane_def not_less word_le_nat_alt unat_saturating_add)
    moreover have "truncate_to (source ev) MAX_SOURCE_LEN = source ev" using s by (simp add: sane_def truncate_to_def)
    moreover have "\<not> MAX_LABELS < length (labels ev)"
      "\<not> list_ex (\<lambda>(k, v). MAX_LABEL_KV_LEN < length k \<or> MAX_LABEL_KV_LEN < length v) (labels ev)"
      using s by (simp_all add: sane_def bt_list_all_not_ex [symmetric])
    ultimately show ?thesis by (simp add: sanitize_ingest_fields_def Let_def)
  qed
  then show ?thesis using sanitize_sane by simp
qed

theorem sanitize_bounds_witness:
  "sanitize_ingest_fields 1000 (event_new 1 1000 ''a'' ''s'' (Heartbeat 1)) = event_new 1 1000 ''a'' ''s'' (Heartbeat 1)"
proof -
  have "sane 1000 (event_new 1 1000 ''a'' ''s'' (Heartbeat 1))"
    by (simp add: sane_def event_new_def MAX_SOURCE_LEN_def)
  then show ?thesis using sanitize_bounds [of 1000 "event_new 1 1000 ''a'' ''s'' (Heartbeat 1)"] by blast
qed

text \<open>Truncation keeps the longest prefix within the limit that ends on a character boundary, so it
  never splits a multi-byte character.\<close>

theorem truncate_longest:
  "(\<exists>rest. s = truncate_to s mx @ rest) \<and> length (truncate_to s mx) \<le> mx
   \<and> is_char_boundary s (length (truncate_to s mx))
   \<and> (m \<le> mx \<and> is_char_boundary s m \<and> m \<le> length s \<longrightarrow> m \<le> length (truncate_to s mx))"
proof (cases "length s \<le> mx")
  case True
  then show ?thesis by (simp add: truncate_to_def is_char_boundary_def)
next
  case False
  have len: "length (truncate_to s mx) = boundary_below s mx"
    using False boundary_below_le [of s mx] by (simp add: truncate_to_def)
  have "s = truncate_to s mx @ drop (boundary_below s mx) s" using False by (simp add: truncate_to_def)
  then show ?thesis unfolding len
    using boundary_below_le boundary_below_boundary boundary_below_max by blast
qed

theorem truncate_longest_witness:
  "4 \<le> length (truncate_to (replicate 9 CHR ''x'') 4)"
  using truncate_longest [of "replicate 9 CHR ''x''" 4 4] by (simp add: is_char_boundary_def is_cont_def)

end
