(* ===== verification/Session.thy ===== *)
theory Session
  imports Ingest
begin

text \<open>
  The connection state machine of the server (\<^verbatim>\<open>handle_conn\<close>, \<^verbatim>\<open>run_session\<close> and \<^verbatim>\<open>read_loop\<close> of
  \<^verbatim>\<open>crates/aegis-server/src/ingest.rs\<close>). The record \<open>server_env\<close> holds what a connection is
  given; \<open>session\<close> is everything it reads and writes, the shared store and the shared
  de-duplication window included. What happens between two steps of the read loop is an input of
  it: a frame to read, an elapsed deadline, the writer task sending a queued command, or another
  task replacing the shared state.
\<close>

section \<open>State\<close>

record ('t, 'sk) server_env =
  sv_tables :: "('t, bytes, bytes) table_ops"
  sv_postcard :: postcard
  sv_payload :: "event_payload codec"
  sv_messages :: "message codec"
  sv_crypto :: "'sk crypto"
  sv_pin :: bytes
  sv_now :: "nat \<Rightarrow> u64"
  sv_io :: "nat \<Rightarrow> bytes redb_io"

record 't session =
  sn_conn :: conn
  sn_seen :: dedup
  sn_global :: dedup
  sn_store :: "'t store"
  sn_bus :: "event list"
  sn_clk :: nat

datatype conn_end = TlsFailed | ExportFailed | FirstFrameTimeout | ProtoFailed proto_error | Finished | StillOpen

definition server_hello :: "bool \<Rightarrow> string option \<Rightarrow> message" where
  "server_hello accepted reason = ServerHello PROTO_VERSION accepted reason"

definition coerce_pubkey :: "bytes \<Rightarrow> bytes option" where
  "coerce_pubkey b = (if length b = 32 then Some b else None)"

section \<open>One event of a batch\<close>

definition ingest_event ::
  "('t, 'sk) server_env \<Rightarrow> string \<Rightarrow> event \<Rightarrow> 't session \<Rightarrow> bool \<times> 't session" where
  "ingest_event E aid ev s =
     (let (new1, seen') = dedup_insert (ev_id ev) (sn_seen s);
          s1 = s\<lparr>sn_seen := seen'\<rparr>
      in if \<not> new1 then (False, s1)
         else let (new2, global') = dedup_insert (ev_id ev) (sn_global s1);
                  s2 = s1\<lparr>sn_global := global'\<rparr>
              in if \<not> new2 then (False, s2)
                 else if \<not> is_ingestible (kind ev) then (False, s2)
                 else let ev1 = sanitize_ingest_fields (sv_now E (sn_clk s2)) (ev\<lparr>agent_id := aid\<rparr>);
                          s3 = s2\<lparr>sn_clk := sn_clk s2 + 1\<rparr>
                      in case write_event (sv_tables E) (sv_postcard E) (sv_payload E) (sv_io E (sn_clk s2)) ev1
                              (sn_store s2) of
                           (Inl e, st') \<Rightarrow> (False, s3\<lparr>sn_store := st'\<rparr>)
                         | (Inr _, st') \<Rightarrow> (True, s3\<lparr>sn_store := st', sn_bus := sn_bus s3 @ [ev1]\<rparr>))"

fun ingest_events ::
  "('t, 'sk) server_env \<Rightarrow> string \<Rightarrow> event list \<Rightarrow> u32 \<Rightarrow> 't session \<Rightarrow> u32 \<times> 't session" where
  "ingest_events E aid [] accepted s = (accepted, s)"
| "ingest_events E aid (ev # evs) accepted s =
     (case ingest_event E aid ev s of
        (True, s') \<Rightarrow> ingest_events E aid evs (accepted + 1) s'
      | (False, s') \<Rightarrow> ingest_events E aid evs accepted s')"

section \<open>The read loop\<close>

definition session_send :: "('t, 'sk) server_env \<Rightarrow> message \<Rightarrow> 't session \<Rightarrow> (proto_error + unit) \<times> 't session" where
  "session_send E m s =
     (case send_msg (sv_messages E) m (sn_conn s) of (r, c) \<Rightarrow> (r, s\<lparr>sn_conn := c\<rparr>))"

definition session_touch :: "('t, 'sk) server_env \<Rightarrow> string \<Rightarrow> 't session \<Rightarrow> 't session" where
  "session_touch E aid s =
     s\<lparr>sn_store := snd (touch_agent (sv_tables E) (sv_postcard E) (sv_io E (sn_clk s)) aid (sv_now E (sn_clk s)) (sn_store s)),
       sn_clk := sn_clk s + 1\<rparr>"

definition on_message ::
  "('t, 'sk) server_env \<Rightarrow> string \<Rightarrow> message \<Rightarrow> 't session \<Rightarrow> (proto_error + unit) \<times> 't session" where
  "on_message E aid m s =
     (case m of
        EventBatch batch_id events \<Rightarrow>
          (case ingest_events E aid events 0 s of
             (accepted, s1) \<Rightarrow> session_send E (BatchAck batch_id accepted) (session_touch E aid s1))
      | Ping \<Rightarrow> session_send E Pong s
      | _ \<Rightarrow> (Inr (), s))"

datatype 't loop_input =
    FrameReady
  | IdleElapsed
  | WriterCommand uuid server_command
  | OtherTasks dedup "'t store"

text \<open>\<open>None\<close>: the inputs ran out and the session is still open.\<close>

fun read_loop ::
  "('t, 'sk) server_env \<Rightarrow> string \<Rightarrow> 't loop_input list \<Rightarrow> 't session \<Rightarrow> (proto_error + unit) option \<times> 't session" where
  "read_loop E aid [] s = (None, s)"
| "read_loop E aid (IdleElapsed # ins) s = (Some (Inr ()), s)"
| "read_loop E aid (WriterCommand i cmd # ins) s = read_loop E aid ins (snd (session_send E (Command i cmd) s))"
| "read_loop E aid (OtherTasks g st # ins) s = read_loop E aid ins (s\<lparr>sn_global := g, sn_store := st\<rparr>)"
| "read_loop E aid (FrameReady # ins) s =
     (case recv_msg (sv_messages E) (sn_conn s) of
        (Inl Closed, c) \<Rightarrow> (Some (Inr ()), s\<lparr>sn_conn := c\<rparr>)
      | (Inl e, c) \<Rightarrow> (Some (Inl e), s\<lparr>sn_conn := c\<rparr>)
      | (Inr m, c) \<Rightarrow>
          (case on_message E aid m (s\<lparr>sn_conn := c\<rparr>) of
             (Inl e, s') \<Rightarrow> (Some (Inl e), s')
           | (Inr _, s') \<Rightarrow> read_loop E aid ins s'))"

definition run_session ::
  "('t, 'sk) server_env \<Rightarrow> ('c, 'h, 'm) mpsc \<Rightarrow> 'c \<Rightarrow> string \<Rightarrow> 't loop_input list \<Rightarrow> 't session \<Rightarrow> 'c router
   \<Rightarrow> conn_end \<times> 't session \<times> 'c router" where
  "run_session E M tx aid ins s r =
     (case read_loop E aid ins (s\<lparr>sn_seen := dedup_new DEDUP_CAPACITY\<rparr>) of
        (None, s') \<Rightarrow> (StillOpen, s', register aid tx r)
      | (Some (Inl e), s') \<Rightarrow> (ProtoFailed e, s', unregister M aid tx (register aid tx r))
      | (Some (Inr _), s') \<Rightarrow> (Finished, s', unregister M aid tx (register aid tx r)))"

section \<open>Enrollment and authentication\<close>

definition close_with :: "('t, 'sk) server_env \<Rightarrow> message \<Rightarrow> 't session \<Rightarrow> conn_end \<times> 't session" where
  "close_with E m s =
     (case session_send E m s of (Inl e, s') \<Rightarrow> (ProtoFailed e, s') | (Inr _, s') \<Rightarrow> (Finished, s'))"

fun enroll_response :: "store_error + enroll_outcome \<Rightarrow> message" where
  "enroll_response (Inr (Accepted aid)) = EnrollResponse True aid None"
| "enroll_response (Inr (Rejected reason)) = EnrollResponse False [] (Some reason)"
| "enroll_response (Inl e) = EnrollResponse False [] (Some ''internal error'')"

definition on_enroll ::
  "('t, 'sk) server_env \<Rightarrow> string \<Rightarrow> string \<Rightarrow> string \<Rightarrow> string \<Rightarrow> bytes \<Rightarrow> 't session \<Rightarrow> conn_end \<times> 't session" where
  "on_enroll E new_id token host os pubkey s =
     (case coerce_pubkey pubkey of
        Some pk \<Rightarrow>
          (case enroll (sv_tables E) (sv_postcard E) (sv_io E (sn_clk s)) new_id (sv_now E (sn_clk s)) token host os pk
                  (sn_store s) of
             (r, st') \<Rightarrow> close_with E (enroll_response r) (s\<lparr>sn_store := st', sn_clk := sn_clk s + 1\<rparr>))
      | None \<Rightarrow> close_with E (EnrollResponse False [] (Some ''agent_pubkey must be 32 bytes'')) s)"

text \<open>\<open>None\<close>: the peer is authenticated and has been told so.\<close>

definition authenticate ::
  "('t, 'sk) server_env \<Rightarrow> bytes \<Rightarrow> bool \<Rightarrow> uuid \<Rightarrow> u16 \<Rightarrow> string \<Rightarrow> bytes \<Rightarrow> 't session
   \<Rightarrow> conn_end option \<times> 't session" where
  "authenticate E exporter elapsed challenge_id version aid pubkey s =
     (let close = (\<lambda>reason s. map_prod Some id (close_with E (server_hello False (Some reason)) s))
      in if version \<noteq> PROTO_VERSION then close (''unsupported proto_version '' @ dec_str (unat version)) s
         else (case store_agent (sv_tables E) (sv_postcard E) (sv_io E (sn_clk s)) aid (sn_store s) of
                Inr None \<Rightarrow> close ''unknown agent'' s
              | Inl e \<Rightarrow> close ''internal error'' s
              | Inr (Some row) \<Rightarrow>
                  if coerce_pubkey pubkey \<noteq> Some (ag_pubkey row) then close ''pubkey mismatch'' s
                  else (case session_send E (Command challenge_id Noop) s of
                         (Inl e, s1) \<Rightarrow> (Some (ProtoFailed e), s1)
                       | (Inr _, s1) \<Rightarrow>
                           if elapsed then (Some FirstFrameTimeout, s1)
                           else (case recv_msg (sv_messages E) (sn_conn s1) of
                                   (Inl e, c) \<Rightarrow> (Some (ProtoFailed e), s1\<lparr>sn_conn := c\<rparr>)
                                 | (Inr reply, c) \<Rightarrow>
                                     let s2 = s1\<lparr>sn_conn := c\<rparr>
                                     in (case (case reply of
                                                CommandResult i ok detail \<Rightarrow> if ok \<and> i = challenge_id then detail else None
                                              | _ \<Rightarrow> None) of
                                          None \<Rightarrow> close ''malformed challenge response'' s2
                                        | Some sig \<Rightarrow>
                                            if \<not> verify_challenge (sv_crypto E) (ag_pubkey row) (sv_pin E) aid challenge_id
                                                   exporter sig
                                            then close ''authentication failed'' s2
                                            else (case session_send E (server_hello True None) s2 of
                                                    (Inl e, s3) \<Rightarrow> (Some (ProtoFailed e), s3)
                                                  | (Inr _, s3) \<Rightarrow> (None, session_touch E aid s3)))))))"

section \<open>A whole connection\<close>

text \<open>\<open>exporter\<close> is \<open>None\<close> when the keying material cannot be exported; \<open>elapsed1\<close> and \<open>elapsed2\<close>
  say whether the two first-frame deadlines pass.\<close>

definition handle_conn ::
  "('t, 'sk) server_env \<Rightarrow> ('c, 'h, 'm) mpsc \<Rightarrow> 'c \<Rightarrow> bool \<Rightarrow> bytes option \<Rightarrow> bool \<Rightarrow> bool \<Rightarrow> string \<Rightarrow> uuid
   \<Rightarrow> 't loop_input list \<Rightarrow> 't session \<Rightarrow> 'c router \<Rightarrow> conn_end \<times> 't session \<times> 'c router" where
  "handle_conn E M tx accepted exporter elapsed1 elapsed2 new_id challenge_id ins s r =
     (if \<not> accepted then (TlsFailed, s, r)
      else case exporter of
        None \<Rightarrow> (ExportFailed, s, r)
      | Some x \<Rightarrow>
          if elapsed1 then (FirstFrameTimeout, s, r)
          else (case recv_msg (sv_messages E) (sn_conn s) of
                  (Inl e, c) \<Rightarrow> (ProtoFailed e, s\<lparr>sn_conn := c\<rparr>, r)
                | (Inr first, c) \<Rightarrow>
                    let s1 = s\<lparr>sn_conn := c\<rparr>
                    in (case first of
                         EnrollRequest token host os pubkey \<Rightarrow>
                           (case on_enroll E new_id token host os pubkey s1 of (e, s2) \<Rightarrow> (e, s2, r))
                       | ClientHello version aid host os pubkey \<Rightarrow>
                           (case authenticate E x elapsed2 challenge_id version aid pubkey s1 of
                              (Some e, s2) \<Rightarrow> (e, s2, r)
                            | (None, s2) \<Rightarrow> run_session E M tx aid ins s2 r)
                       | _ \<Rightarrow> (Finished, s1, r))))"

section \<open>What reaches the bus\<close>

lemma session_send_frame [simp]:
  "sn_bus (snd (session_send E m s)) = sn_bus s" "sn_store (snd (session_send E m s)) = sn_store s"
  "sn_seen (snd (session_send E m s)) = sn_seen s" "sn_global (snd (session_send E m s)) = sn_global s"
  "sn_clk (snd (session_send E m s)) = sn_clk s"
  by (simp_all add: session_send_def split: prod.splits)

lemma session_sendD:
  "session_send E m s = (r, s') \<Longrightarrow> sn_bus s' = sn_bus s \<and> sn_store s' = sn_store s \<and> sn_clk s' = sn_clk s"
  using session_send_frame [of E m s] by simp

lemma session_touch_bus [simp]: "sn_bus (session_touch E aid s) = sn_bus s"
  by (simp add: session_touch_def)

text \<open>An event the session of agent \<open>aid\<close> may emit: it came in as \<open>raw\<close>, carries the session's
  identity, a raw telemetry kind and sane fields.\<close>

definition emitted_for :: "('t, 'sk) server_env \<Rightarrow> string \<Rightarrow> event \<Rightarrow> bool" where
  "emitted_for E aid ev \<longleftrightarrow> agent_id ev = aid \<and> is_ingestible (kind ev) \<and> (\<exists>n. sane (sv_now E n) ev)"

lemma sanitize_sane_ex: "\<exists>n. sane (f n) (sanitize_ingest_fields (f k) ev)"
  using sanitize_sane by blast

lemma ingest_event_bus:
  assumes "ingest_event E aid ev s = (ok, s')"
  shows "(ok \<longrightarrow> (\<exists>ev1. sn_bus s' = sn_bus s @ [ev1] \<and> emitted_for E aid ev1 \<and> ev_id ev1 = ev_id ev \<and> payload ev1 = payload ev))
       \<and> (\<not> ok \<longrightarrow> sn_bus s' = sn_bus s)"
  using assms
  by (auto simp: ingest_event_def Let_def emitted_for_def intro: sanitize_sane_ex split: prod.splits if_splits sum.splits)

lemma ingest_events_bus:
  "ingest_events E aid evs acc s = (acc', s') \<Longrightarrow>
   \<exists>new. sn_bus s' = sn_bus s @ new \<and> (\<forall>ev \<in> set new. emitted_for E aid ev) \<and> acc' = acc + word_of_nat (length new)"
proof (induction evs arbitrary: acc s)
  case Nil
  then show ?case by simp
next
  case (Cons ev evs)
  obtain ok s1 where step: "ingest_event E aid ev s = (ok, s1)" by fastforce
  obtain new where new: "sn_bus s' = sn_bus s1 @ new" "\<forall>ev \<in> set new. emitted_for E aid ev"
    "acc' = (if ok then acc + 1 else acc) + word_of_nat (length new)"
    using Cons step by (cases ok) (auto 4 3)
  show ?case
  proof (cases ok)
    case True
    then obtain ev1 where "sn_bus s1 = sn_bus s @ [ev1]" "emitted_for E aid ev1"
      using ingest_event_bus [OF step] by auto
    then show ?thesis using new True by (intro exI [of _ "ev1 # new"]) simp
  next
    case False
    then show ?thesis using new ingest_event_bus [OF step] by auto
  qed
qed

lemma on_message_bus:
  assumes "on_message E aid m s = (r, s')"
  shows "\<exists>new. sn_bus s' = sn_bus s @ new \<and> (\<forall>ev \<in> set new. emitted_for E aid ev)"
proof (cases "\<exists>b evs. m = EventBatch b evs")
  case True
  then obtain b evs where m: "m = EventBatch b evs" by auto
  obtain acc s1 where i: "ingest_events E aid evs 0 s = (acc, s1)" by fastforce
  have "s' = snd (session_send E (BatchAck b acc) (session_touch E aid s1))"
    using assms m i by (simp add: on_message_def)
  then show ?thesis using ingest_events_bus [OF i] by auto
next
  case False
  then have "s' = s \<or> s' = snd (session_send E Pong s)"
    using assms by (cases m) (auto simp: on_message_def)
  then show ?thesis by auto
qed

lemma read_loop_bus:
  "read_loop E aid ins s = (r, s') \<Longrightarrow>
   \<exists>new. sn_bus s' = sn_bus s @ new \<and> (\<forall>ev \<in> set new. emitted_for E aid ev)"
proof (induction ins arbitrary: s)
  case (Cons i ins)
  show ?case
  proof (cases i)
    case FrameReady
    obtain res c where rc: "recv_msg (sv_messages E) (sn_conn s) = (res, c)" by fastforce
    show ?thesis
    proof (cases res)
      case (Inl e)
      then show ?thesis using Cons.prems FrameReady rc by (cases e) auto
    next
      case (Inr m)
      obtain r1 s1 where om: "on_message E aid m (s\<lparr>sn_conn := c\<rparr>) = (r1, s1)" by fastforce
      obtain new where new: "sn_bus s1 = sn_bus s @ new" "\<forall>ev \<in> set new. emitted_for E aid ev"
        using on_message_bus [OF om] by auto
      show ?thesis
      proof (cases r1)
        case (Inl e)
        then show ?thesis using Cons.prems FrameReady rc Inr om new by auto
      next
        case r1: (Inr u)
        then have "read_loop E aid ins s1 = (r, s')" using Cons.prems FrameReady rc Inr om by simp
        from Cons.IH [OF this] show ?thesis using new by auto
      qed
    qed
  next
    case (WriterCommand x cmd)
    then show ?thesis using Cons by fastforce
  next
    case (OtherTasks g st)
    then show ?thesis using Cons by fastforce
  qed (use Cons in auto)
qed simp

lemma close_with_bus: "close_with E m s = (e, s') \<Longrightarrow> sn_bus s' = sn_bus s \<and> sn_store s' = sn_store s"
  by (auto simp: close_with_def dest: session_sendD split: prod.splits sum.splits)

section \<open>Who gets in\<close>

text \<open>What a completed authentication has established.\<close>

definition authenticated ::
  "('t, 'sk) server_env \<Rightarrow> bytes \<Rightarrow> uuid \<Rightarrow> string \<Rightarrow> 't store \<Rightarrow> bool" where
  "authenticated E exporter challenge_id aid st \<longleftrightarrow>
     (\<exists>io row sig. store_agent (sv_tables E) (sv_postcard E) io aid st = Inr (Some row)
        \<and> verify_challenge (sv_crypto E) (ag_pubkey row) (sv_pin E) aid challenge_id exporter sig)"

lemma authenticate_None:
  assumes "authenticate E x elapsed cid version aid pubkey s = (None, s')"
  shows "authenticated E x cid aid (sn_store s) \<and> version = PROTO_VERSION \<and> \<not> elapsed \<and> sn_bus s' = sn_bus s"
proof -
  have close: "map_prod Some id (close_with E m t) \<noteq> (None, s')" for m t
    by (cases "close_with E m t") auto
  obtain row s1 reply c sig s3 where
    ok: "version = PROTO_VERSION" "\<not> elapsed"
      "store_agent (sv_tables E) (sv_postcard E) (sv_io E (sn_clk s)) aid (sn_store s) = Inr (Some row)"
      "verify_challenge (sv_crypto E) (ag_pubkey row) (sv_pin E) aid cid x sig"
    and run: "session_send E (Command cid Noop) s = (Inr (), s1)"
      "session_send E (server_hello True None) (s1\<lparr>sn_conn := c\<rparr>) = (Inr (), s3)"
      "s' = session_touch E aid s3"
    using assms close
    by (auto simp: authenticate_def Let_def split: if_splits sum.splits option.splits prod.splits)
  have "sn_bus s' = sn_bus s" using session_sendD [OF run(1)] session_sendD [OF run(2)] run(3) by simp
  then show ?thesis using ok by (auto simp: authenticated_def)
qed

lemma authenticate_Some_bus:
  assumes "authenticate E x elapsed cid version aid pubkey s = (Some e, s')"
  shows "sn_bus s' = sn_bus s"
proof -
  have close: "map_prod Some id (close_with E m t) = (Some e, s') \<Longrightarrow> sn_bus s' = sn_bus t" for m t
    by (cases "close_with E m t") (auto dest: close_with_bus)
  show ?thesis using assms
    by (auto simp: authenticate_def Let_def split: if_splits sum.splits option.splits prod.splits
        dest!: close session_sendD)
qed

lemma handle_conn_bus:
  assumes "handle_conn E M tx accepted exporter el1 el2 new_id cid ins s r = (e, s', r')"
    and "sn_bus s' \<noteq> sn_bus s"
  shows "\<exists>x aid new. exporter = Some x \<and> authenticated E x cid aid (sn_store s)
     \<and> sn_bus s' = sn_bus s @ new \<and> (\<forall>ev \<in> set new. emitted_for E aid ev)"
proof -
  obtain x first c where x: "accepted" "exporter = Some x" "recv_msg (sv_messages E) (sn_conn s) = (Inr first, c)"
    using assms by (auto simp: handle_conn_def split: if_splits option.splits sum.splits prod.splits)
  let ?s1 = "s\<lparr>sn_conn := c\<rparr>"
  show ?thesis
  proof (cases "\<exists>v a h os pk. first = ClientHello v a h os pk")
    case False
    then have "sn_bus s' = sn_bus s"
      using assms(1) x
      by (auto simp: handle_conn_def Let_def on_enroll_def split: if_splits message.splits prod.splits option.splits
          dest!: close_with_bus)
    then show ?thesis using assms(2) by simp
  next
    case True
    then obtain v a h os pk where first: "first = ClientHello v a h os pk" by auto
    obtain res s2 where au: "authenticate E x el2 cid v a pk ?s1 = (res, s2)" by fastforce
    show ?thesis
    proof (cases res)
      case (Some e2)
      then have "s' = s2" using assms x first au by (auto simp: handle_conn_def Let_def split: if_splits)
      then show ?thesis using authenticate_Some_bus au Some assms(2) by fastforce
    next
      case None
      note ok = authenticate_None [OF au [unfolded None]]
      have run: "run_session E M tx a ins s2 r = (e, s', r')"
        using assms(1) assms(2) x first au None by (auto simp: handle_conn_def Let_def split: if_splits)
      obtain res2 s3 where rl: "read_loop E a ins (s2\<lparr>sn_seen := dedup_new DEDUP_CAPACITY\<rparr>) = (res2, s3)" by fastforce
      have "s' = s3" using run rl by (auto simp: run_session_def split: option.splits sum.splits)
      then show ?thesis using read_loop_bus [OF rl] ok x(2) by auto
    qed
  qed
qed

end
