(* ===== verification/Config.thy ===== *)
theory Config
  imports Text
begin

text \<open>
  The forwarder's configuration, the server-URL parser and the host facts
  (\<^verbatim>\<open>plugins/plugin-transport/src/config.rs\<close>). The contents of the two files under \<^verbatim>\<open>/proc\<close> and
  \<^verbatim>\<open>std::env::consts::OS\<close> are arguments.
\<close>

section \<open>Server URL\<close>

datatype url_error = HttpScheme | EmptyAddress | InvalidPort

definition parse_server_url :: "string \<Rightarrow> url_error + string \<times> u16" where
  "parse_server_url server =
     (let trimmed = str_trim server
      in if starts_with ''http://'' trimmed then Inl HttpScheme
         else let s0 = (case strip_prefix ''https://'' trimmed of None \<Rightarrow> trimmed | Some r \<Rightarrow> r);
                  s = trim_end_chars (\<lambda>ch. ch = ''/'') s0
              in if s = [] then Inl EmptyAddress
                 else (case rsplit_once CHR '':'' s of
                         Some (host, port) \<Rightarrow>
                           if host \<noteq> [] then
                             (case parse_unsigned 16 port of
                                None \<Rightarrow> Inl InvalidPort
                              | Some p \<Rightarrow> Inr (host, word_of_nat p))
                           else Inr (s, 8443)
                       | None \<Rightarrow> Inr (s, 8443)))"

section \<open>Host facts\<close>

definition hostname :: "string option \<Rightarrow> string" where
  "hostname proc_hostname = (case map_option str_trim proc_hostname of None \<Rightarrow> ''unknown'' | Some h \<Rightarrow> h)"

definition os_string :: "string \<Rightarrow> string option \<Rightarrow> string" where
  "os_string base osrelease =
     (let release = (case map_option str_trim osrelease of None \<Rightarrow> [] | Some r \<Rightarrow> r)
      in if release = [] then base else base @ '' '' @ release)"

definition host_facts :: "string option \<Rightarrow> string \<Rightarrow> string option \<Rightarrow> string \<times> string" where
  "host_facts proc_hostname base osrelease = (hostname proc_hostname, os_string base osrelease)"

section \<open>Tunables\<close>

record transport_config =
  server :: string
  batch_max_events :: nat
  batch_max_bytes :: nat
  flush_interval_ms :: u64
  ring_capacity :: nat
  spill_max_bytes :: u64
  ack_timeout_ms :: u64
  backoff_min_ms :: u64
  backoff_max_ms :: u64
  keepalive_ms :: u64
  keepalive_timeout_ms :: u64
  max_in_flight :: nat

definition default_config :: transport_config where
  "default_config =
     \<lparr>server = [], batch_max_events = 512, batch_max_bytes = 1048576, flush_interval_ms = 1000,
      ring_capacity = 50000, spill_max_bytes = 67108864, ack_timeout_ms = 30000,
      backoff_min_ms = 500, backoff_max_ms = 30000, keepalive_ms = 15000,
      keepalive_timeout_ms = 45000, max_in_flight = 1\<rparr>"

section \<open>What the parser accepts\<close>

lemma trim_end_slashes:
  assumes "is_ascii s" and "s \<noteq> []" and "last s \<noteq> CHR ''/''"
  shows "trim_end_chars (\<lambda>ch. ch = ''/'') (s @ replicate k CHR ''/'') = s"
proof -
  have asc: "is_ascii (s @ replicate k CHR ''/'')" using assms(1) by simp
  have "dropWhile (\<lambda>ch. ch = ''/'') (rev (str_chars (s @ replicate k CHR ''/''))) = rev (map (\<lambda>c. [c]) s)"
    using assms(2,3) by (simp add: str_chars_ascii [OF asc] dropWhile_append dropWhile_eq_self_iff hd_rev last_map)
  then show ?thesis unfolding trim_end_chars_def by simp
qed

lemma parse_server_url_address:
  assumes "is_ascii host" and "host \<noteq> []" and "CHR '':'' \<notin> set host" and "CHR ''/'' \<notin> set host"
    and "p < 2 ^ 16"
  shows "parse_server_url (''https://'' @ host @ CHR '':'' # dec_str p @ replicate k CHR ''/'') = Inr (host, word_of_nat p)"
proof -
  let ?s = "host @ CHR '':'' # dec_str p"
  let ?u = "''https://'' @ ?s @ replicate k CHR ''/''"
  have digit: "is_digit (last (dec_str p))" "dec_str p \<noteq> []"
    using dec_str_digits [of p] by (simp_all add: list_all_iff)
  have asc: "is_ascii ?u" using assms(1) dec_str_props(1) by simp
  have lst: "last ?u = (if k = 0 then last (dec_str p) else CHR ''/'')" using digit(2) by simp
  have "\<not> char_is_whitespace [last ?u]"
    unfolding lst using is_digit_props [OF digit(1)] by (simp add: char_is_whitespace_def)
  moreover have "\<not> char_is_whitespace [hd ?u]" by (simp add: char_is_whitespace_def)
  ultimately have trim: "str_trim ?u = ?u" using asc by (intro str_trim_id) simp_all
  have "is_ascii ?s" using assms(1) dec_str_props(1) by simp
  moreover have "last ?s \<noteq> CHR ''/''" using digit is_digit_props by auto
  ultimately have slashes: "trim_end_chars (\<lambda>ch. ch = ''/'') (?s @ replicate k CHR ''/'') = ?s"
    by (intro trim_end_slashes) simp_all
  have split: "rsplit_once CHR '':'' ?s = Some (host, dec_str p)"
    using dec_str_props(2) by (rule rsplit_once_append)
  have pre: "strip_prefix ''https://'' ?u = Some (?s @ replicate k CHR ''/'')"
    by (rule strip_prefix_append)
  have http: "\<not> starts_with ''http://'' ?u" by (simp add: starts_with_def)
  have "parse_server_url ?u = Inr (host, word_of_nat p)"
    unfolding parse_server_url_def Let_def trim using http assms(2)
    by (simp only: pre slashes split parse_unsigned_dec_str [OF assms(5)] option.case prod.case if_False if_True) simp
  then show ?thesis by simp
qed

section \<open>Properties\<close>

text \<open>An address \<^verbatim>\<open>https://host:port\<close>, with any number of trailing slashes, parses to its host and
  port for every port number and every ASCII host name without colon and slash; and every address
  that starts with \<^verbatim>\<open>http://\<close> after trimming is refused.\<close>

theorem server_url_parsed:
  "(is_ascii host \<and> host \<noteq> [] \<and> CHR '':'' \<notin> set host \<and> CHR ''/'' \<notin> set host \<and> p < 2 ^ 16
      \<longrightarrow> parse_server_url (''https://'' @ host @ CHR '':'' # dec_str p @ replicate k CHR ''/'') = Inr (host, word_of_nat p))
   \<and> (starts_with ''http://'' (str_trim url) \<longrightarrow> parse_server_url url = Inl HttpScheme)"
  using parse_server_url_address [of host p k] by (auto simp: parse_server_url_def)

theorem server_url_parsed_witness:
  "parse_server_url (''https://'' @ ''host'' @ CHR '':'' # dec_str 9000 @ replicate 1 CHR ''/'') = Inr (''host'', word_of_nat 9000)"
  using server_url_parsed [of "''host''" 9000 1] by simp

end
