(* ===== verification/Handshake.thy ===== *)
theory Handshake
  imports Auth Config
begin

text \<open>
  The agent's side of session authentication (\<^verbatim>\<open>handshake\<close> in
  \<^verbatim>\<open>plugins/plugin-transport/src/actor.rs\<close>): hello, challenge, signature, verdict. The host facts
  and the keying material are arguments; the Debug rendering of an unexpected message is left out
  of the reason strings.
\<close>

datatype handshake_err = HsFatal string | HsRetry string

fun proto_error_text :: "proto_error \<Rightarrow> string" where
  "proto_error_text Io = ''io error''"
| "proto_error_text Serde = ''serialization error''"
| "proto_error_text (FrameTooLarge n) =
     ''frame of '' @ dec_str n @ '' bytes exceeds maximum '' @ dec_str MAX_FRAME_BYTES"
| "proto_error_text Closed = ''connection closed by peer''"

definition client_hello :: "'sk crypto \<Rightarrow> 'sk \<Rightarrow> string \<Rightarrow> string \<times> string \<Rightarrow> message" where
  "client_hello C sk aid facts = ClientHello PROTO_VERSION aid (fst facts) (snd facts) (verifying_key C sk)"

definition handshake_verdict :: "message \<Rightarrow> handshake_err + unit" where
  "handshake_verdict resp =
     (case resp of
        ServerHello version accepted reason \<Rightarrow>
          if accepted then Inr ()
          else if version \<noteq> PROTO_VERSION then
            Inl (HsFatal (''server speaks proto_version '' @ dec_str (unat version) @ '', agent speaks ''
                          @ dec_str (unat PROTO_VERSION)))
          else Inl (HsRetry (''server rejected session: ''
                             @ (case reason of Some r \<Rightarrow> r | None \<Rightarrow> ''no reason given'')))
      | _ \<Rightarrow> Inl (HsRetry ''expected ServerHello''))"

definition handshake ::
  "'sk crypto \<Rightarrow> message codec \<Rightarrow> string \<Rightarrow> 'sk \<Rightarrow> string \<times> string \<Rightarrow> bytes \<Rightarrow> bytes \<Rightarrow> conn
   \<Rightarrow> (handshake_err + unit) \<times> conn" where
  "handshake C mc aid sk facts exporter bound_pin c =
     (case send_msg mc (client_hello C sk aid facts) c of
        (Inl e, c1) \<Rightarrow> (Inl (HsRetry (''send ClientHello: '' @ proto_error_text e)), c1)
      | (Inr _, c1) \<Rightarrow>
     (case recv_msg mc c1 of
        (Inl e, c2) \<Rightarrow> (Inl (HsRetry (''read challenge: '' @ proto_error_text e)), c2)
      | (Inr challenge, c2) \<Rightarrow>
     (case (case challenge of Command i cmd \<Rightarrow> Some (i, cmd) | _ \<Rightarrow> None) of
        None \<Rightarrow> (Inl (HsRetry ''expected Command challenge''), c2)
      | Some (challenge_id, cmd) \<Rightarrow>
          if cmd \<noteq> Noop then (Inl (HsRetry ''expected Noop challenge''), c2)
          else let nonce = nonce_from_challenge C challenge_id;
                   sig_b64 = sign_auth C sk bound_pin aid nonce exporter
     in (case send_msg mc (CommandResult challenge_id True (Some sig_b64)) c2 of
        (Inl e, c3) \<Rightarrow> (Inl (HsRetry (''send auth: '' @ proto_error_text e)), c3)
      | (Inr _, c3) \<Rightarrow>
     (case recv_msg mc c3 of
        (Inl e, c4) \<Rightarrow> (Inl (HsRetry (''read ServerHello: '' @ proto_error_text e)), c4)
      | (Inr resp, c4) \<Rightarrow> (handshake_verdict resp, c4))))))"

section \<open>An honest exchange, the agent's half\<close>

lemma handshake_honest:
  assumes "sendable mc (client_hello C sk aid facts)" "sendable mc (Command cid Noop)"
    and "sendable mc (CommandResult cid True (Some (sign_auth C sk bound_pin aid (nonce_from_challenge C cid) x)))"
    and "sendable mc (ServerHello v True reason)"
    and "wok c = []" "stream_ok (inp c)"
    and "stream_bytes (inp c) = frame mc (Command cid Noop) @ frame mc (ServerHello v True reason) @ rest"
  shows "\<exists>c'. handshake C mc aid sk facts x bound_pin c = (Inr (), c')
    \<and> out c' = out c @ frame mc (client_hello C sk aid facts)
        @ frame mc (CommandResult cid True (Some (sign_auth C sk bound_pin aid (nonce_from_challenge C cid) x)))
    \<and> stream_ok (inp c') \<and> stream_bytes (inp c') = rest"
proof -
  let ?hello = "client_hello C sk aid facts"
  let ?reply = "CommandResult cid True (Some (sign_auth C sk bound_pin aid (nonce_from_challenge C cid) x))"
  let ?c1 = "c\<lparr>out := out c @ frame mc ?hello\<rparr>"
  have s1: "send_msg mc ?hello c = (Inr (), ?c1)" using assms(1,5) by (rule send_msg_sendable)
  obtain g1 where r1: "recv_msg mc ?c1 = (Inr (Command cid Noop), ?c1\<lparr>inp := g1\<rparr>)" "stream_ok g1"
    "stream_bytes g1 = frame mc (ServerHello v True reason) @ rest"
    using recv_msg_frame [OF assms(2), of ?c1] assms(6,7) by auto
  let ?c3 = "?c1\<lparr>inp := g1, out := out ?c1 @ frame mc ?reply\<rparr>"
  have s2: "send_msg mc ?reply (?c1\<lparr>inp := g1\<rparr>) = (Inr (), ?c3)"
    using send_msg_sendable [OF assms(3), of "?c1\<lparr>inp := g1\<rparr>"] assms(5) by simp
  obtain g2 where r2: "recv_msg mc ?c3 = (Inr (ServerHello v True reason), ?c3\<lparr>inp := g2\<rparr>)" "stream_ok g2"
    "stream_bytes g2 = rest"
    using recv_msg_frame [OF assms(4), of ?c3] r1(2,3) by auto
  have "handshake C mc aid sk facts x bound_pin c = (Inr (), ?c3\<lparr>inp := g2\<rparr>)"
    unfolding handshake_def s1 prod.case sum.case r1(1) message.case option.case Let_def s2 r2(1)
    by (simp add: handshake_verdict_def s2 [unfolded simp_thms] r2(1))
  then show ?thesis using r2(2,3) by simp
qed

end
