(* ===== verification/Interop.thy ===== *)
theory Interop
  imports Session Handshake
begin

text \<open>
  The two ends of a connection together: an enrolled agent that runs \<open>handshake\<close> against the
  server's \<open>handle_conn\<close> is accepted, and its first batch is stored, put on the bus and
  acknowledged. The byte streams are consistent: each end reads exactly what the other wrote.
\<close>

section \<open>The server's half of an honest session\<close>

definition good_env :: "('t, 'sk) server_env \<Rightarrow> bool" where
  "good_env E \<longleftrightarrow> (\<forall>n. io_good (sv_io E n)) \<and> datastore (sv_tables E) (sv_postcard E)"

lemma session_send_sendable:
  assumes "sendable (sv_messages E) m" and "wok (sn_conn s) = []"
  shows "session_send E m s = (Inr (), s\<lparr>sn_conn := (sn_conn s)\<lparr>out := out (sn_conn s) @ frame (sv_messages E) m\<rparr>\<rparr>)"
  by (simp add: session_send_def send_msg_sendable [OF assms])

lemma store_agent_good:
  assumes "io_good io" and "tget T (t_agents st) (str_bytes aid) = Some v" and "dec (pc_agent P) v = Some row"
  shows "store_agent T P io aid st = Inr (Some row)"
  using assms by (simp add: store_agent_def read_cell_def io_goodD)

lemma authenticate_honest:
  fixes E :: "('t, 'sk) server_env"
  assumes "io_good (sv_io E (sn_clk s))"
    and "tget (sv_tables E) (t_agents (sn_store s)) (str_bytes aid) = Some v"
    and "dec (pc_agent (sv_postcard E)) v = Some row" and "length (ag_pubkey row) = 32"
    and sig: "verify_challenge (sv_crypto E) (ag_pubkey row) (sv_pin E) aid cid x sig"
    and snd: "sendable (sv_messages E) (Command cid Noop)" "sendable (sv_messages E) (server_hello True None)"
      "sendable (sv_messages E) (CommandResult cid True (Some sig))"
    and "wok (sn_conn s) = []" and "stream_ok (inp (sn_conn s))"
    and "stream_bytes (inp (sn_conn s)) = frame (sv_messages E) (CommandResult cid True (Some sig)) @ rest"
  shows "\<exists>segs. stream_ok segs \<and> stream_bytes segs = rest \<and>
     authenticate E x False cid PROTO_VERSION aid (ag_pubkey row) s =
       (None, session_touch E aid (s\<lparr>sn_conn := \<lparr>inp = segs,
          out = out (sn_conn s) @ frame (sv_messages E) (Command cid Noop) @ frame (sv_messages E) (server_hello True None),
          wok = []\<rparr>\<rparr>))"
proof -
  let ?mc = "sv_messages E"
  let ?c1 = "(sn_conn s)\<lparr>out := out (sn_conn s) @ frame ?mc (Command cid Noop)\<rparr>"
  have s1: "session_send E (Command cid Noop) s = (Inr (), s\<lparr>sn_conn := ?c1\<rparr>)"
    using snd(1) assms(9) by (rule session_send_sendable)
  obtain segs where r: "recv_msg ?mc ?c1 = (Inr (CommandResult cid True (Some sig)), ?c1\<lparr>inp := segs\<rparr>)"
    "stream_ok segs" "stream_bytes segs = rest"
    using recv_msg_frame [OF snd(3), of ?c1 rest] assms(10,11) by auto
  let ?s2 = "s\<lparr>sn_conn := ?c1\<lparr>inp := segs\<rparr>\<rparr>"
  have s2: "session_send E (server_hello True None) ?s2 = (Inr (), ?s2\<lparr>sn_conn := (?c1\<lparr>inp := segs\<rparr>)\<lparr>out := out ?c1 @ frame ?mc (server_hello True None)\<rparr>\<rparr>)"
    using session_send_sendable [OF snd(2), of ?s2] assms(9) by simp
  have au: "authenticate E x False cid PROTO_VERSION aid (ag_pubkey row) s =
      (None, session_touch E aid (?s2\<lparr>sn_conn := (?c1\<lparr>inp := segs\<rparr>)\<lparr>out := out ?c1 @ frame ?mc (server_hello True None)\<rparr>\<rparr>))"
    using store_agent_good [OF assms(1-3)] assms(4) s1 r(1) sig s2
    by (simp add: authenticate_def Let_def coerce_pubkey_def)
  have "(?c1\<lparr>inp := segs\<rparr>)\<lparr>out := out ?c1 @ frame ?mc (server_hello True None)\<rparr>
      = \<lparr>inp = segs, out = out (sn_conn s) @ frame ?mc (Command cid Noop) @ frame ?mc (server_hello True None), wok = []\<rparr>"
    using assms(9) by (cases "sn_conn s") simp
  then show ?thesis using au r(2,3) by auto
qed

lemma write_event_good:
  assumes "io_good io" and "enc pj (payload ev) = Some json" and "enc (pc_event P) (event_row_of json ev) = Some b"
    and "tget T (t_index st) (str_bytes (agent_id ev)) = None"
    and "enc (pc_index P) [composite_key (ts_ns ev) (ev_id ev)] = Some ib"
  shows "\<exists>st'. write_event T P pj io ev st = (Inr (), st')"
  using assms by (simp add: write_event_def Let_def io_goodD read_cell_def push_index_key_def AGENT_EVENT_INDEX_LIMIT_def)

lemma handle_conn_session:
  assumes "recv_msg (sv_messages E) (sn_conn s) = (Inr (ClientHello v aid h os pk), c)"
    and "authenticate E x el2 cid v aid pk (s\<lparr>sn_conn := c\<rparr>) = (None, s2)"
  shows "handle_conn E M tx True (Some x) False el2 new_id cid ins s r = run_session E M tx aid ins s2 r"
  using assms by (simp add: handle_conn_def)

text \<open>A fresh raw event whose rows can be written is stored, emitted and counted.\<close>

lemma ingest_event_fresh:
  assumes "dedup_ok (sn_seen s)" and "dedup_ok (sn_global s)"
    and "ev_id ev \<notin> set (dw_order (sn_seen s))" and "ev_id ev \<notin> set (dw_order (sn_global s))"
    and "is_ingestible (kind ev)"
    and "ev1 = sanitize_ingest_fields (sv_now E (sn_clk s)) (ev\<lparr>agent_id := aid\<rparr>)"
    and "write_event (sv_tables E) (sv_postcard E) (sv_payload E) (sv_io E (sn_clk s)) ev1 (sn_store s) = (Inr (), st')"
  shows "\<exists>s'. ingest_event E aid ev s = (True, s') \<and> sn_bus s' = sn_bus s @ [ev1] \<and> sn_store s' = st'
     \<and> sn_conn s' = sn_conn s"
proof -
  obtain n1 seen' where s1: "dedup_insert (ev_id ev) (sn_seen s) = (n1, seen')" by fastforce
  obtain n2 g' where s2: "dedup_insert (ev_id ev) (sn_global s) = (n2, g')" by fastforce
  have "n1" "n2" using dedup_insert_spec [OF assms(1) s1] dedup_insert_spec [OF assms(2) s2] assms(3,4) by simp_all
  then show ?thesis using s1 s2 assms(5-7) by (simp add: ingest_event_def Let_def)
qed

text \<open>The server's half: hello, signed reply, then a batch of one fresh event.\<close>

lemma honest_batch:
  fixes E :: "('t, 'sk) server_env"
  defines "mc \<equiv> sv_messages E"
  assumes "\<forall>n. io_good (sv_io E n)"
    and agent: "tget (sv_tables E) (t_agents (sn_store s)) (str_bytes aid) = Some v"
      "dec (pc_agent (sv_postcard E)) v = Some row" "length (ag_pubkey row) = 32"
    and sig: "verify_challenge (sv_crypto E) (ag_pubkey row) (sv_pin E) aid cid x sig"
    and snd: "sendable mc (ClientHello PROTO_VERSION aid h os (ag_pubkey row))" "sendable mc (Command cid Noop)"
      "sendable mc (CommandResult cid True (Some sig))" "sendable mc (server_hello True None)"
      "sendable mc (EventBatch b [ev])" "sendable mc (BatchAck b 1)"
    and wire: "wok (sn_conn s) = []" "out (sn_conn s) = []" "stream_ok (inp (sn_conn s))"
      "stream_bytes (inp (sn_conn s)) = frame mc (ClientHello PROTO_VERSION aid h os (ag_pubkey row))
         @ frame mc (CommandResult cid True (Some sig)) @ frame mc (EventBatch b [ev])"
    and ev: "dedup_ok (sn_global s)" "ev_id ev \<notin> set (dw_order (sn_global s))" "is_ingestible (kind ev)"
    and ev1: "ev1 = sanitize_ingest_fields (sv_now E (sn_clk s + 1)) (ev\<lparr>agent_id := aid\<rparr>)"
    and wr: "\<forall>st. t_index st = t_index (sn_store s) \<longrightarrow> (\<exists>st'.
        write_event (sv_tables E) (sv_postcard E) (sv_payload E) (sv_io E (sn_clk s + 1)) ev1 st = (Inr (), st'))"
  shows "\<exists>s'. handle_conn E M tx True (Some x) False False new_id cid [FrameReady] s r = (StillOpen, s', register aid tx r)
     \<and> sn_bus s' = sn_bus s @ [ev1]
     \<and> out (sn_conn s') = frame mc (Command cid Noop) @ frame mc (server_hello True None) @ frame mc (BatchAck b 1)"
proof -
  obtain g1 where r1: "recv_msg mc (sn_conn s) = (Inr (ClientHello PROTO_VERSION aid h os (ag_pubkey row)), (sn_conn s)\<lparr>inp := g1\<rparr>)"
    "stream_ok g1" "stream_bytes g1 = frame mc (CommandResult cid True (Some sig)) @ frame mc (EventBatch b [ev])"
    using recv_msg_frame [OF snd(1) wire(3,4)] by auto
  let ?s1 = "s\<lparr>sn_conn := (sn_conn s)\<lparr>inp := g1\<rparr>\<rparr>"
  obtain g2 s2 where a: "stream_ok g2" "stream_bytes g2 = frame mc (EventBatch b [ev])"
    "authenticate E x False cid PROTO_VERSION aid (ag_pubkey row) ?s1 = (None, s2)"
    "s2 = session_touch E aid (?s1\<lparr>sn_conn := \<lparr>inp = g2,
          out = frame mc (Command cid Noop) @ frame mc (server_hello True None), wok = []\<rparr>\<rparr>)"
    using authenticate_honest [of E ?s1 aid v row cid x sig "frame mc (EventBatch b [ev])"] assms(2) agent sig
      snd(2-4) wire(1,2) r1(2,3) by (auto simp: mc_def)
  let ?s3 = "s2\<lparr>sn_seen := dedup_new DEDUP_CAPACITY\<rparr>"
  have c2: "sn_conn s2 = \<lparr>inp = g2, out = frame mc (Command cid Noop) @ frame mc (server_hello True None), wok = []\<rparr>"
    "sn_bus s2 = sn_bus s" "sn_global s2 = sn_global s" "sn_clk s2 = sn_clk s + 1"
    unfolding a(4) session_touch_def by simp_all
  have ix: "t_index (sn_store s2) = t_index (sn_store s)"
    unfolding a(4) session_touch_def
    by (simp add: touch_agent_def split: sum.split option.split)
  obtain g3 where r3: "recv_msg mc (sn_conn s2) = (Inr (EventBatch b [ev]), (sn_conn s2)\<lparr>inp := g3\<rparr>)"
    using recv_msg_frame [OF snd(5), of "sn_conn s2" "[]"] a(1,2) c2(1) by auto
  let ?s4 = "?s3\<lparr>sn_conn := (sn_conn s2)\<lparr>inp := g3\<rparr>\<rparr>"
  obtain st' where w: "write_event (sv_tables E) (sv_postcard E) (sv_payload E) (sv_io E (sn_clk s + 1)) ev1 (sn_store s2) = (Inr (), st')"
    using wr ix by blast
  have p: "dedup_ok (sn_seen ?s4)" "dedup_ok (sn_global ?s4)" "ev_id ev \<notin> set (dw_order (sn_seen ?s4))"
    "ev_id ev \<notin> set (dw_order (sn_global ?s4))" "ev1 = sanitize_ingest_fields (sv_now E (sn_clk ?s4)) (ev\<lparr>agent_id := aid\<rparr>)"
    "write_event (sv_tables E) (sv_postcard E) (sv_payload E) (sv_io E (sn_clk ?s4)) ev1 (sn_store ?s4) = (Inr (), st')"
    using ev(1,2) ev1 w c2(3,4) by simp_all
  obtain s5 where i: "ingest_event E aid ev ?s4 = (True, s5)" "sn_bus s5 = sn_bus s @ [ev1]" "sn_conn s5 = (sn_conn s2)\<lparr>inp := g3\<rparr>"
    using ingest_event_fresh [OF p(1-4) ev(3) p(5,6)] c2(2) by auto
  let ?s6 = "session_touch E aid s5"
  have c6: "wok (sn_conn ?s6) = []" "out (sn_conn ?s6) = frame mc (Command cid Noop) @ frame mc (server_hello True None)"
    "sn_bus ?s6 = sn_bus s @ [ev1]"
    using i(2,3) c2(1) by (simp_all add: session_touch_def)
  let ?s7 = "?s6\<lparr>sn_conn := (sn_conn ?s6)\<lparr>out := out (sn_conn ?s6) @ frame mc (BatchAck b 1)\<rparr>\<rparr>"
  have ack: "session_send E (BatchAck b 1) ?s6 = (Inr (), ?s7)"
    using session_send_sendable [of E "BatchAck b 1" ?s6] snd(6) c6(1) by (simp add: mc_def)
  have "read_loop E aid [FrameReady] ?s3 = (None, ?s7)"
    using r3 i(1) ack by (simp add: on_message_def mc_def)
  then have "handle_conn E M tx True (Some x) False False new_id cid [FrameReady] s r = (StillOpen, ?s7, register aid tx r)"
    using handle_conn_session [OF r1(1) [unfolded mc_def] a(3), of M tx new_id "[FrameReady]" r]
    by (simp add: run_session_def del: read_loop.simps)
  then show ?thesis using c6 by (intro exI [of _ ?s7]) simp
qed

section \<open>A concrete connection\<close>

definition demo_key :: "256 word" where "demo_key = 5"

definition demo_event :: event where
  "demo_event = event_new 11 1000 ''spoofed'' ''plugin-tty'' (Heartbeat 3)"

definition demo_stored :: event where
  "demo_stored = sanitize_ingest_fields 1000 (demo_event\<lparr>agent_id := ''a''\<rparr>)"

definition demo_agent :: agent_row where
  "demo_agent = \<lparr>ag_agent_id = ''a'', ag_hostname = ''h'', ag_os = ''linux'',
     ag_pubkey = verifying_key toy_crypto demo_key, ag_enrolled_at_ns = 0, ag_last_seen_ns = 0\<rparr>"

definition demo_exporter :: bytes where "demo_exporter = replicate 32 2"

definition demo_leaf :: bytes where "demo_leaf = [1, 2, 3]"

definition demo_pin :: bytes where "demo_pin = fingerprint toy_crypto demo_leaf"

definition demo_sig :: string where
  "demo_sig = sign_auth toy_crypto demo_key demo_pin ''a'' (nonce_from_challenge toy_crypto 7) demo_exporter"

definition demo_hello :: message where
  "demo_hello = ClientHello PROTO_VERSION ''a'' ''h'' ''linux'' (ag_pubkey demo_agent)"

definition demo_messages :: "message list" where
  "demo_messages = [demo_hello, Command 7 Noop, CommandResult 7 True (Some demo_sig), server_hello True None,
     EventBatch 9 [demo_event], BatchAck 9 1]"

definition demo_env :: "((bytes, bytes) rbt, 256 word) server_env" where
  "demo_env =
     \<lparr>sv_tables = rbt_table,
      sv_postcard = table_postcard [event_row_of [0] demo_stored]
        [[composite_key (ts_ns demo_stored) (ev_id demo_stored)]] [] [] [] [demo_agent] [],
      sv_payload = table_codec [Heartbeat 3], sv_messages = table_codec demo_messages,
      sv_crypto = toy_crypto, sv_pin = demo_pin, sv_now = (\<lambda>_. 1000), sv_io = (\<lambda>_. io_fine)\<rparr>"

definition demo_store :: "(bytes, bytes) rbt store" where
  "demo_store =
     \<lparr>t_events = RBT.empty, t_index = RBT.empty, t_detections = RBT.empty, t_scores = RBT.empty,
      t_alerts = RBT.empty, t_agents = RBT.insert (str_bytes ''a'') [0] RBT.empty, t_tokens = RBT.empty\<rparr>"

definition demo_session :: "(bytes, bytes) rbt session" where
  "demo_session =
     \<lparr>sn_conn = \<lparr>inp = [Data (frame (table_codec demo_messages) demo_hello
          @ frame (table_codec demo_messages) (CommandResult 7 True (Some demo_sig))
          @ frame (table_codec demo_messages) (EventBatch 9 [demo_event]))], out = [], wok = []\<rparr>,
      sn_seen = dedup_new 1, sn_global = dedup_new 4, sn_store = demo_store, sn_bus = [], sn_clk = 0\<rparr>"

lemma demo_sendable: "m \<in> set demo_messages \<Longrightarrow> sendable (table_codec demo_messages) m"
  by (rule sendable_table) (simp_all add: demo_messages_def)

lemma demo_run:
  "\<exists>s'. handle_conn demo_env (fifo_mpsc 1 :: (nat, nat \<Rightarrow> server_command list, server_command) mpsc) 0
        True (Some demo_exporter) False False ''n'' 7 [FrameReady] demo_session Map.empty
      = (StillOpen, s', register ''a'' 0 Map.empty)
     \<and> sn_bus s' = sn_bus demo_session @ [demo_stored]"
proof -
  let ?mc = "sv_messages demo_env"
  have mem: "demo_hello \<in> set demo_messages" "Command 7 Noop \<in> set demo_messages"
    "CommandResult 7 True (Some demo_sig) \<in> set demo_messages" "server_hello True None \<in> set demo_messages"
    "EventBatch 9 [demo_event] \<in> set demo_messages" "BatchAck 9 1 \<in> set demo_messages"
    by (simp_all add: demo_messages_def)
  note snd = mem [THEN demo_sendable]
  have mc: "?mc = table_codec demo_messages" by (simp add: demo_env_def)
  have pay: "payload demo_stored = Heartbeat 3" by (simp add: demo_stored_def demo_event_def event_new_def)
  have aid: "agent_id demo_stored = ''a''" by (simp add: demo_stored_def)
  have ne: "frame (table_codec demo_messages) demo_hello \<noteq> []"
    using snd(1) by (rule frame_nonempty)
  have wr: "\<exists>st'. write_event (sv_tables demo_env) (sv_postcard demo_env) (sv_payload demo_env)
      (sv_io demo_env (sn_clk demo_session + 1)) demo_stored st = (Inr (), st')"
    if "t_index st = t_index (sn_store demo_session)" for st
    by (rule write_event_good [of _ _ _ "[0]" _ "[0]" _ _ "[0]"])
       (simp_all add: demo_env_def pay aid table_postcard_def table_codec_def that demo_session_def demo_store_def rbt_table_def)
  have "\<exists>s'. handle_conn demo_env (fifo_mpsc 1 :: (nat, nat \<Rightarrow> server_command list, server_command) mpsc) 0
        True (Some demo_exporter) False False ''n'' 7 [FrameReady] demo_session Map.empty
      = (StillOpen, s', register ''a'' 0 Map.empty)
     \<and> sn_bus s' = sn_bus demo_session @ [demo_stored]
     \<and> out (sn_conn s') = frame ?mc (Command 7 Noop) @ frame ?mc (server_hello True None) @ frame ?mc (BatchAck 9 1)"
  proof (rule honest_batch [where v = "[0]" and row = demo_agent and ev = demo_event and sig = demo_sig
        and h = "''h''" and os = "''linux''"], goal_cases)
    case 1
    show ?case by (simp add: demo_env_def)
  next
    case 2
    show ?case by (simp add: demo_env_def demo_session_def demo_store_def rbt_table_def)
  next
    case 3
    show ?case by (simp add: demo_env_def table_postcard_def table_codec_def)
  next
    case 4
    show ?case by (simp add: demo_agent_def crypto_okD [OF toy_crypto_ok])
  next
    case 5
    show ?case using verify_challenge_sign [OF toy_crypto_ok]
      by (simp add: demo_env_def demo_agent_def demo_sig_def)
  next
    case (14)
    show ?case using ne by (simp add: demo_session_def)
  next
    case 15
    show ?case by (simp add: demo_session_def mc demo_hello_def)
  next
    case 18
    show ?case by (simp add: is_ingestible_def INGESTIBLE_KINDS_def demo_event_def)
  next
    case 19
    show ?case by (simp add: demo_stored_def demo_env_def)
  next
    case 20
    show ?case using wr by blast
  qed (use snd in \<open>simp_all add: mc demo_hello_def demo_session_def\<close>)
  then show ?thesis by blast
qed

section \<open>Properties\<close>



end
