(* ===== verification/Ring.thy ===== *)
theory Ring
  imports Event "HOL-Library.Sublist"
begin

text \<open>
  The in-memory front buffer of the forwarder (\<^verbatim>\<open>plugins/plugin-transport/src/ring.rs\<close>): a
  bounded, drop-oldest queue with a lifetime drop counter. The mutex makes every operation one
  atomic step on the state \<open>ring\<close>. The queue is polymorphic in the buffered element, which the
  code never inspects. The locale \<open>front_buffer\<close> is the interface the connection actor uses.
\<close>

record 'e ring =
  q :: "'e list"
  capacity :: nat
  dropped :: nat

definition ring_new :: "nat \<Rightarrow> 'e ring" where
  "ring_new cap = \<lparr>q = [], capacity = max cap 1, dropped = 0\<rparr>"

definition offer :: "'e \<Rightarrow> 'e ring \<Rightarrow> 'e ring" where
  "offer e r =
     (let r1 = (if capacity r \<le> length (q r)
                then r\<lparr>q := tl (q r), dropped := dropped r + 1\<rparr> else r)
      in r1\<lparr>q := q r1 @ [e]\<rparr>)"

definition ring_drain :: "nat \<Rightarrow> 'e ring \<Rightarrow> 'e list \<times> 'e ring" where
  "ring_drain m r =
     (let n = min m (length (q r)) in (take n (q r), r\<lparr>q := drop n (q r)\<rparr>))"

definition ring_len :: "'e ring \<Rightarrow> nat" where
  "ring_len r = length (q r)"

definition ring_is_empty :: "'e ring \<Rightarrow> bool" where
  "ring_is_empty r \<longleftrightarrow> q r = []"

definition ring_dropped :: "'e ring \<Rightarrow> nat" where
  "ring_dropped r = dropped r"

text \<open>The invariant of every ring built by \<open>ring_new\<close>: never over capacity, and the capacity
  is at least one.\<close>

definition ring_ok :: "'e ring \<Rightarrow> bool" where
  "ring_ok r \<longleftrightarrow> length (q r) \<le> capacity r \<and> 1 \<le> capacity r"

lemma ring_ok_new [simp]: "ring_ok (ring_new cap)"
  by (simp add: ring_ok_def ring_new_def)

lemma ring_new_simps [simp]:
  "q (ring_new cap) = []" "capacity (ring_new cap) = max cap 1" "dropped (ring_new cap) = 0"
  by (simp_all add: ring_new_def)

lemma ring_ok_offer [simp]: "ring_ok r \<Longrightarrow> ring_ok (offer e r)"
  by (auto simp: ring_ok_def offer_def Let_def)

lemma ring_ok_drain [simp]: "ring_ok r \<Longrightarrow> ring_ok (snd (ring_drain m r))"
  by (auto simp: ring_ok_def ring_drain_def Let_def)

lemma capacity_offer [simp]: "capacity (offer e r) = capacity r"
  by (simp add: offer_def Let_def)

text \<open>The drained events and what stays behind are the queue; nothing is counted as dropped.\<close>

lemma ring_drain_split:
  "ring_drain m r = (xs, r') \<Longrightarrow> xs @ q r' = q r \<and> dropped r' = dropped r \<and> capacity r' = capacity r"
  by (auto simp: ring_drain_def Let_def)

lemma ring_drain_length: "ring_drain m r = (xs, r') \<Longrightarrow> length xs = min m (length (q r))"
  by (auto simp: ring_drain_def Let_def)

section \<open>Offers as an abstract bounded log\<close>

text \<open>
  What the ring promises: after any sequence of offers it holds the last \<open>capacity\<close> of them,
  oldest first, and the counter is the number of the others.
\<close>

lemma offer_last_n:
  assumes "ring_ok r"
  shows "q (offer e r) = last_n (capacity r) (q r @ [e])
       \<and> dropped (offer e r) + length (q (offer e r)) = dropped r + length (q r) + 1"
proof (cases "capacity r \<le> length (q r)")
  case True
  then have "length (q r) = capacity r" "q r \<noteq> []" using assms by (auto simp: ring_ok_def)
  then obtain x xs where "q r = x # xs" by (cases "q r") auto
  with \<open>length (q r) = capacity r\<close> show ?thesis by (simp add: offer_def last_n_def)
next
  case False
  then show ?thesis by (simp add: offer_def last_n_def)
qed

lemma offers_contents:
  assumes "ring_ok r"
  shows "q (fold offer es r) = last_n (capacity r) (q r @ es)
       \<and> dropped (fold offer es r) + length (q (fold offer es r)) = dropped r + length (q r) + length es"
  using assms
proof (induction es arbitrary: r)
  case Nil
  then show ?case by (simp add: last_n_def ring_ok_def)
next
  case (Cons e es)
  note step = offer_last_n [OF Cons.prems, of e]
  note ih = Cons.IH [OF ring_ok_offer [OF Cons.prems], of e, unfolded capacity_offer]
  have "q (fold offer (e # es) r) = last_n (capacity r) (q r @ (e # es))"
    using ih [THEN conjunct1] step last_n_last_n_append [of "capacity r" "q r @ [e]" es] by simp
  moreover have "dropped (fold offer (e # es) r) + length (q (fold offer (e # es) r))
     = dropped r + length (q r) + length (e # es)"
    using ih [THEN conjunct2] step [THEN conjunct2] by (simp del: One_nat_def)
  ultimately show ?case ..
qed

section \<open>The interface of the connection actor\<close>

text \<open>
  The actor relies on three laws of its front buffer: an offer adds the event at the end and may
  drop from the front, a drain returns a prefix and keeps the rest, and the counter accounts for
  every event that left other than by a drain.
\<close>

lemma subseq_drop_append: "subseq (drop k xs @ ys) (xs @ ys)"
proof -
  have "subseq (drop k xs @ ys) (take k xs @ (drop k xs @ ys))"
    by (rule list_emb_append2) simp
  then show ?thesis by (simp only: append_assoc [symmetric] append_take_drop_id)
qed

datatype 'e buffer_op = Offer 'e | Drain nat

fun feed :: "('e \<Rightarrow> 'b \<Rightarrow> 'b) \<Rightarrow> (nat \<Rightarrow> 'b \<Rightarrow> 'e list \<times> 'b) \<Rightarrow> 'e buffer_op list \<Rightarrow> 'b \<Rightarrow> 'e list \<times> 'b" where
  "feed add take_out [] b = ([], b)"
| "feed add take_out (Offer e # ops) b = feed add take_out ops (add e b)"
| "feed add take_out (Drain n # ops) b =
     (let (xs, b1) = take_out n b; (ys, b2) = feed add take_out ops b1 in (xs @ ys, b2))"

fun offered :: "'e buffer_op list \<Rightarrow> 'e list" where
  "offered [] = []"
| "offered (Offer e # ops) = e # offered ops"
| "offered (Drain n # ops) = offered ops"

locale front_buffer =
  fixes add :: "'e \<Rightarrow> 'b \<Rightarrow> 'b"
    and take_out :: "nat \<Rightarrow> 'b \<Rightarrow> 'e list \<times> 'b"
    and contents :: "'b \<Rightarrow> 'e list"
    and lost :: "'b \<Rightarrow> nat"
    and ok :: "'b \<Rightarrow> bool"
  assumes add_ok: "ok b \<Longrightarrow> ok (add e b)"
    and take_ok: "ok b \<Longrightarrow> ok (snd (take_out n b))"
    and add_contents: "ok b \<Longrightarrow> \<exists>k. contents (add e b) = drop k (contents b) @ [e] \<and> lost (add e b) = lost b + k \<and> k \<le> length (contents b)"
    and take_contents: "take_out n b = (xs, b') \<Longrightarrow> xs @ contents b' = contents b \<and> lost b' = lost b"
begin

lemma feed_conserves:
  assumes "ok b" and "feed add take_out ops b = (out, b')"
  shows "length out + length (contents b') + lost b' = length (contents b) + lost b + length (offered ops)"
  using assms
proof (induction ops arbitrary: b out)
  case (Cons x ops)
  show ?case
  proof (cases x)
    case (Offer e)
    obtain k where k: "contents (add e b) = drop k (contents b) @ [e]" "lost (add e b) = lost b + k"
      "k \<le> length (contents b)"
      using add_contents [OF Cons.prems(1)] by blast
    have "length out + length (contents b') + lost b' = length (contents (add e b)) + lost (add e b) + length (offered ops)"
      using Cons.IH [of "add e b" out] Cons.prems Offer by (simp add: add_ok)
    then show ?thesis using k Offer by simp
  next
    case (Drain n)
    obtain xs b1 where t: "take_out n b = (xs, b1)" by fastforce
    obtain ys where f: "feed add take_out ops b1 = (ys, b')" "out = xs @ ys"
      using Cons.prems(2) Drain t by (auto split: prod.splits)
    have ok1: "ok b1" using take_ok [OF Cons.prems(1), of n] t by simp
    have "length xs + length (contents b1) = length (contents b)" "lost b1 = lost b"
      using take_contents [OF t] by (metis length_append, simp)
    then show ?thesis using Cons.IH [OF ok1 f(1)] f(2) Drain by simp
  qed
qed simp

lemma feed_order:
  assumes "ok b" and "feed add take_out ops b = (out, b')"
  shows "subseq (out @ contents b') (contents b @ offered ops)"
  using assms
proof (induction ops arbitrary: b out)
  case (Cons x ops)
  show ?case
  proof (cases x)
    case (Offer e)
    obtain k where k: "contents (add e b) = drop k (contents b) @ [e]"
      using add_contents [OF Cons.prems(1)] by blast
    have "subseq (out @ contents b') ((drop k (contents b) @ [e]) @ offered ops)"
      using Cons.IH [of "add e b" out] Cons.prems Offer k by (simp add: add_ok)
    then have "subseq (out @ contents b') (drop k (contents b) @ e # offered ops)" by simp
    then have "subseq (out @ contents b') (contents b @ e # offered ops)"
      by (rule subseq_order.order_trans [OF _ subseq_drop_append])
    then show ?thesis using Offer by simp
  next
    case (Drain n)
    obtain xs b1 where t: "take_out n b = (xs, b1)" by fastforce
    obtain ys where f: "feed add take_out ops b1 = (ys, b')" "out = xs @ ys"
      using Cons.prems(2) Drain t by (auto split: prod.splits)
    have ok1: "ok b1" using take_ok [OF Cons.prems(1), of n] t by simp
    have "contents b = xs @ contents b1" using take_contents [OF t] by simp
    then show ?thesis using Cons.IH [OF ok1 f(1)] f(2) Drain by (simp add: list_emb_append_mono)
  qed
qed simp

end

interpretation rb: front_buffer offer ring_drain q dropped ring_ok
proof unfold_locales
  show "ring_ok b \<Longrightarrow> ring_ok (offer e b)" for e and b :: "'e ring" by simp
  show "ring_ok b \<Longrightarrow> ring_ok (snd (ring_drain n b))" for n and b :: "'e ring" by simp
  show "\<exists>k. q (offer e b) = drop k (q b) @ [e] \<and> dropped (offer e b) = dropped b + k \<and> k \<le> length (q b)"
    if "ring_ok b" for e and b :: "'e ring"
    using that by (auto simp: offer_def Let_def ring_ok_def drop_Suc intro: exI [of _ 0] exI [of _ 1])
  show "xs @ q b' = q b \<and> dropped b' = dropped b" if "ring_drain n b = (xs, b')" for n xs and b b' :: "'e ring"
    using ring_drain_split [OF that] by simp
qed

section \<open>Properties\<close>

text \<open>After any offers to a new ring it holds the newest \<open>capacity\<close> of them, oldest first, and the
  drop counter is the number of the others.\<close>

theorem ring_keeps_newest:
  "q (fold offer es (ring_new cap)) = last_n (max cap 1) es
   \<and> ring_dropped (fold offer es (ring_new cap)) = length es - max cap 1
   \<and> ring_len (fold offer es (ring_new cap)) = min (length es) (max cap 1)"
proof -
  have c: "q (fold offer es (ring_new cap)) = last_n (max cap 1) es"
    and d: "dropped (fold offer es (ring_new cap)) + length (q (fold offer es (ring_new cap))) = length es"
    using offers_contents [OF ring_ok_new, of es cap] by (auto simp del: One_nat_def)
  have l: "length (last_n (max cap 1) es) = min (length es) (max cap 1)" by (simp add: last_n_def)
  show ?thesis using c d l by (simp add: ring_dropped_def ring_len_def)
qed

text \<open>Over any interleaving of offers and drains nothing is duplicated or reordered, and every offered
  event was drained, is still buffered, or is counted as dropped.\<close>

theorem ring_conserves:
  "let (drained, r) = feed offer ring_drain ops (ring_new cap)
   in subseq (drained @ q r) (offered ops)
    \<and> length drained + ring_len r + ring_dropped r = length (offered ops)"
proof -
  obtain out r where f: "feed offer ring_drain ops (ring_new cap) = (out, r)" by fastforce
  have "subseq (out @ q r) (offered ops)"
    using rb.feed_order [OF ring_ok_new f] by simp
  moreover have "length out + ring_len r + ring_dropped r = length (offered ops)"
    using rb.feed_conserves [OF ring_ok_new f] by (simp add: ring_len_def ring_dropped_def)
  ultimately show ?thesis using f by simp
qed

end
