(* ===== verification/Spill.thy ===== *)
theory Spill
  imports Event Redb
begin

text \<open>
  The durable disk tier of the forwarder (\<^verbatim>\<open>plugins/plugin-transport/src/spill.rs\<close>): events
  appended under an increasing sequence number to one redb table, drained from the low end,
  deleted by acknowledged prefix and dropped oldest-first over a byte cap.

  Parameters: the table (\<open>T\<close>, laws in \<open>ordered_table\<close>), the outcome of each fallible redb call
  (\<open>io\<close>), and the JSON encoding of an event (\<open>cdc\<close>). File permissions of the database file are
  not modelled. A byte count is a \<open>nat\<close>, whose subtraction stops at zero as
  \<^verbatim>\<open>saturating_sub\<close> does.
\<close>

datatype spill_error = DbError | EncodeError | DecodeError

record 't spill =
  db :: 't
  write_cursor :: nat
  sbytes :: nat
  max_bytes :: nat
  sdropped :: nat

definition total_bytes :: "('k \<times> bytes) list \<Rightarrow> nat" where
  "total_bytes rows = sum_list (map (\<lambda>r. length (snd r)) rows)"

lemma total_bytes_simps [simp]:
  "total_bytes [] = 0"
  "total_bytes (r # rows) = length (snd r) + total_bytes rows"
  "total_bytes (xs @ ys) = total_bytes xs + total_bytes ys"
  by (simp_all add: total_bytes_def)

section \<open>Open and the accessors\<close>

text \<open>\<open>t\<close> is the table found in the database file. The write transaction that materialises the
  table must commit, and the scan must read every row.\<close>

definition spill_open :: "('t, nat, bytes) table_ops \<Rightarrow> nat redb_io \<Rightarrow> 't \<Rightarrow> nat \<Rightarrow> spill_error + 't spill" where
  "spill_open T io t cap =
     (if \<not> (begin_ok io \<and> open_ok io \<and> commit_ok io) then Inl DbError
      else if \<not> list_all (\<lambda>r. op_ok io (fst r)) (trows T t) then Inl DbError
      else let next = (case trows T t of [] \<Rightarrow> 0 | r # rs \<Rightarrow> fst (last (r # rs)) + 1);
               total = total_bytes (trows T t)
           in Inr \<lparr>db = t, write_cursor = next, sbytes = total, max_bytes = cap, sdropped = 0\<rparr>)"

definition spill_len :: "('t, nat, bytes) table_ops \<Rightarrow> nat redb_io \<Rightarrow> 't spill \<Rightarrow> spill_error + nat" where
  "spill_len T io s =
     (if begin_ok io \<and> open_ok io then Inr (length (trows T (db s))) else Inl DbError)"

definition spill_is_empty :: "('t, nat, bytes) table_ops \<Rightarrow> nat redb_io \<Rightarrow> 't spill \<Rightarrow> spill_error + bool" where
  "spill_is_empty T io s = (case spill_len T io s of Inl e \<Rightarrow> Inl e | Inr n \<Rightarrow> Inr (n = 0))"

definition next_seq :: "'t spill \<Rightarrow> nat" where
  "next_seq s = write_cursor s"

section \<open>Enforcing the byte cap\<close>

text \<open>The scan of \<^verbatim>\<open>enforce_cap\<close>: rows from the oldest on, until the running total is within
  the cap. It yields the keys to remove and the bytes they free; a row that cannot be read
  aborts.\<close>

fun cap_scan :: "nat redb_io \<Rightarrow> nat \<Rightarrow> (nat \<times> bytes) list \<Rightarrow> nat \<Rightarrow> (nat list \<times> nat) option" where
  "cap_scan io cap [] running = Some ([], 0)"
| "cap_scan io cap ((k, v) # rows) running =
     (if running \<le> cap then Some ([], 0)
      else if \<not> op_ok io k then None
      else (case cap_scan io cap rows (running - min (length v) running) of
              None \<Rightarrow> None
            | Some (ks, freed) \<Rightarrow> Some (k # ks, length v + freed)))"

text \<open>Removing collected keys one by one, counting those that were present.\<close>

fun remove_keys :: "('t, nat, bytes) table_ops \<Rightarrow> nat redb_io \<Rightarrow> nat list \<Rightarrow> nat \<Rightarrow> 't \<Rightarrow> (nat \<times> 't) option" where
  "remove_keys T io [] n t = Some (n, t)"
| "remove_keys T io (k # ks) n t =
     (if \<not> op_ok io k then None
      else remove_keys T io ks (if tget T t k = None then n else n + 1) (tremove T k t))"

definition enforce_cap ::
  "('t, nat, bytes) table_ops \<Rightarrow> nat redb_io \<Rightarrow> nat \<Rightarrow> 't spill \<Rightarrow> (spill_error + nat) \<times> 't spill" where
  "enforce_cap T io cap s =
     (if sbytes s \<le> cap then (Inr 0, s)
      else if \<not> (begin_ok io \<and> open_ok io) then (Inl DbError, s)
      else (case cap_scan io cap (trows T (db s)) (sbytes s) of
              None \<Rightarrow> (Inl DbError, s)
            | Some (ks, freed) \<Rightarrow>
                (case remove_keys T io ks 0 (db s) of
                   None \<Rightarrow> (Inl DbError, s)
                 | Some (n, t) \<Rightarrow>
                     if \<not> commit_ok io then (Inl DbError, s)
                     else (Inr n, s\<lparr>db := t, sbytes := sbytes s - freed, sdropped := sdropped s + n\<rparr>))))"

section \<open>Push, drain and acknowledge\<close>

text \<open>The loop of \<^verbatim>\<open>push\<close>. The cursor is a field of the handle, so the numbers consumed before a
  failure stay consumed although the transaction is dropped.\<close>

fun push_rows ::
  "('t, nat, bytes) table_ops \<Rightarrow> 'e codec \<Rightarrow> nat redb_io \<Rightarrow> 'e list \<Rightarrow> nat \<Rightarrow> nat \<Rightarrow> 't
   \<Rightarrow> nat \<times> (spill_error + nat \<times> 't)" where
  "push_rows T cdc io [] cur added t = (cur, Inr (added, t))"
| "push_rows T cdc io (e # es) cur added t =
     (case enc cdc e of
        None \<Rightarrow> (cur, Inl EncodeError)
      | Some b \<Rightarrow>
          if \<not> op_ok io cur then (cur, Inl DbError)
          else push_rows T cdc io es (cur + 1) (added + length b) (tinsert T cur b t))"

definition push ::
  "('t, nat, bytes) table_ops \<Rightarrow> 'e codec \<Rightarrow> nat redb_io \<Rightarrow> nat redb_io \<Rightarrow> 'e list \<Rightarrow> 't spill
   \<Rightarrow> (spill_error + unit) \<times> 't spill" where
  "push T cdc io io_cap es s =
     (if es = [] then (Inr (), s)
      else if \<not> (begin_ok io \<and> open_ok io) then (Inl DbError, s)
      else (case push_rows T cdc io es (write_cursor s) 0 (db s) of
              (cur, Inl e) \<Rightarrow> (Inl e, s\<lparr>write_cursor := cur\<rparr>)
            | (cur, Inr (added, t)) \<Rightarrow>
                if \<not> commit_ok io then (Inl DbError, s\<lparr>write_cursor := cur\<rparr>)
                else (case enforce_cap T io_cap (max_bytes s)
                             (s\<lparr>db := t, write_cursor := cur, sbytes := sbytes s + added\<rparr>) of
                        (Inl e, s') \<Rightarrow> (Inl e, s')
                      | (Inr n, s') \<Rightarrow> (Inr (), s'))))"

record 'e spilled =
  seq :: nat
  spilled_event :: 'e

fun drain_rows ::
  "'e codec \<Rightarrow> nat redb_io \<Rightarrow> nat \<Rightarrow> nat \<Rightarrow> (nat \<times> bytes) list \<Rightarrow> 'e spilled list \<Rightarrow> nat
   \<Rightarrow> spill_error + 'e spilled list" where
  "drain_rows cdc io maxe maxb [] out acc = Inr out"
| "drain_rows cdc io maxe maxb ((k, v) # rows) out acc =
     (if \<not> op_ok io k then Inl DbError
      else if out \<noteq> [] \<and> (maxe \<le> length out \<or> maxb < acc + length v) then Inr out
      else (case dec cdc v of
              None \<Rightarrow> Inl DecodeError
            | Some e \<Rightarrow>
                let out' = out @ [\<lparr>seq = k, spilled_event = e\<rparr>]
                in if maxe \<le> length out' then Inr out'
                   else drain_rows cdc io maxe maxb rows out' (acc + length v)))"

definition drain_batch ::
  "('t, nat, bytes) table_ops \<Rightarrow> 'e codec \<Rightarrow> nat redb_io \<Rightarrow> nat \<Rightarrow> nat \<Rightarrow> 't spill
   \<Rightarrow> spill_error + 'e spilled list" where
  "drain_batch T cdc io maxe maxb s =
     (if \<not> (begin_ok io \<and> open_ok io) then Inl DbError
      else drain_rows cdc io maxe maxb (trows T (db s)) [] 0)"

definition ack_through ::
  "('t, nat, bytes) table_ops \<Rightarrow> nat redb_io \<Rightarrow> nat \<Rightarrow> 't spill \<Rightarrow> (spill_error + nat) \<times> 't spill" where
  "ack_through T io through s =
     (if \<not> (begin_ok io \<and> open_ok io) then (Inl DbError, s)
      else let rows = filter (\<lambda>r. fst r \<le> through) (trows T (db s))
           in if \<not> list_all (\<lambda>r. op_ok io (fst r)) rows then (Inl DbError, s)
              else (case remove_keys T io (map fst rows) 0 (db s) of
                      None \<Rightarrow> (Inl DbError, s)
                    | Some (n, t) \<Rightarrow>
                        if \<not> commit_ok io then (Inl DbError, s)
                        else (Inr n, s\<lparr>db := t, sbytes := sbytes s - total_bytes rows\<rparr>)))"

section \<open>The invariant of the handle\<close>

text \<open>The cursor is above every stored sequence number and the byte total is exact.\<close>

definition spill_inv :: "('t, nat, bytes) table_ops \<Rightarrow> 't spill \<Rightarrow> bool" where
  "spill_inv T s \<longleftrightarrow>
     (\<forall>r \<in> set (trows T (db s)). fst r < write_cursor s) \<and> sbytes s = total_bytes (trows T (db s))"

text \<open>\<open>numbered n bs\<close> are rows with consecutive sequence numbers from \<open>n\<close>.\<close>

definition numbered :: "nat \<Rightarrow> bytes list \<Rightarrow> (nat \<times> bytes) list" where
  "numbered n bs = zip [n..<n + length bs] bs"

lemma numbered_simps [simp]:
  "numbered n [] = []"
  "numbered n (b # bs) = (n, b) # numbered (Suc n) bs"
  by (simp_all add: numbered_def upt_conv_Cons del: upt_Suc)

lemma length_numbered [simp]: "length (numbered n bs) = length bs"
  by (simp add: numbered_def)

lemma map_snd_numbered [simp]: "map snd (numbered n bs) = bs"
  by (simp add: numbered_def)

lemma map_fst_numbered [simp]: "map fst (numbered n bs) = [n..<n + length bs]"
  by (simp add: numbered_def)

lemma total_bytes_numbered [simp]: "total_bytes (numbered n bs) = sum_list (map length bs)"
  by (induction bs arbitrary: n) simp_all

lemma set_numbered_less: "r \<in> set (numbered n bs) \<Longrightarrow> n \<le> fst r \<and> fst r < n + length bs"
  by (cases r) (auto simp: numbered_def dest: set_zip_leftD)

lemma filter_not_take_keys:
  "distinct (map fst rows) \<Longrightarrow> filter (\<lambda>p. fst p \<notin> fst ` set (take j rows)) rows = drop j rows"
proof (induction rows arbitrary: j)
  case Nil
  then show ?case by simp
next
  case (Cons r rows)
  then show ?case
  proof (cases j)
    case (Suc i)
    have "filter (\<lambda>p. fst p \<notin> fst ` set (take j (r # rows))) rows
        = filter (\<lambda>p. fst p \<notin> fst ` set (take i rows)) rows"
      using Cons.prems Suc by (intro filter_cong) (auto simp: rev_image_eqI)
    then show ?thesis using Cons Suc by simp
  qed simp
qed

lemma total_bytes_filter_le: "total_bytes (filter P rows) \<le> total_bytes rows"
  by (induction rows) auto

lemma total_bytes_filter_compl:
  "total_bytes rows - total_bytes (filter P rows) = total_bytes (filter (\<lambda>r. \<not> P r) rows)"
  using total_bytes_filter_le [of P] by (induction rows) (auto simp: Suc_diff_le diff_add_assoc)

lemma total_bytes_take_drop: "total_bytes (take n rows) + total_bytes (drop n rows) = total_bytes rows"
  by (metis append_take_drop_id total_bytes_simps(3))

section \<open>The loops\<close>

lemma cap_scan_prefix:
  assumes "cap_scan io cap rows (total_bytes rows) = Some (ks, freed)"
  shows "\<exists>j \<le> length rows. ks = map fst (take j rows) \<and> freed = total_bytes (take j rows)
       \<and> total_bytes (drop j rows) \<le> cap \<and> (0 < j \<longrightarrow> cap < total_bytes (drop (j - 1) rows))"
  using assms
proof (induction io cap rows "total_bytes rows" arbitrary: ks freed rule: cap_scan.induct)
  case (1 io cap)
  then show ?case by simp
next
  case (2 io cap k v rows)
  show ?case
  proof (cases "total_bytes ((k, v) # rows) \<le> cap")
    case True
    with "2.prems" show ?thesis by (intro exI [of _ 0]) simp
  next
    case False
    then obtain ks' freed' where r: "cap_scan io cap rows (total_bytes rows) = Some (ks', freed')"
      and k: "ks = k # ks'" "freed = length v + freed'" "op_ok io k"
      using "2.prems" by (auto split: if_splits option.splits)
    obtain j where j: "j \<le> length rows" "ks' = map fst (take j rows)" "freed' = total_bytes (take j rows)"
      "total_bytes (drop j rows) \<le> cap" "0 < j \<longrightarrow> cap < total_bytes (drop (j - 1) rows)"
      using "2.hyps" [of ks' freed'] False k r by auto
    have "cap < total_bytes (drop (Suc j - 1) ((k, v) # rows))"
      using j(5) False by (cases j) auto
    then show ?thesis using j k by (intro exI [of _ "Suc j"]) simp
  qed
qed

lemma cap_scan_io_good: "io_good io \<Longrightarrow> \<exists>ks freed. cap_scan io cap rows running = Some (ks, freed)"
proof (induction io cap rows running rule: cap_scan.induct)
  case (2 io cap k v rows running)
  then show ?case by (cases "running \<le> cap") (auto simp: io_goodD(3))
qed simp

lemma drain_rows_spec:
  assumes "drain_rows cdc io maxe maxb rows out acc = Inr res"
  shows "\<exists>n \<le> length rows. \<exists>es. res = out @ es \<and> map seq es = map fst (take n rows)
       \<and> map (\<lambda>x. Some (spilled_event x)) es = map (\<lambda>r. dec cdc (snd r)) (take n rows)
       \<and> (out = [] \<and> rows \<noteq> [] \<longrightarrow> 0 < n)
       \<and> (n = 0 \<or> length out + n \<le> maxe \<or> out = [] \<and> n = 1)
       \<and> (n = 0 \<or> acc + total_bytes (take n rows) \<le> maxb \<or> out = [] \<and> n = 1)
       \<and> (n = length rows \<or> maxe \<le> length out + n \<or> maxb < acc + total_bytes (take (n + 1) rows))"
  using assms
proof (induction cdc io maxe maxb rows out acc arbitrary: res rule: drain_rows.induct)
  case (1 cdc io maxe maxb out acc)
  then show ?case by simp
next
  case (2 cdc io maxe maxb k v rows out acc)
  show ?case
  proof (cases "out \<noteq> [] \<and> (maxe \<le> length out \<or> maxb < acc + length v)")
    case True
    with "2.prems" show ?thesis by (intro exI [of _ 0]) (auto split: if_splits)
  next
    case False
    then obtain e where io: "op_ok io k" and e: "dec cdc v = Some e"
      using "2.prems" by (auto split: if_splits option.splits)
    let ?x = "\<lparr>seq = k, spilled_event = e\<rparr>"
    show ?thesis
    proof (cases "maxe \<le> length out + 1")
      case True
      with "2.prems" False io e have "res = out @ [?x]" by (auto simp: Let_def split: if_splits)
      then show ?thesis using True False e
        by (intro exI [of _ 1] conjI exI [of _ "[?x]"]) (auto simp: take_Suc)
    next
      case room: False
      have rec: "drain_rows cdc io maxe maxb rows (out @ [?x]) (acc + length v) = Inr res"
        using "2.prems" False io e room by (auto simp: Let_def split: if_splits)
      obtain n es where n: "n \<le> length rows" "res = (out @ [?x]) @ es" "map seq es = map fst (take n rows)"
        "map (\<lambda>x. Some (spilled_event x)) es = map (\<lambda>r. dec cdc (snd r)) (take n rows)"
        "n = 0 \<or> length (out @ [?x]) + n \<le> maxe"
        "n = 0 \<or> acc + length v + total_bytes (take n rows) \<le> maxb"
        "n = length rows \<or> maxe \<le> length (out @ [?x]) + n
          \<or> maxb < acc + length v + total_bytes (take (n + 1) rows)"
        using "2.IH" [OF _ _ e refl _ rec] False io room by auto
      show ?thesis using n False room e
        by (intro exI [of _ "Suc n"] conjI exI [of _ "?x # es"]) auto
    qed
  qed
qed

section \<open>What each operation does to the table\<close>

locale spill_table = ordered_table T for T :: "('t, nat, bytes) table_ops"
begin

lemma rows_distinct: "distinct (map fst (trows T t))"
  by (rule bt_ok_distinct [OF rows_ok])

lemma remove_keys_rows:
  "remove_keys T io ks n t = Some (m, t') \<Longrightarrow> trows T t' = filter (\<lambda>p. fst p \<notin> set ks) (trows T t)"
  by (induction ks arbitrary: n t)
     (auto simp: rows_remove bt_remove_def split: if_splits intro!: filter_cong)

lemma remove_keys_count:
  "remove_keys T io ks n t = Some (m, t') \<Longrightarrow> distinct ks \<Longrightarrow> set ks \<subseteq> dom (tget T t) \<Longrightarrow> m = n + length ks"
proof (induction ks arbitrary: n t)
  case (Cons k ks)
  then have "set ks \<subseteq> dom (tget T (tremove T k t))" by (auto simp: get_remove)
  with Cons show ?case by (fastforce split: if_splits)
qed simp

lemma remove_keys_io_good: "io_good io \<Longrightarrow> \<exists>m t'. remove_keys T io ks n t = Some (m, t')"
  by (induction ks arbitrary: n t) (auto simp: io_good_def)

lemma dom_get: "dom (tget T t) = fst ` set (trows T t)"
  by (simp add: get_rows dom_map_of_conv_image_fst)

lemma enforce_cap_error: "enforce_cap T io cap s = (Inl e, s') \<Longrightarrow> s' = s"
  by (auto simp: enforce_cap_def split: if_splits option.splits prod.splits)

lemma enforce_cap_rows:
  assumes inv: "spill_inv T s" and run: "enforce_cap T io cap s = (Inr n, s')"
  shows "n \<le> length (trows T (db s)) \<and> trows T (db s') = drop n (trows T (db s)) \<and> sbytes s' \<le> cap
    \<and> spill_inv T s' \<and> sdropped s' = sdropped s + n \<and> write_cursor s' = write_cursor s
    \<and> max_bytes s' = max_bytes s \<and> (0 < n \<longrightarrow> cap < total_bytes (drop (n - 1) (trows T (db s))))"
proof (cases "sbytes s \<le> cap")
  case True
  with run have "n = 0" "s' = s" by (auto simp: enforce_cap_def)
  with True inv show ?thesis by simp
next
  case False
  let ?rows = "trows T (db s)"
  obtain ks freed m t where scan: "cap_scan io cap ?rows (sbytes s) = Some (ks, freed)"
    and rem: "remove_keys T io ks 0 (db s) = Some (m, t)"
    and s': "n = m" "s' = s\<lparr>db := t, sbytes := sbytes s - freed, sdropped := sdropped s + m\<rparr>"
    using run False by (auto simp: enforce_cap_def split: if_splits option.splits prod.splits)
  obtain j where j: "j \<le> length ?rows" "ks = map fst (take j ?rows)" "freed = total_bytes (take j ?rows)"
    "total_bytes (drop j ?rows) \<le> cap" "0 < j \<longrightarrow> cap < total_bytes (drop (j - 1) ?rows)"
    using cap_scan_prefix [of io cap ?rows ks freed] scan inv by (auto simp: spill_inv_def)
  have "distinct ks" using j(2) rows_distinct [of "db s"] by (simp add: distinct_take flip: take_map)
  moreover have "set ks \<subseteq> dom (tget T (db s))"
    using j(2) by (auto simp: dom_get dest: in_set_takeD)
  ultimately have m: "m = j" using remove_keys_count [OF rem] j(1,2) by simp
  have rows': "trows T t = drop j ?rows"
    using remove_keys_rows [OF rem] filter_not_take_keys [OF rows_distinct] j(2) by simp
  have b: "sbytes s - freed = total_bytes (drop j ?rows)"
    using total_bytes_take_drop [of j ?rows] inv j(3) by (simp add: spill_inv_def)
  show ?thesis using s' m rows' b j inv by (auto simp: spill_inv_def dest: in_set_dropD)
qed

lemma enforce_cap_io_good:
  assumes "io_good io"
  shows "\<exists>n s'. enforce_cap T io cap s = (Inr n, s')"
proof -
  obtain ks freed where scan: "cap_scan io cap (trows T (db s)) (sbytes s) = Some (ks, freed)"
    using cap_scan_io_good [OF assms] by blast
  obtain m t where "remove_keys T io ks 0 (db s) = Some (m, t)"
    using remove_keys_io_good [OF assms] by blast
  with scan assms show ?thesis by (simp add: enforce_cap_def io_goodD)
qed

lemma push_rows_ok:
  assumes "push_rows T cdc io es cur added t = (cur', Inr (added', t'))"
    and "\<forall>r \<in> set (trows T t). fst r < cur"
  shows "\<exists>bs. map (enc cdc) es = map Some bs \<and> trows T t' = trows T t @ numbered cur bs
       \<and> cur' = cur + length es \<and> added' = added + sum_list (map length bs)"
  using assms
proof (induction es arbitrary: cur added t)
  case Nil
  then show ?case by simp
next
  case (Cons e es)
  obtain b where b: "enc cdc e = Some b" and rec:
    "push_rows T cdc io es (cur + 1) (added + length b) (tinsert T cur b t) = (cur', Inr (added', t'))"
    using Cons.prems(1) by (auto split: option.splits if_splits)
  have rows: "trows T (tinsert T cur b t) = trows T t @ [(cur, b)]"
    using Cons.prems(2) by (intro rows_insert_max) auto
  obtain bs where bs: "map (enc cdc) es = map Some bs" "cur' = cur + 1 + length es"
    "trows T t' = trows T (tinsert T cur b t) @ numbered (cur + 1) bs"
    "added' = added + length b + sum_list (map length bs)"
    using Cons.IH [OF rec] Cons.prems(2) rows by fastforce
  show ?case using bs b rows by (intro exI [of _ "b # bs"]) simp
qed

lemma push_rows_error:
  "push_rows T cdc io es cur added t = (cur', Inl x) \<Longrightarrow> cur \<le> cur' \<and> cur' \<le> cur + length es"
  by (induction es arbitrary: cur added t) (fastforce split: option.splits if_splits)+

lemma push_rows_io_good:
  "io_good io \<Longrightarrow> \<forall>e \<in> set es. enc cdc e \<noteq> None
    \<Longrightarrow> \<exists>cur' added' t'. push_rows T cdc io es cur added t = (cur', Inr (added', t'))"
  by (induction es arbitrary: cur added t) (auto simp: io_goodD(3))

lemma push_ok_rows:
  assumes inv: "spill_inv T s" and run: "push T cdc io io_cap es s = (Inr (), s')"
  shows "\<exists>bs n. map (enc cdc) es = map Some bs
    \<and> trows T (db s') = drop n (trows T (db s) @ numbered (write_cursor s) bs)
    \<and> n \<le> length (trows T (db s)) + length es
    \<and> (es \<noteq> [] \<longrightarrow> sbytes s' \<le> max_bytes s) \<and> spill_inv T s' \<and> sdropped s' = sdropped s + n
    \<and> write_cursor s' = write_cursor s + length es \<and> max_bytes s' = max_bytes s
    \<and> (0 < n \<longrightarrow> max_bytes s < total_bytes (drop (n - 1) (trows T (db s) @ numbered (write_cursor s) bs)))"
proof (cases "es = []")
  case True
  with run inv have "s' = s" by (simp add: push_def)
  with True inv show ?thesis by (intro exI [of _ "[]"] exI [of _ 0]) simp
next
  case False
  then obtain cur added t where rows: "push_rows T cdc io es (write_cursor s) 0 (db s) = (cur, Inr (added, t))"
    using run by (auto simp: push_def split: if_splits prod.splits sum.splits)
  let ?s1 = "s\<lparr>db := t, write_cursor := cur, sbytes := sbytes s + added\<rparr>"
  obtain n where cap: "enforce_cap T io_cap (max_bytes s) ?s1 = (Inr n, s')"
    using run False rows by (auto simp: push_def split: if_splits prod.splits sum.splits)
  obtain bs where bs: "map (enc cdc) es = map Some bs"
    "trows T t = trows T (db s) @ numbered (write_cursor s) bs"
    "cur = write_cursor s + length es" "added = sum_list (map length bs)"
    using push_rows_ok [OF rows] inv by (auto simp: spill_inv_def)
  have "length bs = length es" using bs(1) by (metis length_map)
  then have inv1: "spill_inv T ?s1"
    using inv bs by (auto simp: spill_inv_def dest!: set_numbered_less)
  show ?thesis
    using enforce_cap_rows [OF inv1 cap] bs \<open>length bs = length es\<close>
    by (intro exI [of _ bs] exI [of _ n]) simp
qed

text \<open>A failed push either left the table alone or appended everything and failed to enforce the
  cap; the cursor never goes back and the invariant survives in both cases.\<close>

lemma push_error_rows:
  assumes inv: "spill_inv T s" and run: "push T cdc io io_cap es s = (Inl x, s')"
  shows "spill_inv T s' \<and> write_cursor s \<le> write_cursor s' \<and> sdropped s' = sdropped s
    \<and> (trows T (db s') = trows T (db s) \<or>
       (\<exists>bs. map (enc cdc) es = map Some bs
          \<and> trows T (db s') = trows T (db s) @ numbered (write_cursor s) bs))"
proof -
  obtain cur r where rows: "push_rows T cdc io es (write_cursor s) 0 (db s) = (cur, r)" by fastforce
  show ?thesis
  proof (cases r)
    case (Inl y)
    then show ?thesis
      using run rows inv push_rows_error [of cdc io es "write_cursor s" 0 "db s" cur y]
      by (fastforce simp: push_def spill_inv_def split: if_splits)
  next
    case (Inr p)
    obtain added t where p: "p = (added, t)" by fastforce
    obtain bs where bs: "map (enc cdc) es = map Some bs"
      "trows T t = trows T (db s) @ numbered (write_cursor s) bs"
      "cur = write_cursor s + length es" "added = sum_list (map length bs)"
      using push_rows_ok [of cdc io es "write_cursor s" 0 "db s" cur added t] rows Inr p inv
      by (auto simp: spill_inv_def)
    have len: "length bs = length es" using bs(1) by (metis length_map)
    let ?s1 = "s\<lparr>db := t, write_cursor := cur, sbytes := sbytes s + added\<rparr>"
    have inv1: "spill_inv T ?s1" using inv bs len by (auto simp: spill_inv_def dest!: set_numbered_less)
    have inv0: "spill_inv T (s\<lparr>write_cursor := cur\<rparr>)" using inv bs(3) by (auto simp: spill_inv_def)
    consider "s' = s" | "s' = s\<lparr>write_cursor := cur\<rparr>"
      | "enforce_cap T io_cap (max_bytes s) ?s1 = (Inl x, s')"
      using run rows Inr p by (auto simp: push_def split: if_splits prod.splits sum.splits)
    then show ?thesis
    proof cases
      case 3
      then have "s' = ?s1" by (rule enforce_cap_error)
      with inv1 bs show ?thesis by (auto simp: spill_inv_def)
    qed (use inv inv0 bs(3) in auto)
  qed
qed

lemma ack_through_rows:
  assumes inv: "spill_inv T s" and run: "ack_through T io through s = (Inr n, s')"
  shows "trows T (db s') = filter (\<lambda>r. through < fst r) (trows T (db s))
    \<and> n = length (filter (\<lambda>r. fst r \<le> through) (trows T (db s)))
    \<and> spill_inv T s' \<and> write_cursor s' = write_cursor s \<and> sdropped s' = sdropped s
    \<and> max_bytes s' = max_bytes s"
proof -
  let ?rows = "trows T (db s)"
  let ?old = "filter (\<lambda>r. fst r \<le> through) ?rows"
  obtain m t where rem: "remove_keys T io (map fst ?old) 0 (db s) = Some (m, t)"
    and s': "n = m" "s' = s\<lparr>db := t, sbytes := sbytes s - total_bytes ?old\<rparr>"
    using run by (auto simp: ack_through_def Let_def split: if_splits option.splits)
  have "m = length ?old"
    using remove_keys_count [OF rem] rows_distinct [of "db s"]
    by (auto simp: dom_get distinct_map_filter)
  moreover have rows': "trows T t = filter (\<lambda>r. through < fst r) ?rows"
    using remove_keys_rows [OF rem] by (auto intro!: filter_cong)
  moreover have "sbytes s - total_bytes ?old = total_bytes (filter (\<lambda>r. through < fst r) ?rows)"
    using inv total_bytes_filter_compl [of ?rows "\<lambda>r. fst r \<le> through"] by (simp add: spill_inv_def not_le)
  ultimately show ?thesis using s' inv by (auto simp: spill_inv_def)
qed

lemma ack_through_error: "ack_through T io through s = (Inl e, s') \<Longrightarrow> s' = s"
  by (auto simp: ack_through_def Let_def split: if_splits option.splits)

lemma drain_batch_rows:
  assumes "drain_batch T cdc io maxe maxb s = Inr out"
  shows "\<exists>n \<le> length (trows T (db s)). map seq out = map fst (take n (trows T (db s)))
       \<and> map (\<lambda>x. Some (spilled_event x)) out = map (\<lambda>r. dec cdc (snd r)) (take n (trows T (db s)))
       \<and> (trows T (db s) \<noteq> [] \<longrightarrow> 0 < n)
       \<and> (n \<le> maxe \<or> n \<le> 1)
       \<and> (total_bytes (take n (trows T (db s))) \<le> maxb \<or> n \<le> 1)
       \<and> (n = length (trows T (db s)) \<or> maxe \<le> n
          \<or> maxb < total_bytes (take (n + 1) (trows T (db s))))"
proof -
  have "drain_rows cdc io maxe maxb (trows T (db s)) [] 0 = Inr out"
    using assms by (auto simp: drain_batch_def split: if_splits)
  from drain_rows_spec [OF this] obtain n es where n: "n \<le> length (trows T (db s))" and es:
    "out = [] @ es" "map seq es = map fst (take n (trows T (db s)))"
    "map (\<lambda>x. Some (spilled_event x)) es = map (\<lambda>r. dec cdc (snd r)) (take n (trows T (db s)))"
    and lim: "trows T (db s) \<noteq> [] \<longrightarrow> 0 < n" "n = 0 \<or> n \<le> maxe \<or> n = 1"
    "n = 0 \<or> total_bytes (take n (trows T (db s))) \<le> maxb \<or> n = 1"
    "n = length (trows T (db s)) \<or> maxe \<le> n \<or> maxb < total_bytes (take (n + 1) (trows T (db s)))"
    by (simp only: list.size add_0 simp_thms) metis
  show ?thesis
    by (intro exI [of _ n] conjI) (use n es lim in auto)
qed

text \<open>Re-opening the same file keeps rows and bytes and puts the cursor above every row.\<close>

lemma spill_open_inv: "spill_open T io t cap = Inr s \<Longrightarrow> spill_inv T s \<and> db s = t \<and> max_bytes s = cap \<and> sdropped s = 0"
proof -
  assume run: "spill_open T io t cap = Inr s"
  then have s: "s = \<lparr>db = t, write_cursor = (case trows T t of [] \<Rightarrow> 0 | r # rs \<Rightarrow> fst (last (r # rs)) + 1),
      sbytes = total_bytes (trows T t), max_bytes = cap, sdropped = 0\<rparr>"
    by (auto simp: spill_open_def Let_def split: if_splits)
  then have wc: "trows T t \<noteq> [] \<Longrightarrow> write_cursor s = Suc (fst (last (trows T t)))"
    by (cases "trows T t") simp_all
  have "fst r < write_cursor s" if "r \<in> set (trows T t)" for r
  proof -
    have "fst r \<le> fst (last (trows T t))" using rows_ok that by (rule bt_ok_le_last)
    moreover have "trows T t \<noteq> []" using that by auto
    ultimately show ?thesis using wc by simp
  qed
  then show ?thesis using s by (simp add: spill_inv_def)
qed

end

interpretation rbt_spill: spill_table rbt_table
  by (intro spill_table.intro rbt_table_ordered)

lemma rbt_spill_table: "spill_table rbt_table"
  by (rule rbt_spill.spill_table_axioms)

lemma rbt_rows [simp]:
  "trows rbt_table (tempty rbt_table) = []"
  "trows rbt_table (tinsert rbt_table k v t) = bt_insert k v (trows rbt_table t)"
  "trows rbt_table (tremove rbt_table k t) = bt_remove k (trows rbt_table t)"
  "tget rbt_table t k = map_of (trows rbt_table t) k"
  by (simp_all add: rbt.rows_empty rbt.rows_insert rbt.rows_remove rbt.get_rows)

section \<open>Draining what was pushed\<close>

lemma drain_rows_numbered:
  assumes "io_good io" and "codec_ok cdc V"
  shows "set es \<subseteq> V \<Longrightarrow> map (enc cdc) es = map Some bs \<Longrightarrow> length out + length es \<le> maxe
    \<Longrightarrow> acc + sum_list (map length bs) \<le> maxb
    \<Longrightarrow> drain_rows cdc io maxe maxb (numbered n bs) out acc
        = Inr (out @ map2 (\<lambda>k e. \<lparr>seq = k, spilled_event = e\<rparr>) [n..<n + length es] es)"
proof (induction es arbitrary: bs out acc n)
  case (Cons e es)
  then obtain b bs' where bs: "bs = b # bs'" "enc cdc e = Some b" "map (enc cdc) es = map Some bs'" by (cases bs) auto
  have d: "dec cdc b = Some e" using assms(2) bs(2) Cons.prems(1) by (auto intro: codec_okD)
  show ?case
  proof (cases "es = []")
    case True
    then show ?thesis using bs d assms(1) Cons.prems(3,4) by (simp add: io_goodD Let_def)
  next
    case False
    then have "length out + 1 < maxe" using Cons.prems(3) by (cases es) auto
    moreover have "drain_rows cdc io maxe maxb (numbered (Suc n) bs') (out @ [\<lparr>seq = n, spilled_event = e\<rparr>]) (acc + length b)
        = Inr ((out @ [\<lparr>seq = n, spilled_event = e\<rparr>]) @ map2 (\<lambda>k e. \<lparr>seq = k, spilled_event = e\<rparr>) [Suc n..<Suc n + length es] es)"
      using Cons.prems bs by (intro Cons.IH) auto
    ultimately show ?thesis using bs d assms(1) Cons.prems(4)
      by (simp add: io_goodD Let_def upt_conv_Cons del: upt_Suc)
  qed
qed simp

section \<open>Properties\<close>

text \<open>Events pushed to an empty spill are drained in order, each under the next sequence number, when
  nothing was dropped and the batch limits admit them all.\<close>

theorem spill_push_then_drain:
  assumes "spill_table T" and "spill_inv T s" and "trows T (db s) = []" and "codec_ok cdc (set es)"
    and "push T cdc io io_cap es s = (Inr (), s')" and "sdropped s' = sdropped s"
    and "io_good io2" and "length es \<le> maxe" and "sbytes s' \<le> maxb"
  shows "drain_batch T cdc io2 maxe maxb s'
     = Inr (map2 (\<lambda>k e. \<lparr>seq = k, spilled_event = e\<rparr>) [next_seq s..<next_seq s + length es] es)"
proof -
  obtain bs n where p: "map (enc cdc) es = map Some bs" "trows T (db s') = drop n (numbered (write_cursor s) bs)"
    "spill_inv T s'" "sdropped s' = sdropped s + n"
    using spill_table.push_ok_rows [OF assms(1,2,5)] assms(3) by auto
  then have rows: "trows T (db s') = numbered (write_cursor s) bs" using assms(6) by simp
  then have "sum_list (map length bs) \<le> maxb" using p(3) assms(9) by (simp add: spill_inv_def)
  then show ?thesis
    using drain_rows_numbered [OF assms(7,4) order_refl p(1), of "[]" maxe 0 maxb "write_cursor s"] rows assms(7,8)
    by (simp add: drain_batch_def io_goodD next_seq_def)
qed

definition demo_spill :: "(nat, bytes) rbt spill" where
  "demo_spill = \<lparr>db = tempty rbt_table, write_cursor = 5, sbytes = 0, max_bytes = 10, sdropped = 0\<rparr>"

lemma demo_spill_inv: "spill_inv rbt_table demo_spill"
  by (simp add: spill_inv_def demo_spill_def)

lemma demo_push:
  "push rbt_table (table_codec [True, False]) io_fine io_fine [True, False] demo_spill
     = (Inr (), demo_spill\<lparr>db := tinsert rbt_table 6 [1] (tinsert rbt_table 5 [0] (tempty rbt_table)),
                           write_cursor := 7, sbytes := 2\<rparr>)"
  by (simp add: push_def demo_spill_def io_fine_def table_codec_def enforce_cap_def)

theorem spill_push_then_drain_witness:
  "\<exists>s'. drain_batch rbt_table (table_codec [True, False]) io_fine 9 9 s'
     = Inr [\<lparr>seq = 5, spilled_event = True\<rparr>, \<lparr>seq = 6, spilled_event = False\<rparr>]"
proof -
  have "drain_batch rbt_table (table_codec [True, False]) io_fine 9 9
      (demo_spill\<lparr>db := tinsert rbt_table 6 [1] (tinsert rbt_table 5 [0] (tempty rbt_table)), write_cursor := 7, sbytes := 2\<rparr>)
    = Inr (map2 (\<lambda>k e. \<lparr>seq = k, spilled_event = e\<rparr>) [next_seq demo_spill..<next_seq demo_spill + length [True, False]] [True, False])"
    by (rule spill_push_then_drain [OF rbt_spill_table demo_spill_inv _ _ demo_push])
       (simp_all add: demo_spill_def)
  also have "\<dots> = Inr [\<lparr>seq = 5, spilled_event = True\<rparr>, \<lparr>seq = 6, spilled_event = False\<rparr>]"
    by (simp add: next_seq_def demo_spill_def upt_conv_Cons)
  finally show ?thesis by blast
qed

text \<open>C34: a successful push appends the events under fresh consecutive numbers and then enforces the byte
  cap by dropping from the oldest end only, no more than needed, counting what it dropped.\<close>

theorem spill_push_cap:
  assumes "spill_table T" and "spill_inv T s" and "push T cdc io io_cap es s = (Inr (), s')"
  shows "\<exists>bs n. map (enc cdc) es = map Some bs
     \<and> trows T (db s') = drop n (trows T (db s) @ numbered (next_seq s) bs)
     \<and> next_seq s' = next_seq s + length es \<and> sdropped s' = sdropped s + n
     \<and> (es = [] \<or> total_bytes (trows T (db s')) \<le> max_bytes s)
     \<and> (n = 0 \<or> max_bytes s < total_bytes (drop (n - 1) (trows T (db s) @ numbered (next_seq s) bs)))"
proof -
  obtain bs n where p: "map (enc cdc) es = map Some bs"
    "trows T (db s') = drop n (trows T (db s) @ numbered (write_cursor s) bs)"
    "es \<noteq> [] \<longrightarrow> sbytes s' \<le> max_bytes s" "spill_inv T s'" "sdropped s' = sdropped s + n"
    "write_cursor s' = write_cursor s + length es"
    "0 < n \<longrightarrow> max_bytes s < total_bytes (drop (n - 1) (trows T (db s) @ numbered (write_cursor s) bs))"
    using spill_table.push_ok_rows [OF assms] by blast
  show ?thesis using p by (intro exI [of _ bs] exI [of _ n]) (auto simp: next_seq_def spill_inv_def)
qed

theorem spill_push_cap_witness:
  "\<exists>s' bs n. map (enc (table_codec [True, False])) [True, False] = map Some bs
     \<and> trows rbt_table (db s') = drop n (trows rbt_table (db demo_spill) @ numbered (next_seq demo_spill) bs)
     \<and> next_seq s' = 7"
proof -
  let ?s = "demo_spill\<lparr>db := tinsert rbt_table 6 [1] (tinsert rbt_table 5 [0] (tempty rbt_table)), write_cursor := 7, sbytes := 2\<rparr>"
  obtain bs n where p: "map (enc (table_codec [True, False])) [True, False] = map Some bs"
    "trows rbt_table (db ?s) = drop n (trows rbt_table (db demo_spill) @ numbered (next_seq demo_spill) bs)"
    using spill_push_cap [OF rbt_spill_table demo_spill_inv demo_push] by blast
  show ?thesis by (rule exI [of _ ?s], rule exI [of _ bs], rule exI [of _ n], intro conjI p) (simp add: next_seq_def)
qed

text \<open>A successful acknowledgement through a sequence number deletes exactly the rows up to it and
  returns how many there were; a failed one changes nothing.\<close>

theorem spill_ack_exact:
  assumes "spill_table T" and "spill_inv T s"
  shows "(\<forall>n s'. ack_through T io through s = (Inr n, s') \<longrightarrow>
            trows T (db s') = filter (\<lambda>r. through < fst r) (trows T (db s))
            \<and> n = length (filter (\<lambda>r. fst r \<le> through) (trows T (db s))) \<and> next_seq s' = next_seq s)
       \<and> (\<forall>x s'. ack_through T io through s = (Inl x, s') \<longrightarrow> s' = s)"
  using spill_table.ack_through_rows [OF assms] spill_table.ack_through_error [OF assms(1)]
  by (auto simp: next_seq_def)

theorem spill_ack_exact_witness:
  "\<exists>s'. ack_through rbt_table io_fine 5
      (demo_spill\<lparr>db := tinsert rbt_table 6 [1] (tinsert rbt_table 5 [0] (tempty rbt_table)), write_cursor := 7, sbytes := 2\<rparr>)
    = (Inr 1, s') \<and> trows rbt_table (db s') = [(6, [1])]"
proof -
  let ?s = "demo_spill\<lparr>db := tinsert rbt_table 6 [1] (tinsert rbt_table 5 [0] (tempty rbt_table)), write_cursor := 7, sbytes := 2\<rparr>"
  have inv: "spill_inv rbt_table ?s" by (simp add: spill_inv_def demo_spill_def)
  obtain s' where s': "ack_through rbt_table io_fine 5 ?s = (Inr 1, s')"
    by (simp add: ack_through_def io_fine_def demo_spill_def bt_remove_def Let_def)
  then show ?thesis using spill_ack_exact [OF rbt_spill_table inv, of io_fine 5] by simp
qed

text \<open>C35: the handle's cursor stays above every stored number and its byte total stays exact, through every
  operation on every outcome of the database calls, and across closing and reopening the file.\<close>

theorem spill_invariant:
  assumes "spill_table T" and "spill_inv T s"
  shows "spill_inv T (snd (push T cdc io io_cap es s)) \<and> next_seq s \<le> next_seq (snd (push T cdc io io_cap es s))
       \<and> spill_inv T (snd (ack_through T io through s))
       \<and> (\<forall>s'. spill_open T io (db s) cap = Inr s' \<longrightarrow> spill_inv T s' \<and> trows T (db s') = trows T (db s))"
proof (intro conjI allI impI)
  obtain r s1 where p: "push T cdc io io_cap es s = (r, s1)" by fastforce
  have "spill_inv T s1 \<and> next_seq s \<le> next_seq s1"
  proof (cases r)
    case (Inl x)
    then show ?thesis using spill_table.push_error_rows [OF assms] p by (fastforce simp: next_seq_def)
  next
    case (Inr u)
    then show ?thesis using spill_table.push_ok_rows [OF assms, of cdc io io_cap es s1] p
      by (auto simp: next_seq_def)
  qed
  then show "spill_inv T (snd (push T cdc io io_cap es s))"
    and "next_seq s \<le> next_seq (snd (push T cdc io io_cap es s))" using p by simp_all
  obtain r2 s2 where a: "ack_through T io through s = (r2, s2)" by fastforce
  then show "spill_inv T (snd (ack_through T io through s))"
    using assms(2) by (cases r2) (auto dest: spill_table.ack_through_rows [OF assms] spill_table.ack_through_error [OF assms(1)])
  fix s'
  assume "spill_open T io (db s) cap = Inr s'"
  then show "spill_inv T s'" and "trows T (db s') = trows T (db s)"
    using spill_table.spill_open_inv [OF assms(1)] by auto
qed

theorem spill_invariant_witness:
  "spill_inv rbt_table (snd (push rbt_table (table_codec [True]) io_fine io_fine [True] demo_spill))"
  using spill_invariant [OF rbt_spill_table demo_spill_inv] by blast

end
