(* ===== verification/Actor.thy ===== *)
theory Actor
  imports Handshake Ring Spill
begin

text \<open>
  The connection actor of the forwarder (\<^verbatim>\<open>plugins/plugin-transport/src/actor.rs\<close>): the batch
  planner, the online phase with its reader task and command tasks, one connection attempt, and
  the outer loop with its back-off.

  The online phase is a \<^verbatim>\<open>select!\<close> loop over timers, channels and notifications while a reader
  task, the command tasks and the event bus run beside it. Every step any of them can take is one
  constructor of \<open>online_input\<close>, with the clock reading and the random ids it uses; the
  \<open>online_step\<close> of a branch that is not ready changes nothing. Instants are nanoseconds. The
  outcomes of the database calls are indexed by the field \<open>fw_clk\<close>, which counts them.
\<close>

section \<open>State\<close>

record pending_batch =
  pb_events :: "event list"
  pb_spill_high :: "nat option"
  pb_sent_at :: nat

datatype session_end = Retry | Fatal | Stopped

record 't forwarder =
  fw_ring :: "event ring"
  fw_spill :: "'t spill"
  fw_clk :: nat
  fw_pending :: "(uuid, pending_batch) btree"
  fw_conn :: conn
  fw_last_rx :: nat
  fw_ring_seen :: nat
  fw_acks :: "(uuid \<times> u32) list"
  fw_parked :: "(uuid \<times> u32) option"
  fw_reading :: bool
  fw_read_error :: bool
  fw_tasks :: "(uuid \<times> server_command) list"
  fw_emitted :: "event list"
  fw_stop :: bool

record 't forwarder_env =
  fe_tables :: "('t, nat, bytes) table_ops"
  fe_json :: "event codec"
  fe_messages :: "message codec"
  fe_cfg :: transport_config
  fe_io :: "nat \<Rightarrow> nat redb_io"
  fe_agent :: string
  fe_rescore_json :: "string \<Rightarrow> json"

definition ACK_CHANNEL_DEPTH :: nat where "ACK_CHANNEL_DEPTH = 64"

definition MAX_INFLIGHT_COMMANDS :: nat where "MAX_INFLIGHT_COMMANDS = 16"

section \<open>Planning a batch\<close>

definition estimate_size :: "event codec \<Rightarrow> event \<Rightarrow> nat" where
  "estimate_size j ev = (case enc j ev of None \<Rightarrow> 256 | Some b \<Rightarrow> length b)"

definition batch_has_room :: "nat \<Rightarrow> nat \<Rightarrow> nat \<Rightarrow> nat \<Rightarrow> nat \<Rightarrow> bool" where
  "batch_has_room cur_events cur_bytes sz max_events max_byts \<longleftrightarrow>
     cur_events = 0 \<or> cur_events < max_events \<and> cur_bytes + sz \<le> max_byts"

fun plan_loop ::
  "('e \<times> nat) list \<Rightarrow> nat \<Rightarrow> nat \<Rightarrow> nat \<Rightarrow> nat \<Rightarrow> 'e list \<Rightarrow> 'e list \<Rightarrow> 'e list \<times> 'e list" where
  "plan_loop [] n byts max_events max_byts taken overflow = (taken, overflow)"
| "plan_loop ((ev, sz) # cands) n byts max_events max_byts taken overflow =
     (if overflow \<noteq> [] \<or> \<not> batch_has_room n byts sz max_events max_byts
      then plan_loop cands n byts max_events max_byts taken (overflow @ [ev])
      else plan_loop cands (n + 1) (byts + sz) max_events max_byts (taken @ [ev]) overflow)"

definition plan_batch :: "('e \<times> nat) list \<Rightarrow> nat \<Rightarrow> nat \<Rightarrow> nat \<Rightarrow> nat \<Rightarrow> 'e list \<times> 'e list" where
  "plan_batch cands start_events start_bytes max_events max_byts =
     plan_loop cands start_events start_bytes max_events max_byts [] []"

section \<open>Flushing\<close>

record gathered =
  ga_events :: "event list"
  ga_high :: "nat option"
  ga_bytes :: nat

fun take_spilled :: "event codec \<Rightarrow> nat \<Rightarrow> nat \<Rightarrow> event spilled list \<Rightarrow> gathered \<Rightarrow> gathered" where
  "take_spilled j max_events max_byts [] g = g"
| "take_spilled j max_events max_byts (se # ses) g =
     (let sz = estimate_size j (spilled_event se)
      in if \<not> batch_has_room (length (ga_events g)) (ga_bytes g) sz max_events max_byts then g
         else take_spilled j max_events max_byts ses
                \<lparr>ga_events = ga_events g @ [spilled_event se], ga_high = Some (seq se), ga_bytes = ga_bytes g + sz\<rparr>)"

definition gather_spill :: "'t forwarder_env \<Rightarrow> 't forwarder \<Rightarrow> gathered \<times> 't forwarder" where
  "gather_spill E s =
     (let g0 = \<lparr>ga_events = [], ga_high = None, ga_bytes = 0\<rparr>;
          s1 = s\<lparr>fw_clk := fw_clk s + 1\<rparr>
      in case drain_batch (fe_tables E) (fe_json E) (fe_io E (fw_clk s)) (batch_max_events (fe_cfg E))
                (batch_max_bytes (fe_cfg E)) (fw_spill s) of
           Inl e \<Rightarrow> (g0, s1)
         | Inr spilled \<Rightarrow>
             (take_spilled (fe_json E) (batch_max_events (fe_cfg E)) (batch_max_bytes (fe_cfg E)) spilled g0, s1))"

text \<open>A push to the spill; the flag says whether it succeeded.\<close>

definition spill_push :: "'t forwarder_env \<Rightarrow> event list \<Rightarrow> 't forwarder \<Rightarrow> bool \<times> 't forwarder" where
  "spill_push E evs s =
     (case push (fe_tables E) (fe_json E) (fe_io E (fw_clk s)) (fe_io E (fw_clk s + 1)) evs (fw_spill s) of
        (r, sp) \<Rightarrow> (isl r = False, s\<lparr>fw_spill := sp, fw_clk := fw_clk s + 2\<rparr>))"

definition spill_ack :: "'t forwarder_env \<Rightarrow> nat \<Rightarrow> 't forwarder \<Rightarrow> 't forwarder" where
  "spill_ack E high s =
     s\<lparr>fw_spill := snd (ack_through (fe_tables E) (fe_io E (fw_clk s)) high (fw_spill s)), fw_clk := fw_clk s + 1\<rparr>"

definition top_up :: "'t forwarder_env \<Rightarrow> gathered \<Rightarrow> 't forwarder \<Rightarrow> gathered \<times> 't forwarder" where
  "top_up E g s =
     (let cfg = fe_cfg E
      in if \<not> (length (ga_events g) < batch_max_events cfg \<and> ga_bytes g < batch_max_bytes cfg) then (g, s)
         else let room = batch_max_events cfg - length (ga_events g);
                  (ring_events, r) = ring_drain room (fw_ring s);
                  s1 = s\<lparr>fw_ring := r\<rparr>
              in if ring_events = [] then (g, s1)
                 else let (keep, overflow) = plan_batch (map (\<lambda>e. (e, estimate_size (fe_json E) e)) ring_events)
                             (length (ga_events g)) (ga_bytes g) (batch_max_events cfg) (batch_max_bytes cfg);
                          before_seq = next_seq (fw_spill s1);
                          (kept, s2) = (if keep = [] then (False, s1) else spill_push E keep s1);
                          g' = (if kept
                                then let high = before_seq + length keep - 1
                                     in g\<lparr>ga_high := Some (case ga_high g of None \<Rightarrow> high | Some h \<Rightarrow> max h high),
                                         ga_events := ga_events g @ keep\<rparr>
                                else g);
                          s3 = (if overflow = [] then s2 else snd (spill_push E overflow s2))
                      in (g', s3))"

definition fw_send :: "'t forwarder_env \<Rightarrow> message \<Rightarrow> 't forwarder \<Rightarrow> (proto_error + unit) \<times> 't forwarder" where
  "fw_send E m s = (case send_msg (fe_messages E) m (fw_conn s) of (r, c) \<Rightarrow> (r, s\<lparr>fw_conn := c\<rparr>))"

definition send_batch :: "'t forwarder_env \<Rightarrow> nat \<Rightarrow> uuid \<Rightarrow> gathered \<Rightarrow> 't forwarder \<Rightarrow> bool \<times> 't forwarder" where
  "send_batch E now batch_id g s =
     (if ga_events g = [] then (True, s)
      else let m = EventBatch batch_id (ga_events g)
           in case enc (fe_messages E) m of
                None \<Rightarrow> (True, s)
              | Some b \<Rightarrow>
                  if MAX_FRAME_BYTES < length b
                  then (True, case ga_high g of None \<Rightarrow> s | Some high \<Rightarrow> spill_ack E high s)
                  else let p = \<lparr>pb_events = ga_events g, pb_spill_high = ga_high g, pb_sent_at = now\<rparr>;
                           s1 = s\<lparr>fw_pending := bt_insert batch_id p (fw_pending s)\<rparr>
                       in case fw_send E m s1 of (Inl e, s2) \<Rightarrow> (False, s2) | (Inr _, s2) \<Rightarrow> (True, s2))"

definition try_flush :: "'t forwarder_env \<Rightarrow> nat \<Rightarrow> uuid \<Rightarrow> 't forwarder \<Rightarrow> bool \<times> 't forwarder" where
  "try_flush E now batch_id s =
     (if max_in_flight (fe_cfg E) \<le> length (fw_pending s) then (True, s)
      else case gather_spill E s of (g, s1) \<Rightarrow>
           case top_up E g s1 of (g', s2) \<Rightarrow> send_batch E now batch_id g' s2)"

section \<open>Server commands\<close>

definition sanitize :: "string \<Rightarrow> string" where
  "sanitize s = concat (take 256 (filter (\<lambda>ch. \<not> char_is_control ch) (str_chars s)))"

text \<open>The reply, and the event raised on the local bus where there is one.\<close>

fun dispatch_command ::
  "(string \<Rightarrow> json) \<Rightarrow> string \<Rightarrow> uuid \<Rightarrow> u64 \<Rightarrow> uuid \<Rightarrow> server_command \<Rightarrow> message \<times> event list" where
  "dispatch_command rj aid new_id now i Noop = (CommandResult i True None, [])"
| "dispatch_command rj aid new_id now i (Rescore subject) =
     (CommandResult i True (Some ''rescore request emitted locally''),
      [with_kind ''transport.rescore'' (event_new new_id now aid ''plugin-transport'' (Custom (rj subject)))])"
| "dispatch_command rj aid new_id now i (SetConfig plugin patch) =
     (CommandResult i False
        (Some (''live reconfigure of `'' @ sanitize plugin @ ''` unsupported (no Plugin::reconfigure yet)'')), [])"
| "dispatch_command rj aid new_id now i (Isolate reason) =
     (CommandResult i True (Some ''isolation alert raised''),
      [event_new new_id now aid ''plugin-transport''
         (Alert Critical ''Isolation requested by server'' (''reason: '' @ sanitize reason) (Some aid))])"

section \<open>The reader task\<close>

definition fw_route :: "'t forwarder_env \<Rightarrow> message \<Rightarrow> 't forwarder \<Rightarrow> 't forwarder" where
  "fw_route E m s =
     (case m of
        BatchAck batch_id accepted \<Rightarrow>
          if length (fw_acks s) < ACK_CHANNEL_DEPTH then s\<lparr>fw_acks := fw_acks s @ [(batch_id, accepted)]\<rparr>
          else s\<lparr>fw_parked := Some (batch_id, accepted)\<rparr>
      | Command i cmd \<Rightarrow>
          if length (fw_tasks s) < MAX_INFLIGHT_COMMANDS then s\<lparr>fw_tasks := fw_tasks s @ [(i, cmd)]\<rparr> else s
      | Ping \<Rightarrow> snd (fw_send E Pong s)
      | _ \<Rightarrow> s)"

text \<open>One turn of the reader: finish a send that was waiting for room in the channel, or read the next
  frame. A read error is reported and ends the task.\<close>

definition reader_turn :: "'t forwarder_env \<Rightarrow> nat \<Rightarrow> 't forwarder \<Rightarrow> 't forwarder" where
  "reader_turn E now s =
     (if \<not> fw_reading s then s
      else case fw_parked s of
        Some a \<Rightarrow> if length (fw_acks s) < ACK_CHANNEL_DEPTH then s\<lparr>fw_acks := fw_acks s @ [a], fw_parked := None\<rparr> else s
      | None \<Rightarrow>
          (case recv_msg (fe_messages E) (fw_conn s) of
             (Inl e, c) \<Rightarrow> s\<lparr>fw_conn := c, fw_read_error := True, fw_reading := False\<rparr>
           | (Inr m, c) \<Rightarrow> fw_route E m (s\<lparr>fw_conn := c, fw_last_rx := now\<rparr>)))"

text \<open>The command task at position \<open>i\<close> completes and releases its permit.\<close>

definition task_done :: "'t forwarder_env \<Rightarrow> nat \<Rightarrow> uuid \<Rightarrow> u64 \<Rightarrow> 't forwarder \<Rightarrow> 't forwarder" where
  "task_done E i new_id now s =
     (if length (fw_tasks s) \<le> i then s
      else case fw_tasks s ! i of
        (cid, cmd) \<Rightarrow>
          (case dispatch_command (fe_rescore_json E) (fe_agent E) new_id now cid cmd of
             (reply, evs) \<Rightarrow>
               snd (fw_send E reply (s\<lparr>fw_tasks := take i (fw_tasks s) @ drop (Suc i) (fw_tasks s),
                                       fw_emitted := fw_emitted s @ evs\<rparr>))))"

section \<open>The online loop\<close>

definition on_ack :: "'t forwarder_env \<Rightarrow> uuid \<Rightarrow> 't forwarder \<Rightarrow> 't forwarder" where
  "on_ack E batch_id s =
     (case map_of (fw_pending s) batch_id of
        None \<Rightarrow> s
      | Some p \<Rightarrow>
          (let s1 = s\<lparr>fw_pending := bt_remove batch_id (fw_pending s)\<rparr>
           in case pb_spill_high p of None \<Rightarrow> s1 | Some high \<Rightarrow> spill_ack E high s1))"

definition ms :: "u64 \<Rightarrow> nat" where
  "ms n = unat n * 1000000"

definition watchdog :: "'t forwarder_env \<Rightarrow> nat \<Rightarrow> 't forwarder \<Rightarrow> session_end option \<times> 't forwarder" where
  "watchdog E now s =
     (let dropped_now = ring_dropped (fw_ring s);
          s1 = (if fw_ring_seen s < dropped_now then s\<lparr>fw_ring_seen := dropped_now\<rparr> else s)
      in if ms (keepalive_timeout_ms (fe_cfg E)) < now - fw_last_rx s then (Some Retry, s1)
         else if list_ex (\<lambda>(i, p). ms (ack_timeout_ms (fe_cfg E)) < now - pb_sent_at p) (fw_pending s)
         then (Some Retry, s1)
         else (None, s1))"

datatype online_input =
    ReadErrorArm
  | StopArm
  | AckArm
  | FlushArm nat uuid
  | KeepaliveArm
  | WatchdogArm nat
  | ReaderTurn nat
  | TaskDone nat uuid u64
  | RingOffer event
  | StopRequested

fun online_step :: "'t forwarder_env \<Rightarrow> online_input \<Rightarrow> 't forwarder \<Rightarrow> session_end option \<times> 't forwarder" where
  "online_step E ReadErrorArm s = (if fw_read_error s then Some Retry else None, s)"
| "online_step E StopArm s = (if fw_stop s then Some Stopped else None, s)"
| "online_step E AckArm s =
     (case fw_acks s of
        [] \<Rightarrow> (None, s)
      | (batch_id, accepted) # rest \<Rightarrow> (None, on_ack E batch_id (s\<lparr>fw_acks := rest\<rparr>)))"
| "online_step E (FlushArm now batch_id) s =
     (case try_flush E now batch_id s of (ok, s') \<Rightarrow> (if ok then None else Some Retry, s'))"
| "online_step E KeepaliveArm s =
     (case fw_send E Ping s of (Inl e, s') \<Rightarrow> (Some Retry, s') | (Inr _, s') \<Rightarrow> (None, s'))"
| "online_step E (WatchdogArm now) s = watchdog E now s"
| "online_step E (ReaderTurn now) s = (None, reader_turn E now s)"
| "online_step E (TaskDone i new_id now) s = (None, task_done E i new_id now s)"
| "online_step E (RingOffer ev) s = (None, s\<lparr>fw_ring := offer ev (fw_ring s)\<rparr>)"
| "online_step E StopRequested s = (None, s\<lparr>fw_stop := True\<rparr>)"

text \<open>\<open>None\<close>: the inputs ran out and the session is still online.\<close>

fun online_run :: "'t forwarder_env \<Rightarrow> online_input list \<Rightarrow> 't forwarder \<Rightarrow> session_end option \<times> 't forwarder" where
  "online_run E [] s = (None, s)"
| "online_run E (i # is) s =
     (case online_step E i s of (Some x, s') \<Rightarrow> (Some x, s') | (None, s') \<Rightarrow> online_run E is s')"

text \<open>The tear-down: the reader is aborted, and a batch without spill rows is written back, in order of
  sending.\<close>

fun respill :: "'t forwarder_env \<Rightarrow> pending_batch list \<Rightarrow> 't forwarder \<Rightarrow> 't forwarder" where
  "respill E [] s = s"
| "respill E (p # ps) s =
     respill E ps (if pb_spill_high p = None then snd (spill_push E (pb_events p) s) else s)"

definition teardown :: "'t forwarder_env \<Rightarrow> 't forwarder \<Rightarrow> 't forwarder" where
  "teardown E s =
     (let s1 = s\<lparr>fw_reading := False\<rparr>
      in if fw_pending s1 = [] then s1
         else (respill E (sort_key pb_sent_at (map snd (fw_pending s1))) s1)\<lparr>fw_pending := []\<rparr>)"

definition online_start :: "nat \<Rightarrow> conn \<Rightarrow> 't forwarder \<Rightarrow> 't forwarder" where
  "online_start now c s =
     s\<lparr>fw_pending := [], fw_conn := c, fw_last_rx := now, fw_ring_seen := ring_dropped (fw_ring s),
       fw_acks := [], fw_parked := None, fw_reading := True, fw_read_error := False, fw_tasks := []\<rparr>"

definition serve_online ::
  "'t forwarder_env \<Rightarrow> nat \<Rightarrow> conn \<Rightarrow> online_input list \<Rightarrow> 't forwarder \<Rightarrow> session_end option \<times> 't forwarder" where
  "serve_online E now c is s =
     (case online_run E is (online_start now c s) of
        (None, s') \<Rightarrow> (None, s')
      | (Some x, s') \<Rightarrow> (Some x, teardown E s'))"

section \<open>One connection attempt\<close>

text \<open>What the network and the server do to one attempt: whether the TCP connection is made; whether the
  TLS handshake gets to the certificate check and past it, with the leaf it served; what the
  established connection reports; and the session's clock and inputs. A name rustls does not
  accept is replaced by a placeholder, which pinning ignores, so the name is not part of it.\<close>

record attempt =
  at_tcp :: bool
  at_tls :: bool
  at_leaf :: bytes
  at_peer_certs :: "bytes list option"
  at_exporter :: "bytes option"
  at_facts :: "string \<times> string"
  at_conn :: conn
  at_now :: nat
  at_inputs :: "online_input list"

definition connect_and_serve ::
  "'sk crypto \<Rightarrow> 'sk enrolled \<Rightarrow> 't forwarder_env \<Rightarrow> attempt \<Rightarrow> 't forwarder \<Rightarrow> session_end option \<times> 't forwarder" where
  "connect_and_serve C ident E a s =
     (case parse_server_url (server (fe_cfg E)) of
        Inl e \<Rightarrow> (Some Retry, s)
      | Inr host_port \<Rightarrow>
          if \<not> at_tcp a then (Some Retry, s)
          else if \<not> (at_tls a \<and> verify_server_cert C (server_pins ident) (at_leaf a)) then (Some Retry, s)
          else (case at_exporter a of
                  None \<Rightarrow> (Some Retry, s)
                | Some exporter \<Rightarrow>
                    let bound_pin = bind_pin C (at_peer_certs a) (hd (server_pins ident))
                    in (case handshake C (fe_messages E) (fe_agent E) (signing_key ident) (at_facts a) exporter bound_pin
                                (at_conn a) of
                          (Inl (HsFatal reason), c) \<Rightarrow> (Some Fatal, s)
                        | (Inl (HsRetry reason), c) \<Rightarrow> (Some Retry, s)
                        | (Inr _, c) \<Rightarrow> serve_online E (at_now a) c (at_inputs a) s)))"

section \<open>Back-off and the outer loop\<close>

text \<open>\<open>draw b\<close> is the random number drawn from \<open>0..=b\<close>.\<close>

definition backoff_bound :: "transport_config \<Rightarrow> u32 \<Rightarrow> u64" where
  "backoff_bound cfg expo =
     (let base = max (backoff_min_ms cfg) 1;
          ceil = max (backoff_max_ms cfg) base;
          scaled = saturating_mul base (push_bit (unat (min expo 20)) 1)
      in min scaled ceil)"

definition backoff_delay :: "transport_config \<Rightarrow> u32 \<Rightarrow> (u64 \<Rightarrow> u64) \<Rightarrow> u64" where
  "backoff_delay cfg expo draw = max (draw (backoff_bound cfg expo)) 1"

text \<open>One turn of the outer loop: the shutdown flag as read before it, the attempt, the flag read after a
  retryable end, how long the attempt lasted in nanoseconds, the random draw, and whether shutdown
  interrupts the sleep.\<close>

record turn =
  tu_stop_before :: bool
  tu_attempt :: attempt
  tu_stop_after :: bool
  tu_stayed :: nat
  tu_draw :: "u64 \<Rightarrow> u64"
  tu_woken :: bool

datatype run_end = RunStopped | RunFatal | RunNoSpill | StillRunning

fun run_loop ::
  "'sk crypto \<Rightarrow> 'sk enrolled \<Rightarrow> 't forwarder_env \<Rightarrow> turn list \<Rightarrow> u32 \<Rightarrow> u64 list \<Rightarrow> 't forwarder
   \<Rightarrow> run_end \<times> u64 list \<times> 't forwarder" where
  "run_loop C ident E [] expo delays s = (StillRunning, delays, s)"
| "run_loop C ident E (t # ts) expo delays s =
     (if tu_stop_before t then (RunStopped, delays, s)
      else case connect_and_serve C ident E (tu_attempt t) s of
        (None, s1) \<Rightarrow> (StillRunning, delays, s1)
      | (Some Stopped, s1) \<Rightarrow> (RunStopped, delays, s1)
      | (Some Fatal, s1) \<Rightarrow> (RunFatal, delays, s1)
      | (Some Retry, s1) \<Rightarrow>
          if tu_stop_after t then (RunStopped, delays, s1)
          else let expo1 = (if ms (backoff_min_ms (fe_cfg E)) \<le> tu_stayed t \<and> 0 < expo then 0 else expo);
                   delay = backoff_delay (fe_cfg E) expo1 (tu_draw t)
               in if tu_woken t then (RunStopped, delays @ [delay], s1)
                  else run_loop C ident E ts (saturating_add expo1 1) (delays @ [delay]) s1)"

text \<open>The way out: what is still in the ring goes to disk.\<close>

definition persist_ring :: "'t forwarder_env \<Rightarrow> 't forwarder \<Rightarrow> 't forwarder" where
  "persist_ring E s =
     (let (leftover, r) = ring_drain (length (q (fw_ring s))) (fw_ring s);
          s1 = s\<lparr>fw_ring := r\<rparr>
      in if leftover = [] then s1 else snd (spill_push E leftover s1))"

text \<open>\<open>t\<close> is the table in the spill database; \<open>open_io\<close> the outcome of opening it.\<close>

definition run_actor ::
  "'sk crypto \<Rightarrow> 'sk enrolled \<Rightarrow> 't forwarder_env \<Rightarrow> nat redb_io \<Rightarrow> 't \<Rightarrow> turn list \<Rightarrow> 't forwarder
   \<Rightarrow> run_end \<times> u64 list \<times> 't forwarder" where
  "run_actor C ident E open_io t ts s =
     (case spill_open (fe_tables E) open_io t (unat (spill_max_bytes (fe_cfg E))) of
        Inl e \<Rightarrow> (RunNoSpill, [], s)
      | Inr sp \<Rightarrow>
          (case run_loop C ident E ts 0 [] (s\<lparr>fw_spill := sp\<rparr>) of
             (StillRunning, delays, s1) \<Rightarrow> (StillRunning, delays, s1)
           | (e, delays, s1) \<Rightarrow> (e, delays, persist_ring E s1)))"

end
