(* ===== verification/Actor_Facts.thy ===== *)
theory Actor_Facts
  imports Actor
begin

text \<open>
  What the connection actor guarantees: how a batch is planned, that every batch in flight is backed
  by spill rows, which rows an acknowledgement may delete, the limits the reader keeps, and the
  bounds of the back-off.
\<close>

section \<open>The planner\<close>

lemma plan_loop_overflow:
  "overflow \<noteq> [] \<Longrightarrow> plan_loop cands n byts me mb taken overflow = (taken, overflow @ map fst cands)"
  by (induction cands n byts me mb taken overflow rule: plan_loop.induct) auto

text \<open>The planner takes a prefix: the longest one each of whose members still had room.\<close>

lemma plan_loop_spec:
  "plan_loop cands n byts me mb taken [] = (keep, over) \<Longrightarrow>
   \<exists>k \<le> length cands. keep = taken @ map fst (take k cands) \<and> over = map fst (drop k cands)
     \<and> (\<forall>i < k. batch_has_room (n + i) (byts + sum_list (map snd (take i cands))) (snd (cands ! i)) me mb)
     \<and> (k < length cands \<longrightarrow>
          \<not> batch_has_room (n + k) (byts + sum_list (map snd (take k cands))) (snd (cands ! k)) me mb)"
proof (induction cands arbitrary: n byts taken)
  case Nil
  then show ?case by simp
next
  case (Cons c cands)
  obtain ev sz where c: "c = (ev, sz)" by fastforce
  show ?case
  proof (cases "batch_has_room n byts sz me mb")
    case True
    then have "plan_loop cands (n + 1) (byts + sz) me mb (taken @ [ev]) [] = (keep, over)"
      using Cons.prems c by simp
    from Cons.IH [OF this] obtain k where k: "k \<le> length cands"
      "keep = (taken @ [ev]) @ map fst (take k cands)" "over = map fst (drop k cands)"
      "\<forall>i < k. batch_has_room (n + 1 + i) (byts + sz + sum_list (map snd (take i cands))) (snd (cands ! i)) me mb"
      "k < length cands \<longrightarrow>
         \<not> batch_has_room (n + 1 + k) (byts + sz + sum_list (map snd (take k cands))) (snd (cands ! k)) me mb"
      by blast
    have "batch_has_room (n + i) (byts + sum_list (map snd (take i (c # cands)))) (snd ((c # cands) ! i)) me mb"
      if "i < Suc k" for i
      using that k(4) True c by (cases i) (auto simp: add.assoc)
    then show ?thesis using k c by (intro exI [of _ "Suc k"]) (auto simp: add.assoc)
  next
    case False
    then have "keep = taken" "over = ev # map fst cands"
      using Cons.prems c by (auto simp: plan_loop_overflow)
    then show ?thesis using False c by (intro exI [of _ 0]) simp
  qed
qed

lemma plan_batch_append:
  "plan_batch cands n byts me mb = (keep, over) \<Longrightarrow> keep @ over = map fst cands"
  using plan_loop_spec [of cands n byts me mb "[]" keep over]
  by (auto simp: plan_batch_def simp flip: map_append)

section \<open>Flushing keeps the spill invariant and backs every batch\<close>

definition fw_backed :: "'t forwarder \<Rightarrow> bool" where
  "fw_backed s \<longleftrightarrow> (\<forall>p \<in> snd ` set (fw_pending s). pb_spill_high p \<noteq> None \<and> pb_events p \<noteq> [])"

lemma take_spilled_spec:
  "\<exists>k \<le> length ses. ga_events (take_spilled j me mb ses g) = ga_events g @ map spilled_event (take k ses)
     \<and> ga_high (take_spilled j me mb ses g) = (if k = 0 then ga_high g else Some (seq (ses ! (k - 1))))"
proof (induction ses arbitrary: g)
  case Nil
  then show ?case by simp
next
  case (Cons se ses)
  let ?sz = "estimate_size j (spilled_event se)"
  let ?g = "\<lparr>ga_events = ga_events g @ [spilled_event se], ga_high = Some (seq se), ga_bytes = ga_bytes g + ?sz\<rparr>"
  show ?case
  proof (cases "batch_has_room (length (ga_events g)) (ga_bytes g) ?sz me mb")
    case True
    obtain k where k: "k \<le> length ses"
      "ga_events (take_spilled j me mb ses ?g) = ga_events ?g @ map spilled_event (take k ses)"
      "ga_high (take_spilled j me mb ses ?g) = (if k = 0 then ga_high ?g else Some (seq (ses ! (k - 1))))"
      using Cons.IH [of ?g] by blast
    have "take_spilled j me mb (se # ses) g = take_spilled j me mb ses ?g" using True by (simp add: Let_def)
    then show ?thesis using k by (intro exI [of _ "Suc k"]) (auto simp: nth_Cons')
  next
    case False
    then show ?thesis by (intro exI [of _ 0]) (simp add: Let_def)
  qed
qed

lemma take_spilled_backed:
  "(ga_events g = [] \<longleftrightarrow> ga_high g = None) \<Longrightarrow>
   ga_events (take_spilled j me mb ses g) = [] \<longleftrightarrow> ga_high (take_spilled j me mb ses g) = None"
  using take_spilled_spec [of ses j me mb g] by (auto split: if_splits)

lemma gather_spill_backed:
  "gather_spill E s = (g, s') \<Longrightarrow> ga_events g = [] \<longleftrightarrow> ga_high g = None"
  using take_spilled_backed
  by (fastforce simp: gather_spill_def Let_def split: sum.splits)

lemma top_up_backed:
  "top_up E g s = (g', s') \<Longrightarrow> (ga_events g = [] \<longleftrightarrow> ga_high g = None) \<Longrightarrow> ga_events g' = [] \<longleftrightarrow> ga_high g' = None"
  by (auto simp: top_up_def Let_def spill_push_def split: if_splits prod.splits option.splits)

text \<open>A push as the actor sees it: a suffix of the old rows followed by rows with fresh numbers, one for
  each event when it succeeds.\<close>

lemma spill_push_rows:
  assumes T: "spill_table (fe_tables E)" and inv: "spill_inv (fe_tables E) (fw_spill s)"
    and run: "spill_push E evs s = (ok, s')"
  shows "\<exists>n bs. trows (fe_tables E) (db (fw_spill s'))
        = drop n (trows (fe_tables E) (db (fw_spill s)) @ numbered (next_seq (fw_spill s)) bs)
      \<and> (ok \<or> bs \<noteq> [] \<longrightarrow> map (enc (fe_json E)) evs = map Some bs)
      \<and> next_seq (fw_spill s) + length bs \<le> next_seq (fw_spill s')
      \<and> spill_inv (fe_tables E) (fw_spill s')"
proof -
  obtain r sp where p: "push (fe_tables E) (fe_json E) (fe_io E (fw_clk s)) (fe_io E (fw_clk s + 1)) evs (fw_spill s) = (r, sp)"
    by fastforce
  have s': "s' = s\<lparr>fw_spill := sp, fw_clk := fw_clk s + 2\<rparr>" and ok: "ok \<longleftrightarrow> \<not> isl r"
    using run p by (auto simp: spill_push_def)
  show ?thesis
  proof (cases r)
    case (Inl x)
    have e: "spill_inv (fe_tables E) sp" "write_cursor (fw_spill s) \<le> write_cursor sp"
      "trows (fe_tables E) (db sp) = trows (fe_tables E) (db (fw_spill s)) \<or>
       (\<exists>bs. map (enc (fe_json E)) evs = map Some bs \<and>
          trows (fe_tables E) (db sp) = trows (fe_tables E) (db (fw_spill s)) @ numbered (write_cursor (fw_spill s)) bs)"
      using spill_table.push_error_rows [OF T inv, of "fe_json E"] p Inl by blast+
    from e(3) show ?thesis
    proof
      assume "trows (fe_tables E) (db sp) = trows (fe_tables E) (db (fw_spill s))"
      then show ?thesis using e s' ok Inl
        by (intro exI [of _ 0] exI [of _ "[]"]) (simp add: next_seq_def)
    next
      assume "\<exists>bs. map (enc (fe_json E)) evs = map Some bs \<and>
          trows (fe_tables E) (db sp) = trows (fe_tables E) (db (fw_spill s)) @ numbered (write_cursor (fw_spill s)) bs"
      then obtain bs where bs: "map (enc (fe_json E)) evs = map Some bs"
        "trows (fe_tables E) (db sp) = trows (fe_tables E) (db (fw_spill s)) @ numbered (write_cursor (fw_spill s)) bs"
        by blast
      have "write_cursor (fw_spill s) + length bs \<le> write_cursor sp"
      proof (cases "bs = []")
        case False
        let ?n = "write_cursor (fw_spill s)"
        have "(?n + length bs - 1, last bs) \<in> set (numbered ?n bs)"
          using False
          by (cases bs rule: rev_cases) (auto simp: numbered_def set_zip nth_append intro!: exI [of _ "length bs - 1"])
        then have "(?n + length bs - 1, last bs) \<in> set (trows (fe_tables E) (db sp))" by (simp add: bs(2))
        then have "?n + length bs - 1 < write_cursor sp" using e(1) by (metis spill_inv_def fst_conv)
        then show ?thesis using False by (cases bs) simp_all
      qed (simp add: e(2))
      then show ?thesis using e s' bs by (intro exI [of _ 0] exI [of _ bs]) (simp add: next_seq_def)
    qed
  next
    case (Inr u)
    then have pu: "push (fe_tables E) (fe_json E) (fe_io E (fw_clk s)) (fe_io E (fw_clk s + 1)) evs (fw_spill s) = (Inr (), sp)"
      using p by simp
    obtain bs n where b: "map (enc (fe_json E)) evs = map Some bs"
      "trows (fe_tables E) (db sp) = drop n (trows (fe_tables E) (db (fw_spill s)) @ numbered (write_cursor (fw_spill s)) bs)"
      "spill_inv (fe_tables E) sp" "write_cursor sp = write_cursor (fw_spill s) + length evs"
      using spill_table.push_ok_rows [OF T inv pu] by blast
    have "length bs = length evs" using b(1) by (metis length_map)
    then show ?thesis using b s' by (intro exI [of _ n] exI [of _ bs]) (simp add: next_seq_def)
  qed
qed

lemma spill_push_frame [simp]:
  "fw_pending (snd (spill_push E evs s)) = fw_pending s" "fw_tasks (snd (spill_push E evs s)) = fw_tasks s"
  "fw_acks (snd (spill_push E evs s)) = fw_acks s" "fw_ring (snd (spill_push E evs s)) = fw_ring s"
  by (simp_all add: spill_push_def split: prod.splits)

lemma spill_ack_frame [simp]:
  "fw_pending (spill_ack E h s) = fw_pending s" "fw_tasks (spill_ack E h s) = fw_tasks s"
  "fw_acks (spill_ack E h s) = fw_acks s" "fw_ring (spill_ack E h s) = fw_ring s"
  by (simp_all add: spill_ack_def)

lemma fw_send_frame [simp]:
  "fw_pending (snd (fw_send E m s)) = fw_pending s" "fw_tasks (snd (fw_send E m s)) = fw_tasks s"
  "fw_acks (snd (fw_send E m s)) = fw_acks s" "fw_ring (snd (fw_send E m s)) = fw_ring s"
  "fw_spill (snd (fw_send E m s)) = fw_spill s"
  by (simp_all add: fw_send_def split: prod.splits)

lemma spill_push_inv:
  "spill_table (fe_tables E) \<Longrightarrow> spill_inv (fe_tables E) (fw_spill s)
   \<Longrightarrow> spill_inv (fe_tables E) (fw_spill (snd (spill_push E evs s)))"
  using spill_push_rows [of E s evs] by (metis prod.collapse)

lemma spill_ack_inv:
  assumes "spill_table (fe_tables E)" and "spill_inv (fe_tables E) (fw_spill s)"
  shows "spill_inv (fe_tables E) (fw_spill (spill_ack E h s))"
proof -
  obtain r sp where "ack_through (fe_tables E) (fe_io E (fw_clk s)) h (fw_spill s) = (r, sp)" by fastforce
  then show ?thesis
    using spill_table.ack_through_rows [OF assms] spill_table.ack_through_error [OF assms(1)] assms(2)
    by (cases r) (fastforce simp: spill_ack_def)+
qed

section \<open>The invariant of the online phase\<close>

definition forwarder_inv :: "'t forwarder_env \<Rightarrow> 't forwarder \<Rightarrow> bool" where
  "forwarder_inv E s \<longleftrightarrow>
     spill_inv (fe_tables E) (fw_spill s) \<and> ring_ok (fw_ring s)
     \<and> length (fw_pending s) \<le> max_in_flight (fe_cfg E) \<and> fw_backed s
     \<and> length (fw_tasks s) \<le> MAX_INFLIGHT_COMMANDS \<and> length (fw_acks s) \<le> ACK_CHANNEL_DEPTH"

lemma gather_spill_frame:
  "gather_spill E s = (g, s') \<Longrightarrow> s' = s\<lparr>fw_clk := fw_clk s + 1\<rparr>"
  by (auto simp: gather_spill_def Let_def split: sum.splits)

text \<open>Topping up drains the ring and pushes to the spill, so what these keep it keeps.\<close>

lemma top_up_preserves:
  assumes run: "top_up E g s = (g', s')" and start: "P s"
    and ring: "\<And>k. P (s\<lparr>fw_ring := snd (ring_drain k (fw_ring s))\<rparr>)"
    and pushed: "\<And>xs u. P u \<Longrightarrow> P (snd (spill_push E xs u))"
  shows "P s'"
proof (cases "length (ga_events g) < batch_max_events (fe_cfg E) \<and> ga_bytes g < batch_max_bytes (fe_cfg E)")
  case False
  then show ?thesis using run start by (auto simp: top_up_def)
next
  case True
  obtain evs r where d: "ring_drain (batch_max_events (fe_cfg E) - length (ga_events g)) (fw_ring s) = (evs, r)"
    by fastforce
  let ?s1 = "s\<lparr>fw_ring := r\<rparr>"
  have p1: "P ?s1" using ring [of "batch_max_events (fe_cfg E) - length (ga_events g)"] d by simp
  show ?thesis
  proof (cases "evs = []")
    case True
    then show ?thesis using run d p1 \<open>length _ < _ \<and> _\<close> by (auto simp: top_up_def Let_def)
  next
    case False
    obtain keep over where pl: "plan_batch (map (\<lambda>e. (e, estimate_size (fe_json E) e)) evs) (length (ga_events g))
        (ga_bytes g) (batch_max_events (fe_cfg E)) (batch_max_bytes (fe_cfg E)) = (keep, over)" by fastforce
    define s2 where "s2 = (if keep = [] then ?s1 else snd (spill_push E keep ?s1))"
    have s': "s' = (if over = [] then s2 else snd (spill_push E over s2))"
      using run True d False pl by (auto simp: top_up_def Let_def s2_def split: prod.splits if_splits)
    have "P s2" using p1 pushed by (simp add: s2_def)
    then show ?thesis using s' pushed by simp
  qed
qed

lemma top_up_spill_inv:
  assumes "spill_table (fe_tables E)" and "spill_inv (fe_tables E) (fw_spill s)" and "top_up E g s = (g', s')"
  shows "spill_inv (fe_tables E) (fw_spill s')"
  using assms(3) by (rule top_up_preserves) (simp_all add: assms spill_push_inv)

lemma top_up_inv:
  assumes T: "spill_table (fe_tables E)" and inv: "forwarder_inv E s" and run: "top_up E g s = (g', s')"
  shows "forwarder_inv E s' \<and> fw_pending s' = fw_pending s"
  using run by (rule top_up_preserves) (use inv spill_push_inv [OF T] in \<open>auto simp: forwarder_inv_def fw_backed_def\<close>)

lemma set_bt_remove: "x \<in> set (bt_remove k m) \<Longrightarrow> x \<in> set m"
  by (auto simp: bt_remove_def)

lemma send_batch_inv:
  assumes T: "spill_table (fe_tables E)" and inv: "forwarder_inv E s"
    and room: "length (fw_pending s) < max_in_flight (fe_cfg E)"
    and g: "ga_events g = [] \<longleftrightarrow> ga_high g = None"
  shows "forwarder_inv E (snd (send_batch E now i g s))"
proof -
  let ?p = "\<lparr>pb_events = ga_events g, pb_spill_high = ga_high g, pb_sent_at = now\<rparr>"
  let ?s1 = "s\<lparr>fw_pending := bt_insert i ?p (fw_pending s)\<rparr>"
  have ack: "forwarder_inv E (spill_ack E h s)" for h
    using inv spill_ack_inv [OF T, of s h] by (simp add: forwarder_inv_def fw_backed_def)
  show ?thesis
  proof (cases "ga_events g = []")
    case True
    then show ?thesis using inv by (simp add: send_batch_def)
  next
    case False
    have "length (bt_insert i ?p (fw_pending s)) \<le> max_in_flight (fe_cfg E)"
      using length_bt_insert_le [of i ?p "fw_pending s"] room by linarith
    moreover have "fw_backed ?s1"
      using inv g False set_bt_insert_subset [of i ?p "fw_pending s"]
      by (auto simp: forwarder_inv_def fw_backed_def)
    ultimately have "forwarder_inv E (snd (fw_send E m ?s1))" for m
      using inv by (simp add: forwarder_inv_def fw_backed_def)
    then show ?thesis using False inv ack
      by (auto simp: send_batch_def Let_def split: option.splits prod.splits sum.splits) (metis snd_conv)+
  qed
qed

lemma try_flush_inv:
  assumes T: "spill_table (fe_tables E)" and inv: "forwarder_inv E s"
  shows "forwarder_inv E (snd (try_flush E now i s))"
proof (cases "max_in_flight (fe_cfg E) \<le> length (fw_pending s)")
  case True
  then show ?thesis using inv by (simp add: try_flush_def)
next
  case False
  obtain g s1 where g: "gather_spill E s = (g, s1)" by fastforce
  obtain g' s2 where t: "top_up E g s1 = (g', s2)" by fastforce
  have i1: "forwarder_inv E s1" and p1: "fw_pending s1 = fw_pending s"
    using inv gather_spill_frame [OF g] by (simp_all add: forwarder_inv_def fw_backed_def)
  note i2 = top_up_inv [OF T i1 t]
  have "forwarder_inv E (snd (send_batch E now i g' s2))"
    using send_batch_inv [OF T, of s2 g'] i2 False p1 top_up_backed [OF t] gather_spill_backed [OF g] by simp
  then show ?thesis using False g t by (simp add: try_flush_def)
qed

lemma fw_route_inv:
  "forwarder_inv E s \<Longrightarrow> forwarder_inv E (fw_route E m s)"
  by (auto simp: fw_route_def forwarder_inv_def fw_backed_def split: message.splits)

lemma reader_turn_inv:
  assumes "forwarder_inv E s"
  shows "forwarder_inv E (reader_turn E now s)"
proof -
  have "forwarder_inv E (fw_route E m (s\<lparr>fw_conn := c, fw_last_rx := now\<rparr>))" for m c
    using assms by (intro fw_route_inv) (simp add: forwarder_inv_def fw_backed_def)
  then show ?thesis using assms
    by (auto simp: reader_turn_def forwarder_inv_def fw_backed_def split: option.splits prod.splits sum.splits)
qed

lemma task_done_inv:
  assumes "forwarder_inv E s"
  shows "forwarder_inv E (task_done E i n now s)"
proof -
  have "forwarder_inv E (snd (fw_send E m (s\<lparr>fw_tasks := take i (fw_tasks s) @ drop (Suc i) (fw_tasks s), fw_emitted := x\<rparr>)))"
    for m x
    using assms by (auto simp: forwarder_inv_def fw_backed_def min_def)
  then show ?thesis using assms by (auto simp: task_done_def split: prod.splits)
qed

lemma on_ack_inv:
  assumes T: "spill_table (fe_tables E)" and inv: "forwarder_inv E s"
  shows "forwarder_inv E (on_ack E i s)"
proof -
  have "length (bt_remove i (fw_pending s)) \<le> length (fw_pending s)" by (simp add: bt_remove_def)
  then have i1: "forwarder_inv E (s\<lparr>fw_pending := bt_remove i (fw_pending s)\<rparr>)"
    using inv by (auto simp: forwarder_inv_def fw_backed_def dest: set_bt_remove)
  have "forwarder_inv E (spill_ack E h u)" if "forwarder_inv E u" for h u
    using that spill_ack_inv [OF T, of u h] by (simp add: forwarder_inv_def fw_backed_def)
  then show ?thesis using inv i1 by (auto simp: on_ack_def Let_def split: option.splits)
qed

lemma online_step_inv:
  assumes T: "spill_table (fe_tables E)" and inv: "forwarder_inv E s"
  shows "forwarder_inv E (snd (online_step E i s))"
proof (cases i)
  case AckArm
  have "forwarder_inv E (on_ack E b (s\<lparr>fw_acks := rest\<rparr>))" if "fw_acks s = (b, n) # rest" for b n rest
    using inv that by (intro on_ack_inv T) (simp add: forwarder_inv_def fw_backed_def)
  then show ?thesis using AckArm inv by (auto split: list.splits)
next
  case (FlushArm now b)
  then show ?thesis using try_flush_inv [OF T inv, of now b] by (cases "try_flush E now b s") simp
next
  case KeepaliveArm
  have "forwarder_inv E (snd (fw_send E Ping s))" using inv by (simp add: forwarder_inv_def fw_backed_def)
  then show ?thesis using KeepaliveArm by (cases "fw_send E Ping s") (auto split: sum.splits)
next
  case (WatchdogArm now)
  then show ?thesis using inv by (simp add: watchdog_def Let_def forwarder_inv_def fw_backed_def)
next
  case (ReaderTurn now)
  then show ?thesis using reader_turn_inv [OF inv] by simp
next
  case (TaskDone k n now)
  then show ?thesis using task_done_inv [OF inv] by simp
next
  case (RingOffer ev)
  then show ?thesis using inv by (simp add: forwarder_inv_def fw_backed_def)
next
  case StopRequested
  then show ?thesis using inv by (simp add: forwarder_inv_def fw_backed_def)
qed (simp_all add: inv)

lemma online_run_inv:
  assumes "spill_table (fe_tables E)"
  shows "forwarder_inv E s \<Longrightarrow> forwarder_inv E (snd (online_run E is s))"
proof (induction "is" arbitrary: s)
  case (Cons i xs)
  then have "forwarder_inv E (snd (online_step E i s))" using online_step_inv [OF assms] by blast
  then show ?case using Cons.IH by (auto split: prod.splits option.splits)
qed simp

text \<open>The fallback of the tear-down never runs.\<close>

lemma respill_backed: "(\<forall>p \<in> set ps. pb_spill_high p \<noteq> None) \<Longrightarrow> respill E ps s = s"
  by (induction ps) auto

lemma teardown_spill:
  "fw_backed s \<Longrightarrow> fw_spill (teardown E s) = fw_spill s \<and> fw_ring (teardown E s) = fw_ring s"
  by (auto simp: teardown_def Let_def fw_backed_def respill_backed)

section \<open>Which rows an acknowledgement deletes\<close>

abbreviation fw_rows :: "'t forwarder_env \<Rightarrow> 't forwarder \<Rightarrow> (nat \<times> bytes) list" where
  "fw_rows E s \<equiv> trows (fe_tables E) (db (fw_spill s))"

abbreviation row_event :: "'t forwarder_env \<Rightarrow> nat \<times> bytes \<Rightarrow> event option" where
  "row_event E r \<equiv> dec (fe_json E) (snd r)"

lemma gather_spill_spec:
  assumes T: "spill_table (fe_tables E)" and run: "gather_spill E s = (g, s1)"
  shows "\<exists>k \<le> length (fw_rows E s). map Some (ga_events g) = map (row_event E) (take k (fw_rows E s))
     \<and> ga_high g = (if k = 0 then None else Some (fst (fw_rows E s ! (k - 1))))"
proof (cases "drain_batch (fe_tables E) (fe_json E) (fe_io E (fw_clk s)) (batch_max_events (fe_cfg E))
                (batch_max_bytes (fe_cfg E)) (fw_spill s)")
  case (Inl e)
  then show ?thesis using run by (intro exI [of _ 0]) (auto simp: gather_spill_def Let_def)
next
  case (Inr out)
  let ?g0 = "\<lparr>ga_events = [], ga_high = None, ga_bytes = 0\<rparr>"
  obtain n where n: "n \<le> length (fw_rows E s)" "map seq out = map fst (take n (fw_rows E s))"
    "map (\<lambda>x. Some (spilled_event x)) out = map (row_event E) (take n (fw_rows E s))"
    using spill_table.drain_batch_rows [OF T Inr] by blast
  obtain k where k: "k \<le> length out" "ga_events g = map spilled_event (take k out)"
    "ga_high g = (if k = 0 then None else Some (seq (out ! (k - 1))))"
    using run Inr take_spilled_spec [of out "fe_json E" "batch_max_events (fe_cfg E)" "batch_max_bytes (fe_cfg E)" ?g0]
    by (auto simp: gather_spill_def Let_def)
  have len: "length out = n" using n(1,2) by (metis length_map length_take min.absorb2)
  have "take k (map (\<lambda>x. Some (spilled_event x)) out) = take k (map (row_event E) (take n (fw_rows E s)))"
    by (simp only: n(3))
  then have "map Some (ga_events g) = map (row_event E) (take k (fw_rows E s))"
    using k(1,2) len by (simp add: take_map min_def comp_def)
  moreover have "seq (out ! (k - 1)) = fst (fw_rows E s ! (k - 1))" if "k \<noteq> 0"
  proof -
    have "map seq out ! (k - 1) = map fst (take n (fw_rows E s)) ! (k - 1)" by (simp only: n(2))
    then show ?thesis using that k(1) len n(1) by simp
  qed
  ultimately show ?thesis using k n(1) len by (intro exI [of _ k]) simp
qed

lemma drop_drop_append: "drop m (drop n xs @ ys) = drop (m + min n (length xs)) (xs @ ys)"
  by (cases "n \<le> length xs") (simp_all add: drop_append min_def)

lemma top_up_spec:
  assumes T: "spill_table (fe_tables E)" and inv: "spill_inv (fe_tables E) (fw_spill s)"
    and run: "top_up E g s = (g', s')"
  shows "\<exists>n bs m bs' keep. fw_rows E s' = drop n (fw_rows E s @ numbered (next_seq (fw_spill s)) bs @ numbered m bs')
     \<and> next_seq (fw_spill s) + length bs \<le> m \<and> ga_events g' = ga_events g @ keep \<and> set keep \<subseteq> set (q (fw_ring s))
     \<and> (if keep = [] then ga_high g' = ga_high g
        else map (enc (fe_json E)) keep = map Some bs
          \<and> ga_high g' = Some (let high = next_seq (fw_spill s) + length keep - 1
                               in case ga_high g of None \<Rightarrow> high | Some h \<Rightarrow> max h high))"
proof (cases "length (ga_events g) < batch_max_events (fe_cfg E) \<and> ga_bytes g < batch_max_bytes (fe_cfg E)")
  case False
  then show ?thesis using run
    by (intro exI [of _ 0] exI [of _ "[]"] exI [of _ "next_seq (fw_spill s)"]) (auto simp: top_up_def)
next
  case True
  obtain evs r where d: "ring_drain (batch_max_events (fe_cfg E) - length (ga_events g)) (fw_ring s) = (evs, r)"
    by fastforce
  let ?s1 = "s\<lparr>fw_ring := r\<rparr>" and ?wc = "next_seq (fw_spill s)"
  show ?thesis
  proof (cases "evs = []")
    case True
    then show ?thesis using run d \<open>length _ < _ \<and> _\<close>
      by (intro exI [of _ 0] exI [of _ "[]"] exI [of _ ?wc]) (auto simp: top_up_def Let_def)
  next
    case False
    obtain keep over where pl: "plan_batch (map (\<lambda>e. (e, estimate_size (fe_json E) e)) evs) (length (ga_events g))
        (ga_bytes g) (batch_max_events (fe_cfg E)) (batch_max_bytes (fe_cfg E)) = (keep, over)" by fastforce
    have sub: "set keep \<subseteq> set (q (fw_ring s))"
    proof -
      have "set evs \<subseteq> set (q (fw_ring s))" using d by (auto simp: ring_drain_def Let_def dest: in_set_takeD)
      moreover have "keep @ over = evs" using plan_batch_append [OF pl] by (simp add: comp_def)
      ultimately show ?thesis by auto
    qed
    obtain kept s2 where k: "(if keep = [] then (False, ?s1) else spill_push E keep ?s1) = (kept, s2)" by fastforce
    obtain n bs where p1: "fw_rows E s2 = drop n (fw_rows E s @ numbered ?wc bs)"
      "kept \<longrightarrow> map (enc (fe_json E)) keep = map Some bs" "?wc + length bs \<le> next_seq (fw_spill s2)"
      "spill_inv (fe_tables E) (fw_spill s2)" "kept \<longrightarrow> keep \<noteq> []"
    proof (cases "keep = []")
      case True
      with k have "s2 = ?s1" "\<not> kept" by simp_all
      then show ?thesis using inv by (intro that [of 0 "[]"]) simp_all
    next
      case False
      with k have "spill_push E keep ?s1 = (kept, s2)" by simp
      with False show ?thesis using spill_push_rows [OF T, of ?s1 keep kept s2] inv that by auto
    qed
    have s': "s' = (if over = [] then s2 else snd (spill_push E over s2))"
      and ga: "g' = (if kept then g\<lparr>ga_high := Some (let high = ?wc + length keep - 1
                               in case ga_high g of None \<Rightarrow> high | Some h \<Rightarrow> max h high),
                                  ga_events := ga_events g @ keep\<rparr> else g)"
      using run True d False pl k by (auto simp: top_up_def Let_def split: prod.splits)
    obtain n' bs' where p2: "fw_rows E s' = drop n' (fw_rows E s2 @ numbered (next_seq (fw_spill s2)) bs')"
    proof (cases "over = []")
      case True
      then show ?thesis using s' that [of 0 "[]"] by simp
    next
      case False
      then have "spill_push E over s2 = (fst (spill_push E over s2), s')" using s' by simp
      from spill_push_rows [OF T p1(4) this] show ?thesis using that by blast
    qed
    have "fw_rows E s' = drop (n' + min n (length (fw_rows E s) + length bs))
        (fw_rows E s @ numbered ?wc bs @ numbered (next_seq (fw_spill s2)) bs')"
      using drop_drop_append [of n' n "fw_rows E s @ numbered ?wc bs"] p2 p1(1) by simp
    then show ?thesis using p1 sub ga
      by (intro exI [of _ "n' + min n (length (fw_rows E s) + length bs)"] exI [of _ bs]
          exI [of _ "next_seq (fw_spill s2)"] exI [of _ bs'] exI [of _ "if kept then keep else []"]) auto
  qed
qed

lemma bt_ok_take_le:
  assumes "bt_ok m" and "0 < k" and "k \<le> length m" and "r \<in> set m" and "fst r \<le> fst (m ! (k - 1))"
  shows "r \<in> set (take k m)"
proof -
  obtain i where i: "i < length m" "r = m ! i" using assms(4) by (auto simp: in_set_conv_nth)
  have "sorted_wrt (<) (map fst m)" using assms(1) by (simp add: bt_ok_def)
  then have "fst (m ! a) < fst (m ! b)" if "a < b" "b < length m" for a b
    using that by (simp add: sorted_wrt_iff_nth_less)
  then have "i \<le> k - 1" using i assms(3,5) by (meson leD leI)
  then show ?thesis using i assms(2,3) by (auto simp: in_set_conv_nth intro!: exI [of _ i])
qed

lemma send_batch_pending:
  assumes "send_batch E now i g s = (ok, s')" and "map_of (fw_pending s) i = None" and "map_of (fw_pending s') i = Some p"
    and "bt_ok (fw_pending s)"
  shows "pb_events p = ga_events g \<and> pb_spill_high p = ga_high g \<and> fw_spill s' = fw_spill s \<and> pb_sent_at p = now"
proof -
  let ?p = "\<lparr>pb_events = ga_events g, pb_spill_high = ga_high g, pb_sent_at = now\<rparr>"
  let ?s1 = "s\<lparr>fw_pending := bt_insert i ?p (fw_pending s)\<rparr>"
  have "s' = snd (fw_send E (EventBatch i (ga_events g)) ?s1)"
    using assms(1,2,3) by (auto simp: send_batch_def Let_def split: if_splits option.splits prod.splits sum.splits)
  then show ?thesis using assms(3,4) by (auto simp: bt)
qed

text \<open>When the spill fitted into the batch, or the ring had nothing to add, the rows an acknowledgement of
  the batch deletes are rows of events in the batch.\<close>

lemma try_flush_covers:
  assumes T: "spill_table (fe_tables E)" and inv: "spill_inv (fe_tables E) (fw_spill s)" and pend: "bt_ok (fw_pending s)"
    and cdc: "codec_ok (fe_json E) (set (q (fw_ring s)))"
    and run: "try_flush E now i s = (ok, s')" and new: "map_of (fw_pending s) i = None"
    and p: "map_of (fw_pending s') i = Some p"
    and all: "q (fw_ring s) = [] \<or> length (ga_events (fst (gather_spill E s))) = length (fw_rows E s)"
    and r: "r \<in> set (fw_rows E s')" and h: "fst r \<le> the (pb_spill_high p)"
  shows "row_event E r \<in> Some ` set (pb_events p)"
proof -
  obtain g s1 where g: "gather_spill E s = (g, s1)" by fastforce
  have s1: "s1 = s\<lparr>fw_clk := fw_clk s + 1\<rparr>" using g by (rule gather_spill_frame)
  obtain g' s2 where t: "top_up E g s1 = (g', s2)" by fastforce
  have pend2: "fw_pending s2 = fw_pending s"
    using t s1 by (auto simp: top_up_def Let_def spill_push_def split: if_splits prod.splits)
  have "send_batch E now i g' s2 = (ok, s')"
    using run g t new p by (auto simp: try_flush_def split: if_splits)
  from send_batch_pending [OF this _ p] new pend pend2
  have sb: "pb_events p = ga_events g'" "pb_spill_high p = ga_high g'" "fw_rows E s' = fw_rows E s2" by simp_all
  have "ga_events g' \<noteq> []"
    using \<open>send_batch E now i g' s2 = (ok, s')\<close> new p pend2 by (auto simp: send_batch_def)
  then obtain high where high: "ga_high g' = Some high"
    using top_up_backed [OF t gather_spill_backed [OF g]] by blast
  obtain k where k: "k \<le> length (fw_rows E s)" "map Some (ga_events g) = map (row_event E) (take k (fw_rows E s))"
    "ga_high g = (if k = 0 then None else Some (fst (fw_rows E s ! (k - 1))))"
    using gather_spill_spec [OF T g] by blast
  obtain n bs m bs' keep where u: "fw_rows E s2 = drop n (fw_rows E s @ numbered (next_seq (fw_spill s)) bs @ numbered m bs')"
    "next_seq (fw_spill s) + length bs \<le> m" "ga_events g' = ga_events g @ keep" "set keep \<subseteq> set (q (fw_ring s))"
    "if keep = [] then ga_high g' = ga_high g
     else map (enc (fe_json E)) keep = map Some bs
          \<and> ga_high g' = Some (let high = next_seq (fw_spill s) + length keep - 1
                               in case ga_high g of None \<Rightarrow> high | Some h \<Rightarrow> max h high)"
    using top_up_spec [OF T _ t] inv s1 by auto
  have old: "row_event E x \<in> Some ` set (pb_events p)" if "x \<in> set (take k (fw_rows E s))" for x
  proof -
    have "row_event E x \<in> set (map (row_event E) (take k (fw_rows E s)))" using that by simp
    then have "row_event E x \<in> set (map Some (ga_events g))" by (simp only: k(2))
    then show ?thesis using sb(1) u(3) by auto
  qed
  have below: "fst x < next_seq (fw_spill s)" if "x \<in> set (fw_rows E s)" for x
    using that inv by (simp add: spill_inv_def next_seq_def)
  have hk: "fst (fw_rows E s ! (k - 1)) < next_seq (fw_spill s)" if "k \<noteq> 0"
    using below [OF nth_mem, of "k - 1"] that k(1) by simp
  have rh: "fst r \<le> high" using h sb(2) high by simp
  have "r \<in> set (fw_rows E s @ numbered (next_seq (fw_spill s)) bs @ numbered m bs')"
    using r sb(3) u(1) by (metis in_set_dropD)
  then consider "r \<in> set (fw_rows E s)" | "r \<in> set (numbered (next_seq (fw_spill s)) bs)" | "r \<in> set (numbered m bs')" by auto
  then show ?thesis
  proof cases
    case 1
    show ?thesis
    proof (cases "length (ga_events g) = length (fw_rows E s)")
      case True
      then have "k = length (fw_rows E s)" using k(1,2) by (metis length_map length_take min.absorb2)
      then show ?thesis using old 1 by simp
    next
      case False
      then have "keep = []" using all g u(4) by auto
      then have "k \<noteq> 0" "high = fst (fw_rows E s ! (k - 1))" using u(5) k(3) high by (auto split: if_splits)
      then show ?thesis
        using old bt_ok_take_le [OF ordered_table.rows_ok [OF spill_table.axioms [OF T]] _ k(1) 1] rh by simp
    qed
  next
    case 2
    note rows = set_numbered_less [OF 2]
    have "keep \<noteq> []"
    proof
      assume "keep = []"
      then have "high < next_seq (fw_spill s)" using u(5) k(3) high hk by (auto split: if_splits)
      with rows rh show False by simp
    qed
    then have e: "map (enc (fe_json E)) keep = map Some bs" using u(5) by simp
    have "snd r \<in> set bs" using 2 by (metis in_set_zipE numbered_def prod.collapse)
    then have "Some (snd r) \<in> set (map (enc (fe_json E)) keep)" by (simp add: e)
    then obtain ev where ev: "ev \<in> set keep" "enc (fe_json E) ev = Some (snd r)" by (metis (no_types) imageE set_map)
    then have "row_event E r = Some ev" using codec_okD [OF cdc] u(4) by blast
    then show ?thesis using ev(1) sb(1) u(3) by auto
  next
    case 3
    have lb: "length bs = length keep" if "keep \<noteq> []" using u(5) that by (metis length_map)
    have "high < m"
    proof (cases "keep = []")
      case True
      then show ?thesis using u(2,5) k(3) high hk by (auto split: if_splits)
    next
      case False
      then show ?thesis using u(2,5) k(3) high hk lb
        by (cases keep) (auto simp: Let_def split: if_splits option.splits)
    qed
    then show ?thesis using set_numbered_less [OF 3] rh by simp
  qed
qed

section \<open>Progress\<close>

lemma drain_rows_decodes:
  "io_good io \<Longrightarrow> \<forall>r \<in> set rows. dec cdc (snd r) \<noteq> None \<Longrightarrow> \<exists>res. drain_rows cdc io me mb rows xs acc = Inr res"
proof (induction rows arbitrary: xs acc)
  case (Cons r rows)
  obtain e where "dec cdc (snd r) = Some e" using Cons.prems(2) by auto
  then show ?case using Cons by (cases r) (auto simp: io_goodD Let_def)
qed simp

lemma take_spilled_first:
  "ses \<noteq> [] \<Longrightarrow> ga_events (take_spilled j me mb ses \<lparr>ga_events = [], ga_high = None, ga_bytes = 0\<rparr>) \<noteq> []"
  using take_spilled_spec [of "tl ses" j me mb]
  by (cases ses) (auto simp: Let_def batch_has_room_def, metis append_is_Nil_conv gathered.select_convs(1) not_Cons_self2)

lemma gather_spill_first:
  assumes T: "spill_table (fe_tables E)" and io: "io_good (fe_io E (fw_clk s))"
    and rows: "fw_rows E s \<noteq> []" "\<forall>r \<in> set (fw_rows E s). row_event E r \<noteq> None"
    and run: "gather_spill E s = (g, s1)"
  shows "ga_events g \<noteq> [] \<and> Some (hd (ga_events g)) = row_event E (hd (fw_rows E s))
     \<and> (\<exists>h. ga_high g = Some h \<and> fst (hd (fw_rows E s)) \<le> h)"
proof -
  obtain res where out: "drain_batch (fe_tables E) (fe_json E) (fe_io E (fw_clk s)) (batch_max_events (fe_cfg E))
                (batch_max_bytes (fe_cfg E)) (fw_spill s) = Inr res"
    using drain_rows_decodes [OF io rows(2)] io by (fastforce simp: drain_batch_def io_goodD)
  obtain n where n: "n \<le> length (fw_rows E s)" "map seq res = map fst (take n (fw_rows E s))" "0 < n"
    using spill_table.drain_batch_rows [OF T out] rows(1) by blast
  then have "res \<noteq> []" using rows(1) by auto
  then have ne: "ga_events g \<noteq> []" using run out take_spilled_first by (auto simp: gather_spill_def Let_def)
  obtain k where k: "k \<le> length (fw_rows E s)" "map Some (ga_events g) = map (row_event E) (take k (fw_rows E s))"
    "ga_high g = (if k = 0 then None else Some (fst (fw_rows E s ! (k - 1))))"
    using gather_spill_spec [OF T run] by blast
  have k0: "k \<noteq> 0" using ne k(2) by (cases "k = 0") simp_all
  have "Some (hd (ga_events g)) = hd (map Some (ga_events g))" using ne by (simp add: hd_map)
  also have "\<dots> = row_event E (hd (fw_rows E s))" using k(2) k0 rows(1) by (simp add: hd_map)
  finally have "Some (hd (ga_events g)) = row_event E (hd (fw_rows E s))" .
  moreover have "fst (hd (fw_rows E s)) \<le> fst (fw_rows E s ! (k - 1))"
  proof -
    have ok: "sorted_wrt (<) (map fst (fw_rows E s))"
      using ordered_table.rows_ok [OF spill_table.axioms [OF T]] by (simp add: bt_ok_def)
    show ?thesis
    proof (cases "k - 1 = 0")
      case True
      then show ?thesis using rows(1) by (simp add: hd_conv_nth)
    next
      case False
      then have "fst (fw_rows E s ! 0) < fst (fw_rows E s ! (k - 1))"
        using ok k(1) by (simp add: sorted_wrt_iff_nth_less)
      then show ?thesis using rows(1) by (simp add: hd_conv_nth)
    qed
  qed
  ultimately show ?thesis using ne k(3) k0 by auto
qed

lemma ack_through_good:
  assumes "spill_table T" and "io_good io"
  shows "\<exists>n s'. ack_through T io through s = (Inr n, s')"
proof -
  obtain m t where "remove_keys T io (map fst (filter (\<lambda>r. fst r \<le> through) (trows T (db s)))) 0 (db s) = Some (m, t)"
    using spill_table.remove_keys_io_good [OF assms] by blast
  then show ?thesis using assms(2) by (simp add: ack_through_def io_goodD Let_def list_all_iff)
qed

text \<open>The events a flush is about to send.\<close>

definition planned :: "'t forwarder_env \<Rightarrow> 't forwarder \<Rightarrow> event list" where
  "planned E s = (case gather_spill E s of (g, s1) \<Rightarrow> ga_events (fst (top_up E g s1)))"

lemma try_flush_progress:
  assumes T: "spill_table (fe_tables E)" and inv: "spill_inv (fe_tables E) (fw_spill s)" and io: "\<forall>n. io_good (fe_io E n)"
    and idle: "fw_pending s = []" "0 < max_in_flight (fe_cfg E)" and conn: "wok (fw_conn s) = []"
    and rows: "fw_rows E s \<noteq> []" "\<forall>r \<in> set (fw_rows E s). row_event E r \<noteq> None"
    and snd: "sendable (fe_messages E) (EventBatch i (planned E s))"
  shows "Some (hd (planned E s)) = row_event E (hd (fw_rows E s))
     \<and> (\<exists>s'. try_flush E now i s = (True, s')
          \<and> out (fw_conn s') = out (fw_conn s) @ frame (fe_messages E) (EventBatch i (planned E s))
          \<and> fst (hd (fw_rows E s)) \<notin> fst ` set (fw_rows E (on_ack E i s')))"
proof -
  obtain g s1 where g: "gather_spill E s = (g, s1)" by fastforce
  have s1: "s1 = s\<lparr>fw_clk := fw_clk s + 1\<rparr>" using g by (rule gather_spill_frame)
  obtain g' s2 where t: "top_up E g s1 = (g', s2)" by fastforce
  have fr: "fw_pending s2 = fw_pending s" "fw_conn s2 = fw_conn s"
    using t s1 by (auto simp: top_up_def Let_def spill_push_def split: if_splits prod.splits)
  obtain h where first: "ga_events g \<noteq> []" "Some (hd (ga_events g)) = row_event E (hd (fw_rows E s))"
    "ga_high g = Some h" "fst (hd (fw_rows E s)) \<le> h"
    using gather_spill_first [OF T _ rows g] io by blast
  have inv1: "spill_inv (fe_tables E) (fw_spill s1)" using inv s1 by simp
  obtain keep where keep: "ga_events g' = ga_events g @ keep"
    "ga_high g' = ga_high g \<or> ga_high g' = Some (let high = next_seq (fw_spill s1) + length keep - 1
                               in case ga_high g of None \<Rightarrow> high | Some h \<Rightarrow> max h high)"
    using top_up_spec [OF T inv1 t] by metis
  then obtain h' where h': "ga_high g' = Some h'" "h \<le> h'" using first(3) by (auto simp: Let_def)
  let ?m = "EventBatch i (ga_events g')"
  have ne: "ga_events g' \<noteq> []" "hd (ga_events g') = hd (ga_events g)" using keep(1) first(1) by simp_all
  have run: "try_flush E now i s = send_batch E now i g' s2" using g t idle by (simp add: try_flush_def)
  have pl: "planned E s = ga_events g'" using g t by (simp add: planned_def)
  show ?thesis unfolding pl
  proof (intro conjI)
    have snd': "sendable (fe_messages E) ?m" using snd by (simp add: pl)
    then obtain b where b: "enc (fe_messages E) ?m = Some b" "length b \<le> MAX_FRAME_BYTES" by (auto simp: sendable_def)
    let ?p = "\<lparr>pb_events = ga_events g', pb_spill_high = ga_high g', pb_sent_at = now\<rparr>"
    let ?s3 = "s2\<lparr>fw_pending := [(i, ?p)]\<rparr>"
    let ?s4 = "?s3\<lparr>fw_conn := (fw_conn s)\<lparr>out := out (fw_conn s) @ frame (fe_messages E) ?m\<rparr>\<rparr>"
    have "fw_send E ?m ?s3 = (Inr (), ?s4)"
      using send_msg_sendable [OF snd' conn] fr(2) by (simp add: fw_send_def)
    then have fl: "try_flush E now i s = (True, ?s4)"
      using b ne(1) fr(1) idle(1) by (simp add: run send_batch_def Let_def)
    have ack: "on_ack E i ?s4 = spill_ack E h' (?s4\<lparr>fw_pending := bt_remove i [(i, ?p)]\<rparr>)"
      using h'(1) by (simp add: on_ack_def Let_def)
    obtain n sp where a: "ack_through (fe_tables E) (fe_io E (fw_clk s2)) h' (fw_spill s2) = (Inr n, sp)"
      using ack_through_good [OF T, of "fe_io E (fw_clk s2)"] io by blast
    have inv2: "spill_inv (fe_tables E) (fw_spill s2)"
      using top_up_spill_inv [OF T inv1 t] .
    have "trows (fe_tables E) (db sp) = filter (\<lambda>r. h' < fst r) (fw_rows E s2)"
      using spill_table.ack_through_rows [OF T inv2 a] by blast
    then have "fst (hd (fw_rows E s)) \<notin> fst ` set (fw_rows E (on_ack E i ?s4))"
      using a h'(2) first(4) unfolding ack by (auto simp: spill_ack_def)
    then show "\<exists>s'. try_flush E now i s = (True, s')
             \<and> out (fw_conn s') = out (fw_conn s) @ frame (fe_messages E) ?m
             \<and> fst (hd (fw_rows E s)) \<notin> fst ` set (fw_rows E (on_ack E i s'))"
      using fl by (intro exI [of _ ?s4]) simp
  qed (use ne first(2) in simp_all)
qed

section \<open>Back-off\<close>

lemma unat_push_bit_one: "n < LENGTH('a) \<Longrightarrow> unat (push_bit n 1 :: 'a::len word) = 2 ^ n"
proof -
  assume n: "n < LENGTH('a)"
  have "push_bit n 1 = (word_of_nat (2 ^ n) :: 'a word)" by (simp add: push_bit_eq_mult)
  moreover have "unat (word_of_nat (2 ^ n) :: 'a word) = 2 ^ n" using n by (simp only: unat_of_nat) simp
  ultimately show ?thesis by (simp only:)
qed

lemma backoff_bound_exact:
  "unat (backoff_bound cfg e)
   = min (max (unat (backoff_min_ms cfg)) 1 * 2 ^ min (unat e) 20) (max (unat (backoff_max_ms cfg)) (max (unat (backoff_min_ms cfg)) 1))"
proof -
  have m: "unat (max a b) = max (unat a) (unat b)" "unat (min a b) = min (unat a) (unat b)" for a b :: "'a::len word"
    by (simp_all add: max_def min_def word_le_nat_alt)
  have "min (unat e) 20 < LENGTH(64)" by simp
  then have p: "unat (push_bit (min (unat e) 20) 1 :: u64) = 2 ^ min (unat e) 20" by (rule unat_push_bit_one)
  note p = p p [unfolded push_bit_eq_mult mult_1]
  have "unat (max (backoff_max_ms cfg) (max (backoff_min_ms cfg) 1)) \<le> 2 ^ 64 - 1"
    using unat_lt_exp [of "max (backoff_max_ms cfg) (max (backoff_min_ms cfg) 1)"] by simp
  then have ceil: "max (unat (backoff_max_ms cfg)) (max (unat (backoff_min_ms cfg)) 1) \<le> 2 ^ 64 - 1" by (simp add: m)
  have "unat (backoff_bound cfg e) = min (min (2 ^ 64 - 1) (max (unat (backoff_min_ms cfg)) 1 * 2 ^ min (unat e) 20))
      (max (unat (backoff_max_ms cfg)) (max (unat (backoff_min_ms cfg)) 1))"
    by (simp add: backoff_bound_def Let_def m p unat_saturating_mul min.commute)
  then show ?thesis using ceil by (simp only: min.assoc min.left_commute [of "2 ^ 64 - 1"]) (simp only: min.absorb2)
qed

section \<open>Properties\<close>

text \<open>The planner splits the candidates in order into a batch and an overflow; everything in the batch
  fitted when it was added, and the first event left over did not.\<close>

theorem plan_batch_greedy:
  assumes "plan_batch cands n byts me mb = (keep, over)"
  shows "\<exists>k \<le> length cands. keep = map fst (take k cands) \<and> over = map fst (drop k cands)
     \<and> (\<forall>i < k. batch_has_room (n + i) (byts + sum_list (map snd (take i cands))) (snd (cands ! i)) me mb)
     \<and> (k < length cands \<longrightarrow>
          \<not> batch_has_room (n + k) (byts + sum_list (map snd (take k cands))) (snd (cands ! k)) me mb)"
  using plan_loop_spec [of cands n byts me mb "[]" keep over] assms by (simp add: plan_batch_def)

theorem plan_batch_greedy_witness:
  "\<exists>k \<le> length [(''a'', 3), (''b'', 4), (''c'', 1 :: nat)].
     [''a''] = map fst (take k [(''a'', 3), (''b'', 4), (''c'', 1 :: nat)])
   \<and> [''b'', ''c''] = map fst (drop k [(''a'', 3), (''b'', 4), (''c'', 1 :: nat)])"
proof -
  have p: "plan_batch [(''a'', 3), (''b'', 4), (''c'', 1)] 0 0 9 5 = ([''a''], [''b'', ''c''])"
    by (simp add: plan_batch_def batch_has_room_def)
  show ?thesis using plan_batch_greedy [OF p] by (elim exE conjE) (intro exI conjI, assumption+)
qed

text \<open>An example: two spilled events, the second too large for a batch of two bytes, and one in the ring.\<close>

definition demo_beat :: "uuid \<Rightarrow> event" where
  "demo_beat u = event_new u 0 ''a'' ''s'' (Heartbeat 0)"

definition demo_json :: "event codec" where
  "demo_json =
     \<lparr>enc = (\<lambda>e. if e = demo_beat 1 then Some [0] else if e = demo_beat 2 then Some [1, 1]
                 else if e = demo_beat 3 then Some [2] else None),
      dec = (\<lambda>b. if b = [0] then Some (demo_beat 1) else if b = [1, 1] then Some (demo_beat 2)
                 else if b = [2] then Some (demo_beat 3) else None)\<rparr>"

definition demo_frames :: "message list" where
  "demo_frames = [EventBatch 9 [demo_beat 1, demo_beat 3], BatchAck 9 2, EventBatch 9 [demo_beat 1]]"

definition demo_fwd_env :: "nat \<Rightarrow> (nat, bytes) rbt forwarder_env" where
  "demo_fwd_env mb =
     \<lparr>fe_tables = rbt_table, fe_json = demo_json, fe_messages = table_codec demo_frames,
      fe_cfg = default_config\<lparr>batch_max_bytes := mb\<rparr>, fe_io = (\<lambda>_. io_fine), fe_agent = ''a'',
      fe_rescore_json = JStr\<rparr>"

definition demo_fwd :: "event list \<Rightarrow> (nat, bytes) rbt forwarder" where
  "demo_fwd evs =
     \<lparr>fw_ring = \<lparr>q = evs, capacity = 4, dropped = 0\<rparr>,
      fw_spill = \<lparr>db = tinsert rbt_table 1 [1, 1] (tinsert rbt_table 0 [0] (tempty rbt_table)),
                  write_cursor = 2, sbytes = 3, max_bytes = 100, sdropped = 0\<rparr>,
      fw_clk = 0, fw_pending = [],
      fw_conn = \<lparr>inp = [Data (frame (table_codec demo_frames) (BatchAck 9 2))], out = [], wok = []\<rparr>,
      fw_last_rx = 0, fw_ring_seen = 0, fw_acks = [], fw_parked = None, fw_reading = True, fw_read_error = False,
      fw_tasks = [], fw_emitted = [], fw_stop = False\<rparr>"

lemma demo_env_simps [simp]:
  "fe_tables (demo_fwd_env mb) = rbt_table" "fe_json (demo_fwd_env mb) = demo_json"
  "fe_messages (demo_fwd_env mb) = table_codec demo_frames" "fe_io (demo_fwd_env mb) n = io_fine"
  "batch_max_events (fe_cfg (demo_fwd_env mb)) = 512" "batch_max_bytes (fe_cfg (demo_fwd_env mb)) = mb"
  "max_in_flight (fe_cfg (demo_fwd_env mb)) = 1"
  by (simp_all add: demo_fwd_env_def default_config_def)

lemma demo_fwd_simps [simp]:
  "fw_ring (demo_fwd evs) = \<lparr>q = evs, capacity = 4, dropped = 0\<rparr>" "fw_clk (demo_fwd evs) = 0" "fw_pending (demo_fwd evs) = []"
  "fw_spill (demo_fwd evs) = \<lparr>db = tinsert rbt_table 1 [1, 1] (tinsert rbt_table 0 [0] (tempty rbt_table)),
                  write_cursor = 2, sbytes = 3, max_bytes = 100, sdropped = 0\<rparr>"
  "fw_conn (demo_fwd evs) = \<lparr>inp = [Data (frame (table_codec demo_frames) (BatchAck 9 2))], out = [], wok = []\<rparr>"
  "fw_acks (demo_fwd evs) = []" "fw_parked (demo_fwd evs) = None" "fw_reading (demo_fwd evs)"
  by (simp_all add: demo_fwd_def)

lemma demo_beat_simps [simp]: "demo_beat a = demo_beat b \<longleftrightarrow> a = b"
  by (simp add: demo_beat_def event_new_def)

lemma demo_json_simps [simp]:
  "enc demo_json (demo_beat 1) = Some [0]" "enc demo_json (demo_beat 2) = Some [1, 1]" "enc demo_json (demo_beat 3) = Some [2]"
  "dec demo_json [0] = Some (demo_beat 1)" "dec demo_json [1, 1] = Some (demo_beat 2)" "dec demo_json [2] = Some (demo_beat 3)"
  by (simp_all add: demo_json_def)

lemma demo_json_ok: "codec_ok demo_json V"
  by (auto simp: codec_ok_def demo_json_def split: if_splits)

lemma demo_frame_sendable: "m \<in> set demo_frames \<Longrightarrow> sendable (table_codec demo_frames) m"
  by (rule sendable_table) (simp_all add: demo_frames_def)

lemma demo_rows: "fw_rows (demo_fwd_env mb) (demo_fwd evs) = [(0, [0]), (1, [1, 1])]"
  by simp

lemma demo_fwd_inv: "spill_inv (fe_tables (demo_fwd_env mb)) (fw_spill (demo_fwd evs))"
  by (simp add: spill_inv_def)

lemma demo_fwd_table: "spill_table (fe_tables (demo_fwd_env mb))"
  by (simp add: rbt_spill_table)




lemma demo_gather:
  "gather_spill (demo_fwd_env 2) (demo_fwd evs)
   = (\<lparr>ga_events = [demo_beat 1], ga_high = Some 0, ga_bytes = 1\<rparr>, (demo_fwd evs)\<lparr>fw_clk := 1\<rparr>)"
  by (simp add: gather_spill_def drain_batch_def io_fine_def batch_has_room_def estimate_size_def Let_def)

lemma demo_flush:
  "\<exists>s'. try_flush (demo_fwd_env 2) 0 9 (demo_fwd []) = (True, s')
     \<and> fw_pending s' = [(9, \<lparr>pb_events = [demo_beat 1], pb_spill_high = Some 0, pb_sent_at = 0\<rparr>)]
     \<and> fw_rows (demo_fwd_env 2) s' = [(0, [0]), (1, [1, 1])]"
proof -
  have snd: "sendable (table_codec demo_frames) (EventBatch 9 [demo_beat 1])"
    by (rule demo_frame_sendable) (simp add: demo_frames_def)
  then obtain b where b: "enc (table_codec demo_frames) (EventBatch 9 [demo_beat 1]) = Some b" "length b \<le> MAX_FRAME_BYTES"
    by (auto simp: sendable_def)
  show ?thesis
    using send_msg_sendable [OF snd, of "fw_conn (demo_fwd [])"] b
    by (simp add: try_flush_def demo_gather top_up_def send_batch_def fw_send_def ring_drain_def Let_def)
qed



text \<open>C6: an idle forwarder makes progress: if the oldest row decodes and the database works, a flush builds
  a batch that starts with it, and once the batch is sent and acknowledged that row is gone.\<close>

theorem flush_progress:
  assumes "spill_table (fe_tables E)" and "spill_inv (fe_tables E) (fw_spill s)" and "\<forall>n. io_good (fe_io E n)"
    and "fw_pending s = []" and "0 < max_in_flight (fe_cfg E)" and "wok (fw_conn s) = []"
    and "fw_rows E s \<noteq> []" and "\<forall>r \<in> set (fw_rows E s). row_event E r \<noteq> None"
    and "sendable (fe_messages E) (EventBatch i (planned E s))"
  shows "Some (hd (planned E s)) = row_event E (hd (fw_rows E s))
     \<and> (\<exists>s'. try_flush E now i s = (True, s')
          \<and> out (fw_conn s') = out (fw_conn s) @ frame (fe_messages E) (EventBatch i (planned E s))
          \<and> fst (hd (fw_rows E s)) \<notin> fst ` set (fw_rows E (on_ack E i s')))"
  using assms by (rule try_flush_progress)

theorem flush_progress_witness:
  "\<exists>s'. try_flush (demo_fwd_env 2) 0 9 (demo_fwd []) = (True, s')
     \<and> 0 \<notin> fst ` set (fw_rows (demo_fwd_env 2) (on_ack (demo_fwd_env 2) 9 s'))"
proof -
  have pl: "planned (demo_fwd_env 2) (demo_fwd []) = [demo_beat 1]"
    by (simp add: planned_def demo_gather top_up_def ring_drain_def Let_def)
  have snd: "sendable (fe_messages (demo_fwd_env 2)) (EventBatch 9 (planned (demo_fwd_env 2) (demo_fwd [])))"
    unfolding pl by (simp, rule demo_frame_sendable) (simp add: demo_frames_def)
  show ?thesis
    using flush_progress [OF demo_fwd_table demo_fwd_inv _ _ _ _ _ _ snd, where now = 0] by auto
qed

text \<open>The back-off grows from the configured minimum by doubling, at most twenty times, up to the
  configured maximum, never wrapping; the delay is at least a millisecond and at most the bound.\<close>

theorem backoff_bounds:
  assumes "draw (backoff_bound cfg e) \<le> backoff_bound cfg e"
  shows "unat (backoff_bound cfg e)
       = min (max (unat (backoff_min_ms cfg)) 1 * 2 ^ min (unat e) 20)
             (max (unat (backoff_max_ms cfg)) (max (unat (backoff_min_ms cfg)) 1))
     \<and> 1 \<le> unat (backoff_delay cfg e draw) \<and> unat (backoff_delay cfg e draw) \<le> unat (backoff_bound cfg e)"
proof -
  have "1 \<le> unat (backoff_bound cfg e)" by (simp add: backoff_bound_exact Suc_le_eq less_max_iff_disj)
  moreover have "unat (backoff_delay cfg e draw) = max (unat (draw (backoff_bound cfg e))) 1"
    by (simp add: backoff_delay_def max_def word_le_nat_alt)
  ultimately show ?thesis using assms backoff_bound_exact [of cfg e] by (simp add: word_le_nat_alt)
qed

theorem backoff_bounds_witness:
  "unat (backoff_bound default_config 3) = 4000 \<and> 1 \<le> unat (backoff_delay default_config 3 (\<lambda>b. b))"
  using backoff_bounds [of "\<lambda>b. b" default_config 3] by (simp add: default_config_def)

end
