(* ===== verification/Levenshtein.thy ===== *)
theory Levenshtein
  imports Text
begin

text \<open>
  The edit distance of \<^verbatim>\<open>plugins/plugin-tty/src/levenshtein.rs\<close>: the two-row dynamic program, and
  edit scripts as its specification. The program is shown to compute the length of a shortest
  script, so the distance is a metric.
\<close>

section \<open>The program\<close>

text \<open>One row: \<open>left\<close> is \<^verbatim>\<open>curr[j]\<close>, and the last list is \<^verbatim>\<open>prev[j..]\<close>.\<close>

fun lev_cells :: "'c \<Rightarrow> nat \<Rightarrow> 'c list \<Rightarrow> nat list \<Rightarrow> nat list" where
  "lev_cells ca left (cb # bs) (p0 # p1 # ps) =
     (let cost = (if ca = cb then 0 else 1);
          cell = min (min (p1 + 1) (left + 1)) (p0 + cost)
      in cell # lev_cells ca cell bs (p1 # ps))"
| "lev_cells ca left _ _ = []"

fun lev_rows :: "'c list \<Rightarrow> nat \<Rightarrow> 'c list \<Rightarrow> nat list \<Rightarrow> nat list" where
  "lev_rows [] i b prev = prev"
| "lev_rows (ca # as) i b prev = lev_rows as (i + 1) b ((i + 1) # lev_cells ca (i + 1) b prev)"

definition lev_chars :: "'c list \<Rightarrow> 'c list \<Rightarrow> nat" where
  "lev_chars a b =
     (if a = [] then length b
      else if b = [] then length a
      else let (a', b') = (if length a < length b then (b, a) else (a, b))
           in lev_rows a' 0 b' [0..<length b' + 1] ! length b')"

definition levenshtein :: "string \<Rightarrow> string \<Rightarrow> nat" where
  "levenshtein a b = lev_chars (str_chars a) (str_chars b)"

section \<open>Edit scripts\<close>

text \<open>\<open>edits n xs ys\<close>: \<open>n\<close> insertions, deletions and substitutions turn \<open>xs\<close> into \<open>ys\<close>.\<close>

inductive edits :: "nat \<Rightarrow> 'c list \<Rightarrow> 'c list \<Rightarrow> bool" where
  nil: "edits 0 [] []"
| keep: "edits n xs ys \<Longrightarrow> edits n (x # xs) (x # ys)"
| subst: "edits n xs ys \<Longrightarrow> edits (Suc n) (x # xs) (y # ys)"
| delete: "edits n xs ys \<Longrightarrow> edits (Suc n) (x # xs) ys"
| insert: "edits n xs ys \<Longrightarrow> edits (Suc n) xs (y # ys)"

inductive_cases edits_NilE: "edits n [] ys"
inductive_cases edits_ConsE: "edits n (x # xs) ys"

lemma edits_sym: "edits n xs ys \<Longrightarrow> edits n ys xs"
  by (induction rule: edits.induct) (auto intro: edits.intros)

lemma edits_append: "edits n xs ys \<Longrightarrow> edits m us vs \<Longrightarrow> edits (n + m) (xs @ us) (ys @ vs)"
  by (induction rule: edits.induct) (auto intro: edits.intros)

lemma edits_refl: "edits 0 xs xs"
  by (induction xs) (auto intro: edits.intros)

lemma edits_zero: "edits n xs ys \<Longrightarrow> n = 0 \<Longrightarrow> xs = ys"
  by (induction rule: edits.induct) auto

lemma edits_Nil: "edits (length ys) [] ys"
  by (induction ys) (auto intro: edits.intros)

lemma edits_length: "edits n xs ys \<Longrightarrow> length ys \<le> n + length xs"
  by (induction rule: edits.induct) auto

lemma edits_rev: "edits n xs ys \<Longrightarrow> edits n (rev xs) (rev ys)"
proof (induction rule: edits.induct)
  case (keep n xs ys x)
  then show ?case using edits_append [of n "rev xs" "rev ys" 0 "[x]" "[x]"] edits_refl [of "[x]"] by simp
next
  case (subst n xs ys x y)
  then show ?case using edits_append [of n "rev xs" "rev ys" 1 "[x]" "[y]"] edits.subst [OF edits.nil, of x y] by simp
next
  case (delete n xs ys x)
  then show ?case using edits_append [of n "rev xs" "rev ys" 1 "[x]" "[]"] edits.delete [OF edits.nil, of x] by simp
next
  case (insert n xs ys y)
  then show ?case using edits_append [of n "rev xs" "rev ys" 1 "[]" "[y]"] edits.insert [OF edits.nil, of y] by simp
qed (auto intro: edits.intros)

text \<open>Scripts compose, the second paying at most once for what it undoes of the first.\<close>

lemma edits_trans: "edits n xs ys \<Longrightarrow> edits m ys zs \<Longrightarrow> \<exists>k \<le> n + m. edits k xs zs"
proof (induction n xs ys arbitrary: m zs rule: edits.induct)
  case nil
  then show ?case by auto
next
  case (keep n xs ys x)
  note IH = keep.IH
  from keep.prems show ?case
  proof (induction m "x # ys" zs arbitrary: rule: edits.induct)
    case (keep m zs)
    then show ?case using IH by (meson edits.keep)
  next
    case (subst m zs y)
    then obtain k where "k \<le> n + m" "edits k xs zs" using IH by blast
    then show ?case by (intro exI [of _ "Suc k"]) (auto intro: edits.intros)
  next
    case (delete m zs)
    then obtain k where "k \<le> n + m" "edits k xs zs" using IH by blast
    then show ?case by (intro exI [of _ "Suc k"]) (auto intro: edits.intros)
  next
    case (insert m zs y)
    then obtain k where "k \<le> n + m" "edits k (x # xs) zs" by blast
    then show ?case by (intro exI [of _ "Suc k"]) (auto intro: edits.intros)
  qed
next
  case (subst n xs ys x y)
  note IH = subst.IH
  from subst.prems show ?case
  proof (induction m "y # ys" zs arbitrary: rule: edits.induct)
    case (keep m zs)
    then obtain k where "k \<le> n + m" "edits k xs zs" using IH by blast
    then show ?case by (intro exI [of _ "Suc k"]) (auto intro: edits.intros)
  next
    case (subst m zs z)
    then obtain k where "k \<le> n + m" "edits k xs zs" using IH by blast
    then show ?case by (intro exI [of _ "Suc k"]) (auto intro: edits.intros)
  next
    case (delete m zs)
    then obtain k where "k \<le> n + m" "edits k xs zs" using IH by blast
    then show ?case by (intro exI [of _ "Suc k"]) (auto intro: edits.intros)
  next
    case (insert m zs z)
    then obtain k where "k \<le> Suc n + m" "edits k (x # xs) zs" by blast
    then show ?case by (intro exI [of _ "Suc k"]) (auto intro: edits.intros)
  qed
next
  case (delete n xs ys x)
  then obtain k where "k \<le> n + m" "edits k xs zs" by blast
  then show ?case by (intro exI [of _ "Suc k"]) (auto intro: edits.intros)
next
  case (insert n xs ys y)
  note IH = insert.IH
  from insert.prems show ?case
  proof (induction m "y # ys" zs arbitrary: rule: edits.induct)
    case (keep m zs)
    then obtain k where "k \<le> n + m" "edits k xs zs" using IH by blast
    then show ?case by (intro exI [of _ "Suc k"]) (auto intro: edits.intros)
  next
    case (subst m zs z)
    then obtain k where "k \<le> n + m" "edits k xs zs" using IH by blast
    then show ?case by (intro exI [of _ "Suc k"]) (auto intro: edits.intros)
  next
    case (delete m zs)
    then obtain k where "k \<le> n + m" "edits k xs zs" using IH by blast
    then show ?case by (intro exI [of _ k]) simp
  next
    case (insert m zs z)
    then obtain k where "k \<le> Suc n + m" "edits k xs zs" by blast
    then show ?case by (intro exI [of _ "Suc k"]) (auto intro: edits.intros)
  qed
qed

section \<open>The recursive distance\<close>

fun edit_dist :: "'c list \<Rightarrow> 'c list \<Rightarrow> nat" where
  "edit_dist [] ys = length ys"
| "edit_dist (x # xs) [] = Suc (length xs)"
| "edit_dist (x # xs) (y # ys) =
     min (min (edit_dist xs (y # ys) + 1) (edit_dist (x # xs) ys + 1)) (edit_dist xs ys + (if x = y then 0 else 1))"

lemma edit_dist_Nil [simp]: "edit_dist xs [] = length xs"
  by (cases xs) simp_all

lemma edit_dist_edits: "edits (edit_dist xs ys) xs ys"
proof (induction xs ys rule: edit_dist.induct)
  case (1 ys)
  then show ?case by (simp add: edits_Nil)
next
  case (2 x xs)
  then show ?case using edits_sym [OF edits_Nil [of "x # xs"]] by simp
next
  case (3 x xs y ys)
  then show ?case by (auto simp: min_def intro: edits.intros)
qed

lemma edit_dist_Cons_le: "edit_dist (x # xs) ys \<le> Suc (edit_dist xs ys)" "edit_dist xs (y # ys) \<le> Suc (edit_dist xs ys)"
proof -
  show "edit_dist (x # xs) ys \<le> Suc (edit_dist xs ys)" by (cases ys) (simp_all add: min.coboundedI1)
  show "edit_dist xs (y # ys) \<le> Suc (edit_dist xs ys)" by (cases xs) (simp_all add: min.coboundedI1)
qed

lemma edit_dist_least: "edits n xs ys \<Longrightarrow> edit_dist xs ys \<le> n"
proof (induction rule: edits.induct)
  case (delete n xs ys x)
  then show ?case using edit_dist_Cons_le(1) [of x xs ys] by linarith
next
  case (insert n xs ys y)
  then show ?case using edit_dist_Cons_le(2) [of xs y ys] by linarith
qed (auto simp: min_def)

lemma edit_dist_sym: "edit_dist xs ys = edit_dist ys xs"
  by (meson edit_dist_edits edit_dist_least edits_sym order_antisym)

lemma edit_dist_rev: "edit_dist (rev xs) (rev ys) = edit_dist xs ys"
  using edit_dist_least [OF edits_rev [OF edit_dist_edits [of xs ys]]] edit_dist_least [OF edits_rev [OF edit_dist_edits [of "rev xs" "rev ys"]]]
  by simp

text \<open>The recurrence at the end of the lists, which is the one the rows follow.\<close>

lemma edit_dist_snoc:
  "edit_dist (xs @ [x]) (ys @ [y])
   = min (min (edit_dist xs (ys @ [y]) + 1) (edit_dist (xs @ [x]) ys + 1)) (edit_dist xs ys + (if x = y then 0 else 1))"
  using edit_dist.simps(3) [of x "rev xs" y "rev ys"] edit_dist_rev [of "xs @ [x]" "ys @ [y]"] edit_dist_rev [of xs "ys @ [y]"]
    edit_dist_rev [of "xs @ [x]" ys] edit_dist_rev [of xs ys]
  by simp

section \<open>The rows\<close>

definition lev_row :: "'c list \<Rightarrow> 'c list \<Rightarrow> nat list" where
  "lev_row as b = map (\<lambda>j. edit_dist as (take j b)) [0..<length b + 1]"

lemma lev_cells_row:
  assumes "b = pre @ rest" and "left = edit_dist (as @ [ca]) pre"
  shows "lev_cells ca left rest (map (\<lambda>j. edit_dist as (take j b)) [length pre..<length b + 1])
       = map (\<lambda>j. edit_dist (as @ [ca]) (take j b)) [length pre + 1..<length b + 1]"
  using assms
proof (induction rest arbitrary: pre left)
  case Nil
  then show ?case by simp
next
  case (Cons cb rest)
  let ?d = "length pre"
  let ?cell = "edit_dist (as @ [ca]) (pre @ [cb])"
  have b: "b = (pre @ [cb]) @ rest" using Cons.prems(1) by simp
  have t: "take ?d b = pre" "take (Suc ?d) b = pre @ [cb]" using b by simp_all
  have upt: "[?d..<length b + 1] = ?d # Suc ?d # [Suc (Suc ?d)..<length b + 1]"
    using b by (simp add: upt_conv_Cons del: upt_Suc)
  have cell: "min (min (edit_dist as (pre @ [cb]) + 1) (left + 1)) (edit_dist as pre + (if ca = cb then 0 else 1)) = ?cell"
    by (simp only: edit_dist_snoc Cons.prems(2))
  have upt': "[Suc ?d..<length b + 1] = Suc ?d # [Suc (Suc ?d)..<length b + 1]"
    using b by (simp add: upt_conv_Cons del: upt_Suc)
  have "lev_cells ca left (cb # rest) (map (\<lambda>j. edit_dist as (take j b)) [?d..<length b + 1])
      = ?cell # lev_cells ca ?cell rest (map (\<lambda>j. edit_dist as (take j b)) [Suc ?d..<length b + 1])"
    by (simp only: upt upt' list.map t lev_cells.simps Let_def cell)
  also have "lev_cells ca ?cell rest (map (\<lambda>j. edit_dist as (take j b)) [Suc ?d..<length b + 1])
      = map (\<lambda>j. edit_dist (as @ [ca]) (take j b)) [Suc ?d + 1..<length b + 1]"
    using Cons.IH [of "pre @ [cb]" ?cell] b by simp
  finally show ?case using b t by (simp add: upt_conv_Cons [of "Suc ?d"] del: upt_Suc)
qed

lemma lev_step: "length (as @ [ca]) # lev_cells ca (length (as @ [ca])) b (lev_row as b) = lev_row (as @ [ca]) b"
  using lev_cells_row [of b "[]" b "length (as @ [ca])" as ca]
  by (simp add: lev_row_def upt_conv_Cons [of 0] del: upt_Suc)

lemma lev_rows_row: "lev_rows rest (length as) b (lev_row as b) = lev_row (as @ rest) b"
proof (induction rest arbitrary: as)
  case (Cons ca rest)
  have "lev_rows (ca # rest) (length as) b (lev_row as b) = lev_rows rest (length (as @ [ca])) b (lev_row (as @ [ca]) b)"
    using lev_step [of as ca b] by simp
  also have "\<dots> = lev_row (as @ ca # rest) b" using Cons.IH [of "as @ [ca]"] by simp
  finally show ?case .
qed simp

lemma lev_row_Nil: "lev_row [] b = [0..<length b + 1]"
  by (auto simp: lev_row_def min_def intro!: map_idI simp del: upt_Suc)

lemma lev_chars_dist: "lev_chars a b = edit_dist a b"
proof -
  have "lev_rows xs 0 ys [0..<length ys + 1] ! length ys = edit_dist xs ys" for xs ys :: "'a list"
  proof -
    have "lev_rows xs 0 ys (lev_row [] ys) = lev_row xs ys" using lev_rows_row [of xs "[]" ys] by simp
    then have "lev_rows xs 0 ys [0..<length ys + 1] ! length ys = lev_row xs ys ! length ys" by (simp add: lev_row_Nil)
    also have "\<dots> = edit_dist xs ys" by (simp add: lev_row_def nth_append del: upt_Suc)
    finally show ?thesis .
  qed
  then show ?thesis using edit_dist_sym [of a b] by (auto simp: lev_chars_def Let_def)
qed

section \<open>Properties\<close>

text \<open>C36: the two-row program computes the length of a shortest edit script over characters: there is a
  script of that length, and no shorter one; so the distance is symmetric, zero only between equal
  strings, obeys the triangle inequality and is at most the longer length.\<close>

theorem levenshtein_minimal:
  "edits (levenshtein a b) (str_chars a) (str_chars b)
   \<and> \<not> (\<exists>n. n < levenshtein a b \<and> edits n (str_chars a) (str_chars b))
   \<and> levenshtein a b = levenshtein b a \<and> (levenshtein a b = 0) = (str_chars a = str_chars b)
   \<and> levenshtein a c \<le> levenshtein a b + levenshtein b c
   \<and> levenshtein a b \<le> max (length (str_chars a)) (length (str_chars b))"
proof -
  have least: "levenshtein x y \<le> n" if "edits n (str_chars x) (str_chars y)" for x y n
    using edit_dist_least [OF that] by (simp add: levenshtein_def lev_chars_dist)
  have script: "edits (levenshtein x y) (str_chars x) (str_chars y)" for x y
    using edit_dist_edits by (simp add: levenshtein_def lev_chars_dist)
  have "levenshtein a b = levenshtein b a" by (simp add: levenshtein_def lev_chars_dist edit_dist_sym)
  moreover have "(levenshtein a b = 0) = (str_chars a = str_chars b)"
  proof
    show "str_chars a = str_chars b" if "levenshtein a b = 0" using edits_zero [OF script that] .
    show "levenshtein a b = 0" if "str_chars a = str_chars b" using least [of 0 a b] edits_refl [of "str_chars b"] that by simp
  qed
  moreover have "levenshtein a c \<le> levenshtein a b + levenshtein b c"
    using edits_trans [OF script [of a b] script [of b c]] least by (meson le_trans)
  moreover have "edit_dist xs ys \<le> max (length xs) (length ys)" for xs ys :: "string list"
    by (induction xs ys rule: edit_dist.induct) auto
  moreover from this have "levenshtein a b \<le> max (length (str_chars a)) (length (str_chars b))"
    by (simp add: levenshtein_def lev_chars_dist)
  ultimately show ?thesis using script [of a b] least [of _ a b] by (meson leD)
qed

end
