(* ===== verification/F64.thy ===== *)
theory F64
  imports Event
begin

text \<open>
  The floating-point operations the code uses, over the values of \<open>f64\<close>. An arithmetic result is the
  exact real result rounded; the rounding function is the parameter \<open>rnd\<close>, of which \<open>rounding\<close>
  states what IEEE 754 round-to-nearest gives: monotone, never NaN, exact on the numbers of
  a given set and on every number it returns. The special values follow the standard; the two zeros are one.
\<close>

type_synonym rounding = "real \<Rightarrow> f64"

fun f64_le :: "f64 \<Rightarrow> f64 \<Rightarrow> bool" where
  "f64_le NaN _ = False"
| "f64_le _ NaN = False"
| "f64_le NegInf _ = True"
| "f64_le _ PosInf = True"
| "f64_le (Fin x) (Fin y) = (x \<le> y)"
| "f64_le PosInf _ = False"
| "f64_le (Fin x) NegInf = False"

definition f64_lt :: "f64 \<Rightarrow> f64 \<Rightarrow> bool" where
  "f64_lt a b \<longleftrightarrow> f64_le a b \<and> \<not> f64_le b a"

fun f64_neg :: "f64 \<Rightarrow> f64" where
  "f64_neg NaN = NaN"
| "f64_neg PosInf = NegInf"
| "f64_neg NegInf = PosInf"
| "f64_neg (Fin x) = Fin (- x)"

fun f64_add :: "rounding \<Rightarrow> f64 \<Rightarrow> f64 \<Rightarrow> f64" where
  "f64_add rnd (Fin x) (Fin y) = rnd (x + y)"
| "f64_add rnd NaN _ = NaN"
| "f64_add rnd _ NaN = NaN"
| "f64_add rnd PosInf NegInf = NaN"
| "f64_add rnd NegInf PosInf = NaN"
| "f64_add rnd PosInf _ = PosInf"
| "f64_add rnd _ PosInf = PosInf"
| "f64_add rnd NegInf _ = NegInf"
| "f64_add rnd _ NegInf = NegInf"

text \<open>An infinity times a number: the sign rule, and NaN for zero.\<close>

definition inf_times :: "bool \<Rightarrow> real \<Rightarrow> f64" where
  "inf_times positive x = (if x = 0 then NaN else if (0 < x) = positive then PosInf else NegInf)"

fun f64_mul :: "rounding \<Rightarrow> f64 \<Rightarrow> f64 \<Rightarrow> f64" where
  "f64_mul rnd (Fin x) (Fin y) = rnd (x * y)"
| "f64_mul rnd NaN _ = NaN"
| "f64_mul rnd _ NaN = NaN"
| "f64_mul rnd PosInf (Fin y) = inf_times True y"
| "f64_mul rnd (Fin x) PosInf = inf_times True x"
| "f64_mul rnd NegInf (Fin y) = inf_times False y"
| "f64_mul rnd (Fin x) NegInf = inf_times False x"
| "f64_mul rnd PosInf PosInf = PosInf"
| "f64_mul rnd NegInf NegInf = PosInf"
| "f64_mul rnd PosInf NegInf = NegInf"
| "f64_mul rnd NegInf PosInf = NegInf"

text \<open>\<^verbatim>\<open>f64::clamp\<close>: NaN stays NaN.\<close>

definition f64_clamp :: "f64 \<Rightarrow> f64 \<Rightarrow> f64 \<Rightarrow> f64" where
  "f64_clamp lo hi x = (if f64_lt x lo then lo else if f64_lt hi x then hi else x)"

definition rounding_ok :: "rounding \<Rightarrow> real set \<Rightarrow> bool" where
  "rounding_ok rnd X \<longleftrightarrow>
     (\<forall>x y. x \<le> y \<longrightarrow> f64_le (rnd x) (rnd y)) \<and> (\<forall>x. rnd x \<noteq> NaN) \<and> (\<forall>x \<in> X. rnd x = Fin x)
     \<and> (\<forall>x y. rnd x = Fin y \<longrightarrow> rnd y = Fin y)"

lemma f64_le_refl: "a \<noteq> NaN \<Longrightarrow> f64_le a a"
  by (cases a) simp_all

lemma f64_le_total: "a \<noteq> NaN \<Longrightarrow> b \<noteq> NaN \<Longrightarrow> f64_le a b \<or> f64_le b a"
  by (cases a; cases b) auto

lemma f64_le_trans: "f64_le a b \<Longrightarrow> f64_le b c \<Longrightarrow> f64_le a c"
  by (cases a; cases b; cases c) auto

lemma f64_not_le: "a \<noteq> NaN \<Longrightarrow> b \<noteq> NaN \<Longrightarrow> \<not> f64_le a b \<longleftrightarrow> f64_lt b a"
  using f64_le_total [of a b] by (auto simp: f64_lt_def)

lemma rounding_okD:
  assumes "rounding_ok rnd X"
  shows "x \<le> y \<Longrightarrow> f64_le (rnd x) (rnd y)" "rnd x \<noteq> NaN" "x \<in> X \<Longrightarrow> rnd x = Fin x"
    "rnd z = Fin y \<Longrightarrow> rnd y = Fin y"
  using assms by (auto simp: rounding_ok_def)

lemma rounding_ok_Fin [simp]: "rounding_ok Fin X"
  by (simp add: rounding_ok_def)

lemma f64_clamp_range:
  assumes "x \<noteq> NaN" and "l \<le> h"
  shows "\<exists>y. f64_clamp (Fin l) (Fin h) x = Fin y \<and> l \<le> y \<and> y \<le> h"
  using assms by (cases x) (auto simp: f64_clamp_def f64_lt_def)

section \<open>Further operations\<close>

text \<open>
  Division and subtraction, conversions, and the comparisons of \<^verbatim>\<open>f64\<close>. No code modelled here divides by a
  zero whose sign could matter: a quotient by zero has the sign of the dividend. A decimal
  literal is the rounded decimal. The functions of the platform's maths library, whose precision Rust leaves open,
  are the record \<open>libm\<close>, of which \<open>libm_ok\<close> says what the code relies on.
\<close>

definition f64_is_finite :: "f64 \<Rightarrow> bool" where
  "f64_is_finite x \<longleftrightarrow> (case x of Fin _ \<Rightarrow> True | _ \<Rightarrow> False)"

definition f64_sub :: "rounding \<Rightarrow> f64 \<Rightarrow> f64 \<Rightarrow> f64" where
  "f64_sub rnd a b = f64_add rnd a (f64_neg b)"

fun f64_div :: "rounding \<Rightarrow> f64 \<Rightarrow> f64 \<Rightarrow> f64" where
  "f64_div rnd (Fin x) (Fin y) = (if y = 0 then inf_times True x else rnd (x / y))"
| "f64_div rnd NaN _ = NaN"
| "f64_div rnd _ NaN = NaN"
| "f64_div rnd PosInf (Fin y) = (if y < 0 then NegInf else PosInf)"
| "f64_div rnd NegInf (Fin y) = (if y < 0 then PosInf else NegInf)"
| "f64_div rnd (Fin x) _ = Fin 0"
| "f64_div rnd _ _ = NaN"

fun f64_sqrt :: "rounding \<Rightarrow> f64 \<Rightarrow> f64" where
  "f64_sqrt rnd (Fin x) = (if x < 0 then NaN else rnd (sqrt x))"
| "f64_sqrt rnd PosInf = PosInf"
| "f64_sqrt rnd _ = NaN"

fun f64_abs :: "f64 \<Rightarrow> f64" where
  "f64_abs (Fin x) = Fin \<bar>x\<bar>"
| "f64_abs NegInf = PosInf"
| "f64_abs x = x"

definition f64_min :: "f64 \<Rightarrow> f64 \<Rightarrow> f64" where
  "f64_min a b = (if a = NaN then b else if b = NaN then a else if f64_le a b then a else b)"

definition f64_max :: "f64 \<Rightarrow> f64 \<Rightarrow> f64" where
  "f64_max a b = (if a = NaN then b else if b = NaN then a else if f64_le a b then b else a)"

definition f64_of_nat :: "rounding \<Rightarrow> nat \<Rightarrow> f64" where
  "f64_of_nat rnd n = rnd (real n)"

definition f64_sum :: "rounding \<Rightarrow> f64 list \<Rightarrow> f64" where
  "f64_sum rnd xs = foldl (f64_add rnd) (Fin 0) xs"

text \<open>\<^verbatim>\<open>x as usize\<close>: towards zero, saturating, and 0 for NaN.\<close>

fun f64_to_usize :: "f64 \<Rightarrow> nat" where
  "f64_to_usize (Fin x) = min (2 ^ 64 - 1) (nat \<lfloor>x\<rfloor>)"
| "f64_to_usize PosInf = 2 ^ 64 - 1"
| "f64_to_usize _ = 0"

fun f64_floor :: "f64 \<Rightarrow> f64" where
  "f64_floor (Fin x) = Fin (real_of_int \<lfloor>x\<rfloor>)"
| "f64_floor x = x"

fun f64_ceil :: "f64 \<Rightarrow> f64" where
  "f64_ceil (Fin x) = Fin (real_of_int \<lceil>x\<rceil>)"
| "f64_ceil x = x"

text \<open>\<^verbatim>\<open>slice::sort_by\<close>, a stable sort, by a comparison of which \<open>le a b\<close> says that it is not \<^verbatim>\<open>Greater\<close>.\<close>

fun insert_by :: "('a \<Rightarrow> 'a \<Rightarrow> bool) \<Rightarrow> 'a \<Rightarrow> 'a list \<Rightarrow> 'a list" where
  "insert_by le x [] = [x]"
| "insert_by le x (y # ys) = (if le x y then x # y # ys else y # insert_by le x ys)"

definition sort_by :: "('a \<Rightarrow> 'a \<Rightarrow> bool) \<Rightarrow> 'a list \<Rightarrow> 'a list" where
  "sort_by le xs = foldr (insert_by le) xs []"

text \<open>\<^verbatim>\<open>a.partial_cmp(b).unwrap_or(Equal)\<close> is not \<^verbatim>\<open>Greater\<close>.\<close>

definition f64_cmp_le :: "f64 \<Rightarrow> f64 \<Rightarrow> bool" where
  "f64_cmp_le a b \<longleftrightarrow> \<not> f64_lt b a"

record libm =
  lm_rnd :: rounding
  lm_exp :: "f64 \<Rightarrow> f64"
  lm_ln :: "f64 \<Rightarrow> f64"
  lm_tanh :: "f64 \<Rightarrow> f64"

definition libm_ok :: "libm \<Rightarrow> real set \<Rightarrow> bool" where
  "libm_ok M X \<longleftrightarrow>
     rounding_ok (lm_rnd M) X
     \<and> (\<forall>x. x \<noteq> NaN \<longrightarrow> f64_le (Fin 0) (lm_exp M x)) \<and> lm_exp M NaN = NaN
     \<and> (\<forall>x y. f64_le x y \<longrightarrow> f64_le (lm_exp M x) (lm_exp M y))
     \<and> (\<forall>x. x \<noteq> NaN \<longrightarrow> f64_le (Fin (- 1)) (lm_tanh M x) \<and> f64_le (lm_tanh M x) (Fin 1)) \<and> lm_tanh M NaN = NaN"

lemma f64_is_finite_simps [simp]:
  "f64_is_finite (Fin x)" "\<not> f64_is_finite NaN" "\<not> f64_is_finite PosInf" "\<not> f64_is_finite NegInf"
  by (simp_all add: f64_is_finite_def)

lemma f64_le_NaN [simp]: "f64_le x NaN = False"
  by (cases x) simp_all

lemma f64_is_finite_iff: "f64_is_finite x \<longleftrightarrow> (\<exists>r. x = Fin r)"
  by (cases x) simp_all

lemma f64_lt_simps [simp]:
  "f64_lt (Fin x) (Fin y) \<longleftrightarrow> x < y" "f64_lt NaN a = False" "f64_lt a NaN = False"
  "f64_lt (Fin x) PosInf" "\<not> f64_lt PosInf (Fin x)" "f64_lt NegInf (Fin x)" "\<not> f64_lt (Fin x) NegInf"
  by (cases a; auto simp: f64_lt_def)+

lemma f64_clamp_NaN [simp]: "f64_clamp l h NaN = NaN"
  by (simp add: f64_clamp_def)

lemma set_insert_by [simp]: "set (insert_by le x ys) = insert x (set ys)"
  by (induction ys) auto

lemma set_sort_by [simp]: "set (sort_by le xs) = set xs"
  by (induction xs) (simp_all add: sort_by_def)

lemma length_insert_by [simp]: "length (insert_by le x ys) = Suc (length ys)"
  by (induction ys) auto

lemma length_sort_by [simp]: "length (sort_by le xs) = length xs"
  by (induction xs) (simp_all add: sort_by_def)

lemma f64_le_between:
  assumes "f64_le (Fin l) y" and "f64_le y (Fin h)"
  obtains r where "y = Fin r" "l \<le> r" "r \<le> h"
  using assms by (cases y) auto

text \<open>Numbers that every binary64 holds exactly.\<close>

definition binary64 :: "real set" where
  "binary64 = {of_int k * 2 powi e |k e. \<bar>k\<bar> \<le> 2 ^ 53 \<and> \<bar>e\<bar> \<le> 900}"

lemma binary64I: "x = of_int k * 2 powi e \<Longrightarrow> \<bar>k\<bar> \<le> 2 ^ 53 \<Longrightarrow> \<bar>e\<bar> \<le> 900 \<Longrightarrow> x \<in> binary64"
  by (auto simp: binary64_def)

lemma binary64_nat: "n \<le> 2 ^ 53 \<Longrightarrow> real n \<in> binary64"
  by (rule binary64I [of _ "int n" 0]) simp_all

lemma binary64_numbers [simp]:
  "0 \<in> binary64" "1 \<in> binary64" "- 1 \<in> binary64" "1 / 2 \<in> binary64" "2 ^ 64 \<in> binary64"
proof -
  show "0 \<in> binary64" by (rule binary64I [of _ 0 0]) simp_all
  show "1 \<in> binary64" by (rule binary64I [of _ 1 0]) simp_all
  show "- 1 \<in> binary64" by (rule binary64I [of _ "- 1" 0]) simp_all
  show "1 / 2 \<in> binary64" by (rule binary64I [of _ 1 "- 1"]) (simp_all add: power_int_minus)
  show "2 ^ 64 \<in> binary64" by (rule binary64I [of _ 1 64]) simp_all
qed

text \<open>A monotone rounding keeps an interval with exact end points.\<close>

lemma rounding_between:
  assumes "rounding_ok rnd X" and "l \<in> X" and "h \<in> X" and "l \<le> x" and "x \<le> h"
  obtains r where "rnd x = Fin r" "l \<le> r" "r \<le> h"
  using rounding_okD(1) [OF assms(1,4)] rounding_okD(1) [OF assms(1,5)] rounding_okD(3) [OF assms(1)] assms(2,3)
  by (metis f64_le_between)

text \<open>Values that are not negative, and values of the unit interval.\<close>

definition f64_nonneg :: "f64 \<Rightarrow> bool" where
  "f64_nonneg v \<longleftrightarrow> v = NaN \<or> f64_le (Fin 0) v"

definition f64_unit :: "f64 \<Rightarrow> bool" where
  "f64_unit v \<longleftrightarrow> f64_le (Fin 0) v \<and> f64_le v (Fin 1)"

lemma f64_unit_iff: "f64_unit v \<longleftrightarrow> (\<exists>r. v = Fin r \<and> 0 \<le> r \<and> r \<le> 1)"
  by (cases v) (auto simp: f64_unit_def)

lemma f64_unit_simps [simp]: "f64_unit (Fin r) \<longleftrightarrow> 0 \<le> r \<and> r \<le> 1" "\<not> f64_unit NaN" "\<not> f64_unit PosInf" "\<not> f64_unit NegInf"
  by (simp_all add: f64_unit_def)

lemma f64_nonneg_simps [simp]: "f64_nonneg (Fin r) \<longleftrightarrow> 0 \<le> r" "f64_nonneg NaN" "f64_nonneg PosInf" "\<not> f64_nonneg NegInf"
  by (simp_all add: f64_nonneg_def)

named_theorems nonneg \<open>operations that keep values non-negative\<close>

lemma rnd_nonneg [nonneg]: "rounding_ok rnd binary64 \<Longrightarrow> 0 \<le> x \<Longrightarrow> f64_nonneg (rnd x)"
  using rounding_okD(1) [of rnd binary64 0 x] rounding_okD(3) [of rnd binary64 0] by (simp add: f64_nonneg_def)

lemma rnd_unit: "rounding_ok rnd binary64 \<Longrightarrow> 0 \<le> x \<Longrightarrow> x \<le> 1 \<Longrightarrow> f64_unit (rnd x)"
  using rounding_between [of rnd binary64 0 1 x] by (metis f64_unit_iff binary64_numbers(1,2))

lemma square_nonneg [nonneg]: "rounding_ok rnd binary64 \<Longrightarrow> f64_nonneg (f64_mul rnd d d)"
  by (cases d) (simp_all add: rnd_nonneg)

lemma add_nonneg [nonneg]: "rounding_ok rnd binary64 \<Longrightarrow> f64_nonneg a \<Longrightarrow> f64_nonneg b \<Longrightarrow> f64_nonneg (f64_add rnd a b)"
  by (cases a; cases b) (simp_all add: rnd_nonneg)

lemma mul_nonneg [nonneg]: "rounding_ok rnd binary64 \<Longrightarrow> f64_nonneg a \<Longrightarrow> f64_nonneg b \<Longrightarrow> f64_nonneg (f64_mul rnd a b)"
  by (cases a; cases b) (simp_all add: rnd_nonneg inf_times_def)

lemma div_nonneg [nonneg]: "rounding_ok rnd binary64 \<Longrightarrow> f64_nonneg a \<Longrightarrow> f64_nonneg b \<Longrightarrow> f64_nonneg (f64_div rnd a b)"
  by (cases a; cases b) (simp_all add: rnd_nonneg inf_times_def)

lemma sqrt_nonneg [nonneg]: "rounding_ok rnd binary64 \<Longrightarrow> f64_nonneg (f64_sqrt rnd a)"
  by (cases a) (simp_all add: rnd_nonneg)

lemma of_nat_nonneg [nonneg]: "rounding_ok rnd binary64 \<Longrightarrow> f64_nonneg (f64_of_nat rnd n)"
  by (simp add: f64_of_nat_def rnd_nonneg)

lemma foldl_add_nonneg:
  "rounding_ok rnd binary64 \<Longrightarrow> f64_nonneg a \<Longrightarrow> \<forall>x \<in> set xs. f64_nonneg x \<Longrightarrow> f64_nonneg (foldl (f64_add rnd) a xs)"
  by (induction xs arbitrary: a) (auto simp: add_nonneg)

lemma sum_nonneg [nonneg]: "rounding_ok rnd binary64 \<Longrightarrow> \<forall>x \<in> set xs. f64_nonneg x \<Longrightarrow> f64_nonneg (f64_sum rnd xs)"
  by (simp add: f64_sum_def foldl_add_nonneg)

lemma div_unit:
  assumes "rounding_ok rnd binary64" and "0 \<le> a" and "a \<le> b" and "0 < b"
  shows "f64_unit (f64_div rnd (Fin a) (Fin b))"
  using assms rnd_unit [of rnd "a / b"] by simp

lemma complement_unit:
  assumes "rounding_ok rnd binary64" and "f64_unit v"
  shows "f64_unit (f64_sub rnd (Fin 1) v)"
proof -
  obtain r where "v = Fin r" "0 \<le> r" "r \<le> 1" using assms(2) by (auto simp: f64_unit_iff)
  then show ?thesis using rnd_unit [OF assms(1), of "1 - r"] by (simp add: f64_sub_def)
qed

lemma min_one_unit: "f64_nonneg v \<Longrightarrow> f64_unit (f64_min v (Fin 1))"
  by (cases v) (auto simp: f64_min_def)

lemma of_nat_exact: "rounding_ok rnd binary64 \<Longrightarrow> n \<le> 2 ^ 53 \<Longrightarrow> f64_of_nat rnd n = Fin (real n)"
  using rounding_okD(3) [OF _ binary64_nat] by (simp add: f64_of_nat_def)

section \<open>Monotone operations\<close>

named_theorems f64_mono \<open>monotonicity of the rounded operations\<close>

lemma rnd_mono [f64_mono]: "rounding_ok rnd X \<Longrightarrow> x \<le> y \<Longrightarrow> f64_le (rnd x) (rnd y)"
  by (rule rounding_okD(1))

lemma neg_mono [f64_mono]: "f64_le x y \<Longrightarrow> f64_le (f64_neg y) (f64_neg x)"
  by (cases x; cases y) auto

lemma rnd_bounds: "rounding_ok rnd X \<Longrightarrow> f64_le NegInf (rnd x) \<and> f64_le (rnd x) PosInf"
  using rounding_okD(2) [of rnd X x] by (cases "rnd x") auto

lemma add_mono_right [f64_mono]: "rounding_ok rnd X \<Longrightarrow> f64_le x y \<Longrightarrow> f64_le (f64_add rnd (Fin c) x) (f64_add rnd (Fin c) y)"
  by (cases x; cases y) (auto simp: rnd_bounds rounding_okD(1))

lemma add_mono_left [f64_mono]: "rounding_ok rnd X \<Longrightarrow> f64_le x y \<Longrightarrow> f64_le (f64_add rnd x (Fin c)) (f64_add rnd y (Fin c))"
  by (cases x; cases y) (auto simp: rnd_bounds rounding_okD(1))

lemma mul_mono_right [f64_mono]:
  "rounding_ok rnd X \<Longrightarrow> 0 < c \<Longrightarrow> f64_le x y \<Longrightarrow> f64_le (f64_mul rnd (Fin c) x) (f64_mul rnd (Fin c) y)"
  by (cases x; cases y) (auto simp: rnd_bounds rounding_okD(1) inf_times_def)

lemma sub_mono_left [f64_mono]: "rounding_ok rnd X \<Longrightarrow> f64_le x y \<Longrightarrow> f64_le (f64_sub rnd x (Fin c)) (f64_sub rnd y (Fin c))"
  by (simp add: f64_sub_def add_mono_left)

lemma sub_mono_right [f64_mono]: "rounding_ok rnd X \<Longrightarrow> f64_le x y \<Longrightarrow> f64_le (f64_sub rnd (Fin c) y) (f64_sub rnd (Fin c) x)"
  by (simp add: f64_sub_def add_mono_right neg_mono)

lemma clamp_mono [f64_mono]: "l \<le> h \<Longrightarrow> f64_le x y \<Longrightarrow> f64_le (f64_clamp (Fin l) (Fin h) x) (f64_clamp (Fin l) (Fin h) y)"
  by (cases x; cases y) (auto simp: f64_clamp_def)

lemma recip_mono [f64_mono]:
  assumes "rounding_ok rnd X" and "0 \<in> X" and "f64_le (Fin 1) x" and "f64_le x y"
  shows "f64_le (f64_div rnd (Fin 1) y) (f64_div rnd (Fin 1) x)"
proof (cases x; cases y)
  fix a b assume "x = Fin a" "y = Fin b"
  then show ?thesis using assms(3,4) rounding_okD(1) [OF assms(1), of "1 / b" "1 / a"] by (simp add: frac_le)
next
  fix a assume "x = Fin a" "y = PosInf"
  then show ?thesis using assms(3) rounding_okD(1) [OF assms(1), of 0 "1 / a"] rounding_okD(3) [OF assms(1,2)] by simp
qed (use assms(3,4) in auto)

section \<open>An exact maths library\<close>

definition real_libm :: libm where
  "real_libm =
     \<lparr>lm_rnd = Fin,
      lm_exp = (\<lambda>x. case x of Fin r \<Rightarrow> Fin (exp r) | PosInf \<Rightarrow> PosInf | NegInf \<Rightarrow> Fin 0 | NaN \<Rightarrow> NaN),
      lm_ln = (\<lambda>x. case x of Fin r \<Rightarrow> if r < 0 then NaN else if r = 0 then NegInf else Fin (ln r) | NegInf \<Rightarrow> NaN | y \<Rightarrow> y),
      lm_tanh = (\<lambda>x. case x of Fin r \<Rightarrow> Fin (tanh r) | PosInf \<Rightarrow> Fin 1 | NegInf \<Rightarrow> Fin (- 1) | NaN \<Rightarrow> NaN)\<rparr>"

lemma real_libm_ok [simp]: "libm_ok real_libm X"
proof -
  have e: "f64_le (lm_exp real_libm x) (lm_exp real_libm y)" if "f64_le x y" for x y
    using that by (cases x; cases y) (auto simp: real_libm_def)
  have t: "f64_le (Fin (- 1)) (lm_tanh real_libm x) \<and> f64_le (lm_tanh real_libm x) (Fin 1)" if "x \<noteq> NaN" for x
  proof (cases x)
    case (Fin r)
    then show ?thesis using tanh_real_lt_1 [of r] tanh_real_gt_neg1 [of r] by (simp add: real_libm_def)
  qed (use that in \<open>simp_all add: real_libm_def\<close>)
  have "f64_le (Fin 0) (lm_exp real_libm x)" if "x \<noteq> NaN" for x
    using that by (cases x) (simp_all add: real_libm_def)
  then show ?thesis using e t by (simp add: libm_ok_def) (simp add: real_libm_def)
qed

end
