(* ===== verification/Tty.thy ===== *)
theory Tty
  imports Levenshtein F64 Auth
begin

text \<open>
  The content-free analysis of interactive input: the command statistics of
  \<^verbatim>\<open>plugins/plugin-session/src/lib.rs\<close> and the analyzer of \<^verbatim>\<open>plugins/plugin-tty/src/analyzer.rs\<close> with
  the pipe-mode driver of \<^verbatim>\<open>runtime.rs\<close>. The logarithm of the platform's maths library is a parameter
  next to the rounding. \<^verbatim>\<open>String::from_utf8_lossy\<close> is applied to printable ASCII only, where it is the
  identity (\<open>analyzer_ok\<close> says so of every reachable state).
\<close>

section \<open>Command statistics\<close>

record stats_env =
  se_rnd :: rounding
  se_log2 :: "f64 \<Rightarrow> f64"
  se_hash :: "bytes \<Rightarrow> string"

record command_stats =
  st_command_len :: u32
  st_token_count :: u32
  st_shannon_entropy :: f64
  st_command_hash :: string

text \<open>\<^verbatim>\<open>split_whitespace().count()\<close>; the flag says whether a token is being read.\<close>

fun token_count :: "bool \<Rightarrow> string list \<Rightarrow> nat" where
  "token_count inside [] = 0"
| "token_count inside (ch # chs) =
     (if char_is_whitespace ch then token_count False chs
      else if inside then token_count True chs else Suc (token_count True chs))"

definition symbol_counts :: "'c list \<Rightarrow> nat list" where
  "symbol_counts cs = sort (map (count_list cs) (remdups cs))"

definition shannon_entropy :: "stats_env \<Rightarrow> string \<Rightarrow> f64" where
  "shannon_entropy S s =
     (let cs = str_chars s
      in if cs = [] then Fin 0
         else let n = se_rnd S (real (length cs));
                  term = (\<lambda>c. let p = (case n of Fin m \<Rightarrow> se_rnd S (real c / m) | _ \<Rightarrow> NaN)
                              in f64_mul (se_rnd S) (f64_neg p) (se_log2 S p))
              in foldl (f64_add (se_rnd S)) (Fin 0) (map term (symbol_counts cs)))"

definition command_stats :: "stats_env \<Rightarrow> string \<Rightarrow> string \<Rightarrow> command_stats" where
  "command_stats S command salt =
     \<lparr>st_command_len = word_of_nat (length (str_chars command)),
      st_token_count = word_of_nat (token_count False (str_chars command)),
      st_shannon_entropy = shannon_entropy S command,
      st_command_hash = se_hash S (str_bytes salt @ 0 # str_bytes command)\<rparr>"

text \<open>The hash of the code: SHA-256, in hex.\<close>

definition command_hash :: "'sk crypto \<Rightarrow> bytes \<Rightarrow> string" where
  "command_hash C b = hex_encode C (sha256 C b)"

section \<open>The analyzer\<close>

definition MAX_LINE_BUF :: nat where "MAX_LINE_BUF = 16384"

record analyzer =
  an_session_id :: string
  an_salt :: string
  an_last_read :: "u64 option"
  an_last_finish :: "u64 option"
  an_line :: bytes
  an_backspace :: bool
  an_prev :: string
  an_last_cr :: bool

definition analyzer_new :: "string \<Rightarrow> string \<Rightarrow> analyzer" where
  "analyzer_new sid salt =
     \<lparr>an_session_id = sid, an_salt = salt, an_last_read = None, an_last_finish = None, an_line = [],
      an_backspace = False, an_prev = [], an_last_cr = False\<rparr>"

definition is_graphic :: "u8 \<Rightarrow> bool" where
  "is_graphic b \<longleftrightarrow> 33 \<le> unat b \<and> unat b \<le> 126"

definition is_printable :: "u8 \<Rightarrow> bool" where
  "is_printable b \<longleftrightarrow> is_graphic b \<or> b = 32"

definition elapsed_ns :: "u64 option \<Rightarrow> u64 \<Rightarrow> u64" where
  "elapsed_ns previous now = (case previous of None \<Rightarrow> 0 | Some p \<Rightarrow> saturating_sub now p)"

definition finish_line :: "stats_env \<Rightarrow> u64 \<Rightarrow> analyzer \<Rightarrow> event_payload \<times> analyzer" where
  "finish_line S now a =
     (let line = bytes_str (an_line a);
          stats = command_stats S line (an_salt a);
          edit_distance = word_of_nat (levenshtein (an_prev a) line)
      in (CommandObserved (an_session_id a) (st_command_len stats) (st_token_count stats) (st_shannon_entropy stats)
            (an_backspace a) edit_distance (elapsed_ns (an_last_finish a) now) (st_command_hash stats),
          a\<lparr>an_last_finish := Some now, an_prev := line, an_line := [], an_backspace := False\<rparr>))"

definition read_byte :: "stats_env \<Rightarrow> u64 \<Rightarrow> u8 \<Rightarrow> analyzer \<Rightarrow> event_payload list \<times> analyzer" where
  "read_byte S now b a =
     (if b = 127 \<or> b = 8 then ([], a\<lparr>an_last_cr := False, an_backspace := True, an_line := butlast (an_line a)\<rparr>)
      else if b = 13 then
        (case finish_line S now (a\<lparr>an_last_cr := True\<rparr>) of (p, a') \<Rightarrow> ([p], a'))
      else if b = 10 then
        (if an_last_cr a then ([], a\<lparr>an_last_cr := False\<rparr>)
         else (case finish_line S now a of (p, a') \<Rightarrow> ([p], a')))
      else if is_printable b then
        ([], a\<lparr>an_last_cr := False, an_line := (if length (an_line a) < MAX_LINE_BUF then an_line a @ [b] else an_line a)\<rparr>)
      else ([], a\<lparr>an_last_cr := False\<rparr>))"

fun read_bytes :: "stats_env \<Rightarrow> u64 \<Rightarrow> bytes \<Rightarrow> analyzer \<Rightarrow> event_payload list \<times> analyzer" where
  "read_bytes S now [] a = ([], a)"
| "read_bytes S now (b # bs) a =
     (case read_byte S now b a of (out1, a1) \<Rightarrow> case read_bytes S now bs a1 of (out2, a2) \<Rightarrow> (out1 @ out2, a2))"

definition on_read :: "stats_env \<Rightarrow> bytes \<Rightarrow> u64 \<Rightarrow> analyzer \<Rightarrow> event_payload list \<times> analyzer" where
  "on_read S bs now a =
     (let stroke = Keystroke (an_session_id a) (elapsed_ns (an_last_read a) now)
                     (1 < length (filter is_printable bs)) (word_of_nat (max (length bs) 1));
          (evs, a') = read_bytes S now bs (a\<lparr>an_last_read := Some now\<rparr>)
      in (stroke # evs, a'))"

definition on_session_end :: "analyzer \<Rightarrow> event_payload \<times> analyzer" where
  "on_session_end a =
     (SessionEnd (an_session_id a), a\<lparr>an_line := [], an_prev := [], an_backspace := False, an_last_cr := False\<rparr>)"

text \<open>A sequence of reads, each with its clock reading.\<close>

fun observe :: "stats_env \<Rightarrow> (bytes \<times> u64) list \<Rightarrow> analyzer \<Rightarrow> event_payload list \<times> analyzer" where
  "observe S [] a = ([], a)"
| "observe S ((bs, now) # chunks) a =
     (case on_read S bs now a of (out1, a1) \<Rightarrow> case observe S chunks a1 of (out2, a2) \<Rightarrow> (out1 @ out2, a2))"

section \<open>Pipe mode\<close>

text \<open>\<^verbatim>\<open>split_once\<close> at an ASCII character.\<close>

definition split_once :: "char \<Rightarrow> string \<Rightarrow> (string \<times> string) option" where
  "split_once c s =
     (if c \<in> set s then Some (takeWhile (\<lambda>x. x \<noteq> c) s, tl (dropWhile (\<lambda>x. x \<noteq> c) s)) else None)"

definition parse_pipe_line :: "u64 \<Rightarrow> string \<Rightarrow> u64 \<times> bytes" where
  "parse_pipe_line now line =
     (case split_once (CHR 0x09) line of
        Some (ts_str, rest) \<Rightarrow>
          (case parse_unsigned 64 (str_trim ts_str) of
             Some ts \<Rightarrow> (word_of_nat ts, str_bytes rest @ [10])
           | None \<Rightarrow> (now, str_bytes line @ [10]))
      | None \<Rightarrow> (now, str_bytes line @ [10]))"

text \<open>The payloads a whole pipe produces; \<open>lines\<close> pairs each line with the clock when it is read, and the
  flag says whether the input ended with end-of-file or with a read error.\<close>

definition run_pipe :: "stats_env \<Rightarrow> string \<Rightarrow> string \<Rightarrow> string \<Rightarrow> (string \<times> u64) list \<Rightarrow> bool \<Rightarrow> event_payload list" where
  "run_pipe S sid salt user lines eof =
     (case observe S (map (\<lambda>(l, now). case parse_pipe_line now l of (ts, chunk) \<Rightarrow> (chunk, ts)) lines) (analyzer_new sid salt) of
        (evs, a) \<Rightarrow> SessionStart sid None user None # evs @ (if eof then [fst (on_session_end a)] else []))"

end
