(* ===== verification/Tty_Facts.thy ===== *)
theory Tty_Facts
  imports Tty "HOL-Library.Multiset"
begin

text \<open>
  What the input analyzer guarantees: the line buffer stays bounded and printable, line endings are
  read as terminals send them, and nothing but the salted hash depends on which characters were
  typed.
\<close>

section \<open>The state stays bounded\<close>

definition analyzer_ok :: "analyzer \<Rightarrow> bool" where
  "analyzer_ok a \<longleftrightarrow>
     length (an_line a) \<le> MAX_LINE_BUF \<and> list_all is_printable (an_line a)
     \<and> (\<exists>p. length p \<le> MAX_LINE_BUF \<and> list_all is_printable p \<and> an_prev a = bytes_str p)"

lemma analyzer_ok_new [simp]: "analyzer_ok (analyzer_new sid salt)"
  by (auto simp: analyzer_ok_def analyzer_new_def bytes_str_def)

lemma list_all_butlast: "list_all P xs \<Longrightarrow> list_all P (butlast xs)"
  by (auto simp: list_all_iff dest: in_set_butlastD)

lemma finish_line_ok: "analyzer_ok a \<Longrightarrow> analyzer_ok (snd (finish_line S now a))"
  by (auto simp: analyzer_ok_def finish_line_def Let_def)

lemma read_byte_ok:
  assumes "analyzer_ok a"
  shows "analyzer_ok (snd (read_byte S now b a))"
proof -
  have upd: "analyzer_ok (a\<lparr>an_last_cr := c\<rparr>)" for c using assms by (simp add: analyzer_ok_def)
  have fin: "analyzer_ok (snd (finish_line S now (a\<lparr>an_last_cr := c\<rparr>)))" for c using upd by (rule finish_line_ok)
  consider "b = 127 \<or> b = 8" | "b = 13" | "b = 10" | "b \<noteq> 127" "b \<noteq> 8" "b \<noteq> 13" "b \<noteq> 10" by blast
  then show ?thesis
  proof cases
    case 1
    then show ?thesis using assms by (auto simp: read_byte_def analyzer_ok_def intro: list_all_butlast)
  next
    case 2
    then show ?thesis using fin [of True] by (cases "finish_line S now (a\<lparr>an_last_cr := True\<rparr>)") (simp add: read_byte_def)
  next
    case 3
    then show ?thesis using upd finish_line_ok [OF assms, of S now] by (cases "finish_line S now a") (simp add: read_byte_def)
  next
    case 4
    then show ?thesis using assms by (auto simp: read_byte_def analyzer_ok_def)
  qed
qed

lemma read_bytes_ok: "analyzer_ok a \<Longrightarrow> analyzer_ok (snd (read_bytes S now bs a))"
proof (induction bs arbitrary: a)
  case (Cons b bs)
  then show ?case using read_byte_ok [OF Cons.prems, of S now b] by (auto split: prod.splits) (metis snd_conv)
qed simp

lemma on_read_ok: "analyzer_ok a \<Longrightarrow> analyzer_ok (snd (on_read S bs now a))"
  using read_bytes_ok [of "a\<lparr>an_last_read := Some now\<rparr>" S now bs]
  by (auto simp: on_read_def Let_def analyzer_ok_def split: prod.splits)

lemma observe_ok: "analyzer_ok a \<Longrightarrow> analyzer_ok (snd (observe S chunks a))"
proof (induction chunks arbitrary: a)
  case (Cons c chunks)
  then show ?case using on_read_ok [of a S "fst c" "snd c"] by (cases c) (auto split: prod.splits, metis snd_conv)
qed simp

section \<open>Characters of a printable line\<close>

definition char_str :: "u8 \<Rightarrow> string" where
  "char_str b = [char_of (unat b)]"

lemma unat_u8_less: "unat (b :: u8) < 256"
  using unat_lt_exp [of b] by simp

lemma inj_char_str: "inj char_str"
proof (rule injI)
  fix a b :: u8
  assume "char_str a = char_str b"
  then have "unat a mod 256 = unat b mod 256" by (simp add: char_str_def)
  then show "a = b" using unat_u8_less [of a] unat_u8_less [of b] by (simp add: word_unat_eq_iff)
qed

lemma is_ascii_printable: "list_all is_printable l \<Longrightarrow> is_ascii (bytes_str l)"
proof (induction l)
  case (Cons b l)
  then have "unat b < 127" by (auto simp: is_printable_def is_graphic_def)
  then show ?case using Cons by (simp add: bytes_str_def)
qed (simp add: bytes_str_def)

lemma str_chars_printable: "list_all is_printable l \<Longrightarrow> str_chars (bytes_str l) = map char_str l"
  using str_chars_ascii [OF is_ascii_printable, of l] by (simp add: bytes_str_def char_str_def comp_def)

lemma whitespace_char_str: "is_printable b \<Longrightarrow> char_is_whitespace (char_str b) \<longleftrightarrow> b = 32"
proof -
  assume p: "is_printable b"
  then have "unat b < 256" "32 \<le> unat b" by (auto simp: is_printable_def is_graphic_def)
  moreover have "b = 32 \<longleftrightarrow> unat b = 32" by (simp add: word_unat_eq_iff)
  ultimately show ?thesis by (auto simp: char_is_whitespace_def char_str_def)
qed

section \<open>Renaming characters\<close>

lemma count_list_map_inj: "inj f \<Longrightarrow> count_list (map f xs) (f x) = count_list xs x"
  by (induction xs) (auto dest: injD)

lemma remdups_map_inj: "inj f \<Longrightarrow> remdups (map f xs) = map f (remdups xs)"
  by (induction xs) (auto dest: injD)

lemma symbol_counts_map: "inj f \<Longrightarrow> symbol_counts (map f cs) = symbol_counts cs"
  by (simp add: symbol_counts_def remdups_map_inj comp_def count_list_map_inj)

lemma edit_dist_map: "inj f \<Longrightarrow> edit_dist (map f xs) (map f ys) = edit_dist xs ys"
  by (induction xs ys rule: edit_dist.induct) (auto dest: injD)

text \<open>The counts, and with them the entropy, do not depend on the order of the characters.\<close>

lemma symbol_counts_mset: "mset cs = mset ds \<Longrightarrow> symbol_counts cs = symbol_counts ds"
proof -
  assume m: "mset cs = mset ds"
  have "set cs = set ds" using m by (rule mset_eq_setD)
  then have "mset (remdups cs) = mset (remdups ds)" using set_eq_iff_mset_eq_distinct [of "remdups cs" "remdups ds"] by simp
  moreover have "count_list cs = count_list ds" using m by (simp add: fun_eq_iff flip: count_mset)
  ultimately have "mset (map (count_list cs) (remdups cs)) = mset (map (count_list ds) (remdups ds))" by simp
  then show ?thesis unfolding symbol_counts_def by (metis properties_for_sort sorted_sort mset_sort)
qed

text \<open>A renaming of the graphic characters.\<close>

definition renaming :: "(u8 \<Rightarrow> u8) \<Rightarrow> bool" where
  "renaming f \<longleftrightarrow> inj f \<and> (\<forall>b. is_graphic (f b) = is_graphic b) \<and> (\<forall>b. \<not> is_graphic b \<longrightarrow> f b = b)"

lemma renaming_simps:
  assumes "renaming f"
  shows "is_printable (f b) = is_printable b" "f b = 32 \<longleftrightarrow> b = 32" "f b = 127 \<longleftrightarrow> b = 127" "f b = 8 \<longleftrightarrow> b = 8"
    "f b = 13 \<longleftrightarrow> b = 13" "f b = 10 \<longleftrightarrow> b = 10"
proof -
  have id: "f b = b" if "\<not> is_graphic b" for b using assms that by (simp add: renaming_def)
  have gr: "is_graphic (f b) = is_graphic b" for b using assms by (simp add: renaming_def)
  have "f b = c \<longleftrightarrow> b = c" if "\<not> is_graphic c" for c using id gr that by metis
  then show "f b = 32 \<longleftrightarrow> b = 32" "f b = 127 \<longleftrightarrow> b = 127" "f b = 8 \<longleftrightarrow> b = 8" "f b = 13 \<longleftrightarrow> b = 13" "f b = 10 \<longleftrightarrow> b = 10"
    by (simp_all add: is_graphic_def)
  then show "is_printable (f b) = is_printable b" using gr by (simp add: is_printable_def)
qed

lemma list_all_renamed: "renaming f \<Longrightarrow> list_all is_printable (map f l) = list_all is_printable l"
  by (simp add: list_all_iff renaming_simps)

lemma token_count_renamed:
  "renaming f \<Longrightarrow> list_all is_printable l \<Longrightarrow>
   token_count inside (map char_str (map f l)) = token_count inside (map char_str l)"
  by (induction l arbitrary: inside) (simp_all add: whitespace_char_str renaming_simps)

lemma inj_char_str_renamed: "renaming f \<Longrightarrow> inj (\<lambda>b. char_str (f b))"
  using inj_compose [OF inj_char_str, of f] by (simp add: renaming_def comp_def)

lemma levenshtein_renamed:
  assumes "renaming f" and "list_all is_printable l" and "list_all is_printable m"
  shows "levenshtein (bytes_str (map f l)) (bytes_str (map f m)) = levenshtein (bytes_str l) (bytes_str m)"
proof -
  have "inj f" using assms(1) by (simp add: renaming_def)
  then show ?thesis using assms
    by (simp add: levenshtein_def lev_chars_dist str_chars_printable list_all_renamed edit_dist_map [OF inj_char_str]
        edit_dist_map del: map_map)
qed

lemma command_stats_renamed:
  assumes "renaming f" and "list_all is_printable l"
  shows "(command_stats S (bytes_str (map f l)) salt)\<lparr>st_command_hash := h\<rparr> = (command_stats S (bytes_str l) salt)\<lparr>st_command_hash := h\<rparr>"
proof -
  have c: "str_chars (bytes_str (map f l)) = map (\<lambda>b. char_str (f b)) l" "str_chars (bytes_str l) = map char_str l"
    using assms by (simp_all add: str_chars_printable list_all_renamed comp_def)
  have "symbol_counts (map (\<lambda>b. char_str (f b)) l) = symbol_counts (map char_str l)"
    using symbol_counts_map [OF inj_char_str_renamed [OF assms(1)], of l] symbol_counts_map [OF inj_char_str, of l] by simp
  then have "shannon_entropy S (bytes_str (map f l)) = shannon_entropy S (bytes_str l)"
    by (simp add: shannon_entropy_def c Let_def)
  moreover have "token_count False (map (\<lambda>b. char_str (f b)) l) = token_count False (map char_str l)"
    using token_count_renamed [OF assms, of False] by (simp add: comp_def)
  ultimately show ?thesis by (simp add: command_stats_def c)
qed

section \<open>Non-interference\<close>

text \<open>A payload without its hash.\<close>

fun unhashed :: "event_payload \<Rightarrow> event_payload" where
  "unhashed (CommandObserved sid n t e b d i h) = CommandObserved sid n t e b d i []"
| "unhashed p = p"

text \<open>Two analyzers that have seen the same input up to a renaming.\<close>

definition renamed :: "(u8 \<Rightarrow> u8) \<Rightarrow> analyzer \<Rightarrow> analyzer \<Rightarrow> bool" where
  "renamed f a a' \<longleftrightarrow> analyzer_ok a \<and> (\<exists>p. list_all is_printable p \<and> an_prev a = bytes_str p
     \<and> a' = a\<lparr>an_line := map f (an_line a), an_prev := bytes_str (map f p)\<rparr>)"

lemma renamedI:
  assumes "analyzer_ok b" and "list_all is_printable p" and "an_prev b = bytes_str p"
    and "an_line b' = map f (an_line b)" and "an_prev b' = bytes_str (map f p)"
    and "an_session_id b' = an_session_id b" "an_salt b' = an_salt b" "an_last_read b' = an_last_read b"
      "an_last_finish b' = an_last_finish b" "an_backspace b' = an_backspace b" "an_last_cr b' = an_last_cr b"
  shows "renamed f b b'"
  unfolding renamed_def using assms by (auto intro!: exI [of _ p] analyzer.equality)

lemma finish_line_renamed:
  assumes r: "renaming f" and rel: "renamed f a a'" and run: "finish_line S now a = (p, b)"
  shows "\<exists>p' b'. finish_line S now a' = (p', b') \<and> unhashed p' = unhashed p \<and> renamed f b b'"
proof -
  obtain pl where pl: "list_all is_printable pl" "an_prev a = bytes_str pl"
    and a': "a' = a\<lparr>an_line := map f (an_line a), an_prev := bytes_str (map f pl)\<rparr>"
    using rel by (auto simp: renamed_def)
  have ok: "analyzer_ok a" "list_all is_printable (an_line a)" using rel by (auto simp: renamed_def analyzer_ok_def)
  have st: "st_command_len (command_stats S (bytes_str (map f (an_line a))) (an_salt a)) = st_command_len (command_stats S (bytes_str (an_line a)) (an_salt a))"
    "st_token_count (command_stats S (bytes_str (map f (an_line a))) (an_salt a)) = st_token_count (command_stats S (bytes_str (an_line a)) (an_salt a))"
    "st_shannon_entropy (command_stats S (bytes_str (map f (an_line a))) (an_salt a)) = st_shannon_entropy (command_stats S (bytes_str (an_line a)) (an_salt a))"
    using command_stats_renamed [OF r ok(2), where S = S and salt = "an_salt a" and h = "[]"] by (metis command_stats.ext_inject command_stats.surjective command_stats.update_convs(4))+
  obtain p' b' where run': "finish_line S now a' = (p', b')" by fastforce
  have "unhashed p' = unhashed p"
    using run run' st levenshtein_renamed [OF r pl(1) ok(2)] pl(2) by (auto simp: finish_line_def Let_def a')
  moreover have "analyzer_ok b" using finish_line_ok [OF ok(1), of S now] run by simp
  then have "renamed f b b'"
    using run run' ok(2) by (auto simp: finish_line_def Let_def a' renamed_def)
  ultimately show ?thesis using run' by blast
qed

lemma butlast_renamed: "butlast (map f l) = map f (butlast l)"
  by (simp add: map_butlast)

lemma read_byte_renamed:
  assumes r: "renaming f" and rel: "renamed f a a'" and run: "read_byte S now c a = (ps, b)"
  shows "\<exists>ps' b'. read_byte S now (f c) a' = (ps', b') \<and> map unhashed ps' = map unhashed ps \<and> renamed f b b'"
proof -
  obtain pl where pl: "list_all is_printable pl" "an_prev a = bytes_str pl"
    and a': "a' = a\<lparr>an_line := map f (an_line a), an_prev := bytes_str (map f pl)\<rparr>"
    using rel by (auto simp: renamed_def)
  have ok: "analyzer_ok b" using read_byte_ok [of a S now c] rel run by (simp add: renamed_def)
  note fc = renaming_simps [OF r, of c]
  have fin: "\<exists>ps' b'. (case finish_line S now x' of (p, y) \<Rightarrow> ([p], y)) = (ps', b')
      \<and> map unhashed ps' = map unhashed ps \<and> renamed f b b'"
    if rx: "renamed f x x'" and fl: "(case finish_line S now x of (p, y) \<Rightarrow> ([p], y)) = (ps, b)" for x x'
  proof -
    obtain p y where p: "finish_line S now x = (p, y)" by fastforce
    from finish_line_renamed [OF r rx p] show ?thesis using fl p by auto
  qed
  have cr: "renamed f (a\<lparr>an_last_cr := v\<rparr>) (a'\<lparr>an_last_cr := v\<rparr>)" for v
    using rel pl by (auto simp: renamed_def analyzer_ok_def a')
  consider "c = 127 \<or> c = 8" | "c = 13" | "c = 10" | "c \<noteq> 127" "c \<noteq> 8" "c \<noteq> 13" "c \<noteq> 10" by blast
  then show ?thesis
  proof cases
    case 1
    then have "f c = 127 \<or> f c = 8" using fc by simp
    then show ?thesis using 1 run ok pl
      by (auto simp: read_byte_def a' butlast_renamed intro!: renamedI [where p = pl])
  next
    case 2
    then show ?thesis using fin [OF cr] run fc by (simp add: read_byte_def)
  next
    case 3
    have "an_last_cr a' = an_last_cr a" by (simp add: a')
    then show ?thesis using 3 fin [OF rel] run fc cr [of False]
      by (cases "an_last_cr a") (auto simp: read_byte_def)
  next
    case 4
    then show ?thesis using run ok pl fc
      by (auto simp: read_byte_def a' split: if_splits intro!: renamedI [where p = pl])
  qed
qed

lemma read_bytes_renamed:
  assumes r: "renaming f"
  shows "renamed f a a' \<Longrightarrow> read_bytes S now cs a = (ps, b) \<Longrightarrow>
    \<exists>ps' b'. read_bytes S now (map f cs) a' = (ps', b') \<and> map unhashed ps' = map unhashed ps \<and> renamed f b b'"
proof (induction cs arbitrary: a a' ps)
  case (Cons c cs)
  obtain p1 a1 where 1: "read_byte S now c a = (p1, a1)" by fastforce
  obtain p2 where 2: "read_bytes S now cs a1 = (p2, b)" "ps = p1 @ p2"
    using Cons.prems(2) 1 by (auto split: prod.splits)
  obtain p1' a1' where 3: "read_byte S now (f c) a' = (p1', a1')" "map unhashed p1' = map unhashed p1" "renamed f a1 a1'"
    using read_byte_renamed [OF r Cons.prems(1) 1] by blast
  obtain p2' b' where 4: "read_bytes S now (map f cs) a1' = (p2', b')" "map unhashed p2' = map unhashed p2" "renamed f b b'"
    using Cons.IH [OF 3(3) 2(1)] by blast
  show ?case using 2 3 4 by simp
qed auto

lemma on_read_renamed:
  assumes r: "renaming f" and rel: "renamed f a a'" and run: "on_read S cs now a = (ps, b)"
  shows "\<exists>ps' b'. on_read S (map f cs) now a' = (ps', b') \<and> map unhashed ps' = map unhashed ps \<and> renamed f b b'"
proof -
  obtain p1 where p1: "read_bytes S now cs (a\<lparr>an_last_read := Some now\<rparr>) = (p1, b)"
    and ps: "ps = Keystroke (an_session_id a) (elapsed_ns (an_last_read a) now)
                     (1 < length (filter is_printable cs)) (word_of_nat (max (length cs) 1)) # p1"
    using run by (auto simp: on_read_def Let_def split: prod.splits)
  have "renamed f (a\<lparr>an_last_read := Some now\<rparr>) (a'\<lparr>an_last_read := Some now\<rparr>)"
    using rel by (auto simp: renamed_def analyzer_ok_def)
  from read_bytes_renamed [OF r this p1] obtain p1' b' where q: "read_bytes S now (map f cs) (a'\<lparr>an_last_read := Some now\<rparr>) = (p1', b')"
    "map unhashed p1' = map unhashed p1" "renamed f b b'" by blast
  have "filter is_printable (map f cs) = map f (filter is_printable cs)"
    using r by (induction cs) (simp_all add: renaming_simps)
  moreover have "an_session_id a' = an_session_id a" "an_last_read a' = an_last_read a" using rel by (auto simp: renamed_def)
  ultimately show ?thesis using q ps by (simp add: on_read_def Let_def)
qed

lemma observe_renamed:
  assumes r: "renaming f"
  shows "renamed f a a' \<Longrightarrow> observe S chunks a = (ps, b) \<Longrightarrow>
    \<exists>ps' b'. observe S (map (\<lambda>(c, now). (map f c, now)) chunks) a' = (ps', b') \<and> map unhashed ps' = map unhashed ps \<and> renamed f b b'"
proof (induction chunks arbitrary: a a' ps)
  case (Cons c chunks)
  obtain cs now where c: "c = (cs, now)" by fastforce
  obtain p1 a1 where 1: "on_read S cs now a = (p1, a1)" by fastforce
  obtain p2 where 2: "observe S chunks a1 = (p2, b)" "ps = p1 @ p2"
    using Cons.prems(2) 1 c by (auto split: prod.splits)
  obtain p1' a1' where 3: "on_read S (map f cs) now a' = (p1', a1')" "map unhashed p1' = map unhashed p1" "renamed f a1 a1'"
    using on_read_renamed [OF r Cons.prems(1) 1] by blast
  obtain p2' b' where 4: "observe S (map (\<lambda>(c, now). (map f c, now)) chunks) a1' = (p2', b')" "map unhashed p2' = map unhashed p2" "renamed f b b'"
    using Cons.IH [OF 3(3) 2(1)] by blast
  show ?case using 2 3 4 c by simp
qed auto

section \<open>Line endings\<close>

text \<open>The commands a terminal user meant: a carriage return ends a line, a line feed ends one unless it
  follows a carriage return.\<close>

fun line_ends :: "bool \<Rightarrow> bytes \<Rightarrow> nat" where
  "line_ends after_cr [] = 0"
| "line_ends after_cr (b # bs) =
     (if b = 13 then Suc (line_ends True bs)
      else if b = 10 then (if after_cr then line_ends False bs else Suc (line_ends False bs))
      else line_ends False bs)"

fun is_command :: "event_payload \<Rightarrow> bool" where
  "is_command (CommandObserved sid n t e b d i h) = True"
| "is_command p = False"

lemma finish_line_shape:
  "\<exists>n t e b d i h. finish_line S now a = (CommandObserved (an_session_id a) n t e b d i h, snd (finish_line S now a))
     \<and> an_last_cr (snd (finish_line S now a)) = an_last_cr a"
  by (simp add: finish_line_def Let_def)

lemma read_bytes_commands:
  "length (fst (read_bytes S now bs a)) = line_ends (an_last_cr a) bs \<and> list_all is_command (fst (read_bytes S now bs a))"
proof (induction bs arbitrary: a)
  case (Cons b bs)
  obtain p a1 where 1: "read_byte S now b a = (p, a1)" by fastforce
  obtain p2 a2 where 2: "read_bytes S now bs a1 = (p2, a2)" by fastforce
  have IH: "length p2 = line_ends (an_last_cr a1) bs" "list_all is_command p2" using Cons.IH [of a1] 2 by simp_all
  have p: "length p = (if b = 13 then 1 else if b = 10 \<and> \<not> an_last_cr a then 1 else 0)" "list_all is_command p"
    "an_last_cr a1 = (b = 13)"
    using 1 finish_line_shape [of S now "a\<lparr>an_last_cr := True\<rparr>"] finish_line_shape [of S now a]
    by (auto simp: read_byte_def split: if_splits prod.splits)
  show ?case using IH p 1 2 by simp
qed simp

section \<open>Properties\<close>


definition swap_ab :: "u8 \<Rightarrow> u8" where
  "swap_ab b = (if b = 97 then 98 else if b = 98 then 97 else b)"

lemma renaming_swap_ab: "renaming swap_ab"
  by (auto simp: renaming_def swap_ab_def is_graphic_def inj_def)


text \<open>Each read yields one keystroke event and then one command per line ending, a line feed right
  after a carriage return counting with it even across reads; and however much is typed the line
  buffer and the remembered line stay printable and within 16384 bytes.\<close>

theorem reads_bounded:
  "(\<exists>k cmds. fst (on_read S bs now a) = k # cmds \<and> \<not> is_command k \<and> length cmds = line_ends (an_last_cr a) bs
      \<and> list_all is_command cmds)
   \<and> analyzer_ok (snd (observe S chunks (analyzer_new sid salt)))"
proof -
  have "length (fst (read_bytes S now bs (a\<lparr>an_last_read := Some now\<rparr>))) = line_ends (an_last_cr a) bs
    \<and> list_all is_command (fst (read_bytes S now bs (a\<lparr>an_last_read := Some now\<rparr>)))"
    using read_bytes_commands [of S now bs "a\<lparr>an_last_read := Some now\<rparr>"] by simp
  then show ?thesis by (auto simp: on_read_def Let_def observe_ok split: prod.splits)
qed

end
