(* ===== verification/Sink.thy ===== *)
theory Sink
  imports Store_Facts Ingest
begin

text \<open>
  The store sink of the server (\<^verbatim>\<open>crates/aegis-server/src/sink.rs\<close>): the plugin that writes derived events and
  heartbeats to the store and publishes them on the live feed. \<open>sk_io n\<close> is the outcome of the \<open>n\<close>-th database call
  of one \<open>handle\<close>; \<open>new_id\<close> is the text of the UUID drawn for an alert row, \<open>fresh\<close> the one \<open>append_alert\<close> draws.
  The hourly task is \<open>sweep\<close>.
\<close>

datatype live_event =
    LiveScore string string f64 u64
  | LiveDetection string string string f64 u64
  | LiveAlert string string string "string option" u64
  | LiveAgentSeen string "string option" u64

fun live_name :: "live_event \<Rightarrow> string" where
  "live_name (LiveScore _ _ _ _) = ''score''"
| "live_name (LiveDetection _ _ _ _ _) = ''detection''"
| "live_name (LiveAlert _ _ _ _ _) = ''alert''"
| "live_name (LiveAgentSeen _ _ _) = ''agent_seen''"

definition sink_subscriptions :: subscriptions where
  "sink_subscriptions = subscription_kinds [''score'', ''detection'', ''alert'', ''heartbeat'']"

record 't sink_env =
  sk_tables :: "('t, bytes, bytes) table_ops"
  sk_postcard :: postcard
  sk_payload :: "event_payload codec"
  sk_parse_uuid :: "string \<Rightarrow> uuid option"
  sk_io :: "nat \<Rightarrow> bytes redb_io"

section \<open>Handling one event\<close>

text \<open>A result with the published events: the write, then publication when it succeeded.\<close>

definition published :: "live_event \<Rightarrow> (store_error + unit) \<times> 't store \<Rightarrow> (store_error + live_event list) \<times> 't store" where
  "published l r = (case r of (Inl e, st) \<Rightarrow> (Inl e, st) | (Inr _, st) \<Rightarrow> (Inr [l], st))"

definition sink_detection :: "'t sink_env \<Rightarrow> event \<Rightarrow> 't store \<Rightarrow> (store_error + live_event list) \<times> 't store" where
  "sink_detection K ev st =
     (case detection_row_of ev of
        None \<Rightarrow> (Inr [], st)
      | Some row \<Rightarrow>
          published (LiveDetection (dr_agent_id row) (dr_subject row) (dr_verdict row) (dr_confidence row) (dr_ts_ns row))
            (upsert_detection (sk_tables K) (sk_postcard K) (sk_io K 1) row st))"

definition sink_score :: "'t sink_env \<Rightarrow> event \<Rightarrow> 't store \<Rightarrow> (store_error + live_event list) \<times> 't store" where
  "sink_score K ev st =
     (case score_row_of ev of
        None \<Rightarrow> (Inr [], st)
      | Some row \<Rightarrow>
          published (LiveScore (sr_agent_id row) (sr_subject row) (sr_score row) (sr_ts_ns row))
            (upsert_score (sk_tables K) (sk_postcard K) (sk_io K 1) row st))"

definition sink_alert :: "'t sink_env \<Rightarrow> string \<Rightarrow> uuid \<Rightarrow> event \<Rightarrow> 't store \<Rightarrow> (store_error + live_event list) \<times> 't store" where
  "sink_alert K new_id fresh ev st =
     (case alert_row_of new_id ev of
        None \<Rightarrow> (Inr [], st)
      | Some row \<Rightarrow>
          published (LiveAlert (ar_agent_id row) (ar_severity row) (ar_title row) (ar_subject row) (ar_ts_ns row))
            (append_alert (sk_tables K) (sk_postcard K) (sk_parse_uuid K) fresh (sk_io K 1) row st))"

definition sink_heartbeat :: "'t sink_env \<Rightarrow> event \<Rightarrow> 't store \<Rightarrow> (store_error + live_event list) \<times> 't store" where
  "sink_heartbeat K ev st =
     (case touch_agent (sk_tables K) (sk_postcard K) (sk_io K 1) (agent_id ev) (ts_ns ev) st of
        (Inl e, st1) \<Rightarrow> (Inl e, st1)
      | (Inr _, st1) \<Rightarrow>
          let hostname = (case store_agent (sk_tables K) (sk_postcard K) (sk_io K 2) (agent_id ev) st1 of
                            Inr (Some a) \<Rightarrow> Some (ag_hostname a) | _ \<Rightarrow> None)
          in (Inr [LiveAgentSeen (agent_id ev) hostname (ts_ns ev)], st1))"

definition sink_handle ::
  "'t sink_env \<Rightarrow> string \<Rightarrow> uuid \<Rightarrow> event \<Rightarrow> 't store \<Rightarrow> (store_error + live_event list) \<times> 't store" where
  "sink_handle K new_id fresh ev st =
     (case write_event (sk_tables K) (sk_postcard K) (sk_payload K) (sk_io K 0) ev st of
        (Inl e, st1) \<Rightarrow> (Inl e, st1)
      | (Inr _, st1) \<Rightarrow>
          if kind ev = ''detection'' then sink_detection K ev st1
          else if kind ev = ''score'' then sink_score K ev st1
          else if kind ev = ''alert'' then sink_alert K new_id fresh ev st1
          else if kind ev = ''heartbeat'' then sink_heartbeat K ev st1
          else (Inr [], st1))"

text \<open>Handling a sequence of events: the host logs an error and goes on.\<close>

fun sink_run :: "'t sink_env \<Rightarrow> (string \<times> uuid \<times> event) list \<Rightarrow> 't store \<Rightarrow> live_event list \<times> 't store" where
  "sink_run K [] st = ([], st)"
| "sink_run K ((new_id, fresh, ev) # evs) st =
     (case sink_handle K new_id fresh ev st of
        (r, st1) \<Rightarrow> (case sink_run K evs st1 of
          (ls, st2) \<Rightarrow> ((case r of Inl _ \<Rightarrow> [] | Inr l \<Rightarrow> l) @ ls, st2)))"

definition sweep :: "'t sink_env \<Rightarrow> bool option \<Rightarrow> u64 \<Rightarrow> 't store \<Rightarrow> 't store" where
  "sweep K reclaimed now st = snd (store_compact (sk_tables K) (sk_postcard K) (sk_io K 0) reclaimed now RETENTION_NS st)"

section \<open>What is published is stored\<close>

text \<open>Where a published event is found in the store.\<close>

definition live_stored :: "'t sink_env \<Rightarrow> 't store \<Rightarrow> live_event \<Rightarrow> bool" where
  "live_stored K st l =
     (case l of
        LiveScore a s v ts \<Rightarrow>
          (\<exists>m. tbl (sk_tables K) (pc_score (sk_postcard K)) (t_scores st) (str_bytes (subject_key a s))
             = Some \<lparr>sr_agent_id = a, sr_subject = s, sr_model = m, sr_score = v, sr_ts_ns = ts\<rparr>)
      | LiveDetection a s v c ts \<Rightarrow>
          (\<exists>m rs. tbl (sk_tables K) (pc_detection (sk_postcard K)) (t_detections st) (str_bytes (subject_key a s))
             = Some \<lparr>dr_agent_id = a, dr_subject = s, dr_verdict = v, dr_confidence = c, dr_model = m, dr_reasons = rs, dr_ts_ns = ts\<rparr>)
      | LiveAlert a sev t s ts \<Rightarrow>
          (\<exists>i u d. tbl (sk_tables K) (pc_alert (sk_postcard K)) (t_alerts st) (composite_key ts u)
             = Some \<lparr>ar_id = i, ar_agent_id = a, ar_severity = sev, ar_title = t, ar_detail = d, ar_subject = s, ar_ts_ns = ts,
                     ar_acknowledged = False\<rparr>)
      | LiveAgentSeen a h ts \<Rightarrow>
          (\<forall>row. tbl (sk_tables K) (pc_agent (sk_postcard K)) (t_agents st) (str_bytes a) = Some row \<longrightarrow> ag_last_seen_ns row = ts))"

context datastore
begin

lemma touch_agent_seen:
  assumes "touch_agent T P io a ts st = (Inr (), st')" and "tbl T (pc_agent P) (t_agents st') (str_bytes a) = Some row"
  shows "ag_last_seen_ns row = ts"
proof (cases "read_cell T (pc_agent P) io (str_bytes a) (t_agents st)")
  case (Inr r)
  show ?thesis
  proof (cases r)
    case None
    then have "st' = st" "tget T (t_agents st) (str_bytes a) = None"
      using assms(1) Inr read_cell_None by (auto simp: touch_agent_def split: if_splits)
    then show ?thesis using assms(2) by (simp add: tbl_def)
  next
    case (Some old)
    then obtain t where "write_cell T (pc_agent P) io (str_bytes a) (old\<lparr>ag_last_seen_ns := ts\<rparr>) (t_agents st) = Inr t"
      "t_agents st' = t" using assms(1) Inr by (auto simp: touch_agent_def split: if_splits sum.splits)
    then show ?thesis using assms(2) write_cell_Inr [OF codecs(6)] by fastforce
  qed
qed (use assms(1) in \<open>simp add: touch_agent_def split: if_splits\<close>)

lemma append_alert_tbl:
  assumes "append_alert T P pu fresh io row st = (Inr (), st')"
  shows "\<exists>u. tbl T (pc_alert P) (t_alerts st') (composite_key (ar_ts_ns row) u) = Some row"
  using append_alert_Inr [OF assms] by (auto simp: alert_key_def tbl_insert codecs)

end

text \<open>The log entry of an event.\<close>

definition logged :: "'t sink_env \<Rightarrow> event \<Rightarrow> 't store \<Rightarrow> bool" where
  "logged K ev st \<longleftrightarrow>
     (\<exists>json. enc (sk_payload K) (payload ev) = Some json \<and>
        tbl (sk_tables K) (pc_event (sk_postcard K)) (t_events st) (composite_key (ts_ns ev) (ev_id ev)) = Some (event_row_of json ev)
      \<and> (\<exists>keys. tbl (sk_tables K) (pc_index (sk_postcard K)) (t_index st) (str_bytes (agent_id ev))
           = Some (keys @ [composite_key (ts_ns ev) (ev_id ev)])))"


lemma write_event_logged:
  assumes "datastore (sk_tables K) (sk_postcard K)"
    and "write_event (sk_tables K) (sk_postcard K) (sk_payload K) io ev st = (Inr (), st')"
  shows "logged K ev st'"
proof -
  obtain ks where "push_index_key (composite_key (ts_ns ev) (ev_id ev))
      (case tbl (sk_tables K) (pc_index (sk_postcard K)) (t_index st) (str_bytes (agent_id ev)) of None \<Rightarrow> [] | Some ks \<Rightarrow> ks)
    = ks @ [composite_key (ts_ns ev) (ev_id ev)]" using datastore.push_index_key_last [OF assms(1)] by blast
  then show ?thesis using datastore.write_event_Inr [OF assms(1,2)] by (auto simp: logged_def)
qed

lemma logged_same: "t_events st' = t_events st \<Longrightarrow> t_index st' = t_index st \<Longrightarrow> logged K ev st' \<longleftrightarrow> logged K ev st"
  by (simp add: logged_def)

text \<open>Each kind-specific write, when it succeeds, stores what it publishes and leaves the log alone.\<close>

definition kept_log :: "'t store \<Rightarrow> 't store \<Rightarrow> bool" where
  "kept_log st st' \<longleftrightarrow> t_events st' = t_events st \<and> t_index st' = t_index st"

lemma published_Inr:
  "published l r = (Inr ls, st') \<longleftrightarrow> r = (Inr (), st') \<and> ls = [l]"
  by (cases r) (auto simp: published_def split: sum.splits)

lemma sink_detection_ok:
  assumes "datastore (sk_tables K) (sk_postcard K)" and "sink_detection K ev st = (Inr ls, st')"
  shows "kept_log st st' \<and> list_all (live_stored K st') ls \<and> length ls = (if default_kind (payload ev) = ''detection'' then 1 else 0)"
proof (cases "detection_row_of ev")
  case None
  then show ?thesis using assms(2)
    by (auto simp: sink_detection_def detection_row_of_def kept_log_def split: event_payload.splits)
next
  case (Some row)
  then have u: "upsert_detection (sk_tables K) (sk_postcard K) (sk_io K 1) row st = (Inr (), st')"
    and ls: "ls = [LiveDetection (dr_agent_id row) (dr_subject row) (dr_verdict row) (dr_confidence row) (dr_ts_ns row)]"
    using assms(2) by (simp_all add: sink_detection_def published_Inr)
  have "default_kind (payload ev) = ''detection''" using Some by (simp add: detection_row_of_def split: event_payload.splits)
  then show ?thesis using datastore.upsert_detection_Inr [OF assms(1) u] ls
    by (auto simp: kept_log_def live_stored_def intro!: exI [of _ "dr_model row"] exI [of _ "dr_reasons row"])
qed

lemma sink_score_ok:
  assumes "datastore (sk_tables K) (sk_postcard K)" and "sink_score K ev st = (Inr ls, st')"
  shows "kept_log st st' \<and> list_all (live_stored K st') ls \<and> length ls = (if default_kind (payload ev) = ''score'' then 1 else 0)"
proof (cases "score_row_of ev")
  case None
  then show ?thesis using assms(2)
    by (auto simp: sink_score_def score_row_of_def kept_log_def split: event_payload.splits)
next
  case (Some row)
  then have u: "upsert_score (sk_tables K) (sk_postcard K) (sk_io K 1) row st = (Inr (), st')"
    and ls: "ls = [LiveScore (sr_agent_id row) (sr_subject row) (sr_score row) (sr_ts_ns row)]"
    using assms(2) by (simp_all add: sink_score_def published_Inr)
  have "default_kind (payload ev) = ''score''" using Some by (simp add: score_row_of_def split: event_payload.splits)
  then show ?thesis using datastore.upsert_score_Inr [OF assms(1) u] ls
    by (auto simp: kept_log_def live_stored_def intro!: exI [of _ "sr_model row"])
qed

lemma sink_alert_ok:
  assumes "datastore (sk_tables K) (sk_postcard K)" and "sink_alert K new_id fresh ev st = (Inr ls, st')"
  shows "kept_log st st' \<and> list_all (live_stored K st') ls \<and> length ls = (if default_kind (payload ev) = ''alert'' then 1 else 0)"
proof (cases "alert_row_of new_id ev")
  case None
  then show ?thesis using assms(2)
    by (auto simp: sink_alert_def alert_row_of_def kept_log_def split: event_payload.splits)
next
  case (Some row)
  then have u: "append_alert (sk_tables K) (sk_postcard K) (sk_parse_uuid K) fresh (sk_io K 1) row st = (Inr (), st')"
    and ls: "ls = [LiveAlert (ar_agent_id row) (ar_severity row) (ar_title row) (ar_subject row) (ar_ts_ns row)]"
    using assms(2) by (simp_all add: sink_alert_def published_Inr)
  have row: "default_kind (payload ev) = ''alert''" "ar_acknowledged row = False"
    using Some by (auto simp: alert_row_of_def split: event_payload.splits)
  obtain k where "tbl (sk_tables K) (pc_alert (sk_postcard K)) (t_alerts st') (composite_key (ar_ts_ns row) k) = Some row"
    using datastore.append_alert_tbl [OF assms(1) u] by blast
  moreover have "kept_log st st'" using datastore.append_alert_Inr [OF assms(1) u] by (auto simp: kept_log_def)
  moreover have "row = \<lparr>ar_id = ar_id row, ar_agent_id = ar_agent_id row, ar_severity = ar_severity row, ar_title = ar_title row,
      ar_detail = ar_detail row, ar_subject = ar_subject row, ar_ts_ns = ar_ts_ns row, ar_acknowledged = False\<rparr>"
    using row(2) by simp
  ultimately show ?thesis using ls row(1) by (simp add: live_stored_def) metis
qed

lemma sink_heartbeat_ok:
  assumes "datastore (sk_tables K) (sk_postcard K)" and "sink_heartbeat K ev st = (Inr ls, st')"
  shows "kept_log st st' \<and> list_all (live_stored K st') ls \<and> length ls = 1"
proof -
  have t: "touch_agent (sk_tables K) (sk_postcard K) (sk_io K 1) (agent_id ev) (ts_ns ev) st = (Inr (), st')"
    using assms(2) by (auto simp: sink_heartbeat_def Let_def split: prod.splits sum.splits)
  then have "\<exists>h. ls = [LiveAgentSeen (agent_id ev) h (ts_ns ev)]" using assms(2) by (auto simp: sink_heartbeat_def Let_def)
  then show ?thesis using datastore.touch_agent_seen [OF assms(1) t] datastore.touch_agent_tbl [OF assms(1) t]
    by (auto simp: kept_log_def live_stored_def)
qed

text \<open>C14: The live feed shows only what is durable: when the sink handles an event without an error, the
  event is in the log and last in its agent's index, and what it published, exactly one event when kind and payload agree,
  can be read from the store; on an error nothing is published.\<close>

theorem sink_durable:
  assumes "datastore (sk_tables K) (sk_postcard K)" and "sink_handle K new_id fresh ev st = (Inr ls, st')"
  shows "logged K ev st' \<and> list_all (live_stored K st') ls
    \<and> length ls = (if kind ev = ''heartbeat'' \<or> kind ev \<in> {''detection'', ''score'', ''alert''} \<and> default_kind (payload ev) = kind ev
                   then 1 else 0)"
proof -
  obtain st1 where w: "write_event (sk_tables K) (sk_postcard K) (sk_payload K) (sk_io K 0) ev st = (Inr (), st1)"
    using assms(2) by (auto simp: sink_handle_def split: prod.splits sum.splits)
  have log: "kept_log st1 st' \<Longrightarrow> logged K ev st'" for st'
    using write_event_logged [OF assms(1) w] logged_same [of st' st1] by (simp add: kept_log_def)
  have h: "(if kind ev = ''detection'' then sink_detection K ev st1
          else if kind ev = ''score'' then sink_score K ev st1
          else if kind ev = ''alert'' then sink_alert K new_id fresh ev st1
          else if kind ev = ''heartbeat'' then sink_heartbeat K ev st1
          else (Inr [], st1)) = (Inr ls, st')" using assms(2) w by (simp add: sink_handle_def)
  consider "kind ev = ''detection''" | "kind ev = ''score''" | "kind ev = ''alert''" | "kind ev = ''heartbeat''"
    | "kind ev \<notin> {''detection'', ''score'', ''alert'', ''heartbeat''}" by blast
  then show ?thesis
    using h log sink_detection_ok [OF assms(1), of ev st1 ls st'] sink_score_ok [OF assms(1), of ev st1 ls st']
      sink_alert_ok [OF assms(1), of new_id fresh ev st1 ls st'] sink_heartbeat_ok [OF assms(1), of ev st1 ls st']
    by cases (auto simp: kept_log_def)
qed

definition demo_scored :: event where
  "demo_scored = event_new 5 9 ''aegisd'' ''plugin-scoring'' (Score ''uid:0'' ''risk-aggregator/v1'' (Fin 1) [])"

definition demo_beaten :: event where
  "demo_beaten = event_new 6 9 ''b'' ''agent'' (Heartbeat 1)"

definition demo_sink :: "(bytes, bytes) rbt sink_env" where
  "demo_sink =
     \<lparr>sk_tables = rbt_table,
      sk_postcard = table_postcard [event_row_of [0] demo_scored, event_row_of [1] demo_beaten]
        [[composite_key 9 5], [composite_key 9 6], [composite_key 9 6, composite_key 9 6]] []
        [\<lparr>sr_agent_id = ''aegisd'', sr_subject = ''uid:0'', sr_model = ''risk-aggregator/v1'', sr_score = Fin 1, sr_ts_ns = 9\<rparr>] [] [] [],
      sk_payload = table_codec [payload demo_scored, payload demo_beaten], sk_parse_uuid = (\<lambda>_. None), sk_io = (\<lambda>_. io_fine)\<rparr>"

definition demo_empty :: "(bytes, bytes) rbt store" where
  "demo_empty =
     \<lparr>t_events = tempty rbt_table, t_index = tempty rbt_table, t_detections = tempty rbt_table, t_scores = tempty rbt_table,
      t_alerts = tempty rbt_table, t_agents = tempty rbt_table, t_tokens = tempty rbt_table\<rparr>"

lemma rbt_get_empty: "tget rbt_table (tempty rbt_table) = Map.empty"
  by (simp add: rbt.get_rows rbt.rows_empty)

lemmas demo_sink_simps = demo_sink_def demo_empty_def demo_scored_def demo_beaten_def event_new_def event_row_of_def
  write_event_def read_cell_def write_cell_def table_postcard_def table_codec_def push_index_key_def AGENT_EVENT_INDEX_LIMIT_def
  io_fine_def composite_key_inject rbt.get_insert rbt_get_empty Let_def

lemma demo_score_run: "\<exists>st'. sink_handle demo_sink ''i'' 7 demo_scored demo_empty = (Inr [LiveScore ''aegisd'' ''uid:0'' (Fin 1) 9], st')"
  by (simp add: sink_handle_def sink_score_def score_row_of_def published_def upsert_score_def demo_sink_simps)

lemma sink_durable_witness:
  "\<exists>st'. sink_handle demo_sink ''i'' 7 demo_scored demo_empty = (Inr [LiveScore ''aegisd'' ''uid:0'' (Fin 1) 9], st')
     \<and> logged demo_sink demo_scored st'"
proof -
  obtain st' where r: "sink_handle demo_sink ''i'' 7 demo_scored demo_empty = (Inr [LiveScore ''aegisd'' ''uid:0'' (Fin 1) 9], st')"
    using demo_score_run by blast
  have "datastore (sk_tables demo_sink) (sk_postcard demo_sink)" by (simp add: demo_sink_def rbt_datastore)
  from sink_durable [OF this r] show ?thesis using r by blast
qed

text \<open>A heartbeat that comes off the wire is indexed twice: the ingest path writes it before it is put on
  the bus, and the sink, which subscribes to heartbeats, writes it again, so its key is in the index of its agent two times
  and every page of the agent's events lists it twice.\<close>

theorem heartbeat_indexed_twice:
  assumes "datastore (sk_tables K) (sk_postcard K)" and "kind ev = ''heartbeat''" and "is_ingestible (kind ev)"
    and "write_event (sk_tables K) (sk_postcard K) (sk_payload K) io ev st = (Inr (), st1)"
    and "sink_handle K new_id fresh ev st1 = (Inr ls, st2)"
  shows "sub_matches sink_subscriptions (kind ev) \<and>
    (\<exists>keys. tbl (sk_tables K) (pc_index (sk_postcard K)) (t_index st2) (str_bytes (agent_id ev))
      = Some (keys @ [composite_key (ts_ns ev) (ev_id ev), composite_key (ts_ns ev) (ev_id ev)]))"
proof -
  let ?k = "composite_key (ts_ns ev) (ev_id ev)"
  obtain st3 where w: "write_event (sk_tables K) (sk_postcard K) (sk_payload K) (sk_io K 0) ev st1 = (Inr (), st3)"
    and h: "sink_heartbeat K ev st3 = (Inr ls, st2)"
    using assms(2,5) by (auto simp: sink_handle_def split: prod.splits sum.splits)
  obtain keys where 1: "tbl (sk_tables K) (pc_index (sk_postcard K)) (t_index st1) (str_bytes (agent_id ev)) = Some (keys @ [?k])"
    using write_event_logged [OF assms(1,4)] by (auto simp: logged_def)
  have "tbl (sk_tables K) (pc_index (sk_postcard K)) (t_index st3) (str_bytes (agent_id ev)) = Some (push_index_key ?k (keys @ [?k]))"
    using datastore.write_event_Inr [OF assms(1) w] 1 by auto
  moreover have "\<exists>ks. push_index_key ?k (keys @ [?k]) = ks @ [?k, ?k]"
    by (rule exI [of _ "drop (length keys + 2 - AGENT_EVENT_INDEX_LIMIT) keys"])
      (simp add: push_index_key_def Let_def AGENT_EVENT_INDEX_LIMIT_def)
  moreover have "t_index st2 = t_index st3" using sink_heartbeat_ok [OF assms(1) h] by (simp add: kept_log_def)
  ultimately show ?thesis using assms(2) by (auto simp: sink_subscriptions_def)
qed


lemma heartbeat_indexed_twice_witness:
  "\<exists>st1 ls st2. write_event rbt_table (sk_postcard demo_sink) (sk_payload demo_sink) io_fine demo_beaten demo_empty = (Inr (), st1)
     \<and> sink_handle demo_sink ''i'' 7 demo_beaten st1 = (Inr ls, st2)
     \<and> (\<exists>keys. tbl rbt_table (pc_index (sk_postcard demo_sink)) (t_index st2) (str_bytes ''b'')
           = Some (keys @ [composite_key 9 6, composite_key 9 6]))"
proof -
  have "\<exists>st1 ls st2. write_event (sk_tables demo_sink) (sk_postcard demo_sink) (sk_payload demo_sink) io_fine demo_beaten demo_empty = (Inr (), st1)
     \<and> sink_handle demo_sink ''i'' 7 demo_beaten st1 = (Inr ls, st2)"
    by (simp add: sink_handle_def sink_heartbeat_def touch_agent_def store_agent_def demo_sink_simps)
  then obtain st1 ls st2 where r: "write_event (sk_tables demo_sink) (sk_postcard demo_sink) (sk_payload demo_sink) io_fine demo_beaten demo_empty = (Inr (), st1)"
    "sink_handle demo_sink ''i'' 7 demo_beaten st1 = (Inr ls, st2)" by blast
  have d: "datastore (sk_tables demo_sink) (sk_postcard demo_sink)" by (simp add: demo_sink_def rbt_datastore)
  have k: "kind demo_beaten = ''heartbeat''" "is_ingestible (kind demo_beaten)"
    by (simp_all add: demo_beaten_def is_ingestible_def INGESTIBLE_KINDS_def)
  from heartbeat_indexed_twice [OF d k r] r show ?thesis by (auto simp: demo_sink_def demo_beaten_def event_new_def)
qed

end
