(* ===== verification/Api.thy ===== *)
theory Api
  imports Enroll Router Sink F64
begin

text \<open>
  The operator HTTP API (\<^verbatim>\<open>crates/aegis-server/src/api.rs\<close>): the error type and its status codes, the response
  records, and every handler over the store and the command router. A handler returns an \<open>api_error\<close> or its result, with the
  new store where it writes. Extraction of paths, queries and bodies, and JSON rendering, are axum's and serde's. A live
  subscriber is the list of what its broadcast receiver yields; the static dashboard is not modelled.
\<close>

record server_info =
  si_fingerprint :: string
  si_proto_version :: u16

record ('t, 'sk) api_env =
  ap_tables :: "('t, bytes, bytes) table_ops"
  ap_postcard :: postcard
  ap_crypto :: "'sk crypto"
  ap_parse_uuid :: "string \<Rightarrow> uuid option"
  ap_uuid_text :: "bytes \<Rightarrow> string"
  ap_parse_json :: "bytes \<Rightarrow> json option"
  ap_info :: server_info

section \<open>Errors\<close>

datatype api_error =
    BadRequest string
  | NotFound string
  | Conflict string
  | ServiceUnavailable string
  | Internal token_error

fun api_status :: "api_error \<Rightarrow> nat" where
  "api_status (BadRequest _) = 400"
| "api_status (NotFound _) = 404"
| "api_status (Conflict _) = 409"
| "api_status (ServiceUnavailable _) = 503"
| "api_status (Internal _) = 500"

fun api_message :: "api_error \<Rightarrow> string" where
  "api_message (BadRequest m) = m"
| "api_message (NotFound m) = m"
| "api_message (Conflict m) = m"
| "api_message (ServiceUnavailable m) = m"
| "api_message (Internal _) = ''internal server error''"

fun api_of_router :: "router_error \<Rightarrow> api_error" where
  "api_of_router NotConnected = NotFound ''agent is not connected''"
| "api_of_router ChannelFull = ServiceUnavailable ''agent command channel is full''"

abbreviation internal :: "store_error \<Rightarrow> api_error" where
  "internal e \<equiv> Internal (TokenStore e)"

definition api_result :: "store_error + 'a \<Rightarrow> api_error + 'a" where
  "api_result r = map_sum internal id r"

section \<open>Response records\<close>

record agent_record =
  rc_agent_id :: string
  rc_hostname :: string
  rc_os :: string
  rc_pubkey_hex :: string
  rc_enrolled_at_ns :: u64
  rc_last_seen_ns :: u64

definition agent_record_of :: "('t, 'sk) api_env \<Rightarrow> agent_row \<Rightarrow> agent_record" where
  "agent_record_of A r =
     \<lparr>rc_agent_id = ag_agent_id r, rc_hostname = ag_hostname r, rc_os = ag_os r,
      rc_pubkey_hex = hex_encode (ap_crypto A) (ag_pubkey r), rc_enrolled_at_ns = ag_enrolled_at_ns r,
      rc_last_seen_ns = ag_last_seen_ns r\<rparr>"

record event_record =
  rv_id :: string
  rv_ts_ns :: u64
  rv_agent_id :: string
  rv_source :: string
  rv_kind :: string
  rv_payload :: json

definition event_record_of :: "('t, 'sk) api_env \<Rightarrow> event_row \<Rightarrow> event_record" where
  "event_record_of A r =
     \<lparr>rv_id = ap_uuid_text A (er_id r), rv_ts_ns = er_ts_ns r, rv_agent_id = er_agent_id r, rv_source = er_source r,
      rv_kind = er_kind r,
      rv_payload = (case ap_parse_json A (er_payload_json r) of Some j \<Rightarrow> j | None \<Rightarrow> JNull)\<rparr>"

record token_record =
  rt_token :: string
  rt_label :: string
  rt_created_at_ns :: u64
  rt_used :: bool

definition token_record_of :: "string \<times> token_row \<Rightarrow> token_record" where
  "token_record_of p =
     \<lparr>rt_token = fst p, rt_label = tk_label (snd p), rt_created_at_ns = tk_created_at_ns (snd p), rt_used = tk_used (snd p)\<rparr>"

section \<open>Handlers: agents\<close>

definition list_agents :: "('t, 'sk) api_env \<Rightarrow> bytes redb_io \<Rightarrow> 't store \<Rightarrow> api_error + agent_record list" where
  "list_agents A io st = api_result (map_sum id (map (agent_record_of A)) (store_agents (ap_tables A) (ap_postcard A) io st))"

definition get_agent :: "('t, 'sk) api_env \<Rightarrow> bytes redb_io \<Rightarrow> string \<Rightarrow> 't store \<Rightarrow> api_error + agent_record" where
  "get_agent A io aid st =
     (case store_agent (ap_tables A) (ap_postcard A) io aid st of
        Inl e \<Rightarrow> Inl (internal e)
      | Inr (Some row) \<Rightarrow> Inr (agent_record_of A row)
      | Inr None \<Rightarrow> Inl (NotFound ''agent not found''))"

definition post_command ::
  "('c, 'h, 'm) mpsc \<Rightarrow> string \<Rightarrow> 'm \<Rightarrow> 'c router \<Rightarrow> 'h \<Rightarrow> (api_error + nat) \<times> 'h" where
  "post_command M aid cmd r h =
     (case router_send M aid cmd r h of
        (Inl e, h') \<Rightarrow> (Inl (api_of_router e), h')
      | (Inr _, h') \<Rightarrow> (Inr 202, h'))"

section \<open>Handlers: scores, detections, alerts\<close>

text \<open>\<^verbatim>\<open>if let Some(x) = query { rows.retain(..) }\<close> and \<^verbatim>\<open>truncate\<close>.\<close>

definition retain_if :: "'q option \<Rightarrow> ('q \<Rightarrow> 'r \<Rightarrow> bool) \<Rightarrow> 'r list \<Rightarrow> 'r list" where
  "retain_if query P rows = (case query of None \<Rightarrow> rows | Some x \<Rightarrow> filter (P x) rows)"

definition truncate_if :: "nat option \<Rightarrow> 'r list \<Rightarrow> 'r list" where
  "truncate_if limit rows = (case limit of None \<Rightarrow> rows | Some n \<Rightarrow> take n rows)"

record score_query =
  qs_subject :: "string option"
  qs_min_score :: "f64 option"
  qs_limit :: "nat option"

definition list_scores ::
  "('t, 'sk) api_env \<Rightarrow> bytes redb_io \<Rightarrow> score_query \<Rightarrow> 't store \<Rightarrow> api_error + score_row list" where
  "list_scores A io qry st =
     (case store_scores (ap_tables A) (ap_postcard A) io st of
        Inl e \<Rightarrow> Inl (internal e)
      | Inr rows \<Rightarrow>
          let rows1 = retain_if (qs_subject qry) (\<lambda>s r. sr_subject r = s) rows;
              rows2 = retain_if (qs_min_score qry) (\<lambda>m r. f64_le m (sr_score r)) rows1
          in Inr (truncate_if (qs_limit qry) rows2))"

definition api_scores_for_agent ::
  "('t, 'sk) api_env \<Rightarrow> bytes redb_io \<Rightarrow> string \<Rightarrow> 't store \<Rightarrow> api_error + score_row list" where
  "api_scores_for_agent A io aid st = api_result (scores_for_agent (ap_tables A) (ap_postcard A) io aid st)"

record detection_query =
  qd_verdict :: "string option"
  qd_min_confidence :: "f64 option"
  qd_limit :: "nat option"

definition list_detections ::
  "('t, 'sk) api_env \<Rightarrow> bytes redb_io \<Rightarrow> detection_query \<Rightarrow> 't store \<Rightarrow> api_error + detection_row list" where
  "list_detections A io qry st =
     (case store_detections (ap_tables A) (ap_postcard A) io st of
        Inl e \<Rightarrow> Inl (internal e)
      | Inr rows \<Rightarrow>
          let rows1 = retain_if (qd_verdict qry) (\<lambda>v r. dr_verdict r = v) rows;
              rows2 = retain_if (qd_min_confidence qry) (\<lambda>m r. f64_le m (dr_confidence r)) rows1
          in Inr (truncate_if (qd_limit qry) rows2))"

definition api_detections_for_agent ::
  "('t, 'sk) api_env \<Rightarrow> bytes redb_io \<Rightarrow> string \<Rightarrow> 't store \<Rightarrow> api_error + detection_row list" where
  "api_detections_for_agent A io aid st = api_result (detections_for_agent (ap_tables A) (ap_postcard A) io aid st)"

definition DEFAULT_ALERT_LIMIT :: nat where "DEFAULT_ALERT_LIMIT = 200"

definition DEFAULT_EVENT_PAGE_SIZE :: nat where "DEFAULT_EVENT_PAGE_SIZE = 50"

definition MAX_EVENT_PAGE_SIZE :: nat where "MAX_EVENT_PAGE_SIZE = 500"

record alert_query =
  qa_severity :: "string option"
  qa_acknowledged :: "bool option"
  qa_agent_id :: "string option"
  qa_since_ns :: "u64 option"
  qa_limit :: "nat option"

definition list_alerts ::
  "('t, 'sk) api_env \<Rightarrow> bytes redb_io \<Rightarrow> alert_query \<Rightarrow> 't store \<Rightarrow> api_error + alert_row list" where
  "list_alerts A io qry st =
     (let limit = (case qa_limit qry of Some n \<Rightarrow> n | None \<Rightarrow> DEFAULT_ALERT_LIMIT)
      in case alerts_recent (ap_tables A) (ap_postcard A) io (max limit DEFAULT_ALERT_LIMIT) st of
           Inl e \<Rightarrow> Inl (internal e)
         | Inr rows \<Rightarrow>
             let rows1 = retain_if (qa_severity qry) (\<lambda>s r. ar_severity r = s) rows;
                 rows2 = retain_if (qa_acknowledged qry) (\<lambda>k r. ar_acknowledged r = k) rows1;
                 rows3 = retain_if (qa_agent_id qry) (\<lambda>a r. ar_agent_id r = a) rows2;
                 rows4 = retain_if (qa_since_ns qry) (\<lambda>t r. t \<le> ar_ts_ns r) rows3
             in Inr (take limit rows4))"

definition ack_alert ::
  "('t, 'sk) api_env \<Rightarrow> bytes redb_io \<Rightarrow> uuid \<Rightarrow> string \<Rightarrow> 't store \<Rightarrow> (api_error + nat) \<times> 't store" where
  "ack_alert A io fresh i st =
     (case acknowledge_alert (ap_tables A) (ap_postcard A) (ap_parse_uuid A) fresh io i st of
        (Inl e, st') \<Rightarrow> (Inl (internal e), st')
      | (Inr found, st') \<Rightarrow> (if found then Inr 200 else Inl (NotFound ''alert not found''), st'))"

section \<open>Handlers: events and tokens\<close>

definition api_events_for_agent ::
  "('t, 'sk) api_env \<Rightarrow> bytes redb_io \<Rightarrow> string \<Rightarrow> nat option \<Rightarrow> nat option \<Rightarrow> 't store \<Rightarrow> api_error + event_record list" where
  "api_events_for_agent A io aid page page_size st =
     (let p = (case page of Some n \<Rightarrow> n | None \<Rightarrow> 0);
          size = min (case page_size of Some n \<Rightarrow> n | None \<Rightarrow> DEFAULT_EVENT_PAGE_SIZE) MAX_EVENT_PAGE_SIZE
      in api_result (map_sum id (map (event_record_of A)) (events_for_agent (ap_tables A) (ap_postcard A) io aid p size st)))"

text \<open>Status 201 with the token, the fingerprint to pin and the creation time.\<close>

definition api_create_token ::
  "('t, 'sk) api_env \<Rightarrow> bytes redb_io \<Rightarrow> bytes \<Rightarrow> u64 \<Rightarrow> string \<Rightarrow> 't store
   \<Rightarrow> (api_error + string \<times> string \<times> u64) \<times> 't store" where
  "api_create_token A io raw now label st =
     (if MAX_TOKEN_LABEL_LEN < length label
      then (Inl (BadRequest (''label too long (max '' @ dec_str MAX_TOKEN_LABEL_LEN @ '' bytes)'')), st)
      else case create_token (ap_tables A) (ap_postcard A) (ap_crypto A) io raw now label st of
             (Inl e, st') \<Rightarrow> (Inl (Internal e), st')
           | (Inr (token, row), st') \<Rightarrow> (Inr (token, si_fingerprint (ap_info A), tk_created_at_ns row), st'))"

definition api_list_tokens :: "('t, 'sk) api_env \<Rightarrow> bytes redb_io \<Rightarrow> 't store \<Rightarrow> api_error + token_record list" where
  "api_list_tokens A io st = api_result (map_sum id (map token_record_of) (list_tokens (ap_tables A) (ap_postcard A) io st))"

definition api_revoke_token ::
  "('t, 'sk) api_env \<Rightarrow> bytes redb_io \<Rightarrow> string \<Rightarrow> 't store \<Rightarrow> (api_error + nat) \<times> 't store" where
  "api_revoke_token A io token st =
     (case revoke_token (ap_tables A) (ap_postcard A) io token st of
        (Inl e, st') \<Rightarrow> (Inl (internal e), st')
      | (Inr removed, st') \<Rightarrow> (if removed then Inr 204 else Inl (Conflict ''token is unknown or already used''), st'))"

section \<open>Live feed and headers\<close>

text \<open>What a subscriber receives next: an event, a gap, or the end.\<close>

datatype received = Got live_event | Lagged nat | ChannelClosed

text \<open>\<open>show_live\<close> is the JSON text of an event, \<open>None\<close> when it cannot be written. The frames, and whether the stream has ended.\<close>

fun sse_live :: "(live_event \<Rightarrow> string option) \<Rightarrow> received list \<Rightarrow> (string \<times> string) list \<times> bool" where
  "sse_live show_live [] = ([], False)"
| "sse_live show_live (Got l # rs) =
     (let data = (case show_live l of Some d \<Rightarrow> d | None \<Rightarrow> ''{\"kind\":\"error\"}'')
      in case sse_live show_live rs of (fs, stopped) \<Rightarrow> ((live_name l, data) # fs, stopped))"
| "sse_live show_live (Lagged n # rs) = sse_live show_live rs"
| "sse_live show_live (ChannelClosed # rs) = ([], True)"

definition security_headers :: "(string, string) btree \<Rightarrow> (string, string) btree" where
  "security_headers hs =
     bt_insert ''content-security-policy'' (''default-src 'self'; connect-src 'self'' @ [CHR 0x27])
       (bt_insert ''x-frame-options'' ''DENY'' (bt_insert ''x-content-type-options'' ''nosniff'' hs))"


section \<open>Filters, pages and errors\<close>

definition wanted_by :: "'q option \<Rightarrow> ('q \<Rightarrow> bool) \<Rightarrow> bool" where
  "wanted_by query P = (case query of None \<Rightarrow> True | Some x \<Rightarrow> P x)"

lemma retain_if_filter: "retain_if query P rows = filter (\<lambda>r. wanted_by query (\<lambda>x. P x r)) rows"
  by (cases query) (simp_all add: retain_if_def wanted_by_def)

text \<open>The alerts a query asks for.\<close>

definition alert_wanted :: "alert_query \<Rightarrow> alert_row \<Rightarrow> bool" where
  "alert_wanted qry r \<longleftrightarrow>
     wanted_by (qa_severity qry) (\<lambda>s. ar_severity r = s) \<and> wanted_by (qa_acknowledged qry) (\<lambda>k. ar_acknowledged r = k)
     \<and> wanted_by (qa_agent_id qry) (\<lambda>a. ar_agent_id r = a) \<and> wanted_by (qa_since_ns qry) (\<lambda>t. t \<le> ar_ts_ns r)"

lemma list_alerts_filter:
  "list_alerts A io qry st =
     (let limit = (case qa_limit qry of Some n \<Rightarrow> n | None \<Rightarrow> 200)
      in map_sum internal (\<lambda>rows. take limit (filter (alert_wanted qry) rows))
           (alerts_recent (ap_tables A) (ap_postcard A) io (max limit 200) st))"
proof -
  have "filter (\<lambda>r. wanted_by (qa_since_ns qry) (\<lambda>t. t \<le> ar_ts_ns r)) (filter (\<lambda>r. wanted_by (qa_agent_id qry) (\<lambda>a. ar_agent_id r = a))
      (filter (\<lambda>r. wanted_by (qa_acknowledged qry) (\<lambda>k. ar_acknowledged r = k))
        (filter (\<lambda>r. wanted_by (qa_severity qry) (\<lambda>s. ar_severity r = s)) rows))) = filter (alert_wanted qry) rows" for rows
    unfolding filter_filter by (rule filter_cong) (auto simp: alert_wanted_def)
  then show ?thesis
    by (simp add: list_alerts_def retain_if_filter DEFAULT_ALERT_LIMIT_def Let_def split: sum.splits option.splits)
qed

lemma lookup_events_length: "lookup_events T c io t ks = Inr rs \<Longrightarrow> length rs \<le> length ks"
  by (induction ks arbitrary: rs) (auto split: sum.splits option.splits intro: le_SucI)

lemma events_for_agent_length:
  assumes "events_for_agent T P io aid page n st = Inr rows"
  shows "length rows \<le> n"
  using assms by (auto simp: events_for_agent_def Let_def split: if_splits sum.splits option.splits dest!: lookup_events_length)

text \<open>An operator's alert query is answered from the newest alerts: of the newest alerts, as many as the limit but
  at least 200, those that satisfy every given condition, newest first, cut to the limit, 200 when none is given; and a page of
  events never has more than 500 entries, whatever size is asked for and whatever the database does.\<close>

theorem api_listings:
  assumes "datastore (ap_tables A) (ap_postcard A)" and "alerts_ok (ap_tables A) (ap_postcard A) st" and "io_good io"
  shows "(\<exists>feed. length feed = length (trows (ap_tables A) (t_alerts st))
      \<and> sorted (map (\<lambda>r. unat (ar_ts_ns r)) (rev feed))
      \<and> (\<forall>qry. let limit = (case qa_limit qry of Some n \<Rightarrow> n | None \<Rightarrow> 200) in
            list_alerts A io qry st = Inr (take limit (filter (alert_wanted qry) (take (max limit 200) feed)))))
    \<and> (case api_events_for_agent A io2 aid page page_size st of Inl e \<Rightarrow> api_status e = 500 | Inr rows \<Rightarrow> length rows \<le> 500)"
proof -
  let ?feed = "rev (map (\<lambda>(k, v). the (dec (pc_alert (ap_postcard A)) v)) (trows (ap_tables A) (t_alerts st)))"
  have "list_alerts A io qry st
      = (let limit = (case qa_limit qry of Some n \<Rightarrow> n | None \<Rightarrow> 200) in Inr (take limit (filter (alert_wanted qry) (take (max limit 200) ?feed))))"
    for qry by (simp add: list_alerts_filter datastore.alerts_recent_good [OF assms] Let_def)
  moreover have "sorted (map (\<lambda>r. unat (ar_ts_ns r)) (rev ?feed))"
    using datastore.alerts_time_sorted [OF assms(1,2)] by (simp add: o_def case_prod_unfold)
  moreover have "case api_events_for_agent A io2 aid page page_size st of Inl e \<Rightarrow> api_status e = 500 | Inr rows \<Rightarrow> length rows \<le> 500"
  proof -
    define p where "p = (case page of Some n \<Rightarrow> n | None \<Rightarrow> 0)"
    define size where "size = min (case page_size of Some n \<Rightarrow> n | None \<Rightarrow> DEFAULT_EVENT_PAGE_SIZE) MAX_EVENT_PAGE_SIZE"
    have "size \<le> 500" by (simp add: size_def MAX_EVENT_PAGE_SIZE_def)
    then show ?thesis
      using events_for_agent_length [of "ap_tables A" "ap_postcard A" io2 aid p size st]
      by (cases "events_for_agent (ap_tables A) (ap_postcard A) io2 aid p size st")
        (auto simp: api_events_for_agent_def api_result_def Let_def simp flip: p_def size_def)
  qed
  ultimately show ?thesis by (auto simp: Let_def intro!: exI [of _ ?feed])
qed

definition demo_api :: "((bytes, bytes) rbt, 256 word) api_env" where
  "demo_api =
     \<lparr>ap_tables = rbt_table, ap_postcard = sk_postcard demo_sink, ap_crypto = toy_crypto, ap_parse_uuid = (\<lambda>_. None),
      ap_uuid_text = bytes_str, ap_parse_json = (\<lambda>_. None), ap_info = \<lparr>si_fingerprint = ''aa'', si_proto_version = 1\<rparr>\<rparr>"

lemma api_listings_witness:
  "list_alerts demo_api io_fine \<lparr>qa_severity = None, qa_acknowledged = None, qa_agent_id = None, qa_since_ns = None, qa_limit = Some 3\<rparr>
     demo_empty = Inr []"
proof -
  have d: "datastore (ap_tables demo_api) (ap_postcard demo_api)" by (simp add: demo_api_def demo_sink_def rbt_datastore)
  have a: "alerts_ok (ap_tables demo_api) (ap_postcard demo_api) demo_empty"
    by (simp add: alerts_ok_def demo_api_def demo_empty_def rbt.rows_empty)
  have "trows (ap_tables demo_api) (t_alerts demo_empty) = []" by (simp add: demo_api_def demo_empty_def rbt.rows_empty)
  then obtain feed where "feed = []" "\<forall>qry. let limit = (case qa_limit qry of Some n \<Rightarrow> n | None \<Rightarrow> 200) in
            list_alerts demo_api io_fine qry demo_empty = Inr (take limit (filter (alert_wanted qry) (take (max limit 200) feed)))"
    using api_listings [OF d a io_good_fine, THEN conjunct1] by auto
  then show ?thesis by (simp add: Let_def)
qed

section \<open>Writes through the API\<close>

lemma acknowledge_error: "acknowledge_alert T P pu fresh io i st = (Inl e, st') \<Longrightarrow> st' = st"
  by (auto simp: acknowledge_alert_def split: if_splits sum.splits option.splits)

lemma create_token_error: "create_token T P C io raw now label st = (Inl e, st') \<Longrightarrow> st' = st"
  by (auto simp: create_token_def insert_token_def Let_def split: if_splits prod.splits sum.splits)

lemma revoke_token_err: "revoke_token T P io token st = (Inl e, st') \<Longrightarrow> st' = st"
  by (auto simp: revoke_token_def revoke_token_if_unused_def Let_def split: if_splits sum.splits)


text \<open>C15: The token endpoints do what their status says: a creation answers 400 to a label of more than 256 bytes,
  and otherwise, unless the store fails (500), returns a token that is then stored unused with that label; a revocation answers 204
  exactly for a token that was stored and unused, which is then gone, and 409 for one that is unknown or used; and
  whenever the answer is an error, no token has changed.\<close>

theorem api_tokens:
  assumes "datastore (ap_tables A) (ap_postcard A)"
    and "toks = (\<lambda>s. tbl (ap_tables A) (pc_token (ap_postcard A)) (t_tokens s))"
    and "api_create_token A io raw now label st = (r, st1)" and "api_revoke_token A io2 token st = (r2, st2)"
  shows "(case r of
      Inr (t, fp, ts) \<Rightarrow> length label \<le> 256 \<and> fp = si_fingerprint (ap_info A) \<and> ts = now
        \<and> toks st1 = (toks st)(str_bytes t \<mapsto> \<lparr>tk_created_at_ns = now, tk_label = label, tk_used = False\<rparr>)
    | Inl e \<Rightarrow> st1 = st \<and> api_status e = (if 256 < length label then 400 else 500))
  \<and> (case r2 of
      Inr n \<Rightarrow> n = 204 \<and> (\<exists>row. toks st (str_bytes token) = Some row \<and> \<not> tk_used row)
        \<and> toks st2 = (toks st)(str_bytes token := None)
    | Inl e \<Rightarrow> toks st2 = toks st \<and> (api_status e = 500
        \<or> api_status e = 409 \<and> (case toks st (str_bytes token) of None \<Rightarrow> True | Some row \<Rightarrow> tk_used row)))"
proof (rule conjI)
  show "case r of
      Inr (t, fp, ts) \<Rightarrow> length label \<le> 256 \<and> fp = si_fingerprint (ap_info A) \<and> ts = now
        \<and> toks st1 = (toks st)(str_bytes t \<mapsto> \<lparr>tk_created_at_ns = now, tk_label = label, tk_used = False\<rparr>)
    | Inl e \<Rightarrow> st1 = st \<and> api_status e = (if 256 < length label then 400 else 500)"
  proof (cases "256 < length label")
    case True
    then show ?thesis using assms(3) by (auto simp: api_create_token_def MAX_TOKEN_LABEL_LEN_def)
  next
    case False
    obtain c st' where c: "create_token (ap_tables A) (ap_postcard A) (ap_crypto A) io raw now label st = (c, st')" by fastforce
    then have r: "r = (case c of Inl e \<Rightarrow> Inl (Internal e) | Inr (t, row) \<Rightarrow> Inr (t, si_fingerprint (ap_info A), tk_created_at_ns row))"
      "st1 = st'" using assms(3) False by (auto simp: api_create_token_def MAX_TOKEN_LABEL_LEN_def split: sum.splits)
    show ?thesis
    proof (cases c)
      case (Inl e)
      then show ?thesis using r c create_token_error False by force
    next
      case (Inr p)
      then obtain t row where p: "c = Inr (t, row)" by (cases p) auto
      then have "insert_token (ap_tables A) (ap_postcard A) io t row st = (Inr (), st')"
        "row = \<lparr>tk_created_at_ns = now, tk_label = label, tk_used = False\<rparr>"
        using c False by (auto simp: create_token_def MAX_TOKEN_LABEL_LEN_def Let_def split: prod.splits sum.splits)
      then show ?thesis using r p False datastore.insert_token_Inr [OF assms(1)] by (auto simp: assms(2))
    qed
  qed
next
  obtain c st' where c: "revoke_token_if_unused (ap_tables A) (ap_postcard A) io2 token st = (c, st')" by fastforce
  then have r: "r2 = (case c of Inl e \<Rightarrow> Inl (internal e) | Inr b \<Rightarrow> if b then Inr 204 else Inl (Conflict ''token is unknown or already used''))"
    "st2 = st'" using assms(4) by (auto simp: api_revoke_token_def revoke_token_def split: sum.splits)
  show "case r2 of
      Inr n \<Rightarrow> n = 204 \<and> (\<exists>row. toks st (str_bytes token) = Some row \<and> \<not> tk_used row)
        \<and> toks st2 = (toks st)(str_bytes token := None)
    | Inl e \<Rightarrow> toks st2 = toks st \<and> (api_status e = 500
        \<or> api_status e = 409 \<and> (case toks st (str_bytes token) of None \<Rightarrow> True | Some row \<Rightarrow> tk_used row))"
  proof (cases c)
    case (Inl e)
    then show ?thesis using r c datastore.revoke_token_error [OF assms(1)] by force
  next
    case (Inr b)
    from datastore.revoke_token_Inr [OF assms(1) c [unfolded Inr]] show ?thesis
      using r Inr by (cases b) (auto simp: assms(2) split: option.splits)
  qed
qed

lemma api_tokens_witness:
  "\<exists>r2 st2. api_revoke_token demo_api io_fine ''t'' demo_empty = (r2, st2) \<and> r2 = Inl (Conflict ''token is unknown or already used'')
     \<and> tbl rbt_table (pc_token (ap_postcard demo_api)) (t_tokens st2) = tbl rbt_table (pc_token (ap_postcard demo_api)) (t_tokens demo_empty)"
proof -
  have d: "datastore (ap_tables demo_api) (ap_postcard demo_api)" by (simp add: demo_api_def demo_sink_def rbt_datastore)
  obtain r st1 where c: "api_create_token demo_api io_fine [] 0 [] demo_empty = (r, st1)" by fastforce
  obtain r2 st2 where v: "api_revoke_token demo_api io_fine ''t'' demo_empty = (r2, st2)" by fastforce
  then have "r2 = Inl (Conflict ''token is unknown or already used'')"
    by (simp add: api_revoke_token_def revoke_token_def revoke_token_if_unused_def demo_api_def demo_sink_simps)
  then show ?thesis using api_tokens [OF d refl c v] v by (simp add: demo_api_def demo_sink_def)
qed

end
