(* ===== verification/Scoring.thy ===== *)
theory Scoring
  imports F64 Text
begin

text \<open>
  Risk aggregation (\<^verbatim>\<open>plugins/plugin-scoring/src/lib.rs\<close>): a decaying risk score per subject, fed by
  detections and process executions, with an alert at the threshold. The hash map of scores is an
  ordered map here, since no code iterates over it. The decimal constants are the binary64 numbers nearest to
  them. What \<^verbatim>\<open>format!("{:.1}")\<close> prints is the parameter \<open>show1\<close>; ids and clock readings of the
  emitted events are arguments.
\<close>

section \<open>Configuration and state\<close>

record scoring_config =
  sg_agent_weight :: f64
  sg_process_weight :: f64
  sg_decay :: f64
  sg_threshold :: f64
  sg_uncertain_weight :: f64
  sg_uncertain_min :: f64

text \<open>The literals 0.98 and 0.01.\<close>

definition lit_098 :: real where "lit_098 = 2206763817411543 / 2251799813685248"

definition lit_001 :: real where "lit_001 = 5764607523034235 / 576460752303423488"

definition scoring_default :: scoring_config where
  "scoring_default =
     \<lparr>sg_agent_weight = Fin 60, sg_process_weight = Fin 5, sg_decay = Fin lit_098, sg_threshold = Fin 75,
      sg_uncertain_weight = Fin 6, sg_uncertain_min = Fin (1 / 2)\<rparr>"

definition NEGLIGIBLE_SCORE :: f64 where "NEGLIGIBLE_SCORE = Fin lit_001"

type_synonym risk_state = "(string, f64) btree"

definition risk_get :: "string \<Rightarrow> risk_state \<Rightarrow> f64" where
  "risk_get subject st = (case map_of st subject of None \<Rightarrow> Fin 0 | Some v \<Rightarrow> v)"

definition bumped :: "rounding \<Rightarrow> f64 \<Rightarrow> f64 \<Rightarrow> f64 \<Rightarrow> f64" where
  "bumped rnd entry delta decay = f64_clamp (Fin 0) (Fin 100) (f64_add rnd (f64_mul rnd entry decay) delta)"

definition bump :: "rounding \<Rightarrow> string \<Rightarrow> f64 \<Rightarrow> f64 \<Rightarrow> risk_state \<Rightarrow> f64 \<times> risk_state" where
  "bump rnd subject delta decay st =
     (let new_score = bumped rnd (risk_get subject st) delta decay;
          st1 = bt_insert subject new_score st
      in (new_score, if f64_le new_score NEGLIGIBLE_SCORE then bt_remove subject st1 else st1))"

definition risk_remove :: "string \<Rightarrow> risk_state \<Rightarrow> risk_state" where
  "risk_remove subject st = bt_remove subject st"

section \<open>The plugin\<close>

definition scoring_subscriptions :: subscriptions where
  "scoring_subscriptions = subscription_kinds [''detection'', ''process.exec'', ''session.end'']"

text \<open>The check in \<^verbatim>\<open>init\<close>, on the configuration that was read.\<close>

definition scoring_init :: "scoring_config \<Rightarrow> scoring_config option" where
  "scoring_init cfg =
     (if f64_lt (Fin 0) (sg_decay cfg) \<and> f64_le (sg_decay cfg) (Fin 1) then Some cfg else None)"

definition WATCH :: "string list" where
  "WATCH = [''nc'', ''ncat'', ''socat'', ''nmap'', ''tcpdump'', ''scp'', ''rsync'', ''curl'', ''wget'', ''base64'',
            ''openssl'', ''gpg'']"

definition is_suspicious_exe :: "string \<Rightarrow> bool" where
  "is_suspicious_exe exe =
     (let base = (case rsplit_once (CHR ''/'') exe of None \<Rightarrow> exe | Some (_, b) \<Rightarrow> b) in list_ex (\<lambda>w. w = base) WATCH)"

definition severity_for :: "f64 \<Rightarrow> severity" where
  "severity_for score =
     (if f64_le (Fin 90) score then Critical else if f64_le (Fin 75) score then High else Medium)"

text \<open>The subject, the risk added, and the signal a detection carried.\<close>

fun risk_input :: "rounding \<Rightarrow> scoring_config \<Rightarrow> event_payload \<Rightarrow> (string \<times> f64 \<times> (f64 \<times> f64) option) option" where
  "risk_input rnd cfg (Detection subject v confidence _ _ _) =
     (case v of
        Agent \<Rightarrow> Some (subject, f64_mul rnd (sg_agent_weight cfg) confidence, Some (confidence, Fin 1))
      | Uncertain \<Rightarrow>
          if f64_le (sg_uncertain_min cfg) confidence
          then Some (subject, f64_mul rnd (sg_uncertain_weight cfg) confidence, Some (confidence, Fin (1 / 2)))
          else None
      | Human \<Rightarrow> None)"
| "risk_input rnd cfg (ProcessExec _ _ uid exe _ _) =
     Some (''uid:'' @ dec_str (unat uid),
           if is_suspicious_exe exe then f64_mul rnd (sg_process_weight cfg) (Fin 3) else sg_process_weight cfg, None)"
| "risk_input rnd cfg _ = None"

definition score_features :: "f64 \<Rightarrow> f64 \<Rightarrow> f64 \<Rightarrow> (f64 \<times> f64) option \<Rightarrow> (string, f64) btree" where
  "score_features new_score delta decay signal =
     (let base = bt_collect [(''risk_score'', new_score), (''delta'', delta), (''decay'', decay)]
      in case signal of
           None \<Rightarrow> base
         | Some (confidence, agentness) \<Rightarrow>
             bt_insert ''verdict_agentness'' agentness (bt_insert ''source_confidence'' confidence base))"

record scoring_env =
  sv_rnd :: rounding
  sv_cfg :: scoring_config
  sv_agent :: string
  sv_show1 :: "f64 \<Rightarrow> string"

definition score_events ::
  "scoring_env \<Rightarrow> (uuid \<times> u64) \<Rightarrow> (uuid \<times> u64) \<Rightarrow> string \<Rightarrow> f64 \<Rightarrow> (f64 \<times> f64) option \<Rightarrow> f64 \<Rightarrow> event list" where
  "score_events S s1 s2 subject delta signal new_score =
     event_new (fst s1) (snd s1) (sv_agent S) ''plugin-scoring''
       (Score subject ''risk-aggregator/v1'' new_score (score_features new_score delta (sg_decay (sv_cfg S)) signal))
     # (if f64_le (sg_threshold (sv_cfg S)) new_score
        then [event_new (fst s2) (snd s2) (sv_agent S) ''plugin-scoring''
                (Alert (severity_for new_score) ''Elevated insider-threat risk''
                   (''subject '' @ subject @ '' reached risk score '' @ sv_show1 S new_score) (Some subject))]
        else [])"

definition scoring_handle ::
  "scoring_env \<Rightarrow> (uuid \<times> u64) \<Rightarrow> (uuid \<times> u64) \<Rightarrow> event_payload \<Rightarrow> risk_state \<Rightarrow> event list \<times> risk_state" where
  "scoring_handle S s1 s2 p st =
     (case p of
        SessionEnd session_id \<Rightarrow> ([], risk_remove session_id st)
      | _ \<Rightarrow>
          (case risk_input (sv_rnd S) (sv_cfg S) p of
             None \<Rightarrow> ([], st)
           | Some (subject, delta, signal) \<Rightarrow>
               (case bump (sv_rnd S) subject delta (sg_decay (sv_cfg S)) st of
                  (new_score, st') \<Rightarrow> (score_events S s1 s2 subject delta signal new_score, st'))))"

text \<open>A sequence of events with the ids and clock readings drawn for each.\<close>

type_synonym stamped = "(uuid \<times> u64) \<times> (uuid \<times> u64) \<times> event_payload"

fun scoring_run :: "scoring_env \<Rightarrow> stamped list \<Rightarrow> risk_state \<Rightarrow> event list \<times> risk_state" where
  "scoring_run S [] st = ([], st)"
| "scoring_run S ((s1, s2, p) # ps) st =
     (case scoring_handle S s1 s2 p st of (evs1, st1) \<Rightarrow> case scoring_run S ps st1 of (evs2, st2) \<Rightarrow> (evs1 @ evs2, st2))"

section \<open>One subject's risk\<close>

text \<open>What one event does to the risk of one subject, forgetting a negligible one.\<close>

definition settle :: "f64 \<Rightarrow> f64" where
  "settle x = (if f64_le x NEGLIGIBLE_SCORE then Fin 0 else x)"

definition risk_effect :: "rounding \<Rightarrow> scoring_config \<Rightarrow> string \<Rightarrow> event_payload \<Rightarrow> f64 \<Rightarrow> f64" where
  "risk_effect rnd cfg subject p r =
     (case p of
        SessionEnd session_id \<Rightarrow> if session_id = subject then Fin 0 else r
      | _ \<Rightarrow> (case risk_input rnd cfg p of
                Some (s, delta, _) \<Rightarrow> if s = subject then settle (bumped rnd r delta (sg_decay cfg)) else r
              | None \<Rightarrow> r))"

lemma risk_get_bump:
  "bt_ok st \<Longrightarrow> risk_get s (snd (bump rnd subject delta decay st))
     = (if s = subject then settle (bumped rnd (risk_get subject st) delta decay) else risk_get s st)"
  by (simp add: bump_def risk_get_def settle_def Let_def bt)

lemma risk_get_remove: "risk_get s (risk_remove i st) = (if i = s then Fin 0 else risk_get s st)"
  by (simp add: risk_remove_def risk_get_def bt)

lemma bt_ok_bump: "bt_ok st \<Longrightarrow> bt_ok (snd (bump rnd subject delta decay st))"
  by (simp add: bump_def Let_def bt)

text \<open>The three things an event can be to the plugin.\<close>

lemma scoring_handle_simps:
  "scoring_handle S s1 s2 (SessionEnd i) st = ([], risk_remove i st)"
  "risk_input (sv_rnd S) (sv_cfg S) p = None \<Longrightarrow> \<forall>i. p \<noteq> SessionEnd i \<Longrightarrow> scoring_handle S s1 s2 p st = ([], st)"
  "risk_input (sv_rnd S) (sv_cfg S) p = Some (subject, delta, signal) \<Longrightarrow>
     scoring_handle S s1 s2 p st
       = (score_events S s1 s2 subject delta signal (fst (bump (sv_rnd S) subject delta (sg_decay (sv_cfg S)) st)),
          snd (bump (sv_rnd S) subject delta (sg_decay (sv_cfg S)) st))"
  by (cases p; simp add: scoring_handle_def split: prod.split)+

lemma risk_effect_simps:
  "risk_effect rnd cfg s (SessionEnd i) r = (if i = s then Fin 0 else r)"
  "risk_input rnd cfg p = None \<Longrightarrow> \<forall>i. p \<noteq> SessionEnd i \<Longrightarrow> risk_effect rnd cfg s p r = r"
  "risk_input rnd cfg p = Some (s', delta, signal) \<Longrightarrow>
     risk_effect rnd cfg s p r = (if s' = s then settle (bumped rnd r delta (sg_decay cfg)) else r)"
  by (cases p; simp add: risk_effect_def)+

lemma payload_cases:
  obtains (ended) i where "p = SessionEnd i"
    | (ignored) "risk_input rnd cfg p = None" "\<forall>i. p \<noteq> SessionEnd i"
    | (counted) subject delta signal where "risk_input rnd cfg p = Some (subject, delta, signal)"
  by (cases "\<exists>i. p = SessionEnd i"; cases "risk_input rnd cfg p") auto

lemma bt_ok_scoring_handle: "bt_ok st \<Longrightarrow> bt_ok (snd (scoring_handle S s1 s2 p st))"
  by (cases p rule: payload_cases [where rnd = "sv_rnd S" and cfg = "sv_cfg S"])
    (simp_all add: scoring_handle_simps bt_ok_bump risk_remove_def bt)

lemma risk_get_handle:
  "bt_ok st \<Longrightarrow> risk_get s (snd (scoring_handle S s1 s2 p st)) = risk_effect (sv_rnd S) (sv_cfg S) s p (risk_get s st)"
  by (cases p rule: payload_cases [where rnd = "sv_rnd S" and cfg = "sv_cfg S"])
    (simp_all add: scoring_handle_simps risk_effect_simps risk_get_bump risk_get_remove)

lemma risk_get_run:
  "bt_ok st \<Longrightarrow> risk_get s (snd (scoring_run S ps st))
     = fold (risk_effect (sv_rnd S) (sv_cfg S) s) (map (snd \<circ> snd) ps) (risk_get s st)"
proof (induction ps arbitrary: st)
  case (Cons x ps)
  obtain s1 s2 p where x: "x = (s1, s2, p)" by (cases x)
  obtain evs1 st1 where h: "scoring_handle S s1 s2 p st = (evs1, st1)" by fastforce
  have "bt_ok st1" and g: "risk_get s st1 = risk_effect (sv_rnd S) (sv_cfg S) s p (risk_get s st)"
    using bt_ok_scoring_handle [OF Cons.prems, of S s1 s2 p] risk_get_handle [OF Cons.prems, of s S s1 s2 p] h by simp_all
  then show ?case using Cons.IH [of st1] x h by (simp split: prod.split) (metis snd_conv)
qed simp


text \<open>C13: Risk is kept per subject: after any sequence of events, the score held for a subject is what
  the detections, process executions and session end of that subject alone make of it, in order; events about other
  subjects, and dropping negligible entries from the map, have no effect on it.\<close>

theorem risk_per_subject:
  "risk_get s (snd (scoring_run S ps []))
     = fold (risk_effect (sv_rnd S) (sv_cfg S) s)
         (filter (\<lambda>p. p = SessionEnd s \<or> (\<exists>delta signal. risk_input (sv_rnd S) (sv_cfg S) p = Some (s, delta, signal)))
            (map (\<lambda>(s1, s2, p). p) ps)) (Fin 0)"
proof -
  have skip: "risk_effect (sv_rnd S) (sv_cfg S) s p r = r"
    if "p \<noteq> SessionEnd s" "\<nexists>delta signal. risk_input (sv_rnd S) (sv_cfg S) p = Some (s, delta, signal)" for p r
    using that by (cases p rule: payload_cases [where rnd = "sv_rnd S" and cfg = "sv_cfg S"]) (auto simp: risk_effect_simps)
  have "fold (risk_effect (sv_rnd S) (sv_cfg S) s) xs r = fold (risk_effect (sv_rnd S) (sv_cfg S) s)
      (filter (\<lambda>p. p = SessionEnd s \<or> (\<exists>delta signal. risk_input (sv_rnd S) (sv_cfg S) p = Some (s, delta, signal))) xs) r"
    for xs r
    by (induction xs arbitrary: r) (auto simp: skip)
  moreover have m: "map (snd \<circ> snd) ps = map (\<lambda>(s1, s2, p). p) ps" by auto
  ultimately show ?thesis using risk_get_run [of "[]" s S ps] unfolding m by (simp add: risk_get_def)
qed

section \<open>Scores stay in range\<close>

definition finite_confidence :: "event_payload \<Rightarrow> bool" where
  "finite_confidence p \<longleftrightarrow> (case p of Detection _ _ c _ _ _ \<Rightarrow> c \<in> range Fin | _ \<Rightarrow> True)"

definition config_finite :: "scoring_config \<Rightarrow> bool" where
  "config_finite cfg \<longleftrightarrow> {sg_agent_weight cfg, sg_process_weight cfg, sg_uncertain_weight cfg} \<subseteq> range Fin"

definition risk_ok :: "risk_state \<Rightarrow> bool" where
  "risk_ok st \<longleftrightarrow> bt_ok st \<and> (\<forall>(s, v) \<in> set st. \<exists>x. v = Fin x \<and> lit_001 < x \<and> x \<le> 100)"

lemma risk_input_not_nan:
  assumes "rounding_ok rnd X" and "config_finite cfg" and "finite_confidence p"
    and "risk_input rnd cfg p = Some (s, delta, signal)"
  shows "delta \<noteq> NaN"
  using assms by (cases p) (auto simp: config_finite_def finite_confidence_def rounding_ok_def split: verdict.splits if_splits)

lemma risk_get_ok: "risk_ok st \<Longrightarrow> \<exists>x. risk_get s st = Fin x \<and> 0 \<le> x \<and> x \<le> 100"
proof (cases "map_of st s")
  case (Some v)
  assume "risk_ok st"
  then have "\<exists>x. v = Fin x \<and> lit_001 < x \<and> x \<le> 100" using map_of_SomeD [OF Some] by (auto simp: risk_ok_def)
  then show ?thesis using Some by (auto simp: risk_get_def lit_001_def)
qed (simp add: risk_get_def)

lemma scale_in_range:
  assumes "rounding_ok rnd X" and "{0, 100} \<subseteq> X" and "0 \<le> x" "x \<le> 100" and "0 \<le> d" "d \<le> 1"
  shows "\<exists>y. rnd (x * d) = Fin y \<and> 0 \<le> y \<and> y \<le> 100"
proof -
  have "0 \<le> x * d" "x * d \<le> 100" using assms(3-6) mult_mono [of x 100 d 1] by auto
  then have "f64_le (Fin 0) (rnd (x * d))" "f64_le (rnd (x * d)) (Fin 100)"
    using rounding_okD(1) [OF assms(1), of 0 "x * d"] rounding_okD(1) [OF assms(1), of "x * d" 100]
      rounding_okD(3) [OF assms(1)] assms(2) by (auto simp: subset_iff)
  then show ?thesis by (cases "rnd (x * d)") auto
qed

lemma bumped_range:
  assumes "rounding_ok rnd X" and "{0, 100} \<subseteq> X" and "0 \<le> x" "x \<le> 100" and "0 \<le> d" "d \<le> 1" and "delta \<noteq> NaN"
  shows "\<exists>y. bumped rnd (Fin x) delta (Fin d) = Fin y \<and> 0 \<le> y \<and> y \<le> 100"
proof -
  obtain y where y: "rnd (x * d) = Fin y" using scale_in_range [OF assms(1-6)] by blast
  have "f64_add rnd (Fin y) delta \<noteq> NaN" using assms(7) rounding_okD(2) [OF assms(1)] by (cases delta) auto
  then show ?thesis using f64_clamp_range [of _ 0 100] y by (simp add: bumped_def)
qed

lemma risk_ok_put:
  assumes "risk_ok st" and "0 \<le> y" "y \<le> 100"
  shows "risk_ok (if f64_le (Fin y) NEGLIGIBLE_SCORE then bt_remove s (bt_insert s (Fin y) st) else bt_insert s (Fin y) st)"
proof (cases "y \<le> lit_001")
  case True
  have "set (bt_remove s (bt_insert s (Fin y) st)) \<subseteq> set st"
    using set_bt_insert_subset [of s "Fin y" st] by (auto simp: bt_remove_def)
  then show ?thesis using True assms by (auto simp: risk_ok_def NEGLIGIBLE_SCORE_def bt)
next
  case False
  then show ?thesis using assms set_bt_insert_subset [of s "Fin y" st]
    by (fastforce simp: risk_ok_def NEGLIGIBLE_SCORE_def bt)
qed

lemma bump_ok:
  assumes "rounding_ok rnd X" and "{0, 100} \<subseteq> X" and "risk_ok st" and "0 \<le> d" "d \<le> 1" and "delta \<noteq> NaN"
  shows "risk_ok (snd (bump rnd s delta (Fin d) st)) \<and> (\<exists>y. fst (bump rnd s delta (Fin d) st) = Fin y \<and> 0 \<le> y \<and> y \<le> 100)"
proof -
  obtain x where x: "risk_get s st = Fin x" "0 \<le> x" "x \<le> 100" using risk_get_ok [OF assms(3)] by blast
  obtain y where y: "bumped rnd (Fin x) delta (Fin d) = Fin y" "0 \<le> y" "y \<le> 100"
    using bumped_range [OF assms(1,2) x(2,3) assms(4,5,6)] by blast
  show ?thesis using risk_ok_put [OF assms(3) y(2,3), of s] x y by (simp add: bump_def Let_def)
qed

definition score_reports :: "f64 \<Rightarrow> event list \<Rightarrow> bool" where
  "score_reports threshold evs \<longleftrightarrow>
     evs = [] \<or> (\<exists>s m y fs. 0 \<le> y \<and> y \<le> 100 \<and> payload (hd evs) = Score s m (Fin y) fs
       \<and> (if f64_le threshold (Fin y)
          then \<exists>t d. map payload (tl evs) = [Alert (if 90 \<le> y then Critical else if 75 \<le> y then High else Medium) t d (Some s)]
          else tl evs = []))"

lemma scoring_handle_ok:
  assumes "rounding_ok (sv_rnd S) X" and "{0, 100} \<subseteq> X" and "config_finite (sv_cfg S)"
    and "scoring_init (sv_cfg S) \<noteq> None" and "finite_confidence p" and "risk_ok st"
  shows "risk_ok (snd (scoring_handle S s1 s2 p st)) \<and> score_reports (sg_threshold (sv_cfg S)) (fst (scoring_handle S s1 s2 p st))"
proof (cases p rule: payload_cases [where rnd = "sv_rnd S" and cfg = "sv_cfg S"])
  case (counted subject delta signal)
  obtain d where d: "sg_decay (sv_cfg S) = Fin d" "0 \<le> d" "d \<le> 1"
    using assms(4) by (cases "sg_decay (sv_cfg S)") (auto simp: scoring_init_def f64_lt_def split: if_splits)
  have "delta \<noteq> NaN" using risk_input_not_nan [OF assms(1,3,5) counted] .
  note b = bump_ok [OF assms(1,2,6) d(2,3) this, of subject]
  then obtain y where "fst (bump (sv_rnd S) subject delta (Fin d) st) = Fin y" "0 \<le> y" "y \<le> 100" by blast
  then show ?thesis using b d(1)
    by (simp add: scoring_handle_simps(3) [OF counted] score_reports_def score_events_def event_new_def severity_for_def)
qed (use assms(6) in \<open>auto simp: scoring_handle_simps risk_ok_def score_reports_def risk_remove_def bt_remove_def bt\<close>)

lemma scoring_run_ok:
  assumes "rounding_ok (sv_rnd S) X" and "{0, 100} \<subseteq> X" and "config_finite (sv_cfg S)"
    and "scoring_init (sv_cfg S) \<noteq> None" and "\<forall>x \<in> set ps. finite_confidence (snd (snd x))"
  shows "risk_ok (snd (scoring_run S ps []))"
proof -
  have "risk_ok st \<Longrightarrow> risk_ok (snd (scoring_run S ps st))" for st
    using assms(5)
  proof (induction ps arbitrary: st)
    case (Cons x ps)
    obtain a b p' where x: "x = (a, b, p')" by (cases x)
    have "risk_ok (snd (scoring_handle S a b p' st))"
      using scoring_handle_ok [OF assms(1-4) _ Cons.prems(1)] Cons.prems(2) x by auto
    then show ?case using Cons.IH Cons.prems x by (auto split: prod.split) (metis snd_conv)
  qed simp
  moreover have "risk_ok []" by (simp add: risk_ok_def)
  ultimately show ?thesis by blast
qed




section \<open>Camping in the dead band\<close>

definition quarters :: "real set" where
  "quarters = (\<lambda>k. real k / 4) ` {..400}"

text \<open>A lower bound of the score after one more report, in quarters.\<close>

definition camp_step :: "nat \<Rightarrow> nat" where
  "camp_step k = min 303 (979 * k div 1000 + 12)"

lemma quarters_mem: "k \<le> 400 \<Longrightarrow> real k / 4 \<in> quarters"
  by (simp add: quarters_def)

lemma camp_step_303 [simp]: "(camp_step ^^ n) 303 = 303"
  by (induction n) (simp_all add: camp_step_def)

lemma camp_step_le: "camp_step k \<le> 303"
  by (simp add: camp_step_def)

lemma camp_unroll: "(camp_step ^^ numeral n) 0 = camp_step ((camp_step ^^ pred_numeral n) 0)"
  by (simp add: numeral_eq_Suc)

lemma camp_numerals: "camp_step 0 = 12" "camp_step (numeral n) = min 303 (979 * numeral n div 1000 + 12)"
  by (simp_all add: camp_step_def)

lemma camp_steps:
  assumes "38 \<le> n"
  shows "(camp_step ^^ n) 0 = 303"
proof -
  have base: "(camp_step ^^ 38) 0 = 303" by (simp add: camp_unroll camp_numerals)
  obtain m where "n = m + 38" using assms by (metis add.commute le_Suc_ex)
  then have "(camp_step ^^ n) 0 = (camp_step ^^ m) ((camp_step ^^ 38) 0)" by (simp only: funpow_add o_apply)
  then show ?thesis by (simp only: base camp_step_303)
qed

lemma uncertain_delta:
  assumes "rounding_ok rnd X" and "quarters \<subseteq> X" and "1 / 2 \<le> c" "c \<le> 1"
  shows "\<exists>e. f64_mul rnd (Fin 6) (Fin c) = Fin e \<and> 3 \<le> e \<and> e \<le> 6"
proof -
  have "real 12 / 4 \<in> X" "real 24 / 4 \<in> X" using quarters_mem [of 12] quarters_mem [of 24] assms(2) by auto
  then have "rnd 3 = Fin 3" "rnd 6 = Fin 6" using rounding_okD(3) [OF assms(1)] by auto
  then have "f64_le (Fin 3) (rnd (6 * c))" "f64_le (rnd (6 * c)) (Fin 6)"
    using rounding_okD(1) [OF assms(1), of 3 "6 * c"] rounding_okD(1) [OF assms(1), of "6 * c" 6] assms(3,4) by auto
  then show ?thesis by (cases "rnd (6 * c)") auto
qed

lemma bumped_camp:
  assumes "rounding_ok rnd X" and "quarters \<subseteq> X" and "k \<le> 303" and "real k / 4 \<le> x" "x \<le> 100" and "3 \<le> e" "e \<le> 6"
  shows "\<exists>y. bumped rnd (Fin x) (Fin e) (Fin lit_098) = Fin y \<and> real (camp_step k) / 4 \<le> y"
proof -
  let ?m = "979 * k div 1000"
  have X: "{0, 100} \<subseteq> X" "real ?m / 4 \<in> X" "real (?m + 12) / 4 \<in> X"
    using quarters_mem [of 0] quarters_mem [of 400] quarters_mem [of ?m] quarters_mem [of "?m + 12"] assms(2,3) by auto
  have d: "979 / 1000 \<le> lit_098" "lit_098 \<le> 1" by (simp_all add: lit_098_def)
  have "real ?m \<le> 979 * real k / 1000"
    using div_times_less_eq_dividend [of "979 * k" 1000] by (simp flip: of_nat_le_iff)
  then have "real ?m / 4 \<le> real k / 4 * (979 / 1000)" by simp
  also have "\<dots> \<le> x * lit_098" using assms(4) d(1) by (intro mult_mono) auto
  finally have "f64_le (Fin (real ?m / 4)) (rnd (x * lit_098))"
    using rounding_okD(1) [OF assms(1), of "real ?m / 4" "x * lit_098"] rounding_okD(3) [OF assms(1) X(2)] by simp
  moreover obtain y where y: "rnd (x * lit_098) = Fin y"
    using scale_in_range [OF assms(1) X(1), of x lit_098] assms(4,5) d(2) by (force simp: lit_098_def)
  ultimately have "real (?m + 12) / 4 \<le> y + e" using assms(6) by simp
  then have low: "f64_le (Fin (real (?m + 12) / 4)) (rnd (y + e))"
    using rounding_okD(1) [OF assms(1), of "real (?m + 12) / 4" "y + e"] rounding_okD(3) [OF assms(1) X(3)] by simp
  have "real (camp_step k) / 4 \<le> real (?m + 12) / 4" "real (camp_step k) / 4 \<le> 100" by (simp_all add: camp_step_def)
  then show ?thesis using low y by (cases "rnd (y + e)") (auto simp: bumped_def f64_clamp_def f64_lt_def)
qed

definition camping :: "string \<Rightarrow> stamped \<Rightarrow> bool" where
  "camping s x \<longleftrightarrow> (\<exists>c m rs fs. snd (snd x) = Detection s Uncertain (Fin c) m rs fs \<and> 1 / 2 \<le> c \<and> c \<le> 1)"

lemma scoring_run_append:
  "scoring_run S (ps @ qs) st = (case scoring_run S ps st of (evs1, st1) \<Rightarrow>
     case scoring_run S qs st1 of (evs2, st2) \<Rightarrow> (evs1 @ evs2, st2))"
  by (induction ps arbitrary: st) (auto split: prod.split)

lemma camping_bump:
  assumes "rounding_ok (sv_rnd S) X" and "quarters \<subseteq> X" and "sv_cfg S = scoring_default" and "camping s x" and "risk_ok st"
    and "k \<le> 303" and "f64_le (Fin (real k / 4)) (risk_get s st)"
  shows "\<exists>y delta signal. scoring_run S [x] st
      = (score_events S (fst x) (fst (snd x)) s delta signal (Fin y), snd (scoring_run S [x] st))
    \<and> real (camp_step k) / 4 \<le> y \<and> risk_get s (snd (scoring_run S [x] st)) = Fin y \<and> risk_ok (snd (scoring_run S [x] st))"
proof -
  obtain a b c m rs fs where x: "x = (a, b, Detection s Uncertain (Fin c) m rs fs)" "1 / 2 \<le> c" "c \<le> 1"
    using assms(4) by (cases x) (auto simp: camping_def)
  obtain e where e: "f64_mul (sv_rnd S) (Fin 6) (Fin c) = Fin e" "3 \<le> e" "e \<le> 6"
    using uncertain_delta [OF assms(1,2) x(2,3)] by blast
  obtain v where v: "risk_get s st = Fin v" "v \<le> 100" using risk_get_ok [OF assms(5)] by blast
  have input: "risk_input (sv_rnd S) (sv_cfg S) (Detection s Uncertain (Fin c) m rs fs) = Some (s, Fin e, Some (Fin c, Fin (1 / 2)))"
    using x(2) e by (simp add: assms(3) scoring_default_def)
  obtain y where y: "bumped (sv_rnd S) (Fin v) (Fin e) (Fin lit_098) = Fin y" "real (camp_step k) / 4 \<le> y"
    using bumped_camp [OF assms(1,2,6), of v e] v assms(7) e by auto
  have "12 \<le> camp_step k" by (simp add: camp_step_def)
  then have "3 \<le> y" using y(2) by linarith
  then have settle: "settle (Fin y) = Fin y" by (simp add: settle_def NEGLIGIBLE_SCORE_def lit_001_def)
  have dec: "sg_decay (sv_cfg S) = Fin lit_098" by (simp add: assms(3) scoring_default_def)
  have "{0, 100} \<subseteq> X" using quarters_mem [of 0] quarters_mem [of 400] assms(2) by auto
  then have ok: "risk_ok (snd (bump (sv_rnd S) s (Fin e) (Fin lit_098) st))"
    using bump_ok [OF assms(1) _ assms(5), of lit_098 "Fin e" s] by (simp add: lit_098_def)
  have "bt_ok st" using assms(5) by (simp add: risk_ok_def)
  then show ?thesis using ok y settle v dec x(1)
    by (auto simp: scoring_handle_simps(3) [OF input] risk_get_bump) (auto simp: bump_def Let_def)
qed

text \<open>C12: Under the default configuration a lone undecided verdict never alerts, and a session that stays
  in the dead band does: a first \<open>Uncertain\<close> detection of a subject is reported as a score and raises no alert,
  whereas the last of any 38 or more \<open>Uncertain\<close> detections of confidence one half or more
  raises one, in whatever way the arithmetic rounds, as long as quarters up to 100 are exact.\<close>

theorem camping_alerts:
  assumes "rounding_ok (sv_rnd S) X" and "quarters \<subseteq> X" and "sv_cfg S = scoring_default" and "\<forall>x \<in> set ps. camping s x"
  shows "(length ps = 1 \<longrightarrow> length (fst (scoring_run S ps [])) = 1)
    \<and> (38 \<le> length ps \<longrightarrow> (\<exists>sev t d. payload (last (fst (scoring_run S ps []))) = Alert sev t d (Some s)))"
proof -
  have inv: "risk_ok (snd (scoring_run S qs [])) \<and>
      f64_le (Fin (real ((camp_step ^^ length qs) 0) / 4)) (risk_get s (snd (scoring_run S qs []))) \<and> (camp_step ^^ length qs) 0 \<le> 303"
    if "\<forall>x \<in> set qs. camping s x" for qs using that
  proof (induction qs rule: rev_induct)
    case (snoc x qs)
    obtain evs st where r: "scoring_run S qs [] = (evs, st)" by fastforce
    have "camping s x" "risk_ok st" "(camp_step ^^ length qs) 0 \<le> 303"
      "f64_le (Fin (real ((camp_step ^^ length qs) 0) / 4)) (risk_get s st)" using snoc r by simp_all
    from camping_bump [OF assms(1-3) this] obtain y where
      "real (camp_step ((camp_step ^^ length qs) 0)) / 4 \<le> y" "risk_get s (snd (scoring_run S [x] st)) = Fin y"
      "risk_ok (snd (scoring_run S [x] st))" by blast
    moreover have "snd (scoring_run S (qs @ [x]) []) = snd (scoring_run S [x] st)"
      by (simp only: scoring_run_append r) (simp split: prod.split)
    ultimately show ?case by (simp add: camp_step_le del: scoring_run.simps)
  qed (simp_all add: risk_ok_def risk_get_def)
  have last: "\<exists>y delta signal evs1. fst (scoring_run S (qs @ [x]) []) = evs1 @ score_events S (fst x) (fst (snd x)) s delta signal (Fin y)
      \<and> real ((camp_step ^^ Suc (length qs)) 0) / 4 \<le> y" if "\<forall>x \<in> set (qs @ [x]). camping s x" for qs x
  proof -
    obtain evs st where r: "scoring_run S qs [] = (evs, st)" by fastforce
    have "camping s x" "risk_ok st" "(camp_step ^^ length qs) 0 \<le> 303"
      "f64_le (Fin (real ((camp_step ^^ length qs) 0) / 4)) (risk_get s st)" using inv [of qs] that r by simp_all
    from camping_bump [OF assms(1-3) this] obtain y delta signal st2 where
      1: "scoring_run S [x] st = (score_events S (fst x) (fst (snd x)) s delta signal (Fin y), st2)"
      "real (camp_step ((camp_step ^^ length qs) 0)) / 4 \<le> y" by blast
    have "fst (scoring_run S (qs @ [x]) []) = evs @ score_events S (fst x) (fst (snd x)) s delta signal (Fin y)"
      by (simp only: scoring_run_append r 1(1) prod.case fst_conv)
    moreover have "real ((camp_step ^^ Suc (length qs)) 0) / 4 \<le> y" using 1(2) by simp
    ultimately show ?thesis by blast
  qed
  have many: "\<exists>sev t d. payload (last (fst (scoring_run S ps []))) = Alert sev t d (Some s)" if "38 \<le> length ps"
  proof -
    from that have "ps \<noteq> []" by auto
    then obtain qs x where ps: "ps = qs @ [x]" by (metis rev_exhaust)
    obtain y delta signal evs1 where
      "fst (scoring_run S ps []) = evs1 @ score_events S (fst x) (fst (snd x)) s delta signal (Fin y)"
      "real ((camp_step ^^ Suc (length qs)) 0) / 4 \<le> y" using last [of qs x] assms(4) unfolding ps by blast
    moreover have "(camp_step ^^ Suc (length qs)) 0 = 303" using camp_steps [of "Suc (length qs)"] that ps by simp
    ultimately show ?thesis by (auto simp: score_events_def assms(3) scoring_default_def event_new_def)
  qed
  have one: "length (fst (scoring_run S ps [])) = 1" if "length ps = 1"
  proof -
    have "ps = [hd ps]" using that by (cases ps) simp_all
    then obtain x where ps: "ps = [x]" by blast
    then obtain a b c m rs fs where x: "x = (a, b, Detection s Uncertain (Fin c) m rs fs)" "1 / 2 \<le> c" "c \<le> 1"
      using assms(4) by (cases x) (auto simp: camping_def)
    obtain e where e: "f64_mul (sv_rnd S) (Fin 6) (Fin c) = Fin e" "3 \<le> e" "e \<le> 6"
      using uncertain_delta [OF assms(1,2) x(2,3)] by blast
    have "real 24 / 4 \<in> X" "real 0 / 4 \<in> X" using quarters_mem [of 24] quarters_mem [of 0] assms(2) by auto
    then have z: "sv_rnd S 0 = Fin 0" "f64_le (sv_rnd S e) (Fin 6)"
      using rounding_okD(3) [OF assms(1)] rounding_okD(1) [OF assms(1), of e 6] e(3) by auto
    have input: "risk_input (sv_rnd S) (sv_cfg S) (Detection s Uncertain (Fin c) m rs fs) = Some (s, Fin e, Some (Fin c, Fin (1 / 2)))"
      using x(2) e by (simp add: assms(3) scoring_default_def)
    have "\<not> f64_le (Fin 75) (fst (bump (sv_rnd S) s (Fin e) (sg_decay (sv_cfg S)) []))"
      using z by (cases "sv_rnd S e")
        (auto simp: bump_def bumped_def risk_get_def assms(3) scoring_default_def f64_clamp_def f64_lt_def Let_def)
    then have "length (fst (scoring_handle S a b (Detection s Uncertain (Fin c) m rs fs) [])) = 1"
      by (simp add: scoring_handle_simps(3) [OF input] score_events_def assms(3) scoring_default_def)
    then show ?thesis using ps x(1) by (simp split: prod.split)
  qed
  show ?thesis using many one by blast
qed

lemma camping_alerts_witness:
  "\<exists>sev t d. payload (last (fst (scoring_run \<lparr>sv_rnd = Fin, sv_cfg = scoring_default, sv_agent = ''a'', sv_show1 = (\<lambda>_. ''x'')\<rparr>
     (replicate 40 ((1, 0), (2, 0), Detection ''s'' Uncertain (Fin (1 / 2)) ''m'' [] [])) []))) = Alert sev t d (Some ''s'')"
proof -
  have "camping ''s'' ((1, 0), (2, 0), Detection ''s'' Uncertain (Fin (1 / 2)) ''m'' [] [])"
    unfolding camping_def by (rule exI [of _ "1 / 2"]) simp
  then show ?thesis
    using camping_alerts [of "\<lparr>sv_rnd = Fin, sv_cfg = scoring_default, sv_agent = ''a'', sv_show1 = (\<lambda>_. ''x'')\<rparr>" quarters
      "replicate 40 ((1, 0), (2, 0), Detection ''s'' Uncertain (Fin (1 / 2)) ''m'' [] [])" "''s''"]
    by (auto simp del: scoring_run.simps replicate.simps)
qed

end
