(* ===== verification/Host.thy ===== *)
theory Host
  imports Event
begin

text \<open>
  The plugin host of \<^verbatim>\<open>crates/aegis-core\<close>: the load policy of \<^verbatim>\<open>config.rs\<close>, the checks of \<^verbatim>\<open>loader.rs\<close>,
  and the resolution of plugins in \<^verbatim>\<open>host.rs\<close> (explicit, then dynamic, then statically registered).
  A plugin is an opaque value with a reported name. What native code does when it is opened is an
  argument: the outcomes of the open, the symbol look-ups, the entry point and the constructor.
\<close>

definition PLUGIN_API_VERSION :: nat where "PLUGIN_API_VERSION = 1"

section \<open>Configuration\<close>

record dynamic_spec =
  ds_name :: string
  ds_path :: string

record host_config =
  hc_agent_id :: string
  hc_data_dir :: string
  hc_enabled :: "string list option"
  hc_disabled :: "string list"
  hc_dynamic :: "dynamic_spec list"
  hc_plugins :: "(string, json) btree"
  hc_queue_depth :: nat

definition host_config_new :: "string \<Rightarrow> host_config" where
  "host_config_new aid =
     \<lparr>hc_agent_id = aid, hc_data_dir = ''./data'', hc_enabled = None, hc_disabled = [], hc_dynamic = [], hc_plugins = [], hc_queue_depth = 4096\<rparr>"

definition is_enabled :: "host_config \<Rightarrow> string \<Rightarrow> bool" where
  "is_enabled cfg name =
     (if list_ex (\<lambda>p. p = name) (hc_disabled cfg) then False
      else case hc_enabled cfg of Some l \<Rightarrow> list_ex (\<lambda>p. p = name) l | None \<Rightarrow> True)"

definition plugin_config :: "host_config \<Rightarrow> string \<Rightarrow> json" where
  "plugin_config cfg name = (case map_of (hc_plugins cfg) name of Some j \<Rightarrow> j | None \<Rightarrow> JNull)"

section \<open>Loading a shared object\<close>

record file_meta =
  fm_mode :: nat
  fm_uid :: nat

datatype load_error =
    WorldWritable string | NotRootOwned string | OpenError | MissingEntry | MissingFree | EntryPanicked | NullRegistration
  | ApiMismatch nat

text \<open>\<open>stat\<close> gives the metadata of a path, where it can be read; \<open>parent\<close> the containing directory.\<close>

definition check_path :: "(string \<Rightarrow> file_meta option) \<Rightarrow> bool \<Rightarrow> string \<Rightarrow> load_error + unit" where
  "check_path stat as_root p =
     (case stat p of
        None \<Rightarrow> Inr ()
      | Some m \<Rightarrow>
          if odd (fm_mode m div 2) then Inl (WorldWritable p)
          else if as_root \<and> fm_uid m \<noteq> 0 then Inl (NotRootOwned p)
          else Inr ())"

definition check_load_path_safety ::
  "(string \<Rightarrow> file_meta option) \<Rightarrow> (string \<Rightarrow> string option) \<Rightarrow> nat \<Rightarrow> string \<Rightarrow> load_error + unit" where
  "check_load_path_safety stat parent euid path =
     (case check_path stat (euid = 0) path of
        Inl e \<Rightarrow> Inl e
      | Inr _ \<Rightarrow>
          (case parent path of
             None \<Rightarrow> Inr ()
           | Some d \<Rightarrow> if d = [] then Inr () else check_path stat (euid = 0) d))"

datatype 'p ctor = CtorPanics | Ctor 'p

datatype 'p entry_result = EntryPanic | EntryNull | EntryReg nat "'p ctor"

record 'p shared_object =
  so_opens :: bool
  so_entry :: bool
  so_free :: bool
  so_result :: "'p entry_result"

text \<open>The flag says whether the library was opened, which runs its code.\<close>

definition load_dynamic :: "load_error + unit \<Rightarrow> 'p shared_object \<Rightarrow> bool \<times> (load_error + 'p ctor)" where
  "load_dynamic safety so =
     (case safety of
        Inl e \<Rightarrow> (False, Inl e)
      | Inr _ \<Rightarrow>
          (True,
           if \<not> so_opens so then Inl OpenError
           else if \<not> so_entry so then Inl MissingEntry
           else if \<not> so_free so then Inl MissingFree
           else case so_result so of
             EntryPanic \<Rightarrow> Inl EntryPanicked
           | EntryNull \<Rightarrow> Inl NullRegistration
           | EntryReg v c \<Rightarrow> if v \<noteq> PLUGIN_API_VERSION then Inl (ApiMismatch v) else Inr c))"

section \<open>Building a host\<close>

record 'p registration =
  rg_api_version :: nat
  rg_name :: string
  rg_ctor :: "'p ctor"

record 'p host_env =
  he_name :: "'p \<Rightarrow> string"
  he_safety :: "string \<Rightarrow> load_error + unit"
  he_object :: "string \<Rightarrow> 'p shared_object"

record 'p building =
  bd_loaded :: "(string \<times> 'p) list"
  bd_opened :: "string list"

definition bd_seen :: "'p building \<Rightarrow> string set" where
  "bd_seen b = fst ` set (bd_loaded b)"

fun add_explicit :: "'p host_env \<Rightarrow> host_config \<Rightarrow> 'p list \<Rightarrow> 'p building \<Rightarrow> 'p building" where
  "add_explicit H cfg [] b = b"
| "add_explicit H cfg (p # ps) b =
     (let name = he_name H p
      in add_explicit H cfg ps
           (if \<not> is_enabled cfg name then b
            else if name \<in> bd_seen b then b
            else b\<lparr>bd_loaded := bd_loaded b @ [(name, p)]\<rparr>))"

fun add_dynamic :: "'p host_env \<Rightarrow> host_config \<Rightarrow> dynamic_spec list \<Rightarrow> 'p building \<Rightarrow> (load_error + unit) \<times> 'p building" where
  "add_dynamic H cfg [] b = (Inr (), b)"
| "add_dynamic H cfg (d # ds) b =
     (if \<not> is_enabled cfg (ds_name d) \<or> ds_name d \<in> bd_seen b then add_dynamic H cfg ds b
      else case load_dynamic (he_safety H (ds_path d)) (he_object H (ds_path d)) of
        (opened, r) \<Rightarrow>
          (let b1 = (if opened then b\<lparr>bd_opened := bd_opened b @ [ds_path d]\<rparr> else b)
           in case r of
                Inl e \<Rightarrow> (Inl e, b1)
              | Inr CtorPanics \<Rightarrow> add_dynamic H cfg ds b1
              | Inr (Ctor p) \<Rightarrow>
                  if he_name H p \<noteq> ds_name d then add_dynamic H cfg ds b1
                  else add_dynamic H cfg ds (b1\<lparr>bd_loaded := bd_loaded b1 @ [(ds_name d, p)]\<rparr>)))"

fun add_static :: "host_config \<Rightarrow> 'p registration list \<Rightarrow> 'p building \<Rightarrow> 'p building" where
  "add_static cfg [] b = b"
| "add_static cfg (r # rs) b =
     add_static cfg rs
       (if rg_api_version r \<noteq> PLUGIN_API_VERSION then b
        else if is_enabled cfg (rg_name r) \<and> rg_name r \<notin> bd_seen b
        then (case rg_ctor r of CtorPanics \<Rightarrow> b | Ctor p \<Rightarrow> b\<lparr>bd_loaded := bd_loaded b @ [(rg_name r, p)]\<rparr>)
        else b)"

text \<open>The load outcome, the plugins in load order, and the paths that were opened.\<close>

definition build_host ::
  "'p host_env \<Rightarrow> host_config \<Rightarrow> 'p list \<Rightarrow> bool \<Rightarrow> 'p registration list \<Rightarrow> (load_error + unit) \<times> 'p building" where
  "build_host H cfg explicit discover statics =
     (let b1 = add_explicit H cfg explicit \<lparr>bd_loaded = [], bd_opened = []\<rparr>
      in case add_dynamic H cfg (hc_dynamic cfg) b1 of
           (Inl e, b2) \<Rightarrow> (Inl e, b2)
         | (Inr _, b2) \<Rightarrow> (Inr (), if discover then add_static cfg statics b2 else b2))"

definition plugin_names :: "'p building \<Rightarrow> string list" where
  "plugin_names b = map fst (bd_loaded b)"

section \<open>The load policy holds\<close>

definition build_ok :: "'p host_env \<Rightarrow> host_config \<Rightarrow> 'p building \<Rightarrow> bool" where
  "build_ok H cfg b \<longleftrightarrow>
     distinct (plugin_names b) \<and> (\<forall>n \<in> set (plugin_names b). is_enabled cfg n)
     \<and> (\<forall>p \<in> set (bd_opened b). he_safety H p = Inr ()
          \<and> (\<exists>d \<in> set (hc_dynamic cfg). ds_path d = p \<and> is_enabled cfg (ds_name d)))"

lemma build_ok_add:
  "build_ok H cfg b \<Longrightarrow> is_enabled cfg n \<Longrightarrow> n \<notin> bd_seen b \<Longrightarrow> build_ok H cfg (b\<lparr>bd_loaded := bd_loaded b @ [(n, p)]\<rparr>)"
  by (auto simp: build_ok_def plugin_names_def bd_seen_def)

lemma add_explicit_ok: "build_ok H cfg b \<Longrightarrow> build_ok H cfg (add_explicit H cfg ps b)"
  by (induction ps arbitrary: b) (simp_all add: Let_def build_ok_add)

lemma add_static_ok: "build_ok H cfg b \<Longrightarrow> build_ok H cfg (add_static cfg rs b)"
  by (induction rs arbitrary: b) (simp_all add: build_ok_add split: ctor.splits)

lemma add_dynamic_ok:
  "build_ok H cfg b \<Longrightarrow> set ds \<subseteq> set (hc_dynamic cfg) \<Longrightarrow> build_ok H cfg (snd (add_dynamic H cfg ds b))"
proof (induction ds arbitrary: b)
  case (Cons d ds)
  show ?case
  proof (cases "\<not> is_enabled cfg (ds_name d) \<or> ds_name d \<in> bd_seen b")
    case True
    then show ?thesis using Cons by simp
  next
    case False
    obtain opened r where l: "load_dynamic (he_safety H (ds_path d)) (he_object H (ds_path d)) = (opened, r)" by fastforce
    define b1 where "b1 = (if opened then b\<lparr>bd_opened := bd_opened b @ [ds_path d]\<rparr> else b)"
    have "opened \<Longrightarrow> he_safety H (ds_path d) = Inr ()" using l by (auto simp: load_dynamic_def split: sum.splits)
    then have b1: "build_ok H cfg b1" "bd_seen b1 = bd_seen b"
      using Cons.prems False by (auto simp: b1_def build_ok_def plugin_names_def bd_seen_def)
    have "build_ok H cfg (b1\<lparr>bd_loaded := bd_loaded b1 @ [(ds_name d, p)]\<rparr>)" for p
      using False b1 by (intro build_ok_add) simp_all
    then have "build_ok H cfg (snd (add_dynamic H cfg ds (b1\<lparr>bd_loaded := bd_loaded b1 @ [(ds_name d, p)]\<rparr>)))" for p
      using Cons.IH Cons.prems(2) by simp
    moreover have "build_ok H cfg (snd (add_dynamic H cfg ds b1))" using Cons.IH Cons.prems(2) b1(1) by simp
    ultimately have step: "build_ok H cfg (snd (case r of Inl e \<Rightarrow> (Inl e, b1)
              | Inr CtorPanics \<Rightarrow> add_dynamic H cfg ds b1
              | Inr (Ctor p) \<Rightarrow>
                  if he_name H p \<noteq> ds_name d then add_dynamic H cfg ds b1
                  else add_dynamic H cfg ds (b1\<lparr>bd_loaded := bd_loaded b1 @ [(ds_name d, p)]\<rparr>)))"
      using b1(1) by (simp split: sum.splits ctor.splits)
    have "add_dynamic H cfg (d # ds) b = (case r of Inl e \<Rightarrow> (Inl e, b1)
              | Inr CtorPanics \<Rightarrow> add_dynamic H cfg ds b1
              | Inr (Ctor p) \<Rightarrow>
                  if he_name H p \<noteq> ds_name d then add_dynamic H cfg ds b1
                  else add_dynamic H cfg ds (b1\<lparr>bd_loaded := bd_loaded b1 @ [(ds_name d, p)]\<rparr>))"
      using False l by (simp only: add_dynamic.simps if_False prod.case Let_def flip: b1_def)
    then show ?thesis using step by (simp only:)
  qed
qed simp

lemma build_host_ok: "build_ok H cfg (snd (build_host H cfg explicit discover statics))"
proof -
  have "build_ok H cfg \<lparr>bd_loaded = [], bd_opened = []\<rparr>" by (simp add: build_ok_def plugin_names_def)
  then have "build_ok H cfg (add_explicit H cfg explicit \<lparr>bd_loaded = [], bd_opened = []\<rparr>)" by (rule add_explicit_ok)
  from add_dynamic_ok [OF this order_refl] show ?thesis
    by (auto simp: build_host_def Let_def add_static_ok split: prod.splits sum.splits)
qed

section \<open>Properties\<close>


end
