(* ===== verification/Bus.thy ===== *)
theory Bus
  imports Host
begin

text \<open>
  The event bus (\<^verbatim>\<open>crates/aegis-core/src/bus.rs\<close>) and the dispatch runtime of a host
  (\<^verbatim>\<open>RunningHost\<close> in \<^verbatim>\<open>host.rs\<close>): a bounded ingress queue, a dispatcher that copies each event to the bounded
  queues of the subscribed plugins, and one handler task per plugin, which emits through an emitter
  that stamps source and identity. Each task's next atomic step is a function on the state
  \<open>bus\<close>; an input sequence is an interleaving. A send that has to wait leaves the state unchanged, and is
  tried again later.

  A shutdown only sets \<open>bu_stopping\<close>: the dispatcher and each handler end at the top of their loops, which they
  reach when they are not waiting inside one, and a handler may first take what is queued. An ended task's queue keeps what
  was lost with it. A queue depth of 0 makes the channel constructor panic and is left out (\<open>bus_start\<close> needs a positive depth).

  The fields \<open>bu_accepted\<close> and \<open>pg_taken\<close> are history: the events that entered the ingress queue, and those
  a plugin has handled. What a handler emits is an input.
\<close>

section \<open>State\<close>

record plug =
  pg_name :: string
  pg_subs :: subscriptions
  pg_alive :: bool
  pg_queue :: "event list"
  pg_work :: "event list"
  pg_taken :: "event list"

record bus =
  bu_agent :: string
  bu_depth :: nat
  bu_stopping :: bool
  bu_open :: bool
  bu_ingress :: "event list"
  bu_current :: "(event \<times> nat) option"
  bu_plugs :: "plug list"
  bu_ingress_full :: nat
  bu_ingress_closed :: nat
  bu_fanout_full :: nat
  bu_accepted :: "event list"

definition is_critical_kind :: "string \<Rightarrow> bool" where
  "is_critical_kind k \<longleftrightarrow> k \<in> {''alert'', ''detection'', ''score''}"

definition bus_start :: "host_config \<Rightarrow> (string \<times> subscriptions) list \<Rightarrow> bus" where
  "bus_start cfg ps =
     \<lparr>bu_agent = hc_agent_id cfg, bu_depth = hc_queue_depth cfg, bu_stopping = False, bu_open = True, bu_ingress = [], bu_current = None,
      bu_plugs = map (\<lambda>(n, subs). \<lparr>pg_name = n, pg_subs = subs, pg_alive = True, pg_queue = [], pg_work = [], pg_taken = []\<rparr>) ps,
      bu_ingress_full = 0, bu_ingress_closed = 0, bu_fanout_full = 0, bu_accepted = []\<rparr>"

definition ingress_dropped :: "bus \<Rightarrow> nat" where
  "ingress_dropped b = bu_ingress_full b + bu_ingress_closed b"

definition bus_accept :: "event \<Rightarrow> bus \<Rightarrow> bus" where
  "bus_accept ev b = b\<lparr>bu_ingress := bu_ingress b @ [ev], bu_accepted := bu_accepted b @ [ev]\<rparr>"

text \<open>\<^verbatim>\<open>BusEmitter::emit\<close>; \<open>False\<close> while the sender has to wait for a slot.\<close>

definition bus_emit :: "event \<Rightarrow> bus \<Rightarrow> bool \<times> bus" where
  "bus_emit ev b =
     (if \<not> bu_open b then (True, b\<lparr>bu_ingress_closed := bu_ingress_closed b + 1\<rparr>)
      else if length (bu_ingress b) < bu_depth b then (True, bus_accept ev b)
      else if is_critical_kind (kind ev) then (False, b)
      else (True, b\<lparr>bu_ingress_full := bu_ingress_full b + 1\<rparr>))"

text \<open>\<^verbatim>\<open>ScopedEmitter::emit\<close>: what is forwarded to the bus.\<close>

definition scoped :: "string \<Rightarrow> string \<Rightarrow> event \<Rightarrow> event" where
  "scoped name aid ev = ev\<lparr>source := name, agent_id := aid\<rparr>"

section \<open>Steps\<close>

definition set_plug :: "nat \<Rightarrow> plug \<Rightarrow> bus \<Rightarrow> bus" where
  "set_plug i p b = b\<lparr>bu_plugs := (bu_plugs b)[i := p]\<rparr>"

definition dispatch_turn :: "bus \<Rightarrow> bus" where
  "dispatch_turn b =
     (if \<not> bu_open b then b
      else case bu_current b of
        None \<Rightarrow> (case bu_ingress b of [] \<Rightarrow> b | ev # rest \<Rightarrow> b\<lparr>bu_ingress := rest, bu_current := Some (ev, 0)\<rparr>)
      | Some (ev, i) \<Rightarrow>
          if length (bu_plugs b) \<le> i then b\<lparr>bu_current := None\<rparr>
          else let p = bu_plugs b ! i; b' = b\<lparr>bu_current := Some (ev, i + 1)\<rparr>
               in if \<not> sub_matches (pg_subs p) (kind ev) \<or> \<not> pg_alive p then b'
                  else if length (pg_queue p) < bu_depth b then set_plug i (p\<lparr>pg_queue := pg_queue p @ [ev]\<rparr>) b'
                  else if is_critical_kind (kind ev) then b
                  else b'\<lparr>bu_fanout_full := bu_fanout_full b + 1\<rparr>)"

definition take_turn :: "nat \<Rightarrow> event list \<Rightarrow> bus \<Rightarrow> bus" where
  "take_turn i evs b =
     (if length (bu_plugs b) \<le> i then b
      else let p = bu_plugs b ! i
           in if \<not> pg_alive p \<or> pg_work p \<noteq> [] then b
              else case pg_queue p of
                [] \<Rightarrow> b
              | ev # rest \<Rightarrow>
                  set_plug i (p\<lparr>pg_queue := rest, pg_work := map (scoped (pg_name p) (bu_agent b)) evs,
                                pg_taken := pg_taken p @ [ev]\<rparr>) b)"

definition emit_turn :: "nat \<Rightarrow> bus \<Rightarrow> bus" where
  "emit_turn i b =
     (if length (bu_plugs b) \<le> i then b
      else let p = bu_plugs b ! i
           in case pg_work p of
                [] \<Rightarrow> b
              | ev # rest \<Rightarrow> (case bus_emit ev b of (True, b') \<Rightarrow> set_plug i (p\<lparr>pg_work := rest\<rparr>) b' | (False, _) \<Rightarrow> b))"

definition dispatch_stop :: "bus \<Rightarrow> bus" where
  "dispatch_stop b = (if bu_stopping b \<and> bu_current b = None then b\<lparr>bu_open := False\<rparr> else b)"

definition handler_stop :: "nat \<Rightarrow> bus \<Rightarrow> bus" where
  "handler_stop i b =
     (if length (bu_plugs b) \<le> i then b
      else let p = bu_plugs b ! i
           in if pg_work p = [] \<and> (bu_stopping b \<or> \<not> bu_open b \<and> pg_queue p = []) then set_plug i (p\<lparr>pg_alive := False\<rparr>) b else b)"

datatype bus_input =
    Emit event | DispatchTurn | TakeTurn nat "event list" | EmitTurn nat | StopBus | DispatchStop | HandlerStop nat

fun bus_step :: "bus_input \<Rightarrow> bus \<Rightarrow> bus" where
  "bus_step (Emit ev) b = snd (bus_emit ev b)"
| "bus_step DispatchTurn b = dispatch_turn b"
| "bus_step (TakeTurn i evs) b = take_turn i evs b"
| "bus_step (EmitTurn i) b = emit_turn i b"
| "bus_step StopBus b = b\<lparr>bu_stopping := True\<rparr>"
| "bus_step DispatchStop b = dispatch_stop b"
| "bus_step (HandlerStop i) b = handler_stop i b"

definition bus_run :: "bus_input list \<Rightarrow> bus \<Rightarrow> bus" where
  "bus_run ins b = fold bus_step ins b"

section \<open>Delivery of critical events\<close>

text \<open>The critical events a plugin subscribes to.\<close>

definition wanted :: "plug \<Rightarrow> event \<Rightarrow> bool" where
  "wanted p ev \<longleftrightarrow> is_critical_kind (kind ev) \<and> sub_matches (pg_subs p) (kind ev)"

text \<open>What is on its way to the plugin at position \<open>i\<close>.\<close>

definition on_the_way :: "nat \<Rightarrow> bus \<Rightarrow> event list" where
  "on_the_way i b = (case bu_current b of Some (ev, j) \<Rightarrow> if j \<le> i then [ev] else [] | None \<Rightarrow> []) @ bu_ingress b"

definition delivered_ok :: "bus \<Rightarrow> bool" where
  "delivered_ok b \<longleftrightarrow>
     (\<forall>i < length (bu_plugs b). let p = bu_plugs b ! i in
        pg_alive p \<longrightarrow> filter (wanted p) (pg_taken p @ pg_queue p @ on_the_way i b) = filter (wanted p) (bu_accepted b))
     \<and> length (bu_ingress b) \<le> bu_depth b \<and> (\<forall>p \<in> set (bu_plugs b). length (pg_queue p) \<le> bu_depth b)"

lemma set_plug_simps [simp]:
  "bu_agent (set_plug i p b) = bu_agent b" "bu_depth (set_plug i p b) = bu_depth b" "bu_open (set_plug i p b) = bu_open b"
  "bu_ingress (set_plug i p b) = bu_ingress b" "bu_current (set_plug i p b) = bu_current b"
  "bu_plugs (set_plug i p b) = (bu_plugs b)[i := p]" "bu_accepted (set_plug i p b) = bu_accepted b"
  by (simp_all add: set_plug_def)

lemma bus_accept_simps [simp]:
  "bu_depth (bus_accept ev b) = bu_depth b" "bu_open (bus_accept ev b) = bu_open b" "bu_plugs (bus_accept ev b) = bu_plugs b"
  "bu_ingress (bus_accept ev b) = bu_ingress b @ [ev]" "bu_current (bus_accept ev b) = bu_current b"
  "bu_accepted (bus_accept ev b) = bu_accepted b @ [ev]"
  by (simp_all add: bus_accept_def)

lemma wanted_update [simp]:
  "wanted (p\<lparr>pg_alive := a\<rparr>) = wanted p" "wanted (p\<lparr>pg_queue := x\<rparr>) = wanted p" "wanted (p\<lparr>pg_work := w\<rparr>) = wanted p" "wanted (p\<lparr>pg_taken := t\<rparr>) = wanted p"
  by (simp_all add: wanted_def fun_eq_iff)

lemma delivered_okI:
  assumes "\<And>i. i < length (bu_plugs b) \<Longrightarrow> pg_alive (bu_plugs b ! i) \<Longrightarrow>
      filter (wanted (bu_plugs b ! i)) (pg_taken (bu_plugs b ! i) @ pg_queue (bu_plugs b ! i) @ on_the_way i b)
      = filter (wanted (bu_plugs b ! i)) (bu_accepted b)"
    and "length (bu_ingress b) \<le> bu_depth b"
    and "\<And>i. i < length (bu_plugs b) \<Longrightarrow> length (pg_queue (bu_plugs b ! i)) \<le> bu_depth b"
  shows "delivered_ok b"
  using assms by (auto simp: delivered_ok_def Let_def in_set_conv_nth)

lemma delivered_okD:
  assumes "delivered_ok b"
  shows "i < length (bu_plugs b) \<Longrightarrow> pg_alive (bu_plugs b ! i) \<Longrightarrow>
      filter (wanted (bu_plugs b ! i)) (pg_taken (bu_plugs b ! i) @ pg_queue (bu_plugs b ! i) @ on_the_way i b)
      = filter (wanted (bu_plugs b ! i)) (bu_accepted b)"
    and "length (bu_ingress b) \<le> bu_depth b"
    and "i < length (bu_plugs b) \<Longrightarrow> length (pg_queue (bu_plugs b ! i)) \<le> bu_depth b"
  using assms by (auto simp: delivered_ok_def Let_def)

lemma bus_emit_ok:
  assumes "delivered_ok b"
  shows "delivered_ok (snd (bus_emit ev b))" and "bu_plugs (snd (bus_emit ev b)) = bu_plugs b"
proof -
  note D = delivered_okD [OF assms]
  have "delivered_ok (bus_accept ev b)" if "length (bu_ingress b) < bu_depth b"
    by (rule delivered_okI) (use D that in \<open>auto simp: on_the_way_def simp flip: append_assoc\<close>)
  then show "delivered_ok (snd (bus_emit ev b))" using assms
    by (auto simp: bus_emit_def delivered_ok_def on_the_way_def)
  show "bu_plugs (snd (bus_emit ev b)) = bu_plugs b" by (simp add: bus_emit_def)
qed

text \<open>Only handlers' queues and work change: what a plugin has and will get stays the same.\<close>

lemma delivered_set_plug:
  assumes ok: "delivered_ok b" and i: "i < length (bu_plugs b)"
    and p: "pg_alive p \<Longrightarrow> pg_alive (bu_plugs b ! i)" "wanted p = wanted (bu_plugs b ! i)" "pg_taken p @ pg_queue p = pg_taken (bu_plugs b ! i) @ pg_queue (bu_plugs b ! i)"
      "length (pg_queue p) \<le> bu_depth b"
  shows "delivered_ok (set_plug i p b)"
proof (rule delivered_okI)
  fix j
  assume j: "j < length (bu_plugs (set_plug i p b))" and a: "pg_alive (bu_plugs (set_plug i p b) ! j)"
  have "on_the_way j (set_plug i p b) = on_the_way j b" by (simp add: on_the_way_def)
  then show "filter (wanted (bu_plugs (set_plug i p b) ! j)) (pg_taken (bu_plugs (set_plug i p b) ! j) @
        pg_queue (bu_plugs (set_plug i p b) ! j) @ on_the_way j (set_plug i p b))
      = filter (wanted (bu_plugs (set_plug i p b) ! j)) (bu_accepted (set_plug i p b))"
    using delivered_okD(1) [OF ok, of j] j a p by (cases "j = i") (simp_all flip: append_assoc filter_append)
next
  fix j
  assume j: "j < length (bu_plugs (set_plug i p b))"
  then show "length (pg_queue (bu_plugs (set_plug i p b) ! j)) \<le> bu_depth (set_plug i p b)"
    using delivered_okD(3) [OF ok, of j] j p by (cases "j = i") simp_all
qed (use delivered_okD(2) [OF ok] in simp)

lemma take_turn_ok:
  assumes "delivered_ok b"
  shows "delivered_ok (take_turn i evs b)"
  using assms delivered_okD(3) [OF assms, of i]
  by (auto simp: take_turn_def Let_def split: list.splits intro!: delivered_set_plug)

lemma emit_turn_ok:
  assumes "delivered_ok b"
  shows "delivered_ok (emit_turn i b)"
proof (cases "length (bu_plugs b) \<le> i")
  case True
  then show ?thesis using assms by (simp add: emit_turn_def)
next
  case i: False
  show ?thesis
  proof (cases "pg_work (bu_plugs b ! i)")
    case Nil
    then show ?thesis using assms by (simp add: emit_turn_def)
  next
    case (Cons ev rest)
    obtain d b' where e: "bus_emit ev b = (d, b')" by fastforce
    note ok = bus_emit_ok [OF assms, of ev, unfolded e, simplified]
    have "delivered_ok (set_plug i ((bu_plugs b ! i)\<lparr>pg_work := rest\<rparr>) b')"
      using ok i delivered_okD(3) [OF ok(1), of i] by (intro delivered_set_plug) simp_all
    then show ?thesis using assms i Cons e by (simp add: emit_turn_def Let_def split: bool.splits)
  qed
qed

lemma dispatch_turn_ok:
  assumes ok: "delivered_ok b"
  shows "delivered_ok (dispatch_turn b)"
proof (cases "bu_open b")
  case False
  then show ?thesis using ok by (simp add: dispatch_turn_def)
next
  case op: True
  note D = delivered_okD [OF ok]
  show ?thesis
  proof (cases "bu_current b")
    case None
    show ?thesis
    proof (cases "bu_ingress b")
      case Nil
      then show ?thesis using ok None by (simp add: dispatch_turn_def)
    next
      case (Cons ev rest)
      then have "delivered_ok (b\<lparr>bu_ingress := rest, bu_current := Some (ev, 0)\<rparr>)"
        using D None by (intro delivered_okI) (auto simp: on_the_way_def)
      then show ?thesis using op None Cons by (simp add: dispatch_turn_def)
    qed
  next
    case (Some c)
    obtain ev i where c: "bu_current b = Some (ev, i)" using Some by (cases c) simp
    show ?thesis
    proof (cases "length (bu_plugs b) \<le> i")
      case True
      then have "delivered_ok (b\<lparr>bu_current := None\<rparr>)"
        using D c by (intro delivered_okI) (auto simp: on_the_way_def)
      then show ?thesis using op c True by (simp add: dispatch_turn_def)
    next
      case i: False
      let ?p = "bu_plugs b ! i" and ?b = "b\<lparr>bu_current := Some (ev, i + 1)\<rparr>"
      have other: "on_the_way j ?b = on_the_way j b" if "j \<noteq> i" for j using that c by (auto simp: on_the_way_def)
      have here: "on_the_way i b = ev # bu_ingress b" "on_the_way i ?b = bu_ingress b" using c by (simp_all add: on_the_way_def)
      have skip: "delivered_ok (?b\<lparr>bu_fanout_full := n\<rparr>)" if "\<not> (pg_alive ?p \<and> wanted ?p ev)" for n
      proof (rule delivered_okI)
        fix j
        assume j: "j < length (bu_plugs (?b\<lparr>bu_fanout_full := n\<rparr>))" and a: "pg_alive (bu_plugs (?b\<lparr>bu_fanout_full := n\<rparr>) ! j)"
        have "on_the_way j (?b\<lparr>bu_fanout_full := n\<rparr>) = on_the_way j ?b" by (simp add: on_the_way_def)
        then show "filter (wanted (bu_plugs (?b\<lparr>bu_fanout_full := n\<rparr>) ! j)) (pg_taken (bu_plugs (?b\<lparr>bu_fanout_full := n\<rparr>) ! j) @
            pg_queue (bu_plugs (?b\<lparr>bu_fanout_full := n\<rparr>) ! j) @ on_the_way j (?b\<lparr>bu_fanout_full := n\<rparr>))
          = filter (wanted (bu_plugs (?b\<lparr>bu_fanout_full := n\<rparr>) ! j)) (bu_accepted (?b\<lparr>bu_fanout_full := n\<rparr>))"
          using D(1) [of j] j a that here other [of j] by (cases "j = i") auto
      qed (use D in auto)
      have keep: "delivered_ok ?b" if "\<not> (pg_alive ?p \<and> wanted ?p ev)" using skip [OF that, of "bu_fanout_full b"] by simp
      have push: "delivered_ok (set_plug i (?p\<lparr>pg_queue := pg_queue ?p @ [ev]\<rparr>) ?b)"
        if "length (pg_queue ?p) < bu_depth b"
      proof (rule delivered_okI)
        fix j
        assume "j < length (bu_plugs (set_plug i (?p\<lparr>pg_queue := pg_queue ?p @ [ev]\<rparr>) ?b))"
          and "pg_alive (bu_plugs (set_plug i (?p\<lparr>pg_queue := pg_queue ?p @ [ev]\<rparr>) ?b) ! j)"
        then have j: "j < length (bu_plugs b)" "pg_alive (bu_plugs b ! j)" using i by (cases "j = i"; simp)+
        let ?b' = "set_plug i (?p\<lparr>pg_queue := pg_queue ?p @ [ev]\<rparr>) ?b"
        have "on_the_way j ?b' = on_the_way j ?b" by (simp add: on_the_way_def)
        then show "filter (wanted (bu_plugs ?b' ! j)) (pg_taken (bu_plugs ?b' ! j) @ pg_queue (bu_plugs ?b' ! j) @ on_the_way j ?b')
          = filter (wanted (bu_plugs ?b' ! j)) (bu_accepted ?b')"
          using D(1) [of j] j here other [of j] i by (cases "j = i") auto
      next
        fix j
        let ?b' = "set_plug i (?p\<lparr>pg_queue := pg_queue ?p @ [ev]\<rparr>) ?b"
        assume "j < length (bu_plugs ?b')"
        then have j: "j < length (bu_plugs b)" by simp
        show "length (pg_queue (bu_plugs ?b' ! j)) \<le> bu_depth ?b'" using D(3) [of j] j that i by (cases "j = i") auto
      qed (use D in simp)
      show ?thesis using op c i skip keep push ok
        by (auto simp: dispatch_turn_def Let_def wanted_def)
    qed
  qed
qed

lemma handler_stop_ok:
  assumes "delivered_ok b"
  shows "delivered_ok (handler_stop i b)"
  using assms delivered_okD(3) [OF assms, of i] by (auto simp: handler_stop_def Let_def intro!: delivered_set_plug)

lemma bus_step_ok:
  assumes "delivered_ok b"
  shows "delivered_ok (bus_step x b)"
proof (cases x)
  case StopBus
  then show ?thesis using assms by (simp add: delivered_ok_def on_the_way_def)
next
  case DispatchStop
  then show ?thesis using assms by (auto simp: delivered_ok_def on_the_way_def dispatch_stop_def)
qed (use assms in \<open>auto simp: bus_emit_ok dispatch_turn_ok take_turn_ok emit_turn_ok handler_stop_ok\<close>)

lemma bus_run_ok: "delivered_ok b \<Longrightarrow> delivered_ok (bus_run ins b)"
  by (induction ins arbitrary: b) (simp_all add: bus_run_def bus_step_ok)

lemma bus_start_plugs [simp]:
  "length (bu_plugs (bus_start cfg ps)) = length ps" "map pg_subs (bu_plugs (bus_start cfg ps)) = map snd ps"
  by (auto simp: bus_start_def)

lemma bus_start_ok: "delivered_ok (bus_start cfg ps)"
proof (rule delivered_okI)
  fix i
  assume i: "i < length (bu_plugs (bus_start cfg ps))"
  then show len: "length (pg_queue (bu_plugs (bus_start cfg ps) ! i)) \<le> bu_depth (bus_start cfg ps)"
    by (cases "ps ! i") (simp add: bus_start_def)
  from i show "filter (wanted (bu_plugs (bus_start cfg ps) ! i)) (pg_taken (bu_plugs (bus_start cfg ps) ! i) @
      pg_queue (bu_plugs (bus_start cfg ps) ! i) @ on_the_way i (bus_start cfg ps))
    = filter (wanted (bu_plugs (bus_start cfg ps) ! i)) (bu_accepted (bus_start cfg ps))"
    by (cases "ps ! i") (simp add: bus_start_def on_the_way_def)
qed (simp add: bus_start_def)

text \<open>The plugins and their subscriptions never change.\<close>

lemma map_pg_subs_set [simp]:
  "pg_subs p = pg_subs (bu_plugs b ! i) \<Longrightarrow> map pg_subs ((bu_plugs b)[i := p]) = map pg_subs (bu_plugs b)"
  by (metis list_update_id map_update)

lemma emit_turn_subs: "map pg_subs (bu_plugs (emit_turn i b)) = map pg_subs (bu_plugs b)"
proof (cases "pg_work (bu_plugs b ! i)")
  case (Cons ev rest)
  obtain d b' where e: "bus_emit ev b = (d, b')" by fastforce
  have [simp]: "bu_plugs b' = bu_plugs b" using e by (auto simp: bus_emit_def split: if_splits)
  show ?thesis using Cons e by (simp add: emit_turn_def Let_def map_update split: bool.splits)
    (metis list_update_id map_update)
qed (simp add: emit_turn_def Let_def)

lemma bus_step_subs: "map pg_subs (bu_plugs (bus_step x b)) = map pg_subs (bu_plugs b)"
  by (cases x) (simp_all add: bus_emit_def dispatch_turn_def take_turn_def emit_turn_subs dispatch_stop_def handler_stop_def Let_def
      split: option.splits list.splits prod.splits)

lemma bus_run_subs: "map pg_subs (bu_plugs (bus_run ins b)) = map pg_subs (bu_plugs b)"
  by (induction ins arbitrary: b) (simp_all add: bus_run_def bus_step_subs)

text \<open>C7: critical events (scores, detections, alerts) are delivered: in every interleaving of emitters, dispatcher and
  handlers, and until its handler ends in a shutdown, the critical events a subscribed plugin has handled, followed by those in its queue and those still on the
  way to it, are exactly the critical events of its kinds that entered the bus, in that order; the queues stay within the
  configured depth, and while the bus runs the emitter of a critical event gets it accepted or waits, and is never told
  that it was dropped.\<close>

theorem critical_delivery:
  fixes cfg :: host_config and ps :: "(string \<times> subscriptions) list" and ins :: "bus_input list"
  defines "b \<equiv> bus_run ins (bus_start cfg ps)"
  assumes "i < length ps"
  shows "(let p = bu_plugs b ! i; mine = filter (\<lambda>ev. is_critical_kind (kind ev) \<and> sub_matches (snd (ps ! i)) (kind ev)) in
      (pg_alive p \<longrightarrow> mine (pg_taken p) @ mine (pg_queue p) @ mine (on_the_way i b) = mine (bu_accepted b))
      \<and> length (pg_queue p) \<le> bu_depth b \<and> length (bu_ingress b) \<le> bu_depth b)
    \<and> (is_critical_kind (kind ev) \<and> bu_open b \<longrightarrow> bus_emit ev b \<in> {(True, bus_accept ev b), (False, b)})"
proof -
  have len: "length (bu_plugs b) = length ps" and subs: "map pg_subs (bu_plugs b) = map snd ps"
    using map_eq_imp_length_eq [OF bus_run_subs [of ins "bus_start cfg ps"]] bus_run_subs [of ins "bus_start cfg ps"]
    by (simp_all add: b_def)
  have "pg_subs (bu_plugs b ! i) = snd (ps ! i)" using subs assms(2) len by (metis nth_map)
  then have w: "wanted (bu_plugs b ! i) = (\<lambda>ev. is_critical_kind (kind ev) \<and> sub_matches (snd (ps ! i)) (kind ev))"
    by (auto simp: wanted_def fun_eq_iff)
  note D = delivered_okD [OF bus_run_ok [OF bus_start_ok [of cfg ps], of ins, folded b_def]]
  show ?thesis using D(1) [of i] D(2) D(3) [of i] assms(2) len
    by (auto simp: w Let_def bus_emit_def)
qed

section \<open>Back-pressure can close a cycle\<close>

definition demo_subs :: subscriptions where
  "demo_subs = subscription_kinds [''detection'', ''process.exec'', ''session.end'']"

definition demo_det :: event where
  "demo_det = event_new 1 0 ''agent-1'' ''agent-detect'' (Detection ''uid:0'' Agent (Fin 1) ''m'' [] [])"

definition demo_score :: event where
  "demo_score = event_new 2 0 ''agent-1'' ''scoring'' (Score ''uid:0'' ''risk'' (Fin 1) [])"

definition demo_bus :: "nat \<Rightarrow> bus" where
  "demo_bus d = bus_start ((host_config_new ''agent-1'')\<lparr>hc_queue_depth := d\<rparr>) [(''scoring'', demo_subs)]"

lemma critical_delivery_witness:
  "is_critical_kind (kind demo_det) \<and> bu_open (demo_bus 4)
    \<and> pg_taken (bu_plugs (bus_run [Emit demo_det, DispatchTurn, DispatchTurn, TakeTurn 0 []] (demo_bus 4)) ! 0) = [demo_det]
    \<and> bus_emit demo_det (demo_bus 4) \<in> {(True, bus_accept demo_det (demo_bus 4)), (False, demo_bus 4)}"
  using critical_delivery [where i = 0 and ps = "[(''scoring'', demo_subs)]" and ev = demo_det and ins = "[]"
    and cfg = "(host_config_new ''agent-1'')\<lparr>hc_queue_depth := 4\<rparr>"]
  by (simp add: demo_bus_def bus_run_def bus_start_def host_config_new_def bus_emit_def bus_accept_def dispatch_turn_def
      take_turn_def set_plug_def demo_subs_def demo_det_def is_critical_kind_def)

text \<open>The inputs of \<open>jam d\<close>: detections reach the handler, which answers the first one with a score, until every queue is full.\<close>

definition jam :: "nat \<Rightarrow> bus_input list" where
  "jam d = [Emit demo_det, DispatchTurn, DispatchTurn, DispatchTurn, TakeTurn 0 [demo_score]]
     @ concat (replicate d [Emit demo_det, DispatchTurn, DispatchTurn, DispatchTurn])
     @ [Emit demo_det, DispatchTurn] @ replicate d (Emit demo_det)"

definition jammed :: "nat \<Rightarrow> nat \<Rightarrow> nat \<Rightarrow> (event \<times> nat) option \<Rightarrow> bus" where
  "jammed d q m cur =
     \<lparr>bu_agent = ''agent-1'', bu_depth = d, bu_stopping = False, bu_open = True, bu_ingress = replicate m demo_det, bu_current = cur,
      bu_plugs = [\<lparr>pg_name = ''scoring'', pg_subs = demo_subs, pg_alive = True, pg_queue = replicate q demo_det,
                   pg_work = [demo_score], pg_taken = [demo_det]\<rparr>],
      bu_ingress_full = 0, bu_ingress_closed = 0, bu_fanout_full = 0,
      bu_accepted = replicate (1 + q + m + (if cur = None then 0 else 1)) demo_det\<rparr>"

lemma demo_kinds [simp]:
  "is_critical_kind (kind demo_det)" "is_critical_kind (kind demo_score)" "sub_matches demo_subs (kind demo_det)"
  "scoped ''scoring'' ''agent-1'' demo_score = demo_score"
  by (simp_all add: demo_det_def demo_score_def demo_subs_def is_critical_kind_def scoped_def event_new_def)

lemma bus_run_append [simp]: "bus_run (xs @ ys) b = bus_run ys (bus_run xs b)"
  by (simp add: bus_run_def)

lemma jam_start:
  "0 < d \<Longrightarrow> bus_run [Emit demo_det, DispatchTurn, DispatchTurn, DispatchTurn, TakeTurn 0 [demo_score]] (demo_bus d)
    = jammed d 0 0 None"
  by (simp add: demo_bus_def bus_run_def bus_start_def host_config_new_def bus_emit_def bus_accept_def dispatch_turn_def
      take_turn_def set_plug_def jammed_def)

lemma jam_queue_step:
  "q < d \<Longrightarrow> bus_run [Emit demo_det, DispatchTurn, DispatchTurn, DispatchTurn] (jammed d q 0 None) = jammed d (Suc q) 0 None"
  by (simp add: bus_run_def bus_emit_def bus_accept_def dispatch_turn_def set_plug_def jammed_def replicate_append_same)

lemma jam_queue:
  "q + n \<le> d \<Longrightarrow> bus_run (concat (replicate n [Emit demo_det, DispatchTurn, DispatchTurn, DispatchTurn])) (jammed d q 0 None)
    = jammed d (q + n) 0 None"
proof (induction n arbitrary: q)
  case (Suc n)
  then show ?case using jam_queue_step [of q d] Suc.IH [of "Suc q"] by (simp only: replicate_Suc concat.simps bus_run_append) simp
qed (simp add: bus_run_def)

lemma jam_current:
  "0 < d \<Longrightarrow> bus_run [Emit demo_det, DispatchTurn] (jammed d q 0 None) = jammed d q 0 (Some (demo_det, 0))"
  by (simp add: bus_run_def bus_emit_def bus_accept_def dispatch_turn_def jammed_def replicate_append_same)

lemma jam_ingress:
  "m + n \<le> d \<Longrightarrow> bus_run (replicate n (Emit demo_det)) (jammed d q m (Some c)) = jammed d q (m + n) (Some c)"
proof (induction n arbitrary: m)
  case (Suc n)
  then have "bus_step (Emit demo_det) (jammed d q m (Some c)) = jammed d q (Suc m) (Some c)"
    by (simp add: bus_emit_def bus_accept_def jammed_def replicate_append_same)
  then show ?case using Suc.IH [of "Suc m"] Suc.prems by (simp add: bus_run_def)
qed (simp add: bus_run_def)

lemma jam_jams: "0 < d \<Longrightarrow> bus_run (jam d) (demo_bus d) = jammed d d d (Some (demo_det, 0))"
  unfolding jam_def bus_run_append
  using jam_queue [of 0 d d] jam_ingress [of 0 d d d "(demo_det, 0)"] by (simp only: jam_start jam_current) simp

definition jammed_frozen :: "nat \<Rightarrow> bool \<Rightarrow> nat \<Rightarrow> bus" where
  "jammed_frozen d st k = (jammed d d d (Some (demo_det, 0)))\<lparr>bu_stopping := st, bu_ingress_full := k\<rparr>"

lemma jammed_stuck: "\<exists>st' k'. bus_step x (jammed_frozen d st k) = jammed_frozen d st' k'"
proof (cases x)
  case (Emit ev)
  then show ?thesis
    by (intro exI [of _ st] exI [of _ "if is_critical_kind (kind ev) then k else Suc k"])
      (simp add: bus_emit_def jammed_frozen_def jammed_def)
next
  case StopBus
  then show ?thesis by (intro exI [of _ True] exI [of _ k]) (simp add: jammed_frozen_def jammed_def)
next
  case (TakeTurn i evs)
  then show ?thesis
    by (intro exI [of _ st] exI [of _ k]) (cases i, simp_all add: take_turn_def jammed_frozen_def jammed_def)
next
  case (EmitTurn i)
  then show ?thesis
    by (intro exI [of _ st] exI [of _ k]) (cases i, simp_all add: emit_turn_def jammed_frozen_def jammed_def bus_emit_def)
next
  case (HandlerStop i)
  then show ?thesis
    by (intro exI [of _ st] exI [of _ k]) (cases i, simp_all add: handler_stop_def jammed_frozen_def jammed_def)
qed (intro exI [of _ st] exI [of _ k], simp add: dispatch_turn_def dispatch_stop_def jammed_frozen_def jammed_def)+

text \<open>C8: the waits for critical events can close a cycle: whatever the queue depth, a burst of detections
  answered by a score reaches a state in which the dispatcher waits for the handler's queue, the handler waits to emit
  its score, and the ingress queue is full of detections only the dispatcher can remove. No later sequence of emissions,
  dispatcher turns, handler turns and shutdown requests changes anything but the drop counter and the shutdown flag:
  the detections are never handled, and neither task ever ends.\<close>

theorem bus_deadlock:
  assumes "0 < d"
  shows "let b = bus_run (jam d) (demo_bus d) in
    (\<exists>st k. bus_run ins b = b\<lparr>bu_stopping := st, bu_ingress_full := k\<rparr>)
    \<and> pg_queue (bu_plugs b ! 0) = replicate d demo_det \<and> pg_work (bu_plugs b ! 0) = [demo_score]
    \<and> bu_ingress b = replicate d demo_det \<and> bu_open b \<and> pg_alive (bu_plugs b ! 0)"
proof -
  have "\<exists>st' k'. bus_run ins (jammed_frozen d st k) = jammed_frozen d st' k'" for st k
  proof (induction ins arbitrary: st k)
    case (Cons x ins)
    obtain st' k' where "bus_step x (jammed_frozen d st k) = jammed_frozen d st' k'" using jammed_stuck by blast
    then show ?case using Cons by (simp add: bus_run_def)
  qed (auto simp: bus_run_def)
  from this [of False 0] show ?thesis using jam_jams [OF assms] by (simp add: Let_def jammed_frozen_def jammed_def)
qed

lemma bus_deadlock_witness:
  "\<exists>st k. bus_run [StopBus, DispatchTurn, EmitTurn 0, HandlerStop 0] (bus_run (jam 4096) (demo_bus 4096))
    = (bus_run (jam 4096) (demo_bus 4096))\<lparr>bu_stopping := st, bu_ingress_full := k\<rparr>"
  using bus_deadlock [of 4096 "[StopBus, DispatchTurn, EmitTurn 0, HandlerStop 0]"] by (simp only: Let_def)

end
