(* ===== verification/Pipeline.thy ===== *)
theory Pipeline
  imports Session Sink Scoring Bus
begin

text \<open>
  The parts of a running server together, as \<^verbatim>\<open>crates/aegis-server/src/main.rs\<close> wires them: what the ingest path puts on
  the bus, the bus with its scoped emitters, the scoring plugin and the store sink. No definitions of the program are added;
  \<open>wire_only\<close> says that outside the plugins only ingested events are emitted.
\<close>

section \<open>Where the events of a bus come from\<close>

definition bus_events :: "bus \<Rightarrow> event set" where
  "bus_events b =
     set (bu_ingress b) \<union> (case bu_current b of None \<Rightarrow> {} | Some (ev, i) \<Rightarrow> {ev})
     \<union> (\<Union>p \<in> set (bu_plugs b). set (pg_queue p) \<union> set (pg_work p) \<union> set (pg_taken p))"

fun wire_only :: "bus_input \<Rightarrow> bool" where
  "wire_only (Emit ev) \<longleftrightarrow> is_ingestible (kind ev)"
| "wire_only _ \<longleftrightarrow> True"

text \<open>A derived event was stamped by the emitter of a plugin.\<close>

definition stamped_derived :: "bus \<Rightarrow> event \<Rightarrow> bool" where
  "stamped_derived b ev \<longleftrightarrow>
     is_ingestible (kind ev) \<or> agent_id ev = bu_agent b \<and> source ev \<in> pg_name ` set (bu_plugs b)"

definition prov_ok :: "bus \<Rightarrow> bool" where
  "prov_ok b \<longleftrightarrow> (\<forall>ev \<in> bus_events b. stamped_derived b ev)"

lemma bus_events_flags [simp]:
  "bus_events (b\<lparr>bu_open := v\<rparr>) = bus_events b" "bus_events (b\<lparr>bu_stopping := v\<rparr>) = bus_events b"
  by (simp_all add: bus_events_def)

lemma bus_events_set_plug:
  assumes "i < length (bu_plugs b)"
    and "set (pg_queue p) \<union> set (pg_work p) \<union> set (pg_taken p) \<subseteq> E"
  shows "bus_events (set_plug i p b) \<subseteq> bus_events b \<union> E"
  using assms set_update_subset_insert [of "bu_plugs b" i p] by (fastforce simp: bus_events_def)

lemma plug_events:
  "i < length (bu_plugs b) \<Longrightarrow>
   set (pg_queue (bu_plugs b ! i)) \<union> set (pg_work (bu_plugs b ! i)) \<union> set (pg_taken (bu_plugs b ! i)) \<subseteq> bus_events b"
  using nth_mem [of i "bu_plugs b"] by (fastforce simp: bus_events_def)

lemma bus_emit_events: "bus_events (snd (bus_emit ev b)) \<subseteq> insert ev (bus_events b)"
  by (auto simp: bus_emit_def bus_events_def)

lemma emit_turn_events: "bus_events (emit_turn i b) \<subseteq> bus_events b"
proof (cases "length (bu_plugs b) \<le> i \<or> pg_work (bu_plugs b ! i) = []")
  case False
  then obtain ev rest where i: "i < length (bu_plugs b)" and w: "pg_work (bu_plugs b ! i) = ev # rest"
    by (auto simp: neq_Nil_conv)
  obtain d b' where e: "bus_emit ev b = (d, b')" by fastforce
  have p: "bu_plugs b' = bu_plugs b" using e by (auto simp: bus_emit_def split: if_splits)
  have "ev \<in> bus_events b" using plug_events [OF i] w by auto
  then have sub: "bus_events b' \<subseteq> bus_events b" using bus_emit_events [of ev b] e by auto
  have "bus_events (set_plug i ((bu_plugs b ! i)\<lparr>pg_work := rest\<rparr>) b') \<subseteq> bus_events b' \<union> bus_events b"
    using i p plug_events [OF i] w by (intro bus_events_set_plug) auto
  then show ?thesis using False i w e sub by (auto simp: emit_turn_def Let_def split: bool.splits)
qed (auto simp: emit_turn_def Let_def)

lemma take_turn_events:
  "bus_events (take_turn i evs b) \<subseteq> bus_events b \<union> (if i < length (bu_plugs b)
     then scoped (pg_name (bu_plugs b ! i)) (bu_agent b) ` set evs else {})"
proof (cases "i < length (bu_plugs b) \<and> pg_alive (bu_plugs b ! i) \<and> pg_work (bu_plugs b ! i) = []")
  case True
  let ?p = "bu_plugs b ! i"
  show ?thesis
  proof (cases "pg_queue ?p")
    case (Cons ev rest)
    let ?p' = "?p\<lparr>pg_queue := rest, pg_work := map (scoped (pg_name ?p) (bu_agent b)) evs, pg_taken := pg_taken ?p @ [ev]\<rparr>"
    have "set (pg_queue ?p') \<union> set (pg_work ?p') \<union> set (pg_taken ?p')
        \<subseteq> bus_events b \<union> scoped (pg_name ?p) (bu_agent b) ` set evs"
      using plug_events [of i b] True Cons by auto
    then have "bus_events (set_plug i ?p' b) \<subseteq> bus_events b \<union> (bus_events b \<union> scoped (pg_name ?p) (bu_agent b) ` set evs)"
      using True by (intro bus_events_set_plug) simp_all
    then show ?thesis using True Cons by (auto simp: take_turn_def Let_def)
  qed (use True in \<open>simp add: take_turn_def\<close>)
qed (auto simp: take_turn_def Let_def)

lemma dispatch_turn_events: "bus_events (dispatch_turn b) \<subseteq> bus_events b"
proof (cases "bu_current b")
  case None
  then show ?thesis by (auto simp: dispatch_turn_def bus_events_def split: list.splits)
next
  case (Some c)
  obtain ev i where c: "bu_current b = Some (ev, i)" using Some by (cases c) simp
  let ?b = "b\<lparr>bu_current := Some (ev, i + 1)\<rparr>"
  have b: "bus_events ?b = bus_events b" "bus_events (?b\<lparr>bu_fanout_full := n\<rparr>) = bus_events b"
    "bus_events (b\<lparr>bu_current := None\<rparr>) \<subseteq> bus_events b" for n
    using c by (auto simp: bus_events_def)
  have ev: "ev \<in> bus_events b" using c by (auto simp: bus_events_def)
  have push: "bus_events (set_plug i ((bu_plugs b ! i)\<lparr>pg_queue := pg_queue (bu_plugs b ! i) @ [ev]\<rparr>) ?b) \<subseteq> bus_events b"
    if "i < length (bu_plugs b)"
  proof -
    have "bus_events (set_plug i ((bu_plugs b ! i)\<lparr>pg_queue := pg_queue (bu_plugs b ! i) @ [ev]\<rparr>) ?b) \<subseteq> bus_events ?b \<union> bus_events b"
      using that plug_events [OF that] ev by (intro bus_events_set_plug) auto
    then show ?thesis using b by simp
  qed
  show ?thesis using c b push by (auto simp: dispatch_turn_def Let_def not_le)
qed

lemma handler_stop_events: "bus_events (handler_stop i b) \<subseteq> bus_events b"
proof (cases "i < length (bu_plugs b)")
  case True
  have "bus_events (set_plug i ((bu_plugs b ! i)\<lparr>pg_alive := False\<rparr>) b) \<subseteq> bus_events b \<union> bus_events b"
    using True plug_events [OF True] by (intro bus_events_set_plug) auto
  then show ?thesis by (auto simp: handler_stop_def Let_def)
qed (simp add: handler_stop_def)

lemma set_plug_names:
  "pg_name p = pg_name (bu_plugs b ! i) \<Longrightarrow> map pg_name ((bu_plugs b)[i := p]) = map pg_name (bu_plugs b)"
  by (metis list_update_id map_update)

lemma emit_turn_names: "map pg_name (bu_plugs (emit_turn i b)) = map pg_name (bu_plugs b) \<and> bu_agent (emit_turn i b) = bu_agent b"
proof (cases "pg_work (bu_plugs b ! i)")
  case (Cons ev rest)
  obtain d b' where e: "bus_emit ev b = (d, b')" by fastforce
  have p: "bu_plugs b' = bu_plugs b" "bu_agent b' = bu_agent b"
    using e by (auto simp: bus_emit_def bus_accept_def split: if_splits)
  have "map pg_name ((bu_plugs b)[i := (bu_plugs b ! i)\<lparr>pg_work := rest\<rparr>]) = map pg_name (bu_plugs b)"
    by (rule set_plug_names) simp
  then show ?thesis using Cons e p by (simp add: emit_turn_def Let_def split: bool.splits)
qed (simp add: emit_turn_def Let_def)

lemma dispatch_turn_names:
  "map pg_name (bu_plugs (dispatch_turn b)) = map pg_name (bu_plugs b) \<and> bu_agent (dispatch_turn b) = bu_agent b"
  by (simp add: dispatch_turn_def set_plug_names Let_def split: option.split list.split prod.split)

lemma take_turn_names:
  "map pg_name (bu_plugs (take_turn i evs b)) = map pg_name (bu_plugs b) \<and> bu_agent (take_turn i evs b) = bu_agent b"
  by (simp add: take_turn_def set_plug_names Let_def split: list.split)

lemma handler_stop_names:
  "map pg_name (bu_plugs (handler_stop i b)) = map pg_name (bu_plugs b) \<and> bu_agent (handler_stop i b) = bu_agent b"
  by (simp add: handler_stop_def set_plug_names Let_def)

lemma bus_step_names:
  "map pg_name (bu_plugs (bus_step x b)) = map pg_name (bu_plugs b) \<and> bu_agent (bus_step x b) = bu_agent b"
  by (cases x) (simp_all add: emit_turn_names dispatch_turn_names take_turn_names handler_stop_names
      bus_emit_def bus_accept_def dispatch_stop_def)

lemma stamped_same: "stamped_derived (bus_step x b) ev \<longleftrightarrow> stamped_derived b ev"
  using bus_step_names [of x b] by (metis list.set_map stamped_derived_def)

lemma bus_step_prov:
  assumes "prov_ok b" and "wire_only x"
  shows "prov_ok (bus_step x b)"
proof -
  have sub: "prov_ok (bus_step x b)" if "\<And>ev. ev \<in> bus_events (bus_step x b) \<Longrightarrow> ev \<in> bus_events b \<or> stamped_derived b ev"
    using that assms(1) unfolding prov_ok_def stamped_same by blast
  have scoped: "stamped_derived b (scoped (pg_name (bu_plugs b ! i)) (bu_agent b) ev)" if "i < length (bu_plugs b)" for i ev
    using that by (auto simp: stamped_derived_def scoped_def)
  show ?thesis
  proof (cases x)
    case (Emit ev)
    then show ?thesis using assms(2) bus_emit_events [of ev b] by (intro sub) (auto simp: stamped_derived_def)
  next
    case (TakeTurn i evs)
    show ?thesis
    proof (rule sub)
      fix ev
      assume "ev \<in> bus_events (bus_step x b)"
      then show "ev \<in> bus_events b \<or> stamped_derived b ev"
        using TakeTurn take_turn_events [of i evs b] scoped by (auto split: if_splits)
    qed
  next
    case DispatchTurn
    then show ?thesis using dispatch_turn_events [of b] by (intro sub) auto
  next
    case (EmitTurn i)
    then show ?thesis using emit_turn_events [of i b] by (intro sub) auto
  next
    case (HandlerStop i)
    then show ?thesis using handler_stop_events [of i b] by (intro sub) auto
  qed (rule sub, simp add: dispatch_stop_def split: if_splits)+
qed

lemma bus_run_prov: "prov_ok b \<Longrightarrow> list_all wire_only ins \<Longrightarrow> prov_ok (bus_run ins b)"
  by (induction ins arbitrary: b) (simp_all add: bus_run_def bus_step_prov)

lemma bus_run_names:
  "map pg_name (bu_plugs (bus_run ins b)) = map pg_name (bu_plugs b) \<and> bu_agent (bus_run ins b) = bu_agent b"
  by (induction ins arbitrary: b) (simp_all add: bus_run_def bus_step_names)

lemma bus_start_names [simp]:
  "map pg_name (bu_plugs (bus_start cfg ps)) = map fst ps" "bu_agent (bus_start cfg ps) = hc_agent_id cfg"
  by (simp_all add: bus_start_def case_prod_unfold)

lemma bus_start_prov: "prov_ok (bus_start cfg ps)"
  by (simp add: prov_ok_def bus_events_def bus_start_def case_prod_unfold)

lemma derived_stamped:
  assumes "b = bus_run ins (bus_start cfg ps)" and "list_all wire_only ins" and "i < length (bu_plugs b)"
    and "ev \<in> set (pg_taken (bu_plugs b ! i))" and "\<not> is_ingestible (kind ev)"
  shows "agent_id ev = hc_agent_id cfg \<and> source ev \<in> fst ` set ps"
proof -
  have "ev \<in> bus_events b" using plug_events [OF assms(3)] assms(4) by auto
  then have "stamped_derived b ev" using bus_run_prov [OF bus_start_prov assms(2)] by (simp add: prov_ok_def assms(1))
  moreover have "set (map pg_name (bu_plugs b)) = set (map fst ps)" "bu_agent b = hc_agent_id cfg"
    using bus_run_names [of ins "bus_start cfg ps"] by (simp_all only: assms(1) bus_start_names)
  ultimately show ?thesis using assms(5) by (simp add: stamped_derived_def)
qed




section \<open>Scores belong to the server, not to the agents\<close>

lemma sink_handle_scores:
  assumes "datastore (sk_tables K) (sk_postcard K)" and "sink_handle K new_id fresh ev st = (r, st')"
  shows "t_scores st' = t_scores st \<or> kind ev = ''score'' \<and> (\<exists>row. sr_agent_id row = agent_id ev \<and>
     (\<exists>b. enc (pc_score (sk_postcard K)) row = Some b
        \<and> t_scores st' = tinsert (sk_tables K) (str_bytes (subject_key (sr_agent_id row) (sr_subject row))) b (t_scores st)))"
proof -
  obtain w st1 where w: "write_event (sk_tables K) (sk_postcard K) (sk_payload K) (sk_io K 0) ev st = (w, st1)" by fastforce
  have 1: "t_scores st1 = t_scores st"
    using w by (auto simp: write_event_def Let_def split: option.splits sum.splits if_splits)
  have pub: "snd (published l x) = snd x" for l and x :: "(store_error + unit) \<times> 'a store"
    by (cases x) (simp add: published_def split: sum.split)
  have det: "t_scores (snd (sink_detection K ev st1)) = t_scores st1"
    by (simp add: sink_detection_def pub upsert_detection_def split: option.split sum.split)
  have alert: "t_scores (snd (sink_alert K new_id fresh ev st1)) = t_scores st1"
    by (simp add: sink_alert_def pub append_alert_def split: option.split sum.split)
  have "snd (sink_heartbeat K ev st1) = snd (touch_agent (sk_tables K) (sk_postcard K) (sk_io K 1) (agent_id ev) (ts_ns ev) st1)"
    by (simp add: sink_heartbeat_def Let_def split: prod.split sum.split)
  moreover obtain res st2 where q: "touch_agent (sk_tables K) (sk_postcard K) (sk_io K 1) (agent_id ev) (ts_ns ev) st1 = (res, st2)"
    by fastforce
  ultimately have beat: "t_scores (snd (sink_heartbeat K ev st1)) = t_scores st1"
    using datastore.touch_agent_tbl [OF assms(1) q] by simp
  have score: "t_scores (snd (sink_score K ev st1)) = t_scores st1 \<or> (\<exists>row. sr_agent_id row = agent_id ev \<and>
     (\<exists>b. enc (pc_score (sk_postcard K)) row = Some b \<and> t_scores (snd (sink_score K ev st1))
         = tinsert (sk_tables K) (str_bytes (subject_key (sr_agent_id row) (sr_subject row))) b (t_scores st1)))"
  proof (cases "score_row_of ev")
    case (Some row)
    then have "sr_agent_id row = agent_id ev" by (auto simp: score_row_of_def split: event_payload.splits)
    then show ?thesis using Some
      by (auto simp: sink_score_def pub upsert_score_def write_cell_def split: sum.splits option.splits if_splits)
  qed (simp add: sink_score_def)
  show ?thesis using assms(2) w 1 det alert beat score
    by (cases w) (auto simp: sink_handle_def split: if_splits)
qed

text \<open>Every row of the score table belongs to one of the given agents.\<close>

definition scores_of :: "string set \<Rightarrow> 't sink_env \<Rightarrow> 't store \<Rightarrow> bool" where
  "scores_of X K st \<longleftrightarrow>
     (\<forall>(k, v) \<in> set (trows (sk_tables K) (t_scores st)). \<forall>r. dec (pc_score (sk_postcard K)) v = Some r \<longrightarrow> sr_agent_id r \<in> X)"

lemma sink_handle_scores_of:
  assumes "datastore (sk_tables K) (sk_postcard K)" and "scores_of X K st" and "kind ev = ''score'' \<Longrightarrow> agent_id ev \<in> X"
  shows "scores_of X K (snd (sink_handle K new_id fresh ev st))"
proof -
  obtain r st' where h: "sink_handle K new_id fresh ev st = (r, st')" by fastforce
  from sink_handle_scores [OF assms(1) h] show ?thesis
  proof
    assume "t_scores st' = t_scores st"
    then show ?thesis using assms(2) h by (simp add: scores_of_def)
  next
    assume "kind ev = ''score'' \<and> (\<exists>row. sr_agent_id row = agent_id ev \<and> (\<exists>b. enc (pc_score (sk_postcard K)) row = Some b
        \<and> t_scores st' = tinsert (sk_tables K) (str_bytes (subject_key (sr_agent_id row) (sr_subject row))) b (t_scores st)))"
    then obtain row b k where row: "sr_agent_id row \<in> X" "enc (pc_score (sk_postcard K)) row = Some b"
      "t_scores st' = tinsert (sk_tables K) k b (t_scores st)" using assms(3) by (metis (no_types))
    have "trows (sk_tables K) (t_scores st') = bt_insert k b (trows (sk_tables K) (t_scores st))"
      unfolding row(3) by (rule ordered_table.rows_insert [OF datastore.axioms(1) [OF assms(1)]])
    then have "set (trows (sk_tables K) (t_scores st')) \<subseteq> insert (k, b) (set (trows (sk_tables K) (t_scores st)))"
      using set_bt_insert_subset by metis
    moreover have "dec (pc_score (sk_postcard K)) b = Some row"
      using codec_okD [OF datastore.codecs(4) [OF assms(1)] UNIV_I row(2)] .
    ultimately show ?thesis using assms(2) row(1) h by (fastforce simp: scores_of_def)
  qed
qed

lemma sink_run_scores_of:
  "datastore (sk_tables K) (sk_postcard K) \<Longrightarrow> scores_of X K st
   \<Longrightarrow> \<forall>(i, u, ev) \<in> set evs. kind ev = ''score'' \<longrightarrow> agent_id ev \<in> X \<Longrightarrow> scores_of X K (snd (sink_run K evs st))"
proof (induction evs arbitrary: st)
  case (Cons x evs)
  obtain i u ev where x: "x = (i, u, ev)" by (cases x)
  have "scores_of X K (snd (sink_handle K i u ev st))"
    using Cons.prems x by (intro sink_handle_scores_of) auto
  then show ?case using Cons.IH [OF Cons.prems(1), of "snd (sink_handle K i u ev st)"] Cons.prems(3) x
    by (auto simp: split_beta)
qed simp

lemma decode_rows_mem:
  "decode_rows c io rows = Inr rs \<Longrightarrow> (k, r) \<in> set rs \<Longrightarrow> \<exists>v. (k, v) \<in> set rows \<and> dec c v = Some r"
  by (induction rows arbitrary: rs) (fastforce split: if_splits option.splits sum.splits prod.splits)+

lemma scores_for_agent_empty:
  assumes "datastore (sk_tables K) (sk_postcard K)" and "scores_of X K st" and "A \<notin> X" and "scores_for_agent (sk_tables K) (sk_postcard K) io A st = Inr rows"
  shows "rows = []"
proof -
  obtain krs where d: "decode_rows (pc_score (sk_postcard K)) io (trows (sk_tables K) (t_scores st)) = Inr krs"
    "rows = filter (\<lambda>r. sr_agent_id r = A) (map snd krs)"
    using assms(4) by (auto simp: scores_for_agent_def store_scores_def read_all_def map_sum_def split: sum.splits if_splits)
  have "sr_agent_id r \<in> X" if "r \<in> set (map snd krs)" for r
    using decode_rows_mem [OF d(1)] that assms(2) by (fastforce simp: scores_of_def)
  then show ?thesis using assms(3) d(2) by (auto simp: filter_empty_conv)
qed

text \<open>C11: On the server, no risk score is ever filed under an agent: derived events are stamped with the server's own
  id, so after any run of the bus, whatever the store sink has written of the events it handled, the per-agent
  score query of every agent other than the server itself answers with no rows.\<close>

theorem scores_never_filed_under_agents:
  fixes cfg :: host_config and ps :: "(string \<times> subscriptions) list" and ins :: "bus_input list"
  defines "b \<equiv> bus_run ins (bus_start cfg ps)"
  assumes "list_all wire_only ins" and "i < length (bu_plugs b)"
    and "datastore (sk_tables K) (sk_postcard K)" and "trows (sk_tables K) (t_scores st) = []"
    and "map (\<lambda>(new_id, fresh, ev). ev) handled = pg_taken (bu_plugs b ! i)" and "A \<noteq> hc_agent_id cfg"
    and "scores_for_agent (sk_tables K) (sk_postcard K) io A (snd (sink_run K handled st)) = Inr rows"
  shows "rows = []"
proof -
  have derived: "\<not> is_ingestible ''score''" by (simp add: is_ingestible_def INGESTIBLE_KINDS_def)
  have "agent_id ev \<in> {hc_agent_id cfg}" if "(new_id, fresh, ev) \<in> set handled" "kind ev = ''score''" for new_id fresh ev
  proof -
    have "ev \<in> set (map (\<lambda>(new_id, fresh, ev). ev) handled)" using that(1) by force
    then have "ev \<in> set (pg_taken (bu_plugs b ! i))" by (simp only: assms(6))
    then show ?thesis using derived_stamped [OF _ assms(2), of b cfg ps i ev] assms(3) that(2) derived by (simp add: b_def)
  qed
  then have "scores_of {hc_agent_id cfg} K (snd (sink_run K handled st))"
    using assms(4,5) by (intro sink_run_scores_of) (auto simp: scores_of_def)
  then show ?thesis using scores_for_agent_empty [OF assms(4)] assms(7,8) by blast
qed


definition demo_exec :: event where
  "demo_exec = event_new 4 8 ''a'' ''plugin-process'' (ProcessExec 1 1 0 ''nc'' [] None)"

definition demo_server :: "bus_input list" where
  "demo_server =
     [Emit demo_exec, DispatchTurn, DispatchTurn, DispatchTurn, DispatchTurn, TakeTurn 0 [demo_scored], EmitTurn 0,
      DispatchTurn, DispatchTurn, DispatchTurn, DispatchTurn, TakeTurn 1 []]"

lemma demo_server_run:
  "bu_plugs (bus_run demo_server (bus_start (host_config_new ''aegisd'')
       [(''plugin-scoring'', scoring_subscriptions), (''store-sink'', sink_subscriptions)])) ! 1
   = \<lparr>pg_name = ''store-sink'', pg_subs = sink_subscriptions, pg_alive = True, pg_queue = [], pg_work = [], pg_taken = [demo_scored]\<rparr>"
proof -
  have k: "kind demo_exec = ''process.exec''" "kind demo_scored = ''score''" "is_critical_kind ''score''"
    "scoped ''plugin-scoring'' ''aegisd'' demo_scored = demo_scored"
    by (simp_all add: demo_exec_def demo_scored_def event_new_def is_critical_kind_def scoped_def)
  have m: "sub_matches scoring_subscriptions ''process.exec''" "\<not> sub_matches sink_subscriptions ''process.exec''"
    "\<not> sub_matches scoring_subscriptions ''score''" "sub_matches sink_subscriptions ''score''"
    by (simp_all add: scoring_subscriptions_def sink_subscriptions_def)
  show ?thesis
    by (simp add: demo_server_def bus_run_def bus_start_def host_config_new_def bus_emit_def bus_accept_def dispatch_turn_def
      take_turn_def emit_turn_def set_plug_def k m)
qed

lemma scores_never_filed_under_agents_witness:
  "\<exists>rows. scores_for_agent rbt_table (sk_postcard demo_sink) io_fine ''a''
       (snd (sink_run demo_sink [(''i'', 7, demo_scored)] demo_empty)) = Inr rows \<and> rows = []"
proof -
  let ?cfg = "host_config_new ''aegisd''" and ?ps = "[(''plugin-scoring'', scoring_subscriptions), (''store-sink'', sink_subscriptions)]"
  obtain st' where r: "sink_handle demo_sink ''i'' 7 demo_scored demo_empty = (Inr [LiveScore ''aegisd'' ''uid:0'' (Fin 1) 9], st')"
    using demo_score_run by blast
  then have run: "snd (sink_run demo_sink [(''i'', 7, demo_scored)] demo_empty) = st'" by simp
  have "t_scores st' = tinsert rbt_table (str_bytes (subject_key ''aegisd'' ''uid:0'')) [0] (tempty rbt_table)"
    using r by (simp add: sink_handle_def sink_score_def score_row_of_def published_def upsert_score_def demo_sink_simps)
      (metis (no_types, lifting) store.select_convs(4) store.simps)
  then have rows: "\<exists>rows. scores_for_agent (sk_tables demo_sink) (sk_postcard demo_sink) io_fine ''a'' st' = Inr rows"
    by (simp add: scores_for_agent_def store_scores_def read_all_def demo_sink_simps rbt.rows_insert rbt.rows_empty)
  then obtain rows where q: "scores_for_agent (sk_tables demo_sink) (sk_postcard demo_sink) io_fine ''a''
      (snd (sink_run demo_sink [(''i'', 7, demo_scored)] demo_empty)) = Inr rows" unfolding run by blast
  have "rows = []"
  proof (rule scores_never_filed_under_agents [where cfg = ?cfg and ps = ?ps and ins = demo_server and i = 1, OF _ _ _ _ _ _ q])
    show "list_all wire_only demo_server"
      by (simp add: demo_server_def demo_exec_def event_new_def is_ingestible_def INGESTIBLE_KINDS_def)
    have "length (bu_plugs (bus_run demo_server (bus_start ?cfg ?ps))) = 2"
      using bus_run_names [of demo_server "bus_start ?cfg ?ps"] by (metis bus_start_names(1) length_Cons length_map list.size(3) numeral_2_eq_2)
    then show "1 < length (bu_plugs (bus_run demo_server (bus_start ?cfg ?ps)))" by simp
    show "datastore (sk_tables demo_sink) (sk_postcard demo_sink)" by (simp add: demo_sink_def rbt_datastore)
    show "trows (sk_tables demo_sink) (t_scores demo_empty) = []" by (simp add: demo_sink_def demo_empty_def rbt.rows_empty)
    show "map (\<lambda>(new_id, fresh, ev). ev) [(''i'', 7, demo_scored)] = pg_taken (bu_plugs (bus_run demo_server (bus_start ?cfg ?ps)) ! 1)"
      by (simp add: demo_server_run del: One_nat_def)
    show "''a'' \<noteq> hc_agent_id ?cfg" by (simp add: host_config_new_def)
  qed
  then show ?thesis using q by (simp add: demo_sink_def)
qed

section \<open>A forged verdict\<close>

text \<open>C9: The ingest boundary does not compare an event's kind with its payload: an enrolled agent that sends a
  \<open>Detection\<close> payload under the raw kind \<open>process.exec\<close> gets it onto the server bus unchanged, the scoring plugin takes it as a
  verdict, and so the agent sets the risk of any subject it names: a confidence of two or more raises an alert on the
  subject, and one of minus two or less erases whatever risk the subject had.\<close>

theorem forged_detection:
  assumes "ingest_event E aid ev s = (True, s')" and "kind ev = ''process.exec''"
    and "payload ev = Detection subject Agent (Fin c) m rs fs"
    and "sv_cfg S = scoring_default" and "rounding_ok (sv_rnd S) X" and "{-120, -20, 0, 100, 120} \<subseteq> X" and "risk_ok st"
  shows "\<exists>ev'. sn_bus s' = sn_bus s @ [ev'] \<and> agent_id ev' = aid \<and> sub_matches scoring_subscriptions (kind ev')
    \<and> (2 \<le> c \<longrightarrow> (\<exists>t d. payload (last (fst (scoring_handle S s1 s2 (payload ev') st))) = Alert Critical t d (Some subject)))
    \<and> (c \<le> -2 \<longrightarrow> risk_get subject (snd (scoring_handle S s1 s2 (payload ev') st)) = Fin 0)"
proof -
  obtain ev' where ev': "sn_bus s' = sn_bus s @ [ev']" "emitted_for E aid ev'" "payload ev' = payload ev"
    using ingest_event_bus [OF assms(1)] by auto
  have "kind ev' = ''process.exec''"
    using assms(1,2) ev'(1) by (auto simp: ingest_event_def sanitize_ingest_fields_def Let_def split: prod.splits sum.splits if_splits)
  then have sub: "sub_matches scoring_subscriptions (kind ev')" by (simp add: scoring_subscriptions_def)
  define delta where "delta = sv_rnd S (60 * c)"
  obtain x where x: "risk_get subject st = Fin x" "0 \<le> x" "x \<le> 100" using risk_get_ok [OF assms(7)] by blast
  obtain y where y: "sv_rnd S (x * lit_098) = Fin y" "0 \<le> y" "y \<le> 100"
    using scale_in_range [OF assms(5), of x lit_098] x(2,3) assms(6) by (force simp: lit_098_def)
  define r where "r = f64_clamp (Fin 0) (Fin 100) (f64_add (sv_rnd S) (Fin y) delta)"
  have exact: "sv_rnd S z = Fin z" if "z \<in> {-120, -20, 0, 100, 120}" for z
    using rounding_okD(3) [OF assms(5)] assms(6) that by blast
  have input: "risk_input (sv_rnd S) (sv_cfg S) (payload ev') = Some (subject, delta, Some (Fin c, Fin 1))"
    by (simp add: ev'(3) assms(3,4) scoring_default_def delta_def)
  have bump: "bumped (sv_rnd S) (risk_get subject st) delta (sg_decay (sv_cfg S)) = r"
    by (simp add: bumped_def x y(1) r_def assms(4) scoring_default_def)
  have high: "r = Fin 100" if "2 \<le> c"
  proof -
    have d: "f64_le (Fin 120) delta" using rounding_okD(1) [OF assms(5), of 120 "60 * c"] exact [of 120] that by (simp add: delta_def)
    have "f64_le (Fin 120) (f64_add (sv_rnd S) (Fin y) delta)"
    proof (cases delta)
      case (Fin d')
      then show ?thesis using rounding_okD(1) [OF assms(5), of 120 "y + d'"] exact [of 120] d y(2) by simp
    qed (use d in simp_all)
    then show ?thesis by (cases "f64_add (sv_rnd S) (Fin y) delta") (auto simp: r_def f64_clamp_def f64_lt_def)
  qed
  have low: "r = Fin 0" if "c \<le> -2"
  proof -
    have d: "f64_le delta (Fin (-120))"
      using rounding_okD(1) [OF assms(5), of "60 * c" "-120"] exact [of "-120"] that by (simp add: delta_def)
    have "f64_le (f64_add (sv_rnd S) (Fin y) delta) (Fin (-20))"
    proof (cases delta)
      case (Fin d')
      then show ?thesis using rounding_okD(1) [OF assms(5), of "y + d'" "-20"] exact [of "-20"] d y(3) by simp
    qed (use d in simp_all)
    then show ?thesis by (cases "f64_add (sv_rnd S) (Fin y) delta") (auto simp: r_def f64_clamp_def f64_lt_def)
  qed
  have "bt_ok st" using assms(7) by (simp add: risk_ok_def)
  then have get: "risk_get subject (snd (scoring_handle S s1 s2 (payload ev') st)) = settle r"
    by (simp add: scoring_handle_simps(3) [OF input] risk_get_bump bump)
  have "fst (scoring_handle S s1 s2 (payload ev') st) = score_events S s1 s2 subject delta (Some (Fin c, Fin 1)) r"
    by (simp add: scoring_handle_simps(3) [OF input]) (simp add: bump_def bump Let_def)
  then show ?thesis using ev'(1,2) sub get high low
    by (auto simp: emitted_for_def settle_def NEGLIGIBLE_SCORE_def lit_001_def score_events_def assms(4) scoring_default_def
        event_new_def severity_for_def)
qed


definition demo_forged :: event where
  "demo_forged = with_kind ''process.exec'' (event_new 11 1000 ''x'' ''plugin-process'' (Detection ''uid:0'' Agent (Fin 2) ''m'' [] []))"

definition demo_taken :: event where
  "demo_taken = sanitize_ingest_fields 1000 (demo_forged\<lparr>agent_id := ''a''\<rparr>)"

definition demo_ingest :: "((bytes, bytes) rbt, 256 word) server_env" where
  "demo_ingest =
     \<lparr>sv_tables = rbt_table,
      sv_postcard = table_postcard [event_row_of [0] demo_taken] [[composite_key (ts_ns demo_taken) (ev_id demo_taken)]] [] [] [] [] [],
      sv_payload = table_codec [payload demo_forged], sv_messages = table_codec [], sv_crypto = toy_crypto, sv_pin = [],
      sv_now = (\<lambda>_. 1000), sv_io = (\<lambda>_. io_fine)\<rparr>"

definition demo_open :: "(bytes, bytes) rbt session" where
  "demo_open =
     \<lparr>sn_conn = \<lparr>inp = [], out = [], wok = []\<rparr>, sn_seen = dedup_new 4, sn_global = dedup_new 4, sn_store = demo_empty,
      sn_bus = [], sn_clk = 0\<rparr>"

lemma forged_detection_witness:
  "\<exists>s' ev' t d. ingest_event demo_ingest ''a'' demo_forged demo_open = (True, s') \<and> sn_bus s' = [ev']
     \<and> payload (last (fst (scoring_handle \<lparr>sv_rnd = Fin, sv_cfg = scoring_default, sv_agent = ''aegisd'', sv_show1 = (\<lambda>_. ''x'')\<rparr>
            (1, 0) (2, 0) (payload ev') []))) = Alert Critical t d (Some ''uid:0'')"
proof -
  let ?S = "\<lparr>sv_rnd = Fin, sv_cfg = scoring_default, sv_agent = ''aegisd'', sv_show1 = (\<lambda>_. ''x'')\<rparr>"
  have pay: "payload demo_taken = payload demo_forged" "agent_id demo_taken = ''a''"
    by (simp_all add: demo_taken_def)
  have k: "kind demo_forged = ''process.exec''" "is_ingestible (kind demo_forged)"
    by (simp_all add: demo_forged_def with_kind_def event_new_def is_ingestible_def INGESTIBLE_KINDS_def)
  have w: "\<exists>st'. write_event rbt_table (sv_postcard demo_ingest) (table_codec [payload demo_forged]) io_fine demo_taken demo_empty = (Inr (), st')"
    by (simp add: write_event_def read_cell_def demo_ingest_def demo_empty_def pay table_postcard_def table_codec_def push_index_key_def
        AGENT_EVENT_INDEX_LIMIT_def io_fine_def rbt_get_empty Let_def)
  have "\<exists>s'. ingest_event demo_ingest ''a'' demo_forged demo_open = (True, s')"
    using w k(2) by (auto simp: ingest_event_def demo_open_def dedup_insert_def dedup_new_def Let_def demo_ingest_def
        simp flip: demo_taken_def)
  then obtain s' where s': "ingest_event demo_ingest ''a'' demo_forged demo_open = (True, s')" by blast
  have p: "payload demo_forged = Detection ''uid:0'' Agent (Fin 2) ''m'' [] []"
    by (simp add: demo_forged_def with_kind_def event_new_def)
  from forged_detection [where S = ?S and X = UNIV and st = "[]" and ?s1.0 = "(1, 0)" and ?s2.0 = "(2, 0)", OF s' k(1) p]
  obtain ev' t d where "sn_bus s' = sn_bus demo_open @ [ev']"
    "payload (last (fst (scoring_handle ?S (1, 0) (2, 0) (payload ev') []))) = Alert Critical t d (Some ''uid:0'')"
    by (auto simp: risk_ok_def)
  then show ?thesis using s' by (auto simp: demo_open_def)
qed

end
