(* ===== verification/Features.thy ===== *)
theory Features
  imports F64
begin

text \<open>
  The behavioural features of a session (\<^verbatim>\<open>plugins/plugin-agent-detect/src/features.rs\<close>): the accumulator of
  raw observations with its bounded sample windows, the statistics, and the feature vector. Counters are
  \<open>u64\<close> and wrap as in a release build. \<^verbatim>\<open>powi(2)\<close> is the rounded product. The defaults that \<^verbatim>\<open>serde\<close> puts for
  absent fields of a stored vector are not modelled.
\<close>

definition MIN_KEYSTROKES :: nat where "MIN_KEYSTROKES = 12"

definition MIN_COMMANDS :: nat where "MIN_COMMANDS = 3"

definition MIN_COMMANDS_ROBUST :: nat where "MIN_COMMANDS_ROBUST = 16"

definition REACTION_FLOOR_MS :: f64 where "REACTION_FLOOR_MS = Fin 150"

definition SAMPLE_CAP :: nat where "SAMPLE_CAP = 2048"

section \<open>The accumulator\<close>

definition push_capped :: "f64 list \<Rightarrow> f64 \<Rightarrow> f64 list" where
  "push_capped buf v = (if SAMPLE_CAP \<le> length buf then tl buf else buf) @ [v]"

record session_accumulator =
  inter_arrivals_ms :: "f64 list"
  inter_commands_ms :: "f64 list"
  entropies :: "f64 list"
  sa_keystrokes :: u64
  sa_pastes :: u64
  sa_commands :: u64
  backspace_commands :: u64
  pending_command_is_paste :: bool
  whole_line_pastes :: u64
  sub_floor_nonpaste_gaps :: u64

definition accumulator_default :: session_accumulator where
  "accumulator_default =
     \<lparr>inter_arrivals_ms = [], inter_commands_ms = [], entropies = [], sa_keystrokes = 0, sa_pastes = 0, sa_commands = 0,
      backspace_commands = 0, pending_command_is_paste = False, whole_line_pastes = 0, sub_floor_nonpaste_gaps = 0\<rparr>"

definition millis :: "rounding \<Rightarrow> u64 \<Rightarrow> f64" where
  "millis rnd ns = f64_div rnd (f64_of_nat rnd (unat ns)) (Fin 1000000)"

definition record_keystroke :: "rounding \<Rightarrow> u64 \<Rightarrow> bool \<Rightarrow> u32 \<Rightarrow> session_accumulator \<Rightarrow> session_accumulator" where
  "record_keystroke rnd inter_arrival paste burst a =
     (let a1 = a\<lparr>sa_keystrokes := sa_keystrokes a + ucast (max burst 1),
                 sa_pastes := (if paste then sa_pastes a + 1 else sa_pastes a),
                 pending_command_is_paste := paste\<rparr>;
          ms = millis rnd inter_arrival
      in if f64_lt (Fin 0) ms \<and> f64_lt ms (Fin 60000)
         then a1\<lparr>inter_arrivals_ms := push_capped (inter_arrivals_ms a1) ms\<rparr> else a1)"

definition record_command :: "rounding \<Rightarrow> u64 \<Rightarrow> bool \<Rightarrow> f64 \<Rightarrow> session_accumulator \<Rightarrow> session_accumulator" where
  "record_command rnd inter_command had_backspace entropy a =
     (let was_paste = pending_command_is_paste a;
          a1 = a\<lparr>sa_commands := sa_commands a + 1,
                 backspace_commands := (if had_backspace then backspace_commands a + 1 else backspace_commands a),
                 entropies := push_capped (entropies a) entropy,
                 whole_line_pastes := (if was_paste then whole_line_pastes a + 1 else whole_line_pastes a),
                 pending_command_is_paste := False\<rparr>;
          ms = millis rnd inter_command;
          a2 = (if f64_lt (Fin 0) ms \<and> f64_lt ms REACTION_FLOOR_MS \<and> \<not> was_paste
                then a1\<lparr>sub_floor_nonpaste_gaps := sub_floor_nonpaste_gaps a1 + 1\<rparr> else a1)
      in if f64_lt (Fin 0) ms \<and> f64_lt ms (Fin 3600000)
         then a2\<lparr>inter_commands_ms := push_capped (inter_commands_ms a2) ms\<rparr> else a2)"

definition enough_evidence :: "session_accumulator \<Rightarrow> bool" where
  "enough_evidence a \<longleftrightarrow> MIN_KEYSTROKES \<le> unat (sa_keystrokes a) \<and> MIN_COMMANDS \<le> unat (sa_commands a)"

section \<open>Statistics\<close>

definition ratio :: "rounding \<Rightarrow> u64 \<Rightarrow> u64 \<Rightarrow> f64" where
  "ratio rnd num den =
     (if den = 0 then Fin 0 else f64_div rnd (f64_of_nat rnd (unat num)) (f64_of_nat rnd (unat den)))"

definition mean_of :: "rounding \<Rightarrow> f64 list \<Rightarrow> f64" where
  "mean_of rnd xs = f64_div rnd (f64_sum rnd xs) (f64_of_nat rnd (length xs))"

definition squared_dev :: "rounding \<Rightarrow> f64 \<Rightarrow> f64 \<Rightarrow> f64" where
  "squared_dev rnd mean x = f64_mul rnd (f64_sub rnd x mean) (f64_sub rnd x mean)"

definition mean_std :: "rounding \<Rightarrow> f64 list \<Rightarrow> f64 \<times> f64" where
  "mean_std rnd xs =
     (if xs = [] then (Fin 0, Fin 0)
      else let mean = mean_of rnd xs; var = mean_of rnd (map (squared_dev rnd mean) xs)
           in (mean, f64_sqrt rnd var))"

definition lag1_autocorr :: "rounding \<Rightarrow> f64 list \<Rightarrow> f64" where
  "lag1_autocorr rnd xs =
     (if length xs < 4 then Fin 0
      else let mean = mean_of rnd xs; denom = f64_sum rnd (map (squared_dev rnd mean) xs)
           in if f64_le denom (Fin 0) then Fin 0
              else let numer = f64_sum rnd (map (\<lambda>(a, b). f64_mul rnd (f64_sub rnd a mean) (f64_sub rnd b mean))
                                              (zip xs (tl xs)))
                   in f64_div rnd numer denom)"

text \<open>The position of a quantile in \<open>n\<close> sorted samples.\<close>

definition quantile_pos :: "rounding \<Rightarrow> f64 \<Rightarrow> nat \<Rightarrow> f64" where
  "quantile_pos rnd q n = f64_mul rnd (f64_clamp (Fin 0) (Fin 1) q) (f64_of_nat rnd (n - 1))"

definition percentile :: "rounding \<Rightarrow> f64 list \<Rightarrow> f64 \<Rightarrow> f64" where
  "percentile rnd xs q =
     (if xs = [] then Fin 0
      else let v = sort_by f64_cmp_le xs
           in if length v = 1 then v ! 0
              else let pos = quantile_pos rnd q (length v);
                       lo = f64_to_usize (f64_floor pos);
                       hi = f64_to_usize (f64_ceil pos)
                   in if lo = hi then v ! lo
                      else let frac = f64_sub rnd pos (f64_of_nat rnd lo)
                           in f64_add rnd (f64_mul rnd (v ! lo) (f64_sub rnd (Fin 1) frac)) (f64_mul rnd (v ! hi) frac))"

fun running_sums :: "rounding \<Rightarrow> f64 \<Rightarrow> f64 list \<Rightarrow> f64 list" where
  "running_sums rnd acc [] = []"
| "running_sums rnd acc (g # gs) = f64_add rnd acc g # running_sums rnd (f64_add rnd acc g) gs"

definition decay_slope :: "libm \<Rightarrow> f64 list \<Rightarrow> f64" where
  "decay_slope M gaps =
     (let rnd = lm_rnd M in
      if length gaps < 6 then Fin 0
      else let elapsed = running_sums rnd (Fin 0) gaps; total = last elapsed
           in if f64_le total (Fin 0) then Fin 0
              else let mid = length gaps div 2;
                       first_cmds = f64_of_nat rnd mid; first_time = elapsed ! (mid - 1);
                       second_cmds = f64_of_nat rnd (length gaps - mid);
                       second_time = f64_sub rnd total (elapsed ! (mid - 1))
                   in if f64_le first_time (Fin 0) \<or> f64_le second_time (Fin 0) then Fin 0
                      else let rate_first = f64_div rnd first_cmds first_time;
                               rate_second = f64_div rnd second_cmds second_time
                           in if f64_le rate_first (Fin 0) then Fin 0
                              else let rel = f64_div rnd (f64_sub rnd rate_second rate_first) rate_first
                                   in lm_tanh M (f64_mul rnd rel (Fin (3 / 2))))"

section \<open>The feature vector\<close>

record feature_vector =
  keystroke_cv :: f64
  paste_ratio :: f64
  mean_inter_command_ms :: f64
  backspace_ratio :: f64
  entropy_mean :: f64
  cadence_regularity :: f64
  gap_autocorr :: f64
  think_tail_ratio :: f64
  throughput_decay :: f64
  reaction_floor_hits :: f64
  whole_line_paste_ratio :: f64
  keystroke_burst_cv :: f64

definition variation :: "rounding \<Rightarrow> f64 \<times> f64 \<Rightarrow> f64" where
  "variation rnd ms = (if f64_lt (Fin 0) (fst ms) then f64_div rnd (snd ms) (fst ms) else Fin 0)"

definition burst_variation :: "rounding \<Rightarrow> f64 list \<Rightarrow> f64" where
  "burst_variation rnd arrivals =
     (let burst_gaps = filter (\<lambda>g. f64_lt g (Fin 300)) arrivals; (m, s) = mean_std rnd burst_gaps
      in if 4 \<le> length burst_gaps \<and> f64_lt (Fin 0) m then f64_div rnd s m else NaN)"

definition think_tail :: "rounding \<Rightarrow> f64 list \<Rightarrow> f64" where
  "think_tail rnd commands =
     (let p50 = percentile rnd commands (Fin (1 / 2)); p90 = percentile rnd commands (rnd (9 / 10))
      in if f64_lt (Fin 0) p50 then f64_div rnd p90 p50 else NaN)"

definition features :: "libm \<Rightarrow> session_accumulator \<Rightarrow> feature_vector option" where
  "features M a =
     (if \<not> enough_evidence a then None
      else let rnd = lm_rnd M; arrivals = inter_arrivals_ms a; commands = inter_commands_ms a;
               den = max (sa_commands a) 1;
               robust = (MIN_COMMANDS_ROBUST \<le> unat (sa_commands a))
           in Some \<lparr>keystroke_cv = variation rnd (mean_std rnd arrivals),
                    paste_ratio = ratio rnd (sa_pastes a) den,
                    mean_inter_command_ms = fst (mean_std rnd commands),
                    backspace_ratio = ratio rnd (backspace_commands a) den,
                    entropy_mean = (if entropies a = [] then Fin 0 else mean_of rnd (entropies a)),
                    cadence_regularity = f64_sub rnd (Fin 1) (f64_min (variation rnd (mean_std rnd commands)) (Fin 1)),
                    gap_autocorr = (if robust then lag1_autocorr rnd commands else NaN),
                    think_tail_ratio = (if robust then think_tail rnd commands else NaN),
                    throughput_decay = (if robust then decay_slope M commands else NaN),
                    reaction_floor_hits = ratio rnd (sub_floor_nonpaste_gaps a) den,
                    whole_line_paste_ratio = ratio rnd (whole_line_pastes a) den,
                    keystroke_burst_cv = burst_variation rnd arrivals\<rparr>)"

definition put_finite :: "(string, f64) btree \<Rightarrow> string \<times> f64 \<Rightarrow> (string, f64) btree" where
  "put_finite m kv = (if f64_is_finite (snd kv) then bt_insert (fst kv) (snd kv) m else m)"

definition labelled :: "feature_vector \<Rightarrow> (string \<times> f64) list" where
  "labelled f =
     [(''keystroke_cv'', keystroke_cv f), (''paste_ratio'', paste_ratio f),
      (''mean_inter_command_ms'', mean_inter_command_ms f), (''backspace_ratio'', backspace_ratio f),
      (''entropy_mean'', entropy_mean f), (''cadence_regularity'', cadence_regularity f),
      (''gap_autocorr'', gap_autocorr f), (''think_tail_ratio'', think_tail_ratio f),
      (''throughput_decay'', throughput_decay f), (''reaction_floor_hits'', reaction_floor_hits f),
      (''whole_line_paste_ratio'', whole_line_paste_ratio f), (''keystroke_burst_cv'', keystroke_burst_cv f)]"

definition to_map :: "feature_vector \<Rightarrow> (string, f64) btree" where
  "to_map f = foldl put_finite [] (labelled f)"

section \<open>What the accumulator holds\<close>

datatype observation = Key u64 bool u32 | Cmd u64 bool f64

fun record_obs :: "rounding \<Rightarrow> session_accumulator \<Rightarrow> observation \<Rightarrow> session_accumulator" where
  "record_obs rnd a (Key gap paste burst) = record_keystroke rnd gap paste burst a"
| "record_obs rnd a (Cmd gap back entropy) = record_command rnd gap back entropy a"

definition accumulated :: "rounding \<Rightarrow> observation list \<Rightarrow> session_accumulator" where
  "accumulated rnd os = foldl (record_obs rnd) accumulator_default os"

fun key_gap :: "observation \<Rightarrow> u64 option" where
  "key_gap (Key gap _ _) = Some gap"
| "key_gap _ = None"

fun cmd_gap :: "observation \<Rightarrow> u64 option" where
  "cmd_gap (Cmd gap _ _) = Some gap"
| "cmd_gap _ = None"

fun cmd_entropy :: "observation \<Rightarrow> f64 option" where
  "cmd_entropy (Cmd _ _ e) = Some e"
| "cmd_entropy _ = None"

fun pasted_command :: "observation \<times> observation \<Rightarrow> bool" where
  "pasted_command (Key _ paste _, Cmd _ _ _) = paste"
| "pasted_command _ = False"

fun sub_floor :: "rounding \<Rightarrow> observation \<times> observation \<Rightarrow> bool" where
  "sub_floor rnd (p, Cmd gap _ _) =
     (f64_lt (Fin 0) (millis rnd gap) \<and> f64_lt (millis rnd gap) REACTION_FLOOR_MS \<and> (\<forall>g b. p \<noteq> Key g True b))"
| "sub_floor rnd _ = False"

text \<open>Each observation with the one before it.\<close>

definition steps :: "observation list \<Rightarrow> (observation \<times> observation) list" where
  "steps os = zip (Cmd 0 False NaN # os) os"

fun is_paste_key :: "observation \<Rightarrow> bool" where
  "is_paste_key (Key _ paste _) = paste"
| "is_paste_key _ = False"

fun has_backspace :: "observation \<Rightarrow> bool" where
  "has_backspace (Cmd _ back _) = back"
| "has_backspace _ = False"

fun weight_of :: "observation \<Rightarrow> nat" where
  "weight_of (Key _ _ burst) = unat (max burst 1)"
| "weight_of _ = 0"

definition gaps_within :: "rounding \<Rightarrow> real \<Rightarrow> u64 list \<Rightarrow> f64 list" where
  "gaps_within rnd limit ns = filter (\<lambda>ms. f64_lt (Fin 0) ms \<and> f64_lt ms (Fin limit)) (map (millis rnd) ns)"

lemma push_capped_last_n: "push_capped (last_n SAMPLE_CAP xs) v = last_n SAMPLE_CAP (xs @ [v])"
proof (cases "SAMPLE_CAP \<le> length xs")
  case True
  then have "Suc (length xs - SAMPLE_CAP) = Suc (length xs) - SAMPLE_CAP" by simp
  moreover have "0 < SAMPLE_CAP" by (simp add: SAMPLE_CAP_def)
  ultimately show ?thesis using True by (simp add: push_capped_def last_n_def tl_drop flip: drop_Suc)
qed (simp add: push_capped_def last_n_def)

lemma steps_snoc: "steps (xs @ [x]) = steps xs @ [(last (Cmd 0 False NaN # xs), x)]"
proof -
  have "zip (d # xs @ [x]) (xs @ [x]) = zip (d # xs) xs @ [(last (d # xs), x)]" for d
    by (induction xs arbitrary: d) auto
  then show ?thesis by (simp add: steps_def)
qed

lemma accumulated_snoc: "accumulated rnd (os @ [x]) = record_obs rnd (accumulated rnd os) x"
  by (simp add: accumulated_def)

lemma pending_accumulated:
  "pending_command_is_paste (accumulated rnd os) \<longleftrightarrow> os \<noteq> [] \<and> (\<exists>g b. last os = Key g True b)"
proof (cases os rule: rev_cases)
  case (snoc ys x)
  then show ?thesis
    by (cases x) (simp_all add: accumulated_snoc record_keystroke_def record_command_def Let_def)
qed (simp add: accumulated_def accumulator_default_def)

lemma record_keystroke_simps [simp]:
  "inter_commands_ms (record_keystroke rnd g p b a) = inter_commands_ms a"
  "entropies (record_keystroke rnd g p b a) = entropies a"
  "sa_commands (record_keystroke rnd g p b a) = sa_commands a"
  "sa_keystrokes (record_keystroke rnd g p b a) = sa_keystrokes a + ucast (max b 1)"
  "backspace_commands (record_keystroke rnd g p b a) = backspace_commands a"
  "whole_line_pastes (record_keystroke rnd g p b a) = whole_line_pastes a"
  "sub_floor_nonpaste_gaps (record_keystroke rnd g p b a) = sub_floor_nonpaste_gaps a"
  by (simp_all add: record_keystroke_def Let_def)

lemma record_command_simps [simp]:
  "inter_arrivals_ms (record_command rnd g p e a) = inter_arrivals_ms a"
  "entropies (record_command rnd g p e a) = push_capped (entropies a) e"
  "sa_commands (record_command rnd g p e a) = sa_commands a + 1"
  "sa_keystrokes (record_command rnd g p e a) = sa_keystrokes a"
  "backspace_commands (record_command rnd g p e a) = (if p then backspace_commands a + 1 else backspace_commands a)"
  "whole_line_pastes (record_command rnd g p e a)
     = (if pending_command_is_paste a then whole_line_pastes a + 1 else whole_line_pastes a)"
  by (simp_all add: record_command_def Let_def)

lemma accumulated_windows:
  "inter_arrivals_ms (accumulated rnd os) = last_n SAMPLE_CAP (gaps_within rnd 60000 (List.map_filter key_gap os))"
  "inter_commands_ms (accumulated rnd os) = last_n SAMPLE_CAP (gaps_within rnd 3600000 (List.map_filter cmd_gap os))"
  "entropies (accumulated rnd os) = last_n SAMPLE_CAP (List.map_filter cmd_entropy os)"
proof (induction os rule: rev_induct)
  case Nil
  { case 1 show ?case by (simp add: accumulated_def accumulator_default_def gaps_within_def last_n_def)
  next case 2 show ?case by (simp add: accumulated_def accumulator_default_def gaps_within_def last_n_def)
  next case 3 show ?case by (simp add: accumulated_def accumulator_default_def last_n_def) }
next
  case (snoc x xs)
  note IH = snoc
  { case 1 show ?case using IH(1)
      by (cases x) (simp_all add: accumulated_snoc map_filter_def gaps_within_def record_keystroke_def Let_def push_capped_last_n)
  next case 2 show ?case using IH(2)
      by (cases x) (simp_all add: accumulated_snoc map_filter_def gaps_within_def record_command_def Let_def push_capped_last_n)
  next case 3 show ?case using IH(3)
      by (cases x) (simp_all add: accumulated_snoc map_filter_def push_capped_last_n) }
qed

lemma accumulated_counts:
  "sa_keystrokes (accumulated rnd os) = of_nat (sum_list (map weight_of os))"
  "sa_pastes (accumulated rnd os) = of_nat (length (filter is_paste_key os))"
  "sa_commands (accumulated rnd os) = of_nat (length (List.map_filter cmd_gap os))"
  "backspace_commands (accumulated rnd os) = of_nat (length (filter has_backspace os))"
  "whole_line_pastes (accumulated rnd os) = of_nat (length (filter pasted_command (steps os)))"
  "sub_floor_nonpaste_gaps (accumulated rnd os) = of_nat (length (filter (sub_floor rnd) (steps os)))"
proof (induction os rule: rev_induct)
  case Nil
  { case 1 show ?case by (simp add: accumulated_def accumulator_default_def)
  next case 2 show ?case by (simp add: accumulated_def accumulator_default_def)
  next case 3 show ?case by (simp add: accumulated_def accumulator_default_def map_filter_def)
  next case 4 show ?case by (simp add: accumulated_def accumulator_default_def)
  next case 5 show ?case by (simp add: accumulated_def accumulator_default_def steps_def)
  next case 6 show ?case by (simp add: accumulated_def accumulator_default_def steps_def) }
next
  case (snoc x xs)
  note IH = snoc
  have p: "pasted_command (last (Cmd 0 False NaN # xs), x)
      \<longleftrightarrow> (\<exists>g p e. x = Cmd g p e) \<and> pending_command_is_paste (accumulated rnd xs)"
    unfolding pending_accumulated by (cases x; cases "last xs") auto
  have q: "sub_floor rnd (last (Cmd 0 False NaN # xs), Cmd g b e)
      \<longleftrightarrow> f64_lt (Fin 0) (millis rnd g) \<and> f64_lt (millis rnd g) REACTION_FLOOR_MS
        \<and> \<not> pending_command_is_paste (accumulated rnd xs)" for g b e
    unfolding pending_accumulated by auto
  { case 1 show ?case using IH(1) by (cases x) (simp_all add: accumulated_snoc unsigned_ucast_eq)
  next case 2 show ?case using IH(2)
      by (cases x) (simp_all add: accumulated_snoc record_keystroke_def record_command_def Let_def)
  next case 3 show ?case using IH(3) by (cases x) (simp_all add: accumulated_snoc map_filter_def)
  next case 4 show ?case using IH(4) by (cases x) (simp_all add: accumulated_snoc)
  next case 5 show ?case using IH(5) p by (cases x) (simp_all add: accumulated_snoc steps_snoc)
  next case 6 show ?case using IH(6) q
      by (cases x) (simp_all add: accumulated_snoc steps_snoc record_command_def Let_def) }
qed

section \<open>Ranges of the features\<close>

lemma ratio_unit:
  assumes "rounding_ok rnd binary64" and "num \<le> den"
  shows "f64_unit (ratio rnd num den)"
proof (cases "den = 0")
  case False
  define n d where "n = unat num" and "d = unat den"
  have le: "n \<le> d" "d \<le> 2 ^ 64" "1 \<le> d"
    using assms(2) unat_lt_exp [of den] False by (simp_all add: n_def d_def word_le_nat_alt unat_gt_0 Suc_le_eq)
  have le_real: "real n \<le> real d" "1 \<le> real d" using le by simp_all
  have top: "real d \<le> 2 ^ 64" using le(2) by (simp only: of_nat_le_numeral_power_cancel_iff)
  have "real n \<le> 2 ^ 64" using le_real(1) top by (rule order_trans)
  obtain a where a: "rnd (real n) = Fin a" "0 \<le> a"
    using rounding_between [OF assms(1) binary64_numbers(1,5), of "real n"] \<open>real n \<le> 2 ^ 64\<close> by (metis of_nat_0_le_iff)
  obtain b where b: "rnd (real d) = Fin b" "1 \<le> b"
    using rounding_between [OF assms(1) binary64_numbers(2,5), of "real d"] le_real(2) top by metis
  have "a \<le> b" using rounding_okD(1) [OF assms(1) le_real(1)] a b by simp
  then show ?thesis using div_unit [OF assms(1), of a b] a b False
    by (simp add: ratio_def f64_of_nat_def flip: n_def d_def)
qed (simp add: ratio_def)

lemma mean_nonneg [nonneg]:
  "rounding_ok rnd binary64 \<Longrightarrow> \<forall>x \<in> set xs. f64_nonneg x \<Longrightarrow> f64_nonneg (mean_of rnd xs)"
  by (simp add: mean_of_def nonneg)

lemma deviation_nonneg [nonneg]: "rounding_ok rnd binary64 \<Longrightarrow> f64_nonneg (snd (mean_std rnd xs))"
  by (simp add: mean_std_def Let_def nonneg)

lemma variation_nonneg [nonneg]:
  assumes "rounding_ok rnd binary64"
  shows "f64_nonneg (variation rnd (mean_std rnd xs))"
proof (cases "f64_lt (Fin 0) (fst (mean_std rnd xs))")
  case True
  then have "f64_nonneg (fst (mean_std rnd xs))" by (cases "fst (mean_std rnd xs)") auto
  then show ?thesis by (simp add: variation_def nonneg assms)
qed (simp add: variation_def)

text \<open>The indices of a quantile are positions of the samples, so \<^verbatim>\<open>v[lo]\<close> and \<^verbatim>\<open>v[hi]\<close> never panic.\<close>

lemma quantile_in_bounds:
  assumes "rounding_ok rnd binary64" and "0 < n" and "n \<le> SAMPLE_CAP"
  shows "f64_to_usize (f64_floor (quantile_pos rnd q n)) < n \<and> f64_to_usize (f64_ceil (quantile_pos rnd q n)) < n"
proof (cases "q = NaN")
  case False
  obtain c where c: "f64_clamp (Fin 0) (Fin 1) q = Fin c" "0 \<le> c" "c \<le> 1"
    using f64_clamp_range [OF False, of 0 1] by auto
  have e: "f64_of_nat rnd (n - 1) = Fin (real (n - 1))" "real (n - 1) \<in> binary64"
    using of_nat_exact [OF assms(1)] binary64_nat [of "n - 1"] assms(3) by (simp_all add: SAMPLE_CAP_def)
  have "0 \<le> c * real (n - 1)" "c * real (n - 1) \<le> real (n - 1)"
    using c(2,3) by (simp_all add: mult_left_le_one_le)
  then obtain r where r: "rnd (c * real (n - 1)) = Fin r" "0 \<le> r" "r \<le> real (n - 1)"
    using rounding_between [OF assms(1) _ e(2)] by (metis binary64_numbers(1))
  then have "\<lfloor>r\<rfloor> < int n" "\<lceil>r\<rceil> < int n" using assms(2) by linarith+
  then have "nat \<lfloor>r\<rfloor> < n" "nat \<lceil>r\<rceil> < n" using assms(2) by linarith+
  then show ?thesis using r(1) c(1) e(1) by (simp add: quantile_pos_def min_less_iff_disj)
qed (use assms(2) in \<open>simp add: quantile_pos_def f64_clamp_def\<close>)

lemma unat_plus_one: "unat (x :: u64) + 1 < 2 ^ 64 \<Longrightarrow> unat (x + 1) = unat x + 1"
  by (simp add: unat_word_ariths)

lemma accumulated_bounds:
  assumes "length os < 2 ^ 64"
  shows "unat (sa_commands (accumulated rnd os)) \<le> length os
    \<and> unat (backspace_commands (accumulated rnd os)) \<le> unat (sa_commands (accumulated rnd os))
    \<and> unat (whole_line_pastes (accumulated rnd os)) + unat (sub_floor_nonpaste_gaps (accumulated rnd os))
        \<le> unat (sa_commands (accumulated rnd os))"
  using assms
proof (induction os rule: rev_induct)
  case (snoc x xs)
  then show ?case
    by (cases x) (auto simp: accumulated_snoc record_command_def Let_def unat_plus_one)
qed (simp add: accumulated_def accumulator_default_def)

lemma decay_range:
  assumes "libm_ok M X"
  shows "decay_slope M gaps = NaN \<or> (\<exists>r. decay_slope M gaps = Fin r \<and> - 1 \<le> r \<and> r \<le> 1)"
proof -
  have t: "lm_tanh M x = NaN \<or> (\<exists>r. lm_tanh M x = Fin r \<and> - 1 \<le> r \<and> r \<le> 1)" for x
    using assms f64_le_between [of "- 1" "lm_tanh M x" 1] by (cases "x = NaN") (auto simp: libm_ok_def)
  show ?thesis unfolding decay_slope_def Let_def using t by (auto simp del: not_le)
qed

lemma mean_std_finite_cases: "variation rnd (mean_std rnd xs) = NaN \<or> f64_le (Fin 0) (variation rnd (mean_std rnd xs))"
  if "rounding_ok rnd binary64"
  using variation_nonneg [OF that, of xs] by (simp add: f64_nonneg_def)

lemma featuresD:
  assumes "features M a = Some f"
  shows "enough_evidence a"
    and "backspace_ratio f = ratio (lm_rnd M) (backspace_commands a) (max (sa_commands a) 1)"
    and "whole_line_paste_ratio f = ratio (lm_rnd M) (whole_line_pastes a) (max (sa_commands a) 1)"
    and "reaction_floor_hits f = ratio (lm_rnd M) (sub_floor_nonpaste_gaps a) (max (sa_commands a) 1)"
    and "cadence_regularity f
      = f64_sub (lm_rnd M) (Fin 1) (f64_min (variation (lm_rnd M) (mean_std (lm_rnd M) (inter_commands_ms a))) (Fin 1))"
    and "throughput_decay f = (if 16 \<le> unat (sa_commands a) then decay_slope M (inter_commands_ms a) else NaN)"
    and "gap_autocorr f = (if 16 \<le> unat (sa_commands a) then lag1_autocorr (lm_rnd M) (inter_commands_ms a) else NaN)"
    and "think_tail_ratio f = (if 16 \<le> unat (sa_commands a) then think_tail (lm_rnd M) (inter_commands_ms a) else NaN)"
  using assms by (auto simp: features_def Let_def MIN_COMMANDS_ROBUST_def split: if_splits)

text \<open>C27: What the accumulator remembers: after any observations each sample window holds the newest 2048
  admissible samples in order, the counters count keystrokes (a burst by its length), pastes and commands modulo the
  word size, a command counts as a whole-line paste exactly when the observation before it is a pasted
  burst, and as a reaction below the floor when it follows no paste and its gap is under 150 ms.\<close>

theorem accumulator_remembers:
  "accumulated rnd os =
     \<lparr>inter_arrivals_ms = last_n SAMPLE_CAP (gaps_within rnd 60000 (List.map_filter key_gap os)),
      inter_commands_ms = last_n SAMPLE_CAP (gaps_within rnd 3600000 (List.map_filter cmd_gap os)),
      entropies = last_n SAMPLE_CAP (List.map_filter cmd_entropy os),
      sa_keystrokes = of_nat (sum_list (map weight_of os)),
      sa_pastes = of_nat (length (filter is_paste_key os)),
      sa_commands = of_nat (length (List.map_filter cmd_gap os)),
      backspace_commands = of_nat (length (filter has_backspace os)),
      pending_command_is_paste = (os \<noteq> [] \<and> (\<exists>g b. last os = Key g True b)),
      whole_line_pastes = of_nat (length (filter pasted_command (steps os))),
      sub_floor_nonpaste_gaps = of_nat (length (filter (sub_floor rnd) (steps os)))\<rparr>"
  by (rule session_accumulator.equality) (simp_all add: accumulated_windows accumulated_counts pending_accumulated)

text \<open>The features of a session stay in their ranges: the ratios of commands and the cadence
  lie in the unit interval, the throughput decay between -1 and 1 when it is a number, and below the robust gate of 16
  commands the three temporal features are NaN, the mark of missing evidence.\<close>

theorem features_in_range:
  assumes "libm_ok M binary64" and "length os < 2 ^ 64" and "features M (accumulated (lm_rnd M) os) = Some f"
  shows "(\<forall>v \<in> {backspace_ratio f, whole_line_paste_ratio f, reaction_floor_hits f, cadence_regularity f}. f64_unit v)
    \<and> (throughput_decay f = NaN \<or> (\<exists>r. throughput_decay f = Fin r \<and> - 1 \<le> r \<and> r \<le> 1))
    \<and> (length (List.map_filter cmd_gap os) < 16
        \<longrightarrow> gap_autocorr f = NaN \<and> think_tail_ratio f = NaN \<and> throughput_decay f = NaN)"
proof -
  have r: "rounding_ok (lm_rnd M) binary64" using assms(1) by (simp add: libm_ok_def)
  let ?a = "accumulated (lm_rnd M) os"
  note b = accumulated_bounds [OF assms(2), of "lm_rnd M"] and f = featuresD [OF assms(3)]
  have "x \<le> sa_commands ?a \<Longrightarrow> x \<le> max (sa_commands ?a) 1" for x by (rule max.coboundedI1)
  then have "backspace_commands ?a \<le> max (sa_commands ?a) 1" "whole_line_pastes ?a \<le> max (sa_commands ?a) 1"
    "sub_floor_nonpaste_gaps ?a \<le> max (sa_commands ?a) 1"
    using b by (simp_all add: word_le_nat_alt)
  then have units: "f64_unit (backspace_ratio f)" "f64_unit (whole_line_paste_ratio f)" "f64_unit (reaction_floor_hits f)"
    using ratio_unit [OF r] by (simp_all add: f)
  have "f64_unit (cadence_regularity f)"
    unfolding f by (intro complement_unit [OF r] min_one_unit variation_nonneg [OF r])
  moreover have "throughput_decay f = NaN \<or> (\<exists>r. throughput_decay f = Fin r \<and> - 1 \<le> r \<and> r \<le> 1)"
    using decay_range [OF assms(1)] by (simp add: f)
  moreover have "unat (sa_commands ?a) = length (List.map_filter cmd_gap os)"
    using assms(2) le_less_trans [OF length_filter_le [of "\<lambda>x. cmd_gap x \<noteq> None" os]]
    by (simp add: accumulated_counts unat_of_nat map_filter_def)
  ultimately show ?thesis using units by (simp add: f)
qed

text \<open>A session at the low gate: one burst of 12 keystrokes and three commands.\<close>

definition short_session :: "observation list" where
  "short_session = [Key 0 False 12, Cmd 0 True (Fin 3), Cmd 0 False (Fin 3), Cmd 0 False (Fin 3)]"

lemma short_session_enough: "enough_evidence (accumulated rnd short_session)"
  by (simp add: enough_evidence_def accumulated_counts short_session_def map_filter_def MIN_KEYSTROKES_def MIN_COMMANDS_def max_def
    word_le_nat_alt)

lemma enough_features: "enough_evidence a \<Longrightarrow> \<exists>f. features M a = Some f"
  by (simp add: features_def Let_def)

lemma features_in_range_witness:
  "\<exists>f. features real_libm (accumulated (lm_rnd real_libm) short_session) = Some f \<and> f64_unit (cadence_regularity f)
     \<and> gap_autocorr f = NaN"
proof -
  obtain f where f: "features real_libm (accumulated (lm_rnd real_libm) short_session) = Some f"
    using enough_features [OF short_session_enough] by blast
  have n: "length short_session < 2 ^ 64" "length (List.map_filter cmd_gap short_session) < 16"
    by (simp_all add: short_session_def map_filter_def)
  show ?thesis using features_in_range [OF real_libm_ok n(1) f] f n(2) by simp
qed

lemma put_finite_ok [bt]: "bt_ok m \<Longrightarrow> bt_ok (put_finite m kv)"
  by (simp add: put_finite_def bt)

lemma foldl_put_finite:
  "bt_ok m \<Longrightarrow> distinct (map fst kvs) \<Longrightarrow> fst ` set kvs \<inter> fst ` set m = {} \<Longrightarrow>
     bt_ok (foldl put_finite m kvs)
     \<and> map_of (foldl put_finite m kvs) k
         = (case map_of kvs k of Some v \<Rightarrow> if f64_is_finite v then Some v else map_of m k | None \<Rightarrow> map_of m k)"
proof (induction kvs arbitrary: m)
  case (Cons x kvs)
  have n: "map_of m (fst x) = None" "map_of kvs (fst x) = None"
    using Cons.prems by (force simp: map_of_eq_None_iff)+
  have "bt_ok (put_finite m x)" using Cons.prems(1) by (rule put_finite_ok)
  moreover have "fst ` set kvs \<inter> fst ` set (put_finite m x) = {}"
    using Cons.prems by (auto simp: put_finite_def bt)
  ultimately show ?case using Cons.IH [of "put_finite m x"] Cons.prems n
    by (cases x; cases "map_of kvs k") (auto simp: put_finite_def bt)
qed simp

lemma labelled_distinct: "distinct (map fst (labelled f))"
  by (simp add: labelled_def)

text \<open>The feature map of a detection has exactly the finite features, each under its own name: no NaN or infinity
  reaches a serialised event.\<close>

theorem feature_map_exact:
  "map_of (to_map f) k = (case map_of (labelled f) k of Some v \<Rightarrow> if f64_is_finite v then Some v else None | None \<Rightarrow> None)
   \<and> bt_ok (to_map f)"
  using foldl_put_finite [of "[]" "labelled f" k] labelled_distinct by (simp add: to_map_def split: option.split)

end
