(* ===== verification/Model.thy ===== *)
theory Model
  imports Features
begin

text \<open>
  The transparent scoring model (\<^verbatim>\<open>plugins/plugin-agent-detect/src/model.rs\<close>): logistic evidence per feature, a
  weighted average over the terms that have evidence, hard rules that only raise it, the verdict with its confidence and
  reasons, and the log-odds of the sequential test.
\<close>

definition sigmoid :: "libm \<Rightarrow> f64 \<Rightarrow> f64" where
  "sigmoid M x = f64_div (lm_rnd M) (Fin 1) (f64_add (lm_rnd M) (Fin 1) (lm_exp M (f64_neg x)))"

record evidence_term =
  te_name :: string
  te_weight :: f64
  te_evidence :: f64

record assessment =
  p_agent :: f64
  as_verdict :: verdict
  as_confidence :: f64
  as_reasons :: "string list"

record model =
  agent_threshold :: f64
  human_threshold :: f64

definition model_default :: "rounding \<Rightarrow> model" where
  "model_default rnd = \<lparr>agent_threshold = rnd (62 / 100), human_threshold = rnd (35 / 100)\<rparr>"

definition nan_or :: "(f64 \<Rightarrow> f64) \<Rightarrow> f64 \<Rightarrow> f64" where
  "nan_or f x = (if f64_is_finite x then f x else NaN)"

text \<open>The logistic transfers: rising in the feature, and falling.\<close>

definition rising :: "libm \<Rightarrow> f64 \<Rightarrow> f64 \<Rightarrow> f64 \<Rightarrow> f64" where
  "rising M slope centre x = sigmoid M (f64_mul (lm_rnd M) slope (f64_sub (lm_rnd M) x centre))"

definition falling :: "libm \<Rightarrow> f64 \<Rightarrow> f64 \<Rightarrow> f64 \<Rightarrow> f64" where
  "falling M slope centre x = sigmoid M (f64_mul (lm_rnd M) slope (f64_sub (lm_rnd M) centre x))"

abbreviation unit_clamp :: "f64 \<Rightarrow> f64" where
  "unit_clamp \<equiv> f64_clamp (Fin 0) (Fin 1)"

definition terms :: "libm \<Rightarrow> feature_vector \<Rightarrow> evidence_term list" where
  "terms M f =
     (let rnd = lm_rnd M in
      [\<lparr>te_name = ''metronomic-typing'', te_weight = rnd (6 / 100),
        te_evidence = falling M (Fin 8) (rnd (45 / 100)) (keystroke_cv f)\<rparr>,
       \<lparr>te_name = ''paste-injection'', te_weight = rnd (4 / 100), te_evidence = unit_clamp (paste_ratio f)\<rparr>,
       \<lparr>te_name = ''instant-reaction'', te_weight = rnd (10 / 100),
        te_evidence = falling M (rnd (4 / 1000)) (Fin 1000) (mean_inter_command_ms f)\<rparr>,
       \<lparr>te_name = ''errorless-input'', te_weight = rnd (4 / 100),
        te_evidence = falling M (Fin 40) (rnd (6 / 100)) (backspace_ratio f)\<rparr>,
       \<lparr>te_name = ''dense-commands'', te_weight = rnd (2 / 100),
        te_evidence = rising M (Fin 3) (rnd (42 / 10)) (entropy_mean f)\<rparr>,
       \<lparr>te_name = ''regular-cadence'', te_weight = rnd (4 / 100), te_evidence = unit_clamp (cadence_regularity f)\<rparr>,
       \<lparr>te_name = ''gap-non-autocorrelation'', te_weight = rnd (22 / 100),
        te_evidence = nan_or (falling M (Fin 6) (rnd (18 / 100))) (gap_autocorr f)\<rparr>,
       \<lparr>te_name = ''constant-think-time'', te_weight = rnd (12 / 100),
        te_evidence = nan_or (falling M (rnd (22 / 10)) (Fin 2)) (think_tail_ratio f)\<rparr>,
       \<lparr>te_name = ''no-throughput-decay'', te_weight = rnd (14 / 100),
        te_evidence = nan_or (\<lambda>x. sigmoid M (f64_mul rnd (Fin 4) (f64_add rnd x (rnd (5 / 100))))) (throughput_decay f)\<rparr>,
       \<lparr>te_name = ''whole-line-injection'', te_weight = rnd (12 / 100),
        te_evidence = unit_clamp (whole_line_paste_ratio f)\<rparr>,
       \<lparr>te_name = ''burst-metronome'', te_weight = rnd (6 / 100),
        te_evidence = nan_or (falling M (Fin 8) (rnd (30 / 100))) (keystroke_burst_cv f)\<rparr>])"

definition surviving :: "evidence_term list \<Rightarrow> evidence_term list" where
  "surviving ts = filter (\<lambda>t. f64_is_finite (te_evidence t)) ts"

definition weighted_average :: "rounding \<Rightarrow> evidence_term list \<Rightarrow> f64" where
  "weighted_average rnd ts =
     (let total_w = f64_sum rnd (map te_weight ts)
      in if f64_lt (Fin 0) total_w
         then f64_div rnd (f64_sum rnd (map (\<lambda>t. f64_mul rnd (te_weight t) (te_evidence t)) ts)) total_w
         else Fin (1 / 2))"

section \<open>Hard rules\<close>

text \<open>Whether each rule fires, the floor it raises to, and its reason.\<close>

definition hard_rules :: "rounding \<Rightarrow> feature_vector \<Rightarrow> (bool \<times> f64 \<times> string) list" where
  "hard_rules rnd f =
     [(f64_le (Fin (1 / 4)) (reaction_floor_hits f) \<and> f64_le (Fin (1 / 2)) (whole_line_paste_ratio f),
       rnd (92 / 100), ''physiological-floor+paste''),
      (f64_le (Fin (1 / 4)) (reaction_floor_hits f), rnd (80 / 100), ''reaction-time-floor''),
      (f64_is_finite (gap_autocorr f) \<and> f64_is_finite (throughput_decay f) \<and> f64_is_finite (think_tail_ratio f)
         \<and> f64_lt (gap_autocorr f) (rnd (5 / 100)) \<and> f64_lt (f64_neg (rnd (5 / 100))) (throughput_decay f)
         \<and> f64_lt (think_tail_ratio f) (rnd (16 / 10)),
       rnd (72 / 100), ''uncorrelated-flat-throughput'')]"

definition raise_to :: "f64 \<Rightarrow> f64 \<Rightarrow> f64" where
  "raise_to p level = (if f64_lt p level then level else p)"

fun apply_rule :: "f64 \<times> string list \<Rightarrow> bool \<times> f64 \<times> string \<Rightarrow> f64 \<times> string list" where
  "apply_rule (p, reasons) (fires, level, reason) =
     (if fires then (raise_to p level, reasons @ [reason]) else (p, reasons))"

section \<open>The assessment\<close>

definition verdict_of :: "model \<Rightarrow> f64 \<Rightarrow> verdict" where
  "verdict_of m p = (if f64_le (agent_threshold m) p then Agent else if f64_le p (human_threshold m) then Human else Uncertain)"

definition confidence_of :: "rounding \<Rightarrow> verdict \<Rightarrow> f64 \<Rightarrow> f64" where
  "confidence_of rnd v p =
     (case v of
        Agent \<Rightarrow> p
      | Human \<Rightarrow> f64_sub rnd (Fin 1) p
      | Uncertain \<Rightarrow> f64_sub rnd (Fin 1) (f64_mul rnd (f64_abs (f64_sub rnd p (Fin (1 / 2)))) (Fin 2)))"

definition contribution :: "rounding \<Rightarrow> verdict \<Rightarrow> evidence_term \<Rightarrow> string \<times> f64" where
  "contribution rnd v t =
     (te_name t, if v = Human then f64_mul rnd (te_weight t) (f64_sub rnd (Fin 1) (te_evidence t))
                 else f64_mul rnd (te_weight t) (te_evidence t))"

definition strongest :: "(string \<times> f64) list \<Rightarrow> string list" where
  "strongest contribs =
     map fst (filter (\<lambda>c. f64_lt (Fin 0) (snd c)) (take 3 (sort_by (\<lambda>a b. f64_cmp_le (snd b) (snd a)) contribs)))"

definition assess :: "libm \<Rightarrow> model \<Rightarrow> feature_vector \<Rightarrow> assessment" where
  "assess M m f =
     (let rnd = lm_rnd M; ts = surviving (terms M f);
          (p, rule_reasons) = foldl apply_rule (weighted_average rnd ts, []) (hard_rules rnd f);
          v = verdict_of m p
      in \<lparr>p_agent = p, as_verdict = v, as_confidence = confidence_of rnd v p,
          as_reasons = (if v = Human then [] else rule_reasons) @ strongest (map (contribution rnd v) ts)\<rparr>)"

definition log_likelihood_ratio :: "libm \<Rightarrow> assessment \<Rightarrow> f64" where
  "log_likelihood_ratio M a =
     (let rnd = lm_rnd M; p = f64_clamp (rnd (1 / 10000)) (f64_sub rnd (Fin 1) (rnd (1 / 10000))) (p_agent a)
      in lm_ln M (f64_div rnd p (f64_sub rnd (Fin 1) p)))"

section \<open>Evidence\<close>

lemma libm_rounding: "libm_ok M X \<Longrightarrow> rounding_ok (lm_rnd M) X"
  by (simp add: libm_ok_def)

lemma neg_not_nan: "f64_neg x = NaN \<longleftrightarrow> x = NaN"
  by (cases x) auto

lemma one_plus_exp:
  assumes "libm_ok M binary64" and "x \<noteq> NaN"
  shows "f64_le (Fin 1) (f64_add (lm_rnd M) (Fin 1) (lm_exp M x))"
proof -
  note r = libm_rounding [OF assms(1)]
  have "f64_le (Fin 0) (lm_exp M x)" using assms by (simp add: libm_ok_def)
  then have "f64_le (f64_add (lm_rnd M) (Fin 1) (Fin 0)) (f64_add (lm_rnd M) (Fin 1) (lm_exp M x))"
    by (rule add_mono_right [OF r])
  then show ?thesis using rounding_okD(3) [OF r, of 1] by simp
qed

lemma sigmoid_nan [simp]: "libm_ok M X \<Longrightarrow> sigmoid M NaN = NaN"
  by (simp add: sigmoid_def libm_ok_def)

lemma sigmoid_mono:
  assumes "libm_ok M binary64" and "f64_le x y"
  shows "f64_le (sigmoid M x) (sigmoid M y)"
proof -
  have n: "f64_le (f64_neg y) (f64_neg x)" "f64_neg y \<noteq> NaN" using assms(2) by (auto intro: neg_mono simp: neg_not_nan)
  then have "f64_le (lm_exp M (f64_neg y)) (lm_exp M (f64_neg x))" using assms(1) by (simp add: libm_ok_def)
  then show ?thesis unfolding sigmoid_def
    by (intro recip_mono [OF libm_rounding [OF assms(1)]] one_plus_exp [OF assms(1) n(2)]
        add_mono_right [OF libm_rounding [OF assms(1)]]) simp
qed

lemma sigmoid_unit:
  assumes "libm_ok M binary64" and "x \<noteq> NaN"
  shows "f64_unit (sigmoid M x)"
proof -
  let ?d = "f64_add (lm_rnd M) (Fin 1) (lm_exp M (f64_neg x))"
  have d: "f64_le (Fin 1) ?d" using one_plus_exp [OF assms(1), of "f64_neg x"] assms(2) by (simp add: neg_not_nan)
  show ?thesis
  proof (cases ?d)
    case (Fin r)
    then show ?thesis using d div_unit [OF libm_rounding [OF assms(1)], of 1 r] by (simp add: sigmoid_def)
  qed (use d in \<open>simp_all add: sigmoid_def\<close>)
qed

lemma sigmoid_evidence: "libm_ok M binary64 \<Longrightarrow> sigmoid M x = NaN \<or> f64_unit (sigmoid M x)"
  by (cases "x = NaN") (simp_all add: sigmoid_unit)

lemma clamp_evidence: "unit_clamp x = NaN \<or> f64_unit (unit_clamp x)"
  using f64_clamp_range [of x 0 1] by (cases "x = NaN") (auto simp: f64_clamp_def [of _ _ NaN])

definition weight_ok :: "libm \<Rightarrow> f64 \<Rightarrow> bool" where
  "weight_ok M w \<longleftrightarrow> (\<exists>q. 0 \<le> q \<and> q \<le> 1 \<and> w = lm_rnd M q)"

definition evidence_ok :: "f64 \<Rightarrow> bool" where
  "evidence_ok e \<longleftrightarrow> e = NaN \<or> f64_unit e"

lemma weight_okI: "0 \<le> q \<Longrightarrow> q \<le> 1 \<Longrightarrow> weight_ok M (lm_rnd M q)"
  by (auto simp: weight_ok_def)

lemma evidence_okI:
  "libm_ok M binary64 \<Longrightarrow> evidence_ok (falling M s c x)" "libm_ok M binary64 \<Longrightarrow> evidence_ok (rising M s c x)"
  "libm_ok M binary64 \<Longrightarrow> evidence_ok (sigmoid M x)" "evidence_ok (unit_clamp x)"
  "(\<And>x. evidence_ok (g x)) \<Longrightarrow> evidence_ok (nan_or g x)"
  using sigmoid_evidence clamp_evidence by (simp_all add: evidence_ok_def falling_def rising_def nan_or_def)

lemma terms_ok:
  assumes "libm_ok M binary64"
  shows "\<forall>t \<in> set (terms M f). weight_ok M (te_weight t) \<and> evidence_ok (te_evidence t)"
  unfolding terms_def Let_def by (simp add: weight_okI evidence_okI assms)

lemma surviving_ok:
  "libm_ok M binary64 \<Longrightarrow> t \<in> set (surviving (terms M f)) \<Longrightarrow> weight_ok M (te_weight t) \<and> f64_unit (te_evidence t)"
  using terms_ok [of M f] by (auto simp: surviving_def evidence_ok_def)

section \<open>The weighted average\<close>

definition dominated :: "f64 list \<Rightarrow> f64 list \<Rightarrow> bool" where
  "dominated xs ys \<longleftrightarrow> list_all2 (\<lambda>x y. f64_unit x \<and> f64_unit y \<and> f64_le x y) xs ys"

lemma add_dominated:
  assumes "rounding_ok rnd binary64" and "0 \<le> a" "a \<le> b" "b \<le> real k" and "Suc k \<le> 2 ^ 53"
    and "f64_unit x" "f64_unit y" "f64_le x y"
  obtains a' b' where "f64_add rnd (Fin a) x = Fin a'" "f64_add rnd (Fin b) y = Fin b'"
    "0 \<le> a'" "a' \<le> b'" "b' \<le> real (Suc k)"
proof -
  obtain x' y' where x: "x = Fin x'" "y = Fin y'" "0 \<le> x'" "x' \<le> y'" "y' \<le> 1"
    using assms(6-8) by (auto simp: f64_unit_iff)
  have e: "real (Suc k) \<in> binary64" using binary64_nat [OF assms(5)] .
  have le: "0 \<le> a + x'" "a + x' \<le> b + y'" "0 \<le> b + y'" "a + x' \<le> real (Suc k)" "b + y' \<le> real (Suc k)"
    using assms(2-4) x by simp_all
  obtain a' where a: "rnd (a + x') = Fin a'" "0 \<le> a'"
    using rounding_between [OF assms(1) binary64_numbers(1) e le(1,4)] by blast
  obtain b' where b: "rnd (b + y') = Fin b'" "b' \<le> real (Suc k)"
    using rounding_between [OF assms(1) binary64_numbers(1) e le(3,5)] by blast
  have "a' \<le> b'" using rounding_okD(1) [OF assms(1) le(2)] a b by simp
  then show thesis using that x a b by simp
qed

lemma foldl_dominated:
  assumes "rounding_ok rnd binary64" and "dominated xs ys"
  shows "0 \<le> a \<Longrightarrow> a \<le> b \<Longrightarrow> b \<le> real k \<Longrightarrow> k + length xs \<le> 2 ^ 53 \<Longrightarrow>
    \<exists>a' b'. foldl (f64_add rnd) (Fin a) xs = Fin a' \<and> foldl (f64_add rnd) (Fin b) ys = Fin b' \<and> 0 \<le> a' \<and> a' \<le> b'"
  using assms(2) unfolding dominated_def
proof (induction xs ys arbitrary: a b k rule: list_all2_induct)
  case (Cons x xs y ys)
  have k: "Suc k \<le> 2 ^ 53" "Suc k + length xs \<le> 2 ^ 53" using Cons.prems(4) by simp_all
  have u: "f64_unit x" "f64_unit y" "f64_le x y" using Cons.hyps by simp_all
  obtain a' b' where "f64_add rnd (Fin a) x = Fin a'" "f64_add rnd (Fin b) y = Fin b'"
      "0 \<le> a'" "a' \<le> b'" "b' \<le> real (Suc k)"
    using add_dominated [OF assms(1) Cons.prems(1-3) k(1) u] by blast
  then show ?case using Cons.IH [of a' b' "Suc k"] k(2) by simp
qed auto

lemma sum_dominated:
  assumes "rounding_ok rnd binary64" and "dominated xs ys" and "length xs \<le> 100"
  obtains a b where "f64_sum rnd xs = Fin a" "f64_sum rnd ys = Fin b" "0 \<le> a" "a \<le> b"
  using foldl_dominated [OF assms(1,2), of 0 0 0] assms(3) by (auto simp: f64_sum_def)

lemma weight_unit: "rounding_ok (lm_rnd M) binary64 \<Longrightarrow> weight_ok M w \<Longrightarrow> f64_unit w"
  by (auto simp: weight_ok_def rnd_unit)

lemma scaled_le:
  assumes "rounding_ok (lm_rnd M) binary64" and "weight_ok M w" and "f64_unit e"
  shows "f64_unit (f64_mul (lm_rnd M) w e) \<and> f64_le (f64_mul (lm_rnd M) w e) w"
proof -
  obtain q where q: "0 \<le> q" "q \<le> 1" "w = lm_rnd M q" using assms(2) by (auto simp: weight_ok_def)
  obtain v where v: "w = Fin v" "0 \<le> v" "v \<le> 1" using weight_unit [OF assms(1,2)] by (auto simp: f64_unit_iff)
  obtain x where x: "e = Fin x" "0 \<le> x" "x \<le> 1" using assms(3) by (auto simp: f64_unit_iff)
  have "v * x \<le> v" using v x by (simp add: mult_left_le)
  then have "f64_le (lm_rnd M (v * x)) (Fin v)"
    using rounding_okD(1,4) [OF assms(1)] q(3) v(1) by metis
  moreover have "f64_unit (lm_rnd M (v * x))" using v x by (intro rnd_unit [OF assms(1)]) (auto intro: mult_le_one)
  ultimately show ?thesis using v(1) x(1) by simp
qed

definition terms_fine :: "libm \<Rightarrow> evidence_term list \<Rightarrow> bool" where
  "terms_fine M ts \<longleftrightarrow> length ts \<le> 100 \<and> (\<forall>t \<in> set ts. weight_ok M (te_weight t) \<and> f64_unit (te_evidence t))"

lemma scaled_dominated:
  assumes "rounding_ok (lm_rnd M) binary64" and "terms_fine M ts"
  shows "dominated (map (\<lambda>t. f64_mul (lm_rnd M) (te_weight t) (te_evidence t)) ts) (map te_weight ts)"
  using assms(2) scaled_le [OF assms(1)] weight_unit [OF assms(1)]
  by (auto simp: dominated_def terms_fine_def list_all2_conv_all_nth)

lemma average_unit:
  assumes "rounding_ok (lm_rnd M) binary64" and "terms_fine M ts"
  shows "f64_unit (weighted_average (lm_rnd M) ts)"
proof -
  obtain a b where s: "f64_sum (lm_rnd M) (map (\<lambda>t. f64_mul (lm_rnd M) (te_weight t) (te_evidence t)) ts) = Fin a"
      "f64_sum (lm_rnd M) (map te_weight ts) = Fin b" "0 \<le> a" "a \<le> b"
    using sum_dominated [OF assms(1) scaled_dominated [OF assms]] assms(2) by (auto simp: terms_fine_def)
  show ?thesis
    using div_unit [OF assms(1) s(3,4)] s(1,2) by (cases "0 < b") (simp_all add: weighted_average_def)
qed

lemma length_terms: "length (terms M f) = 11"
  by (simp add: terms_def Let_def)

lemma length_surviving: "length (surviving (terms M f)) \<le> 11"
  unfolding surviving_def length_terms [of M f, symmetric] by (rule length_filter_le)

lemma surviving_fine: "libm_ok M binary64 \<Longrightarrow> terms_fine M (surviving (terms M f))"
  using surviving_ok [of M _ f] length_surviving [of M f] by (simp add: terms_fine_def)

section \<open>The rules only raise\<close>

definition fires_to :: "f64 \<Rightarrow> bool \<times> f64 \<times> string \<Rightarrow> bool" where
  "fires_to p r \<longleftrightarrow> fst r \<and> p = fst (snd r)"

definition kept :: "f64 \<Rightarrow> bool \<times> f64 \<times> string \<Rightarrow> bool" where
  "kept p r \<longleftrightarrow> (fst r \<longrightarrow> f64_le (fst (snd r)) p)"

lemma foldl_apply_rule:
  assumes "f64_unit p" and "list_all (\<lambda>r. f64_unit (fst (snd r))) rules"
  shows "\<exists>p'. foldl apply_rule (p, rs) rules = (p', rs @ map (snd \<circ> snd) (filter fst rules))
    \<and> f64_unit p' \<and> f64_le p p' \<and> list_all (kept p') rules \<and> (p' = p \<or> list_ex (fires_to p') rules)"
  using assms
proof (induction rules arbitrary: p rs)
  case Nil
  then show ?case by (auto simp: f64_unit_iff)
next
  case (Cons x rules)
  obtain c level n where x: "x = (c, level, n)" by (cases x)
  have l: "f64_unit level" "list_all (\<lambda>r. f64_unit (fst (snd r))) rules" using Cons.prems(2) x by simp_all
  show ?case
  proof (cases c)
    case True
    have u: "f64_unit (raise_to p level)" "f64_le p (raise_to p level)" "f64_le level (raise_to p level)"
        "raise_to p level = p \<or> raise_to p level = level"
      using Cons.prems(1) l(1) by (auto simp: raise_to_def f64_unit_iff)
    obtain p' where p': "foldl apply_rule (raise_to p level, rs @ [n]) rules
          = (p', (rs @ [n]) @ map (snd \<circ> snd) (filter fst rules))"
      "f64_unit p'" "f64_le (raise_to p level) p'" "list_all (kept p') rules"
      "p' = raise_to p level \<or> list_ex (fires_to p') rules"
      using Cons.IH [OF u(1) l(2), of "rs @ [n]"] by blast
    have "f64_le p p'" "kept p' x" using f64_le_trans [OF u(2) p'(3)] f64_le_trans [OF u(3) p'(3)] x by (simp_all add: kept_def)
    moreover have "p' = p \<or> list_ex (fires_to p') (x # rules)" using p'(5) u(4) True x by (auto simp: fires_to_def)
    ultimately show ?thesis using p' True x by simp
  next
    case False
    obtain p' where "foldl apply_rule (p, rs) rules = (p', rs @ map (snd \<circ> snd) (filter fst rules))"
      "f64_unit p'" "f64_le p p'" "list_all (kept p') rules" "p' = p \<or> list_ex (fires_to p') rules"
      using Cons.IH [OF Cons.prems(1) l(2), of rs] by blast
    moreover have "kept p' x" using False x by (simp add: kept_def)
    ultimately show ?thesis using False x by auto
  qed
qed

lemma rule_levels:
  "rounding_ok rnd binary64 \<Longrightarrow> list_all (\<lambda>r. f64_unit (fst (snd r))) (hard_rules rnd f)"
  by (simp add: hard_rules_def rnd_unit)

lemma assess_p_agent:
  assumes "libm_ok M binary64"
  shows "f64_unit (p_agent (assess M m f))
    \<and> f64_le (weighted_average (lm_rnd M) (surviving (terms M f))) (p_agent (assess M m f))
    \<and> list_all (kept (p_agent (assess M m f))) (hard_rules (lm_rnd M) f)
    \<and> (p_agent (assess M m f) = weighted_average (lm_rnd M) (surviving (terms M f))
       \<or> list_ex (fires_to (p_agent (assess M m f))) (hard_rules (lm_rnd M) f))
    \<and> as_verdict (assess M m f) = verdict_of m (p_agent (assess M m f))
    \<and> as_confidence (assess M m f) = confidence_of (lm_rnd M) (as_verdict (assess M m f)) (p_agent (assess M m f))
    \<and> (as_verdict (assess M m f) \<noteq> Human \<longrightarrow>
        (\<exists>more. as_reasons (assess M m f) = map (snd \<circ> snd) (filter fst (hard_rules (lm_rnd M) f)) @ more))"
proof -
  note r = libm_rounding [OF assms]
  obtain p where "foldl apply_rule (weighted_average (lm_rnd M) (surviving (terms M f)), []) (hard_rules (lm_rnd M) f)
        = (p, map (snd \<circ> snd) (filter fst (hard_rules (lm_rnd M) f)))"
      "f64_unit p" "f64_le (weighted_average (lm_rnd M) (surviving (terms M f))) p" "list_all (kept p) (hard_rules (lm_rnd M) f)"
      "p = weighted_average (lm_rnd M) (surviving (terms M f)) \<or> list_ex (fires_to p) (hard_rules (lm_rnd M) f)"
    using foldl_apply_rule [where rs = "[]", OF average_unit [OF r surviving_fine [OF assms]] rule_levels [OF r]] by force
  then show ?thesis by (simp add: assess_def Let_def)
qed

lemma confidence_unit:
  assumes "rounding_ok rnd binary64" and "f64_unit p"
  shows "f64_unit (confidence_of rnd v p)"
proof -
  obtain r where r: "p = Fin r" "0 \<le> r" "r \<le> 1" using assms(2) by (auto simp: f64_unit_iff)
  have half: "- (1 / 2) \<in> binary64" by (rule binary64I [of _ "- 1" "- 1"]) (simp_all add: power_int_minus)
  have b: "- (1 / 2) \<le> r - 1 / 2" "r - 1 / 2 \<le> 1 / 2" using r(2,3) by simp_all
  obtain d where d: "rnd (r - 1 / 2) = Fin d" "- (1 / 2) \<le> d" "d \<le> 1 / 2"
    using rounding_between [OF assms(1) half binary64_numbers(4) b] by blast
  then have "\<bar>d\<bar> \<le> 1 / 2" by (simp add: abs_le_iff)
  then have "f64_unit (rnd (\<bar>d\<bar> * 2))" by (intro rnd_unit [OF assms(1)]) simp_all
  then have "f64_unit (f64_sub rnd (Fin 1) (f64_mul rnd (f64_abs (f64_sub rnd p (Fin (1 / 2)))) (Fin 2)))"
    using complement_unit [OF assms(1)] r(1) d(1) by (simp add: f64_sub_def)
  then show ?thesis using complement_unit [OF assms] assms(2) by (cases v) (simp_all add: confidence_of_def)
qed

lemma assessment_confidence:
  assumes "libm_ok M binary64"
  shows "f64_unit (as_confidence (assess M m f))"
proof -
  have c: "as_confidence (assess M m f) = confidence_of (lm_rnd M) (as_verdict (assess M m f)) (p_agent (assess M m f))"
    and u: "f64_unit (p_agent (assess M m f))"
    using assess_p_agent [OF assms, of m f] by blast+
  show ?thesis unfolding c by (rule confidence_unit [OF libm_rounding [OF assms] u])
qed

section \<open>Monotone evidence\<close>

definition le_or_nan :: "f64 \<Rightarrow> f64 \<Rightarrow> bool" where
  "le_or_nan x y \<longleftrightarrow> f64_le x y \<or> x = NaN \<and> y = NaN"

definition le_if_finite :: "f64 \<Rightarrow> f64 \<Rightarrow> bool" where
  "le_if_finite x y \<longleftrightarrow> (if f64_is_finite x then f64_is_finite y \<and> f64_le x y else \<not> f64_is_finite y)"

text \<open>The vector \<open>g\<close> looks at least as automated as \<open>f\<close> in every feature, and lacks the same evidence.\<close>

definition more_agentlike :: "feature_vector \<Rightarrow> feature_vector \<Rightarrow> bool" where
  "more_agentlike f g \<longleftrightarrow>
     le_or_nan (keystroke_cv g) (keystroke_cv f) \<and> le_or_nan (paste_ratio f) (paste_ratio g)
     \<and> le_or_nan (mean_inter_command_ms g) (mean_inter_command_ms f) \<and> le_or_nan (backspace_ratio g) (backspace_ratio f)
     \<and> le_or_nan (entropy_mean f) (entropy_mean g) \<and> le_or_nan (cadence_regularity f) (cadence_regularity g)
     \<and> le_if_finite (gap_autocorr g) (gap_autocorr f) \<and> le_if_finite (think_tail_ratio g) (think_tail_ratio f)
     \<and> le_if_finite (throughput_decay f) (throughput_decay g) \<and> le_or_nan (reaction_floor_hits f) (reaction_floor_hits g)
     \<and> le_or_nan (whole_line_paste_ratio f) (whole_line_paste_ratio g)
     \<and> le_if_finite (keystroke_burst_cv g) (keystroke_burst_cv f)"

lemma falling_mono:
  assumes "libm_ok M binary64" and "0 < a" and "le_or_nan y x"
  shows "le_or_nan (falling M (Fin a) (Fin b) x) (falling M (Fin a) (Fin b) y)"
proof -
  note r = libm_rounding [OF assms(1)]
  show ?thesis using assms(3) unfolding le_or_nan_def falling_def
    by (auto simp: f64_sub_def sigmoid_nan [OF assms(1)] intro!: sigmoid_mono [OF assms(1)] mul_mono_right [OF r assms(2)] add_mono_right [OF r] neg_mono)
qed

lemma rising_mono:
  assumes "libm_ok M binary64" and "0 < a" and "le_or_nan x y"
  shows "le_or_nan (rising M (Fin a) (Fin b) x) (rising M (Fin a) (Fin b) y)"
proof -
  note r = libm_rounding [OF assms(1)]
  show ?thesis using assms(3) unfolding le_or_nan_def rising_def
    by (auto simp: f64_sub_def sigmoid_nan [OF assms(1)] intro!: sigmoid_mono [OF assms(1)] mul_mono_right [OF r assms(2)] add_mono_left [OF r])
qed

lemma plus_mono:
  assumes "libm_ok M binary64" and "0 < a" and "le_or_nan x y"
  shows "le_or_nan (sigmoid M (f64_mul (lm_rnd M) (Fin a) (f64_add (lm_rnd M) x (Fin b))))
    (sigmoid M (f64_mul (lm_rnd M) (Fin a) (f64_add (lm_rnd M) y (Fin b))))"
  using rising_mono [OF assms, of "- b"] by (simp add: rising_def f64_sub_def)

lemma unit_clamp_mono: "le_or_nan x y \<Longrightarrow> le_or_nan (unit_clamp x) (unit_clamp y)"
  by (auto simp: le_or_nan_def clamp_mono)

lemma nan_or_mono:
  "(le_or_nan x y \<Longrightarrow> le_or_nan (h x) (h y)) \<Longrightarrow> le_if_finite x y \<Longrightarrow> le_or_nan (nan_or h x) (nan_or h y)"
  "(le_or_nan y x \<Longrightarrow> le_or_nan (h x) (h y)) \<Longrightarrow> le_if_finite y x \<Longrightarrow> le_or_nan (nan_or h x) (nan_or h y)"
  by (auto simp: le_if_finite_def nan_or_def le_or_nan_def split: if_splits)

lemma small_positive:
  assumes "rounding_ok rnd binary64" and "1 / 2 ^ 10 \<le> q" and "q \<le> 8"
  obtains a where "rnd q = Fin a" "0 < a"
proof -
  have "1 / 2 ^ 10 \<in> binary64" by (rule binary64I [of _ 1 "- 10"]) (simp_all add: power_int_minus)
  moreover have "8 \<in> binary64" by (rule binary64I [of _ 8 0]) simp_all
  ultimately obtain a where "rnd q = Fin a" "1 / 2 ^ 10 \<le> a" using rounding_between [OF assms(1) _ _ assms(2,3)] by blast
  moreover have "0 < (1 / 2 ^ 10 :: real)" by simp
  ultimately show thesis using that by (metis less_le_trans)
qed

definition evidence_grows :: "evidence_term \<Rightarrow> evidence_term \<Rightarrow> bool" where
  "evidence_grows t u \<longleftrightarrow> te_weight t = te_weight u \<and> le_or_nan (te_evidence t) (te_evidence u)"

lemma terms_mono:
  assumes M: "libm_ok M binary64" and "more_agentlike f g"
  shows "list_all2 evidence_grows (terms M f) (terms M g)"
proof -
  note r = libm_rounding [OF M]
  obtain c1 where c1: "lm_rnd M (45 / 100) = Fin c1" using small_positive [OF r, of "45 / 100"] by auto
  obtain c2 where c2: "lm_rnd M (4 / 1000) = Fin c2" "0 < c2" using small_positive [OF r, of "4 / 1000"] by auto
  obtain c3 where c3: "lm_rnd M (6 / 100) = Fin c3" using small_positive [OF r, of "6 / 100"] by auto
  obtain c4 where c4: "lm_rnd M (42 / 10) = Fin c4" using small_positive [OF r, of "42 / 10"] by auto
  obtain c5 where c5: "lm_rnd M (18 / 100) = Fin c5" using small_positive [OF r, of "18 / 100"] by auto
  obtain c6 where c6: "lm_rnd M (22 / 10) = Fin c6" "0 < c6" using small_positive [OF r, of "22 / 10"] by auto
  obtain c7 where c7: "lm_rnd M (5 / 100) = Fin c7" using small_positive [OF r, of "5 / 100"] by auto
  obtain c8 where c8: "lm_rnd M (30 / 100) = Fin c8" using small_positive [OF r, of "30 / 100"] by auto
  show ?thesis
    using assms(2) unfolding terms_def Let_def c1 c2 c3 c4 c5 c6 c7 c8 more_agentlike_def
    by (simp add: evidence_grows_def falling_mono [OF M] rising_mono [OF M] plus_mono [OF M] unit_clamp_mono c2 c6 nan_or_mono)
qed

lemma surviving_mono:
  assumes "list_all2 evidence_grows ts us" and "\<forall>t \<in> set (ts @ us). evidence_ok (te_evidence t)"
  shows "list_all2 evidence_grows (surviving ts) (surviving us)"
  using assms
proof (induction rule: list_all2_induct)
  case (Cons t ts u us)
  have "f64_is_finite (te_evidence t) \<longleftrightarrow> f64_is_finite (te_evidence u)"
    using Cons.hyps(1) Cons.prems by (auto simp: evidence_grows_def le_or_nan_def evidence_ok_def f64_unit_iff)
  then show ?case using Cons by (simp add: surviving_def)
qed (simp add: surviving_def)

lemma average_mono:
  assumes r: "rounding_ok (lm_rnd M) binary64" and "terms_fine M ts" "terms_fine M us" and "list_all2 evidence_grows ts us"
  shows "f64_le (weighted_average (lm_rnd M) ts) (weighted_average (lm_rnd M) us)"
proof -
  let ?c = "map (\<lambda>t. f64_mul (lm_rnd M) (te_weight t) (te_evidence t))"
  have w: "map te_weight ts = map te_weight us"
    using assms(4) by (induction rule: list_all2_induct) (simp_all add: evidence_grows_def)
  have step: "f64_le (f64_mul (lm_rnd M) (te_weight t) (te_evidence t)) (f64_mul (lm_rnd M) (te_weight u) (te_evidence u))"
    if "t \<in> set ts" "u \<in> set us" "evidence_grows t u" for t u
  proof -
    have "f64_unit (te_weight t)" "f64_unit (te_evidence t)" "f64_unit (te_evidence u)" "te_weight t = te_weight u"
      using that assms(2,3) weight_unit [OF r] by (auto simp: terms_fine_def evidence_grows_def)
    then show ?thesis using that(3) rounding_okD(1) [OF r]
      by (auto simp: f64_unit_iff evidence_grows_def le_or_nan_def mult_left_mono)
  qed
  have "dominated (?c ts) (?c us)"
    using assms(2-4) step scaled_le [OF r]
    by (auto simp: dominated_def list_all2_conv_all_nth terms_fine_def)
  moreover have "length (?c ts) \<le> 100" using assms(2) by (simp add: terms_fine_def)
  ultimately obtain a b where s: "f64_sum (lm_rnd M) (?c ts) = Fin a" "f64_sum (lm_rnd M) (?c us) = Fin b" "a \<le> b"
    by (rule sum_dominated [OF r])
  obtain t where t: "f64_sum (lm_rnd M) (map te_weight us) = Fin t"
    using sum_dominated [OF r scaled_dominated [OF r assms(3)]] assms(3) by (auto simp: terms_fine_def)
  show ?thesis
    using s rounding_okD(1) [OF r, of "a / t" "b / t"] by (simp add: weighted_average_def w t Let_def divide_right_mono)
qed

lemma raise_to_mono: "f64_unit p \<Longrightarrow> f64_unit q \<Longrightarrow> f64_unit level \<Longrightarrow> f64_le p q \<Longrightarrow> f64_le (raise_to p level) (raise_to q level)"
  by (auto simp: raise_to_def f64_unit_iff)

lemma apply_rules_mono:
  assumes "list_all2 (\<lambda>r s. snd r = snd s \<and> (fst r \<longrightarrow> fst s) \<and> f64_unit (fst (snd r))) rs ss"
    and "f64_unit p" and "f64_unit q" and "f64_le p q"
  shows "f64_le (fst (foldl apply_rule (p, ns) rs)) (fst (foldl apply_rule (q, ms) ss))"
  using assms
proof (induction arbitrary: p q ns ms rule: list_all2_induct)
  case (Cons r rs s ss)
  obtain c level n d where x: "r = (c, level, n)" "s = (d, level, n)" "c \<longrightarrow> d" "f64_unit level"
    using Cons.hyps(1) by (cases r; cases s) auto
  have "f64_unit (raise_to p level)" "f64_unit (raise_to q level)" "f64_le (raise_to p level) (raise_to q level)"
    "f64_le p (raise_to q level)"
    using Cons.prems x(4) by (auto simp: raise_to_def f64_unit_iff)
  then show ?case using Cons.IH Cons.prems x(1-3) by (cases c; cases d) simp_all
qed simp

lemma rules_mono:
  assumes r: "rounding_ok rnd binary64" and "more_agentlike f g"
  shows "list_all2 (\<lambda>r s. snd r = snd s \<and> (fst r \<longrightarrow> fst s) \<and> f64_unit (fst (snd r))) (hard_rules rnd f) (hard_rules rnd g)"
proof -
  have h: "f64_le c y" if "f64_le c x" "le_or_nan x y" for c x y
    using that f64_le_trans by (auto simp: le_or_nan_def)
  have l: "f64_lt y c" if "f64_lt x c" "f64_le y x" for c x y
    using that f64_le_trans by (auto simp: f64_lt_def)
  have u: "f64_lt c y" if "f64_lt c x" "f64_le x y" for c x y
    using that f64_le_trans by (auto simp: f64_lt_def)
  show ?thesis
    using assms(2) rnd_unit [OF r] unfolding hard_rules_def more_agentlike_def
    by (auto simp: le_if_finite_def split: if_splits intro: h l u)
qed

section \<open>The properties\<close>

text \<open>The vectors of the unit tests, and one of special values.\<close>

definition human_like :: feature_vector where
  "human_like =
     \<lparr>keystroke_cv = Fin (9 / 10), paste_ratio = Fin 0, mean_inter_command_ms = Fin 4000, backspace_ratio = Fin (2 / 10),
      entropy_mean = Fin (35 / 10), cadence_regularity = Fin (2 / 10), gap_autocorr = Fin (35 / 100),
      think_tail_ratio = Fin 5, throughput_decay = Fin (- 3 / 10), reaction_floor_hits = Fin 0,
      whole_line_paste_ratio = Fin 0, keystroke_burst_cv = Fin (7 / 10)\<rparr>"

definition agent_like :: feature_vector where
  "agent_like =
     \<lparr>keystroke_cv = Fin (8 / 100), paste_ratio = Fin (7 / 10), mean_inter_command_ms = Fin 40, backspace_ratio = Fin 0,
      entropy_mean = Fin (48 / 10), cadence_regularity = Fin (95 / 100), gap_autocorr = Fin 0,
      think_tail_ratio = Fin (105 / 100), throughput_decay = Fin (1 / 10), reaction_floor_hits = Fin (4 / 10),
      whole_line_paste_ratio = Fin (7 / 10), keystroke_burst_cv = Fin (1 / 10)\<rparr>"

definition wild_features :: feature_vector where
  "wild_features = human_like\<lparr>keystroke_cv := NaN, paste_ratio := PosInf, mean_inter_command_ms := NegInf, gap_autocorr := NaN\<rparr>"

lemma length_strongest: "length (strongest cs) \<le> 3"
  using length_filter_le [of "\<lambda>c. f64_lt (Fin 0) (snd c)" "take 3 (sort_by (\<lambda>a b. f64_cmp_le (snd b) (snd a)) cs)"]
  by (simp add: strongest_def)

text \<open>Every assessment is in range: whatever the features, NaN and infinities included, the probability and the
  confidence are numbers of the unit interval.\<close>

theorem assessment_in_range:
  assumes "libm_ok M binary64"
  shows "f64_unit (p_agent (assess M m f)) \<and> f64_unit (as_confidence (assess M m f))"
  using assess_p_agent [OF assms, of m f] assessment_confidence [OF assms] by blast

lemma assessment_in_range_witness:
  "f64_unit (p_agent (assess real_libm (model_default Fin) wild_features))
    \<and> f64_unit (as_confidence (assess real_libm (model_default Fin) wild_features))"
  by (rule assessment_in_range [OF real_libm_ok])

text \<open>The hard rules are a ratchet: the probability is the weighted average or the level of a rule that fires, and is
  at least the average and every such level; under the default thresholds a rule that fires decides for an agent
  and is named among the reasons.\<close>

theorem hard_rules_ratchet:
  assumes "libm_ok M binary64"
  shows "(let p = p_agent (assess M m f); average = weighted_average (lm_rnd M) (surviving (terms M f))
     in f64_le average p \<and> (p = average \<or> (\<exists>(fires, level, reason) \<in> set (hard_rules (lm_rnd M) f). fires \<and> p = level))
        \<and> (\<forall>(fires, level, reason) \<in> set (hard_rules (lm_rnd M) f). fires \<longrightarrow> f64_le level p
             \<and> (m = model_default (lm_rnd M) \<longrightarrow>
                  as_verdict (assess M m f) = Agent \<and> reason \<in> set (as_reasons (assess M m f)))))"
proof -
  note r = libm_rounding [OF assms] and a = assess_p_agent [OF assms, of m f]
  let ?p = "p_agent (assess M m f)"
  have lev: "f64_le (lm_rnd M (62 / 100)) level" if "(fires, level, reason) \<in> set (hard_rules (lm_rnd M) f)" for fires level reason
    using that by (auto simp: hard_rules_def intro!: rnd_mono [OF r])
  have v: "as_verdict (assess M m f) = Agent"
    if i: "(True, level, reason) \<in> set (hard_rules (lm_rnd M) f)" "f64_le level ?p" "m = model_default (lm_rnd M)" for level reason
  proof -
    have "f64_le (lm_rnd M (62 / 100)) ?p" by (rule f64_le_trans [OF lev [OF i(1)] i(2)])
    then have "verdict_of m ?p = Agent" using i(3) by (simp add: verdict_of_def model_default_def)
    then show ?thesis using a by simp
  qed
  have "\<forall>(fires, level, reason) \<in> set (hard_rules (lm_rnd M) f). fires \<longrightarrow> f64_le level ?p
      \<and> (m = model_default (lm_rnd M) \<longrightarrow> as_verdict (assess M m f) = Agent \<and> reason \<in> set (as_reasons (assess M m f)))"
  proof (intro ballI, clarify)
    fix fires level reason assume "(fires, level, reason) \<in> set (hard_rules (lm_rnd M) f)" and fires
    then have i: "(True, level, reason) \<in> set (hard_rules (lm_rnd M) f)" by simp
    have "kept ?p (True, level, reason)" using a i by (simp add: list_all_iff)
    then have l: "f64_le level ?p" by (simp add: kept_def)
    moreover have "reason \<in> set (as_reasons (assess M m f))" if agent: "as_verdict (assess M m f) = Agent"
    proof -
      have "(True, level, reason) \<in> set (filter fst (hard_rules (lm_rnd M) f))" using i by simp
      then have "reason \<in> set (map (snd \<circ> snd) (filter fst (hard_rules (lm_rnd M) f)))"
        unfolding set_map by (rule rev_image_eqI) simp
      moreover obtain more where
        "as_reasons (assess M m f) = map (snd \<circ> snd) (filter fst (hard_rules (lm_rnd M) f)) @ more"
        using a agent by auto
      ultimately show ?thesis by simp
    qed
    ultimately show "f64_le level ?p \<and> (m = model_default (lm_rnd M) \<longrightarrow>
        as_verdict (assess M m f) = Agent \<and> reason \<in> set (as_reasons (assess M m f)))"
      using v [OF i l] by blast
  qed
  moreover have "?p = weighted_average (lm_rnd M) (surviving (terms M f))
      \<or> (\<exists>(fires, level, reason) \<in> set (hard_rules (lm_rnd M) f). fires \<and> ?p = level)"
    using a by (fastforce simp: list_ex_iff fires_to_def)
  ultimately show ?thesis using a by (simp add: Let_def)
qed

lemma hard_rules_ratchet_witness:
  "f64_le (Fin (80 / 100)) (p_agent (assess real_libm (model_default Fin) agent_like))
    \<and> as_verdict (assess real_libm (model_default Fin) agent_like) = Agent
    \<and> ''reaction-time-floor'' \<in> set (as_reasons (assess real_libm (model_default Fin) agent_like))"
proof -
  have r: "lm_rnd real_libm = Fin" by (simp add: real_libm_def)
  have "(True, Fin (80 / 100), ''reaction-time-floor'') \<in> set (hard_rules Fin agent_like)"
    by (simp add: hard_rules_def agent_like_def)
  from bspec [OF conjunct2 [OF conjunct2 [OF hard_rules_ratchet
      [OF real_libm_ok, of "model_default Fin" agent_like, unfolded Let_def r]]] this]
  show ?thesis by simp
qed

text \<open>Evidence is monotone: when a session looks at least as automated in every feature, with evidence missing in
  the same places, its probability is at least as high.\<close>

theorem evidence_monotone:
  assumes "libm_ok M binary64" and "more_agentlike f g"
  shows "f64_le (p_agent (assess M m f)) (p_agent (assess M m g))"
proof -
  note r = libm_rounding [OF assms(1)]
  let ?t = "\<lambda>f. surviving (terms M f)"
  have "list_all2 evidence_grows (?t f) (?t g)"
    using surviving_mono [OF terms_mono [OF assms]] terms_ok [OF assms(1)] by auto
  then have "f64_le (weighted_average (lm_rnd M) (?t f)) (weighted_average (lm_rnd M) (?t g))"
    using average_mono [OF r] surviving_fine [OF assms(1)] by blast
  from apply_rules_mono [OF rules_mono [OF r assms(2)] average_unit [OF r surviving_fine [OF assms(1)]]
      average_unit [OF r surviving_fine [OF assms(1)]] this]
  show ?thesis by (simp add: assess_def Let_def case_prod_unfold)
qed

lemma evidence_monotone_witness:
  "more_agentlike human_like agent_like
   \<and> f64_le (p_agent (assess real_libm (model_default Fin) human_like)) (p_agent (assess real_libm (model_default Fin) agent_like))"
proof -
  have "more_agentlike human_like agent_like"
    by (simp add: more_agentlike_def human_like_def agent_like_def le_or_nan_def le_if_finite_def)
  then show ?thesis using evidence_monotone [OF real_libm_ok] by blast
qed

end
