(* ===== verification/Detect.thy ===== *)
theory Detect
  imports Model
begin

text \<open>
  The agent-versus-human detection plugin (\<^verbatim>\<open>plugins/plugin-agent-detect/src/lib.rs\<close>): per-session
  state behind one lock, idle eviction, the periodic assessment with its sequential test, and the event handler. The hash map
  of sessions is an ordered map, since no code depends on its order. A handler gets the reading of
  \<open>now_ns\<close> it starts with, and the id and time stamp of the event it may emit.
\<close>

section \<open>Configuration and state\<close>

record detect_config =
  assess_every :: u32
  assess_on_session_end :: bool
  ewma_alpha :: f64
  escalate_logit :: f64
  session_ttl_s :: u64
  assess_on_missing_session :: bool

definition detect_default :: "rounding \<Rightarrow> detect_config" where
  "detect_default rnd =
     \<lparr>assess_every = 10, assess_on_session_end = True, ewma_alpha = rnd (3 / 10), escalate_logit = Fin (1 / 4),
      session_ttl_s = 3600, assess_on_missing_session = False\<rparr>"

record session_state =
  de_acc :: session_accumulator
  since_last_assess :: u32
  ewma_logit :: f64
  ewma_inited :: bool
  de_escalated :: bool
  last_activity_ns :: u64

definition session_default :: session_state where
  "session_default =
     \<lparr>de_acc = accumulator_default, since_last_assess = 0, ewma_logit = Fin 0, ewma_inited = False,
      de_escalated = False, last_activity_ns = 0\<rparr>"

record detect_env =
  de_libm :: libm
  de_model :: model
  de_config :: detect_config
  de_agent :: string

type_synonym sessions = "(string, session_state) btree"

definition evict_idle :: "u64 \<Rightarrow> u64 \<Rightarrow> sessions \<Rightarrow> sessions" where
  "evict_idle now ttl_ns m =
     (if ttl_ns = 0 then m else filter (\<lambda>(k, s). saturating_sub now (last_activity_ns s) \<le> ttl_ns) m)"

definition ttl_of :: "detect_config \<Rightarrow> u64" where
  "ttl_of cfg = saturating_mul (session_ttl_s cfg) 1000000000"

section \<open>Assessment\<close>

text \<open>The exponentially weighted average of the log-odds.\<close>

definition ewma_step :: "detect_env \<Rightarrow> session_state \<Rightarrow> f64 \<Rightarrow> f64" where
  "ewma_step E st llr =
     (let rnd = lm_rnd (de_libm E); alpha = ewma_alpha (de_config E)
      in if ewma_inited st
         then f64_add rnd (f64_mul rnd alpha llr) (f64_mul rnd (f64_sub rnd (Fin 1) alpha) (ewma_logit st)) else llr)"

definition sequential_test :: "detect_env \<Rightarrow> assessment \<Rightarrow> session_state \<Rightarrow> (verdict \<times> f64 \<times> string list) \<times> session_state" where
  "sequential_test E a st =
     (let e = ewma_step E st (log_likelihood_ratio (de_libm E) a);
          st1 = st\<lparr>ewma_logit := e, ewma_inited := True\<rparr>;
          sustained_agent = f64_le (escalate_logit (de_config E)) e
      in if sustained_agent \<and> as_verdict a = Uncertain \<and> \<not> de_escalated st
         then ((Agent, f64_max (sigmoid (de_libm E) e) (as_confidence a), ''sequential-escalation'' # as_reasons a),
               st1\<lparr>de_escalated := True\<rparr>)
         else ((as_verdict a, as_confidence a, as_reasons a), st1))"

definition maybe_emit :: "detect_env \<Rightarrow> uuid \<times> u64 \<Rightarrow> string \<Rightarrow> bool \<Rightarrow> sessions \<Rightarrow> event list \<times> sessions" where
  "maybe_emit E stamp session_id force m =
     (case map_of m session_id of
        None \<Rightarrow> ([], m)
      | Some st \<Rightarrow>
          if \<not> force \<and> since_last_assess st < assess_every (de_config E) then ([], m)
          else let st1 = st\<lparr>since_last_assess := 0\<rparr>
               in (case features (de_libm E) (de_acc st1) of
                     None \<Rightarrow> ([], bt_insert session_id st1 m)
                   | Some f \<Rightarrow>
                       (case sequential_test E (assess (de_libm E) (de_model E) f) st1 of
                          ((v, confidence, reasons), st2) \<Rightarrow>
                            ([event_new (fst stamp) (snd stamp) (de_agent E) ''plugin-agent-detect''
                                (Detection session_id v confidence ''transparent-additive/v1'' reasons (to_map f))],
                             bt_insert session_id st2 m))))"

section \<open>The plugin\<close>

definition detect_subscriptions :: subscriptions where
  "detect_subscriptions = subscription_kinds [''input.keystroke'', ''command.observed'', ''session.start'', ''session.end'']"

text \<open>The check in \<^verbatim>\<open>init\<close>, on the configuration that was read.\<close>

definition detect_init :: "detect_config \<Rightarrow> detect_config option" where
  "detect_init cfg = (if f64_lt (Fin 0) (ewma_alpha cfg) \<and> f64_le (ewma_alpha cfg) (Fin 1) then Some cfg else None)"

text \<open>The state an observation goes to, after the eviction: \<open>None\<close> when the event is dropped.\<close>

definition session_for :: "detect_config \<Rightarrow> string \<Rightarrow> sessions \<Rightarrow> session_state option" where
  "session_for cfg session_id m =
     (case map_of m session_id of
        Some st \<Rightarrow> Some st
      | None \<Rightarrow> if assess_on_missing_session cfg then Some session_default else None)"

definition observed ::
  "detect_env \<Rightarrow> u64 \<Rightarrow> uuid \<times> u64 \<Rightarrow> string \<Rightarrow> observation \<Rightarrow> sessions \<Rightarrow> event list \<times> sessions" where
  "observed E now stamp session_id obs m =
     (let m1 = evict_idle now (ttl_of (de_config E)) m
      in case session_for (de_config E) session_id m1 of
           None \<Rightarrow> ([], m1)
         | Some st \<Rightarrow>
             maybe_emit E stamp session_id False
               (bt_insert session_id
                  (st\<lparr>de_acc := record_obs (lm_rnd (de_libm E)) (de_acc st) obs,
                      since_last_assess := since_last_assess st + 1, last_activity_ns := now\<rparr>) m1))"

fun detect_handle :: "detect_env \<Rightarrow> u64 \<Rightarrow> uuid \<times> u64 \<Rightarrow> event_payload \<Rightarrow> sessions \<Rightarrow> event list \<times> sessions" where
  "detect_handle E now stamp (SessionStart session_id _ _ _) m =
     (let m1 = evict_idle now (ttl_of (de_config E)) m;
          st = (case map_of m1 session_id of Some st \<Rightarrow> st | None \<Rightarrow> session_default)
      in ([], bt_insert session_id (st\<lparr>last_activity_ns := now\<rparr>) m1))"
| "detect_handle E now stamp (Keystroke session_id gap paste burst) m = observed E now stamp session_id (Key gap paste burst) m"
| "detect_handle E now stamp (CommandObserved session_id _ _ entropy had_back _ gap _) m =
     observed E now stamp session_id (Cmd gap had_back entropy) m"
| "detect_handle E now stamp (SessionEnd session_id) m =
     (let (evs, m1) = (if assess_on_session_end (de_config E) then maybe_emit E stamp session_id True m else ([], m))
      in (evs, bt_remove session_id m1))"
| "detect_handle E now stamp _ m = ([], m)"

type_synonym detect_input = "u64 \<times> (uuid \<times> u64) \<times> event_payload"

fun detect_run :: "detect_env \<Rightarrow> detect_input list \<Rightarrow> sessions \<Rightarrow> event list \<times> sessions" where
  "detect_run E [] m = ([], m)"
| "detect_run E ((now, stamp, p) # ps) m =
     (case detect_handle E now stamp p m of (evs, m1) \<Rightarrow> case detect_run E ps m1 of (evs', m2) \<Rightarrow> (evs @ evs', m2))"

section \<open>What a handler emits and keeps\<close>

fun about :: "event_payload \<Rightarrow> string option" where
  "about (SessionStart i _ _ _) = Some i"
| "about (SessionEnd i) = Some i"
| "about (Keystroke i _ _ _) = Some i"
| "about (CommandObserved i _ _ _ _ _ _ _) = Some i"
| "about (Detection i _ _ _ _ _) = Some i"
| "about _ = None"

definition well_formed_detection :: "string \<Rightarrow> event \<Rightarrow> bool" where
  "well_formed_detection aid ev \<longleftrightarrow>
     agent_id ev = aid \<and> source ev = ''plugin-agent-detect'' \<and> kind ev = ''detection''
     \<and> (\<exists>i v c rs f. payload ev = Detection i v c ''transparent-additive/v1'' rs (to_map f)
          \<and> f64_unit c \<and> (\<forall>(k, x) \<in> set (to_map f). f64_is_finite x))"

lemma to_map_finite: "(k, x) \<in> set (to_map f) \<Longrightarrow> f64_is_finite x"
proof -
  have "\<forall>(k, x) \<in> set m. f64_is_finite x \<Longrightarrow> \<forall>(k, x) \<in> set (foldl put_finite m kvs). f64_is_finite x" for m kvs
  proof (induction kvs arbitrary: m)
    case (Cons y kvs)
    have "f64_is_finite x" if "(k, x) \<in> set (put_finite m y)" for k x
    proof (cases "f64_is_finite (snd y)")
      case True
      then have "(k, x) \<in> insert (fst y, snd y) (set m)"
        using that set_bt_insert_subset [of "fst y" "snd y" m] by (auto simp: put_finite_def)
      then show ?thesis using True Cons.prems by auto
    qed (use that Cons.prems in \<open>auto simp: put_finite_def\<close>)
    then have "\<forall>(k, x) \<in> set (put_finite m y). f64_is_finite x" by blast
    then show ?case using Cons.IH by simp
  qed simp
  from this [of "[]" "labelled f"] show "(k, x) \<in> set (to_map f) \<Longrightarrow> f64_is_finite x" by (auto simp: to_map_def)
qed

lemma max_unit: "x = NaN \<or> f64_unit x \<Longrightarrow> f64_unit y \<Longrightarrow> f64_unit (f64_max x y)"
  by (auto simp: f64_max_def)

lemma sequential_test_confidence:
  assumes "libm_ok (de_libm E) binary64" and "f64_unit (as_confidence a)"
  shows "f64_unit (fst (snd (fst (sequential_test E a st))))"
  using assms(2) max_unit [OF sigmoid_evidence [OF assms(1)] assms(2)] by (simp add: sequential_test_def Let_def)

lemma maybe_emit_keys: "fst ` set (snd (maybe_emit E stamp i force m)) = fst ` set m"
proof (cases "map_of m i")
  case (Some st)
  then have "i \<in> fst ` set m" by (metis map_of_eq_None_iff option.distinct(1))
  then show ?thesis using Some by (simp add: maybe_emit_def Let_def bt insert_absorb split: option.split prod.split)
qed (simp add: maybe_emit_def)

lemma bt_ok_maybe_emit: "bt_ok m \<Longrightarrow> bt_ok (snd (maybe_emit E stamp i force m))"
  by (simp add: maybe_emit_def Let_def bt split: option.split prod.split)

lemma payload_event_new: "payload (event_new i t a s p) = p"
  by (simp add: event_new_def)

lemma well_formed_detectionI:
  "f64_unit c \<Longrightarrow> well_formed_detection aid (event_new i t aid ''plugin-agent-detect'' (Detection s v c ''transparent-additive/v1'' rs (to_map f)))"
  using to_map_finite by (fastforce simp: well_formed_detection_def event_new_def)

lemma maybe_emit_shape:
  assumes "ev \<in> set (fst (maybe_emit E stamp i force m))"
  obtains st f where "map_of m i = Some st" "features (de_libm E) (de_acc st) = Some f"
    "ev = (case fst (sequential_test E (assess (de_libm E) (de_model E) f) (st\<lparr>since_last_assess := 0\<rparr>)) of (v, c, rs) \<Rightarrow>
       event_new (fst stamp) (snd stamp) (de_agent E) ''plugin-agent-detect''
         (Detection i v c ''transparent-additive/v1'' rs (to_map f)))"
  using assms by (auto simp: maybe_emit_def Let_def split: option.splits prod.splits if_splits)

lemma maybe_emit_events:
  assumes "libm_ok (de_libm E) binary64" and "ev \<in> set (fst (maybe_emit E stamp i force m))"
  shows "well_formed_detection (de_agent E) ev \<and> about (payload ev) = Some i \<and> map_of m i \<noteq> None"
proof -
  obtain st f where e: "map_of m i = Some st"
    "ev = (case fst (sequential_test E (assess (de_libm E) (de_model E) f) (st\<lparr>since_last_assess := 0\<rparr>)) of (v, c, rs) \<Rightarrow>
       event_new (fst stamp) (snd stamp) (de_agent E) ''plugin-agent-detect''
         (Detection i v c ''transparent-additive/v1'' rs (to_map f)))"
    using maybe_emit_shape [OF assms(2)] by metis
  have "f64_unit (fst (snd (fst (sequential_test E (assess (de_libm E) (de_model E) f) (st\<lparr>since_last_assess := 0\<rparr>)))))"
    by (rule sequential_test_confidence [OF assms(1) assessment_confidence [OF assms(1)]])
  then show ?thesis unfolding e(2) using e(1)
    by (auto simp: well_formed_detectionI payload_event_new split: prod.split)
qed

section \<open>Sessions\<close>

lemma bt_ok_evict [bt]: "bt_ok m \<Longrightarrow> bt_ok (evict_idle now ttl m)"
  by (simp add: evict_idle_def bt)

lemma map_of_filter_values:
  "bt_ok m \<Longrightarrow> map_of (filter (\<lambda>(k, s). P s) m) i = (case map_of m i of Some s \<Rightarrow> if P s then Some s else None | None \<Rightarrow> None)"
proof (induction m)
  case (Cons x m)
  have "bt_ok m" "map_of m (fst x) = None"
    using Cons.prems by (cases x; force simp: bt_ok_Cons map_of_eq_None_iff)+
  then show ?case using Cons.IH by (cases x) auto
qed simp

lemma map_of_evict:
  "bt_ok m \<Longrightarrow> map_of (evict_idle now ttl m) i =
     (case map_of m i of
        Some st \<Rightarrow> if ttl = 0 \<or> saturating_sub now (last_activity_ns st) \<le> ttl then Some st else None
      | None \<Rightarrow> None)"
  by (auto simp: evict_idle_def map_of_filter_values split: option.split)

lemma map_of_maybe_emit_other: "bt_ok m \<Longrightarrow> i \<noteq> j \<Longrightarrow> map_of (snd (maybe_emit E stamp i force m)) j = map_of m j"
  by (simp add: maybe_emit_def Let_def bt split: option.split prod.split)

lemma bt_ok_observed: "bt_ok m \<Longrightarrow> bt_ok (snd (observed E now stamp i obs m))"
  by (simp add: observed_def Let_def bt bt_ok_maybe_emit split: option.split)

lemma bt_ok_handle: "bt_ok m \<Longrightarrow> bt_ok (snd (detect_handle E now stamp p m))"
  by (cases p) (simp_all add: Let_def bt bt_ok_observed bt_ok_maybe_emit case_prod_unfold split: option.split)

lemma observed_dropped:
  "session_for (de_config E) i (evict_idle now (ttl_of (de_config E)) m) = None \<Longrightarrow>
     observed E now stamp i obs m = ([], evict_idle now (ttl_of (de_config E)) m)"
  by (simp add: observed_def Let_def)

text \<open>What a handler does to a session the event is not about: at most evict it.\<close>

lemma handle_other:
  assumes "bt_ok m" and "about p \<noteq> Some j"
  shows "map_of (snd (detect_handle E now stamp p m)) j
      \<in> {map_of m j, map_of (evict_idle now (ttl_of (de_config E)) m) j}"
proof -
  have "map_of (snd (observed E now stamp i obs m)) j = map_of (evict_idle now (ttl_of (de_config E)) m) j" if "i \<noteq> j" for i obs
    using assms(1) that by (simp add: observed_def Let_def map_of_maybe_emit_other bt split: option.split)
  then show ?thesis using assms by (cases p) (auto simp: Let_def bt map_of_maybe_emit_other case_prod_unfold)
qed

lemma handle_subject:
  assumes "libm_ok (de_libm E) binary64" and "ev \<in> set (fst (detect_handle E now stamp p m))"
  shows "well_formed_detection (de_agent E) ev \<and> about (payload ev) = about p"
proof -
  have "well_formed_detection (de_agent E) ev \<and> about (payload ev) = Some i" if "ev \<in> set (fst (observed E now stamp i obs m))" for i obs
    using that maybe_emit_events [OF assms(1)] by (simp add: observed_def Let_def split: option.splits)
  then show ?thesis using assms(2) maybe_emit_events [OF assms(1)]
    by (cases p) (auto simp: Let_def case_prod_unfold split: if_splits)
qed

fun starts :: "string \<Rightarrow> event_payload \<Rightarrow> bool" where
  "starts i (SessionStart j _ _ _) = (i = j)"
| "starts i _ = False"

text \<open>Without a session, nothing but its start brings one about.\<close>

lemma handle_unknown:
  assumes "bt_ok m" and "\<not> assess_on_missing_session (de_config E)" and "map_of m i = None"
    and "\<not> starts i p"
  shows "map_of (snd (detect_handle E now stamp p m)) i = None
    \<and> (about p = Some i \<longrightarrow> fst (detect_handle E now stamp p m) = [])"
proof -
  have e: "map_of (evict_idle now (ttl_of (de_config E)) m) i = None" using assms(1,3) by (simp add: map_of_evict)
  then have o: "observed E now stamp i obs m = ([], evict_idle now (ttl_of (de_config E)) m)" for obs
    using assms(2) by (simp add: observed_dropped session_for_def)
  show ?thesis
  proof (cases "about p = Some i")
    case True
    then show ?thesis using assms(3,4) e o
      by (cases p) (auto simp: maybe_emit_def Let_def bt split: if_splits)
  next
    case False
    then show ?thesis using handle_other [OF assms(1) False, of E now stamp] assms(3) e by auto
  qed
qed

lemma handle_about: "ev \<in> set (fst (detect_handle E now stamp p m)) \<Longrightarrow> about (payload ev) = about p \<and> about p \<noteq> None"
proof -
  have e: "about (payload ev) = Some i" if "ev \<in> set (fst (maybe_emit E stamp i force m'))" for i force m'
    by (rule maybe_emit_shape [OF that]) (simp add: payload_event_new split: prod.splits)
  have "about (payload ev) = Some i" if "ev \<in> set (fst (observed E now stamp i obs m))" for i obs
    using that e by (simp add: observed_def Let_def split: option.splits)
  then show "ev \<in> set (fst (detect_handle E now stamp p m)) \<Longrightarrow> about (payload ev) = about p \<and> about p \<noteq> None"
    using e by (cases p) (auto simp: Let_def case_prod_unfold split: if_splits)
qed

lemma bt_ok_detect_run: "bt_ok m \<Longrightarrow> bt_ok (snd (detect_run E ps m))"
proof (induction ps arbitrary: m)
  case (Cons x ps)
  obtain now stamp p where x: "x = (now, stamp, p)" by (cases x)
  show ?case using Cons.IH [OF bt_ok_handle [OF Cons.prems]] x by (simp add: case_prod_unfold)
qed simp

fun open_step :: "detect_input \<Rightarrow> string set \<Rightarrow> string set" where
  "open_step (_, _, SessionStart i _ _ _) S = insert i S"
| "open_step (_, _, SessionEnd i) S = S - {i}"
| "open_step _ S = S"

definition open_sessions :: "detect_input list \<Rightarrow> string set" where
  "open_sessions ps = fold open_step ps {}"

text \<open>Handling these events looks for idle sessions first.\<close>

fun sweeps :: "event_payload \<Rightarrow> bool" where
  "sweeps (SessionStart _ _ _ _) = True"
| "sweeps (Keystroke _ _ _ _) = True"
| "sweeps (CommandObserved _ _ _ _ _ _ _ _) = True"
| "sweeps _ = False"

lemma handle_silent:
  assumes "bt_ok m" and "\<not> assess_on_missing_session (de_config E)" and "map_of m i = None" and "\<not> starts i p"
  shows "map_of (snd (detect_handle E now stamp p m)) i = None"
    and "\<forall>ev \<in> set (fst (detect_handle E now stamp p m)). about (payload ev) \<noteq> Some i"
proof -
  note h = handle_unknown [OF assms, of now stamp]
  show "map_of (snd (detect_handle E now stamp p m)) i = None" using h by blast
  show "\<forall>ev \<in> set (fst (detect_handle E now stamp p m)). about (payload ev) \<noteq> Some i"
  proof
    fix ev assume e: "ev \<in> set (fst (detect_handle E now stamp p m))"
    then have "about p \<noteq> Some i" using h by auto
    then show "about (payload ev) \<noteq> Some i" using handle_about [OF e] by simp
  qed
qed

lemma run_unknown:
  "bt_ok m \<Longrightarrow> \<not> assess_on_missing_session (de_config E) \<Longrightarrow> map_of m i = None \<Longrightarrow>
     \<forall>(now, stamp, p) \<in> set ps. \<not> starts i p \<Longrightarrow> \<forall>ev \<in> set (fst (detect_run E ps m)). about (payload ev) \<noteq> Some i"
proof (induction ps arbitrary: m)
  case (Cons x ps)
  obtain now stamp p where x: "x = (now, stamp, p)" by (cases x)
  have h: "map_of (snd (detect_handle E now stamp p m)) i = None"
      "\<forall>ev \<in> set (fst (detect_handle E now stamp p m)). about (payload ev) \<noteq> Some i"
    using handle_silent [OF Cons.prems(1-3), of p now stamp] Cons.prems(4) x by auto
  show ?case using Cons.IH [OF bt_ok_handle [OF Cons.prems(1)] Cons.prems(2) h(1)] h(2) Cons.prems(4) x
    by (auto simp: case_prod_unfold)
qed simp

lemma open_sessions_snoc: "open_sessions (ps @ [x]) = open_step x (open_sessions ps)"
  by (simp add: open_sessions_def)

lemma detect_run_snoc:
  "detect_run E (ps @ [(now, stamp, p)]) m
     = (fst (detect_run E ps m) @ fst (detect_handle E now stamp p (snd (detect_run E ps m))),
        snd (detect_handle E now stamp p (snd (detect_run E ps m))))"
  by (induction ps arbitrary: m) (auto simp: case_prod_unfold)

lemma known_sessions_open:
  assumes "\<not> assess_on_missing_session (de_config E)"
  shows "map_of (snd (detect_run E ps [])) i \<noteq> None \<Longrightarrow> i \<in> open_sessions ps"
proof (induction ps rule: rev_induct)
  case (snoc x ps)
  obtain now stamp p where x: "x = (now, stamp, p)" by (cases x)
  let ?m = "snd (detect_run E ps [])"
  have ok: "bt_ok ?m" by (simp add: bt_ok_detect_run)
  show ?case
  proof (cases "starts i p \<or> (\<exists>j. p = SessionEnd j \<and> i = j)")
    case True
    then show ?thesis
    proof
      assume "\<exists>j. p = SessionEnd j \<and> i = j"
      then show ?thesis using snoc.prems ok x by (auto simp: detect_run_snoc Let_def case_prod_unfold bt bt_ok_maybe_emit)
    qed (use x in \<open>cases p; simp add: open_sessions_snoc\<close>)
  next
    case False
    then have "map_of ?m i \<noteq> None"
      using handle_silent(1) [OF ok assms _, of i p now stamp] snoc.prems x by (force simp: detect_run_snoc)
    then show ?thesis using snoc.IH False x by (cases p) (auto simp: open_sessions_snoc)
  qed
qed simp

section \<open>One session alone\<close>

lemma maybe_emit_cong:
  assumes "bt_ok m" and "bt_ok m'" and "map_of m i = map_of m' i"
  shows "fst (maybe_emit E stamp i force m) = fst (maybe_emit E stamp i force m')"
    and "map_of (snd (maybe_emit E stamp i force m)) i = map_of (snd (maybe_emit E stamp i force m')) i"
  using assms by (simp_all add: maybe_emit_def Let_def bt split: option.split prod.split)

lemma maybe_emit_activity:
  "bt_ok m \<Longrightarrow> map_of (snd (maybe_emit E stamp i force m)) i = Some st' \<Longrightarrow>
     \<exists>st. map_of m i = Some st \<and> last_activity_ns st' = last_activity_ns st"
  by (auto simp: maybe_emit_def Let_def bt sequential_test_def split: option.splits prod.splits if_splits)

text \<open>No event arrives more than the idle limit after the session's own last activity.\<close>

fun active_within :: "string \<Rightarrow> u64 \<Rightarrow> u64 option \<Rightarrow> detect_input list \<Rightarrow> bool" where
  "active_within i ttl last_seen [] = True"
| "active_within i ttl last_seen ((now, stamp, p) # ps) =
     ((case last_seen of None \<Rightarrow> True | Some t \<Rightarrow> ttl = 0 \<or> saturating_sub now t \<le> ttl)
      \<and> active_within i ttl
          (if about p = Some i \<and> sweeps p then Some now else if p = SessionEnd i then None else last_seen) ps)"

definition agree :: "string \<Rightarrow> u64 option \<Rightarrow> sessions \<Rightarrow> sessions \<Rightarrow> bool" where
  "agree i last_seen m m' \<longleftrightarrow> bt_ok m \<and> bt_ok m' \<and> map_of m i = map_of m' i
     \<and> (\<forall>st. map_of m i = Some st \<longrightarrow> last_seen = Some (last_activity_ns st))"

lemma evict_agree:
  assumes "agree i last_seen m m'" and "case last_seen of None \<Rightarrow> True | Some t \<Rightarrow> ttl = 0 \<or> saturating_sub now t \<le> ttl"
  shows "map_of (evict_idle now ttl m) i = map_of m i \<and> map_of (evict_idle now ttl m') i = map_of m i"
  using assms by (auto simp: agree_def map_of_evict split: option.split)

lemma observed_agree:
  assumes a: "agree i last_seen m m'"
    and t: "case last_seen of None \<Rightarrow> True | Some t \<Rightarrow> ttl_of (de_config E) = 0 \<or> saturating_sub now t \<le> ttl_of (de_config E)"
  shows "fst (observed E now stamp i obs m) = fst (observed E now stamp i obs m')
    \<and> agree i (Some now) (snd (observed E now stamp i obs m)) (snd (observed E now stamp i obs m'))"
proof -
  let ?ev = "evict_idle now (ttl_of (de_config E))"
  note e = evict_agree [OF a t]
  have ok: "bt_ok (?ev m)" "bt_ok (?ev m')" using a by (simp_all add: agree_def bt_ok_evict)
  have s: "session_for (de_config E) i (?ev m') = session_for (de_config E) i (?ev m)" using e by (simp add: session_for_def)
  show ?thesis
  proof (cases "session_for (de_config E) i (?ev m)")
    case None
    then have "map_of m i = None" using e by (auto simp: session_for_def split: option.splits)
    then show ?thesis using None s e ok by (simp add: observed_def Let_def agree_def)
  next
    case (Some st)
    let ?st = "st\<lparr>de_acc := record_obs (lm_rnd (de_libm E)) (de_acc st) obs, since_last_assess := since_last_assess st + 1,
        last_activity_ns := now\<rparr>"
    have i: "bt_ok (bt_insert i ?st (?ev m))" "bt_ok (bt_insert i ?st (?ev m'))"
      "map_of (bt_insert i ?st (?ev m)) i = map_of (bt_insert i ?st (?ev m')) i"
      using ok by (simp_all add: bt)
    note c = maybe_emit_cong [OF i]
    have "last_activity_ns st' = now" if "map_of (snd (maybe_emit E stamp i False (bt_insert i ?st (?ev m)))) i = Some st'" for st'
      using maybe_emit_activity [OF i(1) that] ok(1) by (auto simp: bt)
    then show ?thesis using Some s c i by (auto simp: observed_def Let_def agree_def bt_ok_maybe_emit)
  qed
qed

lemma handle_agree:
  assumes a: "agree i last_seen m m'" and i: "about p = Some i"
    and t: "case last_seen of None \<Rightarrow> True | Some t \<Rightarrow> ttl_of (de_config E) = 0 \<or> saturating_sub now t \<le> ttl_of (de_config E)"
  shows "fst (detect_handle E now stamp p m) = fst (detect_handle E now stamp p m')
    \<and> agree i (if sweeps p then Some now else if p = SessionEnd i then None else last_seen)
        (snd (detect_handle E now stamp p m)) (snd (detect_handle E now stamp p m'))"
proof (cases p)
  case (SessionStart j x y z)
  then show ?thesis using evict_agree [OF a t] a i by (auto simp: agree_def Let_def bt)
next
  case (SessionEnd j)
  then show ?thesis using a i maybe_emit_cong [of m m' i E stamp True]
    by (auto simp: agree_def Let_def case_prod_unfold bt bt_ok_maybe_emit)
qed (use observed_agree [OF a t] a i in auto)

lemma handle_foreign:
  assumes a: "agree i last_seen m m'" and i: "about p \<noteq> Some i"
    and t: "case last_seen of None \<Rightarrow> True | Some t \<Rightarrow> ttl_of (de_config E) = 0 \<or> saturating_sub now t \<le> ttl_of (de_config E)"
  shows "agree i last_seen (snd (detect_handle E now stamp p m)) m'
    \<and> (\<forall>ev \<in> set (fst (detect_handle E now stamp p m)). about (payload ev) \<noteq> Some i)"
proof -
  have "map_of (snd (detect_handle E now stamp p m)) i = map_of m i"
    using handle_other [OF _ i, of m E now stamp] a evict_agree [OF a t] by (auto simp: agree_def)
  then have "agree i last_seen (snd (detect_handle E now stamp p m)) m'" using a bt_ok_handle by (simp add: agree_def)
  moreover have "about (payload ev) \<noteq> Some i" if "ev \<in> set (fst (detect_handle E now stamp p m))" for ev
    using handle_about [OF that] i by simp
  ultimately show ?thesis by blast
qed

lemma run_agree:
  "agree i last_seen m m' \<Longrightarrow> active_within i (ttl_of (de_config E)) last_seen ps \<Longrightarrow>
     filter (\<lambda>ev. about (payload ev) = Some i) (fst (detect_run E ps m))
       = fst (detect_run E (filter (\<lambda>(now, stamp, p). about p = Some i) ps) m')"
proof (induction ps arbitrary: last_seen m m')
  case (Cons x ps)
  obtain now stamp p where x: "x = (now, stamp, p)" by (cases x)
  have t: "case last_seen of None \<Rightarrow> True | Some t \<Rightarrow> ttl_of (de_config E) = 0 \<or> saturating_sub now t \<le> ttl_of (de_config E)"
    using Cons.prems(2) x by simp
  show ?case
  proof (cases "about p = Some i")
    case True
    note h = handle_agree [OF Cons.prems(1) True t, of stamp]
    have "\<forall>ev \<in> set (fst (detect_handle E now stamp p m)). about (payload ev) = Some i"
      using handle_about [of _ E now stamp p m] True by simp
    then have "filter (\<lambda>ev. about (payload ev) = Some i) (fst (detect_handle E now stamp p m)) = fst (detect_handle E now stamp p m)"
      by simp
    then show ?thesis using Cons.IH [OF conjunct2 [OF h]] Cons.prems(2) x True h by (auto simp: case_prod_unfold)
  next
    case False
    note h = handle_foreign [OF Cons.prems(1) False t, of stamp]
    have "filter (\<lambda>ev. about (payload ev) = Some i) (fst (detect_handle E now stamp p m)) = []"
      using h by (simp add: filter_empty_conv)
    moreover have "p \<noteq> SessionEnd i" using False by auto
    ultimately show ?thesis using Cons.IH [OF conjunct1 [OF h]] Cons.prems(2) x False by (simp add: case_prod_unfold)
  qed
qed simp

section \<open>The sequential test\<close>

definition ewma :: "detect_env \<Rightarrow> f64 list \<Rightarrow> f64" where
  "ewma E ls =
     (let rnd = lm_rnd (de_libm E); alpha = ewma_alpha (de_config E)
      in case ls of
           [] \<Rightarrow> Fin 0
         | l # ls' \<Rightarrow> foldl (\<lambda>e x. f64_add rnd (f64_mul rnd alpha x) (f64_mul rnd (f64_sub rnd (Fin 1) alpha) e)) l ls')"

text \<open>The last of these assessments is undecided while the average leans to an agent.\<close>

definition leaning :: "detect_env \<Rightarrow> assessment list \<Rightarrow> bool" where
  "leaning E as \<longleftrightarrow> as \<noteq> [] \<and> as_verdict (last as) = Uncertain
     \<and> f64_le (escalate_logit (de_config E)) (ewma E (map (log_likelihood_ratio (de_libm E)) as))"

definition tested :: "detect_env \<Rightarrow> assessment list \<Rightarrow> session_state" where
  "tested E as = foldl (\<lambda>st a. snd (sequential_test E a st)) session_default as"

lemma ewma_snoc:
  "ewma E (ls @ [l]) = (if ls = [] then l else
     f64_add (lm_rnd (de_libm E)) (f64_mul (lm_rnd (de_libm E)) (ewma_alpha (de_config E)) l)
       (f64_mul (lm_rnd (de_libm E)) (f64_sub (lm_rnd (de_libm E)) (Fin 1) (ewma_alpha (de_config E))) (ewma E ls)))"
  by (cases ls) (simp_all add: ewma_def Let_def)

lemma ewma_single [simp]: "ewma E [l] = l"
  by (simp add: ewma_def)

lemma prefix_snoc: "(\<exists>bs cs. xs @ [x] = bs @ cs \<and> P bs) \<longleftrightarrow> (\<exists>bs cs. xs = bs @ cs \<and> P bs) \<or> P (xs @ [x])"
proof
  assume "\<exists>bs cs. xs @ [x] = bs @ cs \<and> P bs"
  then obtain bs cs where b: "xs @ [x] = bs @ cs" "P bs" by blast
  show "(\<exists>bs cs. xs = bs @ cs \<and> P bs) \<or> P (xs @ [x])"
  proof (cases cs rule: rev_cases)
    case (snoc ys y)
    then have "xs = bs @ ys" using b(1) by simp
    then show ?thesis using b(2) by blast
  qed (use b in simp)
next
  assume "(\<exists>bs cs. xs = bs @ cs \<and> P bs) \<or> P (xs @ [x])"
  then show "\<exists>bs cs. xs @ [x] = bs @ cs \<and> P bs" by (metis append_Nil2 append_assoc)
qed

lemma sequential_test_state:
  "ewma_logit (snd (sequential_test E a st)) = ewma_step E st (log_likelihood_ratio (de_libm E) a)"
  "ewma_inited (snd (sequential_test E a st))"
  "de_escalated (snd (sequential_test E a st)) \<longleftrightarrow> de_escalated st
     \<or> f64_le (escalate_logit (de_config E)) (ewma_step E st (log_likelihood_ratio (de_libm E) a)) \<and> as_verdict a = Uncertain"
  by (auto simp: sequential_test_def Let_def)

lemma ewma_step_tested:
  assumes "ewma_inited st \<longleftrightarrow> as \<noteq> []" and "as \<noteq> [] \<Longrightarrow> ewma_logit st = ewma E (map (log_likelihood_ratio (de_libm E)) as)"
  shows "ewma_step E st (log_likelihood_ratio (de_libm E) a) = ewma E (map (log_likelihood_ratio (de_libm E)) (as @ [a]))"
  using assms by (cases "as = []") (simp_all add: ewma_step_def ewma_snoc Let_def)

lemma tested_state:
  "(ewma_inited (tested E as) \<longleftrightarrow> as \<noteq> [])
   \<and> (as \<noteq> [] \<longrightarrow> ewma_logit (tested E as) = ewma E (map (log_likelihood_ratio (de_libm E)) as))
   \<and> (de_escalated (tested E as) \<longleftrightarrow> (\<exists>bs cs. as = bs @ cs \<and> leaning E bs))"
proof (induction as rule: rev_induct)
  case Nil
  then show ?case by (simp add: tested_def session_default_def leaning_def)
next
  case (snoc a as)
  have t: "tested E (as @ [a]) = snd (sequential_test E a (tested E as))" by (simp add: tested_def)
  have s: "ewma_step E (tested E as) (log_likelihood_ratio (de_libm E) a) = ewma E (map (log_likelihood_ratio (de_libm E)) (as @ [a]))"
    using snoc by (intro ewma_step_tested) auto
  have "(\<exists>bs cs. as @ [a] = bs @ cs \<and> leaning E bs) \<longleftrightarrow> (\<exists>bs cs. as = bs @ cs \<and> leaning E bs) \<or> leaning E (as @ [a])"
    by (rule prefix_snoc)
  then show ?case unfolding t using snoc s by (auto simp: sequential_test_state leaning_def)
qed

section \<open>The properties\<close>

definition demo_detect :: detect_env where
  "demo_detect =
     \<lparr>de_libm = real_libm, de_model = model_default Fin, de_config = detect_default Fin, de_agent = ''srv''\<rparr>"

lemma demo_detect_simps [simp]:
  "de_libm demo_detect = real_libm" "de_config demo_detect = detect_default Fin" "lm_rnd real_libm = Fin"
  "\<not> assess_on_missing_session (detect_default r)" "assess_on_session_end (detect_default r)"
  "ttl_of (detect_default r) = 3600000000000" "assess_every (detect_default r) = 10"
  by (simp_all add: demo_detect_def real_libm_def detect_default_def ttl_of_def saturating_mul_def)

definition starting :: "string \<Rightarrow> u64 \<Rightarrow> detect_input" where
  "starting i now = (now, (0, now), SessionStart i None ''u'' None)"

definition typing :: "string \<Rightarrow> u64 \<Rightarrow> detect_input" where
  "typing i now = (now, (0, now), Keystroke i 0 False 12)"

definition command :: "string \<Rightarrow> u64 \<Rightarrow> detect_input" where
  "command i now = (now, (0, now), CommandObserved i 1 1 (Fin 3) False 0 0 ''h'')"

definition closing :: "string \<Rightarrow> u64 \<Rightarrow> detect_input" where
  "closing i now = (now, (0, now), SessionEnd i)"

lemmas demo_inputs = starting_def typing_def command_def closing_def

text \<open>C18: The sequential test escalates once: over any assessments of a session, a verdict is raised from undecided to
  agent exactly at the first undecided assessment at which the moving average of the log-odds has reached
  the threshold. The average of a single assessment is its own log-odds, so the first assessment of a session can
  be raised already.\<close>

theorem escalates_once:
  "fst (fst (sequential_test E a (tested E as)))
     = (if leaning E (as @ [a]) \<and> \<not> (\<exists>bs cs. as = bs @ cs \<and> leaning E bs) then Agent else as_verdict a)
   \<and> (leaning E [a] \<longleftrightarrow> as_verdict a = Uncertain \<and> f64_le (escalate_logit (de_config E)) (log_likelihood_ratio (de_libm E) a))"
proof
  have s: "ewma_step E (tested E as) (log_likelihood_ratio (de_libm E) a) = ewma E (map (log_likelihood_ratio (de_libm E)) (as @ [a]))"
    using tested_state [of E as] by (intro ewma_step_tested) auto
  show "fst (fst (sequential_test E a (tested E as)))
     = (if leaning E (as @ [a]) \<and> \<not> (\<exists>bs cs. as = bs @ cs \<and> leaning E bs) then Agent else as_verdict a)"
    using tested_state [of E as] s by (simp add: sequential_test_def Let_def leaning_def)
  show "leaning E [a] \<longleftrightarrow> as_verdict a = Uncertain \<and> f64_le (escalate_logit (de_config E)) (log_likelihood_ratio (de_libm E) a)"
    by (simp add: leaning_def ewma_def)
qed

text \<open>C19: Sessions do not influence each other: while a session keeps within the idle limit, the detections about it
  are those the plugin would emit if it saw the events of that session alone.\<close>

theorem sessions_independent:
  assumes "active_within i (ttl_of (de_config E)) None ps"
  shows "filter (\<lambda>ev. about (payload ev) = Some i) (fst (detect_run E ps []))
     = fst (detect_run E (filter (\<lambda>(now, stamp, p). about p = Some i) ps) [])"
  by (rule run_agree [OF _ assms]) (simp add: agree_def)

lemma sessions_independent_witness:
  "filter (\<lambda>ev. about (payload ev) = Some ''a'')
      (fst (detect_run demo_detect [starting ''a'' 1, starting ''b'' 2, typing ''a'' 3, typing ''b'' 4, closing ''b'' 5, closing ''a'' 6] []))
     = fst (detect_run demo_detect [starting ''a'' 1, typing ''a'' 3, closing ''a'' 6] [])"
  using sessions_independent [of "''a''" demo_detect "[starting ''a'' 1, starting ''b'' 2, typing ''a'' 3, typing ''b'' 4,
      closing ''b'' 5, closing ''a'' 6]"]
  by (simp add: demo_inputs saturating_sub_def)

text \<open>C20: Every detection is well formed: whatever the plugin receives, what it emits is a detection under the host's id
  and its own name, with a confidence in the unit interval and only finite features.\<close>

theorem detections_well_formed:
  assumes "libm_ok (de_libm E) binary64" and "ev \<in> set (fst (detect_run E ps []))"
  shows "well_formed_detection (de_agent E) ev"
  using assms(2)
proof (induction ps rule: rev_induct)
  case (snoc x ps)
  obtain now stamp p where x: "x = (now, stamp, p)" by (cases x)
  show ?case
  proof (cases "ev \<in> set (fst (detect_run E ps []))")
    case False
    then have "ev \<in> set (fst (detect_handle E now stamp p (snd (detect_run E ps []))))"
      using snoc.prems x by (simp add: detect_run_snoc)
    then show ?thesis using handle_subject [OF assms(1)] by blast
  qed (rule snoc.IH)
qed simp

definition demo_session :: "detect_input list" where
  "demo_session = [starting ''a'' 1, typing ''a'' 2, command ''a'' 3, command ''a'' 4, command ''a'' 5, closing ''a'' 6]"

lemma observed_quiet:
  "saturating_sub now (last_activity_ns st) \<le> 3600000000000 \<Longrightarrow> since_last_assess st + 1 < 10 \<Longrightarrow>
     observed demo_detect now stamp i obs [(i, st)]
       = ([], [(i, st\<lparr>de_acc := record_obs Fin (de_acc st) obs, since_last_assess := since_last_assess st + 1,
                      last_activity_ns := now\<rparr>)])"
  by (simp add: observed_def Let_def evict_idle_def session_for_def maybe_emit_def)

lemma forced_emits:
  "enough_evidence (de_acc st) \<Longrightarrow> fst (maybe_emit demo_detect stamp i True [(i, st)]) \<noteq> []"
  using enough_features [of "de_acc st" real_libm] by (auto simp: maybe_emit_def Let_def case_prod_unfold)

lemma demo_session_emits: "fst (detect_run demo_detect demo_session []) \<noteq> []"
proof -
  let ?acc = "record_obs Fin (record_obs Fin (record_obs Fin (record_obs Fin accumulator_default (Key 0 False 12))
      (Cmd 0 False (Fin 3))) (Cmd 0 False (Fin 3))) (Cmd 0 False (Fin 3))"
  have e: "enough_evidence ?acc"
    by (simp add: enough_evidence_def accumulator_default_def MIN_KEYSTROKES_def MIN_COMMANDS_def max_def word_le_nat_alt)
  show ?thesis
    using forced_emits [of "session_default\<lparr>de_acc := ?acc, since_last_assess := 4, last_activity_ns := 5\<rparr>" "(0, 6)" "''a''"] e
    by (simp add: demo_session_def demo_inputs session_default_def evict_idle_def saturating_sub_def observed_quiet
        case_prod_unfold Let_def del: record_obs.simps)
qed

lemma detections_well_formed_witness:
  "\<exists>ev \<in> set (fst (detect_run demo_detect demo_session [])). well_formed_detection ''srv'' ev"
proof -
  obtain ev where ev: "ev \<in> set (fst (detect_run demo_detect demo_session []))"
    using demo_session_emits by (meson last_in_set)
  have "libm_ok (de_libm demo_detect) binary64" by simp
  from detections_well_formed [OF this ev] show ?thesis using ev by (auto simp: demo_detect_def)
qed

text \<open>Only started sessions are tracked and judged: unless configured otherwise, the plugin holds state only for
  sessions that were started and not ended since, and a detection is about such a session.\<close>

theorem only_started_sessions:
  assumes "\<not> assess_on_missing_session (de_config E)"
  shows "fst ` set (snd (detect_run E ps [])) \<subseteq> open_sessions ps
    \<and> (\<forall>ev \<in> set (fst (detect_handle E now stamp p (snd (detect_run E ps [])))). about (payload ev) \<in> Some ` open_sessions ps)"
proof
  show "fst ` set (snd (detect_run E ps [])) \<subseteq> open_sessions ps"
    using known_sessions_open [OF assms, of ps] by (metis map_of_eq_None_iff subsetI)
  show "\<forall>ev \<in> set (fst (detect_handle E now stamp p (snd (detect_run E ps [])))). about (payload ev) \<in> Some ` open_sessions ps"
  proof
    fix ev assume e: "ev \<in> set (fst (detect_handle E now stamp p (snd (detect_run E ps []))))"
    obtain i where i: "about (payload ev) = Some i" "about p = Some i" using handle_about [OF e] by auto
    have "map_of (snd (detect_run E ps [])) i \<noteq> None"
    proof
      assume n: "map_of (snd (detect_run E ps [])) i = None"
      have "\<not> starts i p" using e by (cases p) (auto simp: Let_def)
      then show False using handle_silent(2) [OF bt_ok_detect_run assms n] e i by simp
    qed
    then show "about (payload ev) \<in> Some ` open_sessions ps" using i known_sessions_open [OF assms] by simp
  qed
qed

lemma only_started_sessions_witness:
  "fst ` set (snd (detect_run demo_detect [starting ''a'' 1, starting ''b'' 2, closing ''a'' 3] [])) \<subseteq> {''b''}"
proof -
  have "open_sessions [starting ''a'' 1, starting ''b'' 2, closing ''a'' 3] = {''b''}"
    by (auto simp: open_sessions_def demo_inputs)
  then show ?thesis using only_started_sessions [of demo_detect "[starting ''a'' 1, starting ''b'' 2, closing ''a'' 3]"] by simp
qed

text \<open>C16: A session that was silent for longer than the idle limit is never judged again: the next event that
  sweeps, its own keystroke included, discards its state, and from then on no detection is about it unless it is started
  anew.\<close>

theorem idle_session_goes_dark:
  assumes "\<not> assess_on_missing_session (de_config E)" and "ttl_of (de_config E) \<noteq> 0"
    and "map_of (snd (detect_run E ps [])) i = Some st"
    and "ttl_of (de_config E) < saturating_sub now (last_activity_ns st)" and "sweeps p"
    and "\<forall>(n, s, p') \<in> set ((now, stamp, p) # qs). \<not> starts i p'"
  shows "\<forall>ev \<in> set (fst (detect_run E ((now, stamp, p) # qs) (snd (detect_run E ps [])))). about (payload ev) \<noteq> Some i"
proof -
  let ?m = "snd (detect_run E ps [])"
  let ?m1 = "evict_idle now (ttl_of (de_config E)) ?m"
  have ok: "bt_ok ?m" "bt_ok ?m1" by (simp_all add: bt_ok_detect_run bt_ok_evict)
  have "map_of ?m1 i = None" using assms(2-4) by (simp add: map_of_evict [OF ok(1)])
  have idem: "evict_idle now t (evict_idle now t m) = evict_idle now t m" for t m
    by (simp add: evict_idle_def case_prod_unfold)
  have "detect_handle E now stamp p ?m = detect_handle E now stamp p ?m1"
    using assms(5) by (cases p) (simp_all add: observed_def idem)
  then have "detect_run E ((now, stamp, p) # qs) ?m = detect_run E ((now, stamp, p) # qs) ?m1" by simp
  then show ?thesis using run_unknown [OF ok(2) assms(1) \<open>map_of ?m1 i = None\<close> assms(6)] by simp
qed

lemma idle_session_goes_dark_witness:
  "Some ''a'' \<notin> about ` payload ` set (fst (detect_run demo_detect
       [typing ''a'' 3600000000002, command ''a'' 3600000000003, closing ''a'' 3600000000004]
       (snd (detect_run demo_detect [starting ''a'' 1] []))))"
proof -
  have "\<forall>ev \<in> set (fst (detect_run demo_detect
       [typing ''a'' 3600000000002, command ''a'' 3600000000003, closing ''a'' 3600000000004]
       (snd (detect_run demo_detect [starting ''a'' 1] [])))). about (payload ev) \<noteq> Some ''a''"
    using idle_session_goes_dark [of demo_detect "[starting ''a'' 1]" "''a''" "session_default\<lparr>last_activity_ns := 1\<rparr>"
        3600000000002 "Keystroke ''a'' 0 False 12" "(0, 3600000000002)"
        "[command ''a'' 3600000000003, closing ''a'' 3600000000004]"]
    by (simp add: demo_inputs evict_idle_def saturating_sub_def)
  then show ?thesis by (auto simp: eq_commute [of "Some _"])
qed

end
