(* ===== verification/Verdicts.thy ===== *)
theory Verdicts
  imports Detect Scoring
begin

text \<open>
  The detection plugin and the scoring plugin together: what the detector emits is what risk aggregation needs,
  and decisive evidence leads to an alert. No definitions of the program are added.
\<close>

section \<open>The detector's confidences\<close>

lemma well_formed_finite: "well_formed_detection aid ev \<Longrightarrow> finite_confidence (payload ev)"
  by (auto simp: well_formed_detection_def finite_confidence_def f64_unit_iff)

lemma detect_run_finite:
  assumes "libm_ok (de_libm E) binary64" and "ev \<in> set (fst (detect_run E ps m))"
  shows "finite_confidence (payload ev)"
  using assms(2)
proof (induction ps arbitrary: m)
  case (Cons x ps)
  obtain now stamp p where x: "x = (now, stamp, p)" by (cases x)
  show ?case
  proof (cases "ev \<in> set (fst (detect_handle E now stamp p m))")
    case True
    then show ?thesis using handle_subject [OF assms(1)] well_formed_finite by blast
  next
    case False
    then show ?thesis using Cons.IH Cons.prems x by (auto simp: case_prod_unfold)
  qed
qed simp

text \<open>Detections keep the risk map sound: fed with whatever the detector emits, for any input of the
  detector and any ids and clocks, scores stay within 0 and 100 and only those above the negligible one are kept. The
  condition on confidences that risk aggregation needs is a consequence.\<close>

theorem detections_keep_risk_sound:
  assumes "libm_ok (de_libm E) binary64" and "rounding_ok (sv_rnd S) X" and "{0, 100} \<subseteq> X" and "config_finite (sv_cfg S)"
    and "scoring_init (sv_cfg S) \<noteq> None"
    and "map (snd \<circ> snd) qs = map payload (fst (detect_run E ps []))"
  shows "risk_ok (snd (scoring_run S qs []))"
proof (rule scoring_run_ok [OF assms(2-5)], intro ballI)
  fix x assume "x \<in> set qs"
  then have "snd (snd x) \<in> set (map payload (fst (detect_run E ps [])))" unfolding assms(6) [symmetric] by force
  then show "finite_confidence (snd (snd x))" using detect_run_finite [OF assms(1)] by auto
qed

lemma detections_keep_risk_sound_witness:
  "risk_ok (snd (scoring_run \<lparr>sv_rnd = Fin, sv_cfg = scoring_default, sv_agent = ''a'', sv_show1 = (\<lambda>_. ''x'')\<rparr>
     (map (\<lambda>ev. ((1, 0), (2, 0), payload ev)) (fst (detect_run demo_detect demo_session []))) []))"
  by (rule detections_keep_risk_sound [of demo_detect _ "{0, 100}" _ demo_session])
    (simp_all add: config_finite_def scoring_default_def scoring_init_def lit_098_def o_def)

section \<open>Decisive evidence alerts\<close>

definition judged :: "libm \<Rightarrow> string \<Rightarrow> feature_vector \<Rightarrow> event_payload" where
  "judged M i f =
     (let a = assess M (model_default (lm_rnd M)) f
      in Detection i (as_verdict a) (as_confidence a) ''transparent-additive/v1'' (as_reasons a) (to_map f))"

lemma rule_level_high:
  assumes "rounding_ok rnd binary64" and "(c, level, n) \<in> set (hard_rules rnd f)"
  shows "f64_le (Fin (23 / 32)) level"
proof -
  have "23 / 32 \<in> binary64" by (rule binary64I [of _ 23 "- 5"]) (simp_all add: power_int_minus)
  then have "f64_le (Fin (23 / 32)) (rnd q)" if "23 / 32 \<le> q" for q
    using rounding_okD(1,3) [OF assms(1)] that by metis
  then show ?thesis using assms(2) by (auto simp: hard_rules_def)
qed

lemma judged_decisive:
  assumes "libm_ok M binary64" and "(True, level, n) \<in> set (hard_rules (lm_rnd M) f)"
  obtains c rs where "judged M i f = Detection i Agent (Fin c) ''transparent-additive/v1'' rs (to_map f)"
    "23 / 32 \<le> c" "c \<le> 1"
proof -
  let ?a = "assess M (model_default (lm_rnd M)) f"
  note r = libm_rounding [OF assms(1)] and a = assess_p_agent [OF assms(1), of "model_default (lm_rnd M)" f]
  have "kept (p_agent ?a) (True, level, n)" using a assms(2) by (auto simp: list_all_iff)
  then have p: "f64_le level (p_agent ?a)" by (simp add: kept_def)
  have "f64_le (lm_rnd M (62 / 100)) level" using assms(2) by (auto simp: hard_rules_def intro!: rnd_mono [OF r])
  then have v: "as_verdict ?a = Agent"
    using a f64_le_trans [OF _ p] by (simp add: verdict_of_def model_default_def)
  have "f64_le (Fin (23 / 32)) (p_agent ?a)" by (rule f64_le_trans [OF rule_level_high [OF r assms(2)] p])
  moreover obtain c where "p_agent ?a = Fin c" "c \<le> 1" using a by (auto simp: f64_unit_iff)
  moreover have "as_confidence ?a = p_agent ?a" using a v by (simp add: confidence_of_def)
  ultimately show thesis using that v by (simp add: judged_def Let_def)
qed

lemma verdict_bump:
  assumes "rounding_ok rnd binary64" and "0 \<le> x" "x \<le> 100" and "23 / 32 \<le> c" "c \<le> 1" and "k \<le> 43" "real k \<le> x * lit_098"
  obtains y where "bumped rnd (Fin x) (f64_mul rnd (Fin 60) (Fin c)) (Fin lit_098) = Fin y" "real (k + 43) \<le> y" "y \<le> 100"
proof -
  note e = rounding_okD(1) [OF assms(1)] and n = of_nat_exact [OF assms(1), unfolded f64_of_nat_def]
  have d: "f64_le (Fin 43) (rnd (60 * c))" using e [of "real 43" "60 * c"] n [of 43] assms(4) by simp
  have d2: "f64_le (rnd (60 * c)) (Fin 60)" using e [of "60 * c" "real 60"] n [of 60] assms(5) by simp
  obtain delta where delta: "rnd (60 * c) = Fin delta" "43 \<le> delta" using d d2 by (cases "rnd (60 * c)") auto
  have l: "f64_le (Fin (real k)) (rnd (x * lit_098))" using e [OF assms(7)] n [of k] assms(6) by simp
  have "x * lit_098 \<le> real 100" using assms(2,3) mult_mono [of x 100 lit_098 1] by (simp add: lit_098_def)
  then have "f64_le (rnd (x * lit_098)) (Fin 100)" using e [of "x * lit_098" "real 100"] n [of 100] by simp
  with l obtain z where z: "rnd (x * lit_098) = Fin z" "real k \<le> z" by (cases "rnd (x * lit_098)") auto
  have s: "f64_le (Fin (real (k + 43))) (rnd (z + delta))"
    using e [of "real (k + 43)" "z + delta"] n [of "k + 43"] z(2) delta(2) assms(6) by simp
  have "real (k + 43) \<le> 100" using assms(6) by simp
  then have "\<exists>y. bumped rnd (Fin x) (Fin delta) (Fin lit_098) = Fin y \<and> real (k + 43) \<le> y \<and> y \<le> 100"
    using s z(1) by (cases "rnd (z + delta)") (auto simp: bumped_def f64_clamp_def)
  then show thesis using that delta(1) by auto
qed

text \<open>C17: Decisive evidence alerts at the second assessment: when a hard rule fires in two assessments of a session with
  no other event about it in between, the verdicts raise the risk of the session past the default threshold, and
  the second one raises an alert about it, whatever the risk was.\<close>

theorem decisive_evidence_alerts:
  assumes "libm_ok M binary64" and "rounding_ok (sv_rnd S) binary64" and "sv_cfg S = scoring_default" and "risk_ok st"
    and "(True, l1, n1) \<in> set (hard_rules (lm_rnd M) f1)" and "(True, l2, n2) \<in> set (hard_rules (lm_rnd M) f2)"
  shows "\<exists>sev t d. payload (last (fst (scoring_handle S s3 s4 (judged M i f2)
       (snd (scoring_handle S s1 s2 (judged M i f1) st))))) = Alert sev t d (Some i)"
proof -
  obtain c1 rs1 where j1: "judged M i f1 = Detection i Agent (Fin c1) ''transparent-additive/v1'' rs1 (to_map f1)"
      "23 / 32 \<le> c1" "c1 \<le> 1" using judged_decisive [OF assms(1,5)] by blast
  obtain c2 rs2 where j2: "judged M i f2 = Detection i Agent (Fin c2) ''transparent-additive/v1'' rs2 (to_map f2)"
      "23 / 32 \<le> c2" "c2 \<le> 1" using judged_decisive [OF assms(1,6)] by blast
  obtain x where x: "risk_get i st = Fin x" "0 \<le> x" "x \<le> 100" using risk_get_ok [OF assms(4)] by blast
  have "real 0 \<le> x * lit_098" using x(2) by (simp add: lit_098_def)
  then obtain y where y: "bumped (sv_rnd S) (Fin x) (f64_mul (sv_rnd S) (Fin 60) (Fin c1)) (Fin lit_098) = Fin y"
      "real (0 + 43) \<le> y" "y \<le> 100" using verdict_bump [OF assms(2) x(2,3) j1(2,3), of 0] by auto
  have "real 42 \<le> y * lit_098"
    using y(2) mult_mono [of 43 y "42 / 43" lit_098] by (simp add: lit_098_def)
  then obtain z where z: "bumped (sv_rnd S) (Fin y) (f64_mul (sv_rnd S) (Fin 60) (Fin c2)) (Fin lit_098) = Fin z"
      "real (42 + 43) \<le> z" using verdict_bump [OF assms(2) _ y(3) j2(2,3), of 42] y(2) by auto
  let ?st1 = "snd (scoring_handle S s1 s2 (judged M i f1) st)"
  have in1: "risk_input (sv_rnd S) (sv_cfg S) (judged M i f1) = Some (i, f64_mul (sv_rnd S) (Fin 60) (Fin c1), Some (Fin c1, Fin 1))"
    and in2: "risk_input (sv_rnd S) (sv_cfg S) (judged M i f2) = Some (i, f64_mul (sv_rnd S) (Fin 60) (Fin c2), Some (Fin c2, Fin 1))"
    using j1(1) j2(1) assms(3) by (simp_all add: scoring_default_def)
  have "risk_get i ?st1 = Fin y"
    using risk_get_handle [of st i S s1 s2 "judged M i f1"] risk_effect_simps(3) [OF in1] assms(3,4) x(1) y
    by (simp add: risk_ok_def scoring_default_def settle_def NEGLIGIBLE_SCORE_def lit_001_def)
  then have b: "fst (bump (sv_rnd S) i (f64_mul (sv_rnd S) (Fin 60) (Fin c2)) (sg_decay (sv_cfg S)) ?st1) = Fin z"
    using z(1) assms(3) by (simp add: bump_def Let_def scoring_default_def)
  show ?thesis unfolding scoring_handle_simps(3) [OF in2] using b z(2) assms(3)
    by (simp add: score_events_def scoring_default_def event_new_def)
qed

lemma decisive_evidence_alerts_witness:
  "\<exists>sev t d. payload (last (fst (scoring_handle
       \<lparr>sv_rnd = Fin, sv_cfg = scoring_default, sv_agent = ''a'', sv_show1 = (\<lambda>_. ''x'')\<rparr> (3, 0) (4, 0)
       (judged real_libm ''s'' agent_like)
       (snd (scoring_handle \<lparr>sv_rnd = Fin, sv_cfg = scoring_default, sv_agent = ''a'', sv_show1 = (\<lambda>_. ''x'')\<rparr> (1, 0) (2, 0)
          (judged real_libm ''s'' agent_like) []))))) = Alert sev t d (Some ''s'')"
proof -
  have r: "(True, Fin (80 / 100), ''reaction-time-floor'') \<in> set (hard_rules (lm_rnd real_libm) agent_like)"
    by (simp add: hard_rules_def agent_like_def real_libm_def)
  show ?thesis by (rule decisive_evidence_alerts [OF real_libm_ok _ _ _ r r]) (simp_all add: risk_ok_def)
qed

end
