(* ===== verification/Tamper.thy ===== *)
theory Tamper
  imports Event Text "HOL-Library.Word"
begin

unbundle bit_operations_syntax

text \<open>
  Endpoint self-protection at run time (\<^verbatim>\<open>plugins/plugin-tamper/src/lib.rs\<close>, \<^verbatim>\<open>manifest.rs\<close>, \<^verbatim>\<open>immutable.rs\<close>): the
  posture check, the baseline manifest, the immutable attribute and the watch loop. What the plugin can observe of
  its machine is the record \<open>machine\<close>: a map from absolute paths to inodes, the paths whose look-up or
  reading fails, and the process facts. A final symbolic link is followed by the calls that follow it, at most
  40 times, as the kernel does; links in directory components and hard links are not represented. A tick of the watch loop
  sees one such snapshot. The hash and the JSON parser are parameters.
\<close>

section \<open>The machine\<close>

datatype file_kind = File bytes | Directory | Symlink string | Special

record inode =
  in_kind :: file_kind
  in_flags :: u64
  in_uid :: nat
  in_mode :: nat

type_synonym files = "string \<Rightarrow> inode option"

text \<open>The inode a path leads to, with so many links left to follow.\<close>

fun follow :: "nat \<Rightarrow> files \<Rightarrow> string \<Rightarrow> inode option" where
  "follow n fs p =
     (case fs p of
        None \<Rightarrow> None
      | Some i \<Rightarrow> (case in_kind i of Symlink q \<Rightarrow> (case n of 0 \<Rightarrow> None | Suc k \<Rightarrow> follow k fs q) | _ \<Rightarrow> Some i))"

declare follow.simps [simp del]

abbreviation resolve :: "files \<Rightarrow> string \<Rightarrow> inode option" where
  "resolve \<equiv> follow 40"

record machine =
  mc_files :: files
  mc_hidden :: "string \<Rightarrow> bool"
  mc_unreadable :: "string \<Rightarrow> bool"
  mc_euid :: nat
  mc_init_comm :: "string option"
  mc_self_pid_ns :: "string option"
  mc_init_pid_ns :: "string option"

text \<open>\<^verbatim>\<open>symlink_metadata\<close>, \<^verbatim>\<open>Path::exists\<close>, and opening a file and reading it to its end.\<close>

definition lstat :: "machine \<Rightarrow> string \<Rightarrow> inode option" where
  "lstat mc p = (if mc_hidden mc p then None else mc_files mc p)"

definition path_exists :: "machine \<Rightarrow> string \<Rightarrow> bool" where
  "path_exists mc p \<longleftrightarrow> \<not> mc_hidden mc p \<and> resolve (mc_files mc) p \<noteq> None"

definition open_file :: "machine \<Rightarrow> string \<Rightarrow> inode option" where
  "open_file mc p = (if mc_unreadable mc p then None else resolve (mc_files mc) p)"

definition read_file :: "machine \<Rightarrow> string \<Rightarrow> bytes option" where
  "read_file mc p = (case open_file mc p of Some i \<Rightarrow> (case in_kind i of File b \<Rightarrow> Some b | _ \<Rightarrow> None) | None \<Rightarrow> None)"

section \<open>The immutable attribute\<close>

definition FS_IMMUTABLE_FL :: u64 where "FS_IMMUTABLE_FL = 0x10"

definition apply_immutable :: "u64 \<Rightarrow> bool \<Rightarrow> u64" where
  "apply_immutable flags immutable = (if immutable then flags OR FS_IMMUTABLE_FL else flags AND NOT FS_IMMUTABLE_FL)"

definition is_immutable :: "u64 \<Rightarrow> bool" where
  "is_immutable flags \<longleftrightarrow> flags AND FS_IMMUTABLE_FL \<noteq> 0"

definition get_flags :: "machine \<Rightarrow> string \<Rightarrow> u64 option" where
  "get_flags mc p = map_option in_flags (open_file mc p)"

definition check_immutable :: "machine \<Rightarrow> string \<Rightarrow> bool" where
  "check_immutable mc p \<longleftrightarrow> (case get_flags mc p of Some flags \<Rightarrow> is_immutable flags | None \<Rightarrow> False)"

section \<open>The baseline manifest\<close>

record manifest_entry =
  me_path :: string
  me_sha256 :: string
  me_len :: nat

record manifest =
  mf_created_ns :: u64
  mf_entries :: "manifest_entry list"

type_synonym hash = "bytes \<Rightarrow> string"

text \<open>The first file that cannot be read ends it.\<close>

fun manifest_entries :: "hash \<Rightarrow> machine \<Rightarrow> string list \<Rightarrow> manifest_entry list option" where
  "manifest_entries H mc [] = Some []"
| "manifest_entries H mc (p # ps) =
     (case read_file mc p of
        None \<Rightarrow> None
      | Some b \<Rightarrow>
          (case manifest_entries H mc ps of
             None \<Rightarrow> None
           | Some es \<Rightarrow> Some (\<lparr>me_path = p, me_sha256 = H b, me_len = length b\<rparr> # es)))"

definition from_paths :: "hash \<Rightarrow> u64 \<Rightarrow> machine \<Rightarrow> string list \<Rightarrow> manifest option" where
  "from_paths H now mc paths = map_option (\<lambda>es. \<lparr>mf_created_ns = now, mf_entries = es\<rparr>) (manifest_entries H mc paths)"

datatype drift_kind = Intact | Missing | SizeChanged | ContentChanged

definition is_drift :: "drift_kind \<Rightarrow> bool" where
  "is_drift d \<longleftrightarrow> d \<noteq> Intact"

fun drift_label :: "drift_kind \<Rightarrow> string" where
  "drift_label Intact = ''ok''"
| "drift_label Missing = ''missing''"
| "drift_label SizeChanged = ''size changed''"
| "drift_label ContentChanged = ''content changed''"

definition classify :: "hash \<Rightarrow> manifest_entry \<Rightarrow> (bytes \<times> nat) option \<Rightarrow> drift_kind" where
  "classify H expected observed =
     (case observed of
        None \<Rightarrow> Missing
      | Some (b, len) \<Rightarrow>
          if len \<noteq> me_len expected then SizeChanged else if H b \<noteq> me_sha256 expected then ContentChanged else Intact)"

definition verify_entry :: "hash \<Rightarrow> machine \<Rightarrow> manifest_entry \<Rightarrow> drift_kind" where
  "verify_entry H mc e =
     (case lstat mc (me_path e) of
        None \<Rightarrow> Missing
      | Some i \<Rightarrow>
          (case in_kind i of
             File b \<Rightarrow>
               if length b \<noteq> me_len e then SizeChanged
               else (case read_file mc (me_path e) of
                       None \<Rightarrow> Missing
                     | Some b' \<Rightarrow> if H b' = me_sha256 e then Intact else ContentChanged)
           | _ \<Rightarrow> SizeChanged))"

definition verify_manifest :: "hash \<Rightarrow> machine \<Rightarrow> manifest \<Rightarrow> (string \<times> drift_kind) list" where
  "verify_manifest H mc m = map (\<lambda>e. (me_path e, verify_entry H mc e)) (mf_entries m)"

section \<open>Posture\<close>

record tamper_config =
  check_interval_s :: u64
  protected_paths :: "string list"
  manifest_path :: "string option"

definition tamper_default :: tamper_config where
  "tamper_default = \<lparr>check_interval_s = 15, protected_paths = [], manifest_path = Some ''/var/lib/aegis/manifest.json''\<rparr>"

record tamper_posture =
  is_root :: bool
  systemd_present :: bool
  pid_ns_matches_init :: bool

definition posture :: "machine \<Rightarrow> tamper_posture" where
  "posture mc =
     \<lparr>is_root = (mc_euid mc = 0),
      systemd_present = (case mc_init_comm mc of Some c \<Rightarrow> str_trim c = ''systemd'' | None \<Rightarrow> False),
      pid_ns_matches_init = (case (mc_self_pid_ns mc, mc_init_pid_ns mc) of (Some a, Some b) \<Rightarrow> a = b | _ \<Rightarrow> True)\<rparr>"

definition is_healthy :: "tamper_posture \<Rightarrow> bool" where
  "is_healthy p \<longleftrightarrow> is_root p \<and> systemd_present p \<and> pid_ns_matches_init p"

definition weaknesses :: "tamper_posture \<Rightarrow> string list" where
  "weaknesses p =
     (if is_root p then [] else [''not running as root (uid 0)''])
     @ (if systemd_present p then [] else [''init system is not systemd (no watchdog)''])
     @ (if pid_ns_matches_init p then [] else [''running in a non-init PID namespace (sandboxed/containerized)''])"

fun join_with :: "string \<Rightarrow> string list \<Rightarrow> string" where
  "join_with sep [] = []"
| "join_with sep [x] = x"
| "join_with sep (x # xs) = x @ sep @ join_with sep xs"

definition tamper_alert :: "string \<Rightarrow> string \<Rightarrow> string \<Rightarrow> event_payload" where
  "tamper_alert aid title detail = Alert Critical title detail (Some aid)"

definition posture_weak :: "machine \<Rightarrow> tamper_config \<Rightarrow> string list" where
  "posture_weak mc cfg =
     (let protected_immutable = (protected_paths cfg \<noteq> []
            \<and> list_all (\<lambda>p. \<not> path_exists mc p \<or> check_immutable mc p) (protected_paths cfg))
      in weaknesses (posture mc)
         @ (if protected_paths cfg \<noteq> [] \<and> \<not> protected_immutable then [''protected files are not immutable''] else []))"

text \<open>What \<^verbatim>\<open>init\<close> reports, and the manifest it loads.\<close>

definition tamper_init_alerts :: "machine \<Rightarrow> tamper_config \<Rightarrow> string \<Rightarrow> event_payload list" where
  "tamper_init_alerts mc cfg aid =
     (let weak = posture_weak mc cfg
      in if weak = [] then []
         else [tamper_alert aid ''Agent mis-deployed (weak self-protection)''
                 (''self-protection is degraded: '' @ join_with ''; '' weak)])"

definition load_manifest :: "manifest codec \<Rightarrow> machine \<Rightarrow> tamper_config \<Rightarrow> manifest option" where
  "load_manifest C mc cfg =
     (case manifest_path cfg of
        None \<Rightarrow> None
      | Some p \<Rightarrow> (case read_file mc p of None \<Rightarrow> None | Some raw \<Rightarrow> dec C raw))"

section \<open>The watch loop\<close>

definition integrity_alerts :: "hash \<Rightarrow> machine \<Rightarrow> string \<Rightarrow> manifest option \<Rightarrow> event_payload list" where
  "integrity_alerts H mc aid mf =
     (case mf of
        None \<Rightarrow> []
      | Some m \<Rightarrow>
          map (\<lambda>(p, d). tamper_alert aid ''Tamper detected (integrity)''
                 (''protected file '' @ p @ '': '' @ drift_label d))
            (filter (\<lambda>(p, d). is_drift d) (verify_manifest H mc m)))"

definition immutable_alerts :: "machine \<Rightarrow> string \<Rightarrow> string list \<Rightarrow> event_payload list" where
  "immutable_alerts mc aid ps =
     map (\<lambda>p. tamper_alert aid ''Tamper detected (immutable bit cleared)'' (''protected file no longer immutable: '' @ p))
       (filter (\<lambda>p. path_exists mc p \<and> \<not> check_immutable mc p) ps)"

definition covered :: "manifest option \<Rightarrow> string \<Rightarrow> bool" where
  "covered mf p \<longleftrightarrow> (case mf of Some m \<Rightarrow> list_ex (\<lambda>e. me_path e = p) (mf_entries m) | None \<Rightarrow> False)"

definition missing_alerts :: "machine \<Rightarrow> string \<Rightarrow> manifest option \<Rightarrow> string list \<Rightarrow> event_payload list" where
  "missing_alerts mc aid mf ps =
     map (\<lambda>p. tamper_alert aid ''Tamper detected'' (''protected path missing: '' @ p))
       (filter (\<lambda>p. \<not> covered mf p \<and> \<not> path_exists mc p) ps)"

definition watch_tick :: "hash \<Rightarrow> machine \<Rightarrow> tamper_config \<Rightarrow> string \<Rightarrow> manifest option \<Rightarrow> u64 \<Rightarrow> event_payload list" where
  "watch_tick H mc cfg aid mf uptime =
     integrity_alerts H mc aid mf @ immutable_alerts mc aid (protected_paths cfg)
     @ missing_alerts mc aid mf (protected_paths cfg) @ [Heartbeat uptime]"

text \<open>The signal tripwire.\<close>

datatype stop_signal = SigTerm | SigInt | CleanShutdown

fun signal_alerts :: "string \<Rightarrow> stop_signal \<Rightarrow> event_payload list" where
  "signal_alerts aid SigTerm =
     [tamper_alert aid ''Agent stopping (possible tamper)'' ''agent received SIGTERM (possible tamper/stop)'']"
| "signal_alerts aid SigInt =
     [tamper_alert aid ''Agent stopping (possible tamper)'' ''agent received SIGINT (possible tamper/stop)'']"
| "signal_alerts aid CleanShutdown = []"

definition stamp_all :: "string \<Rightarrow> (uuid \<times> u64) list \<Rightarrow> event_payload list \<Rightarrow> event list" where
  "stamp_all aid stamps ps = map (\<lambda>((i, t), p). event_new i t aid ''plugin-tamper'' p) (zip stamps ps)"

section \<open>The immutable bit\<close>

lemma apply_immutable_exact: "is_immutable (apply_immutable flags b) = b \<and> (apply_immutable flags b) AND NOT FS_IMMUTABLE_FL = flags AND NOT FS_IMMUTABLE_FL"
proof -
  have bit: "bit FS_IMMUTABLE_FL n \<longleftrightarrow> n = 4" for n
  proof -
    have e: "FS_IMMUTABLE_FL = push_bit 4 1" by (simp add: FS_IMMUTABLE_FL_def)
    show ?thesis unfolding e bit_push_bit_iff bit_1_iff by auto
  qed
  have "is_immutable x \<longleftrightarrow> bit x 4" for x
    unfolding is_immutable_def by (auto simp: bit_eq_iff [of _ "0 :: u64"] bit_and_iff bit)
  moreover have "bit (apply_immutable flags b) 4 = b" by (simp add: apply_immutable_def bit_or_iff bit_and_iff bit_not_iff bit)
  moreover have "(apply_immutable flags b) AND NOT FS_IMMUTABLE_FL = flags AND NOT FS_IMMUTABLE_FL"
    by (rule bit_eqI) (auto simp: apply_immutable_def bit_or_iff bit_and_iff bit_not_iff bit)
  ultimately show ?thesis by simp
qed

section \<open>What the watch loop notices\<close>

definition regular :: "machine \<Rightarrow> string \<Rightarrow> bytes \<Rightarrow> bool" where
  "regular mc p b \<longleftrightarrow> \<not> mc_hidden mc p \<and> \<not> mc_unreadable mc p \<and> (\<exists>i. mc_files mc p = Some i \<and> in_kind i = File b)"

lemma follow_file: "fs p = Some i \<Longrightarrow> in_kind i = File b \<Longrightarrow> follow n fs p = Some i"
  by (simp add: follow.simps)

lemma follow_not_link: "fs p = Some i \<Longrightarrow> \<forall>q. in_kind i \<noteq> Symlink q \<Longrightarrow> follow n fs p = Some i"
  by (cases "in_kind i") (simp_all add: follow.simps)

lemma regular_reads: "regular mc p b \<Longrightarrow> read_file mc p = Some b \<and> path_exists mc p"
  by (auto simp: regular_def read_file_def open_file_def path_exists_def follow_file)

lemma verify_intact: "verify_entry H mc e = Intact \<longleftrightarrow> (\<exists>b. regular mc (me_path e) b \<and> length b = me_len e \<and> H b = me_sha256 e)"
  by (auto simp: verify_entry_def lstat_def regular_def read_file_def open_file_def follow_file
      split: option.splits file_kind.splits if_splits)

lemma entries_of:
  "manifest_entries H mc ps = Some es \<Longrightarrow>
     length es = length ps \<and> (\<forall>k < length ps. \<exists>b. read_file mc (ps ! k) = Some b
       \<and> es ! k = \<lparr>me_path = ps ! k, me_sha256 = H b, me_len = length b\<rparr>)"
proof (induction ps arbitrary: es)
  case (Cons p ps)
  then show ?case by (auto split: option.splits simp: nth_Cons split: nat.splits)
qed simp

lemma manifest_covers: "from_paths H now mc ps = Some m \<Longrightarrow> map me_path (mf_entries m) = ps"
proof -
  have "manifest_entries H mc ps = Some es \<Longrightarrow> map me_path es = ps" for es
    by (induction ps arbitrary: es) (auto split: option.splits)
  then show "from_paths H now mc ps = Some m \<Longrightarrow> map me_path (mf_entries m) = ps" by (auto simp: from_paths_def)
qed

lemma integrity_quiet: "integrity_alerts H mc aid mf = [] \<longleftrightarrow>
    (case mf of Some m \<Rightarrow> list_all (\<lambda>e. verify_entry H mc e = Intact) (mf_entries m) | None \<Rightarrow> True)"
  by (auto simp: integrity_alerts_def filter_empty_conv verify_manifest_def is_drift_def list_all_iff split: option.split)

lemma watch_quiet:
  "watch_tick H mc cfg aid mf uptime = [Heartbeat uptime] \<longleftrightarrow>
     list_all (\<lambda>e. \<exists>b. regular mc (me_path e) b \<and> length b = me_len e \<and> H b = me_sha256 e)
       (case mf of Some m \<Rightarrow> mf_entries m | None \<Rightarrow> [])
     \<and> list_all (\<lambda>p. path_exists mc p \<and> check_immutable mc p) (protected_paths cfg)"
proof -
  have i: "integrity_alerts H mc aid mf = [] \<longleftrightarrow>
      list_all (\<lambda>e. \<exists>b. regular mc (me_path e) b \<and> length b = me_len e \<and> H b = me_sha256 e)
        (case mf of Some m \<Rightarrow> mf_entries m | None \<Rightarrow> [])"
    by (simp add: integrity_quiet verify_intact split: option.split)
  have c: "path_exists mc p" if "integrity_alerts H mc aid mf = []" "covered mf p" for p
    using that by (auto simp: i covered_def list_all_iff list_ex_iff split: option.splits dest: regular_reads)
  show ?thesis unfolding i [symmetric] using c
    by (auto simp: watch_tick_def immutable_alerts_def missing_alerts_def filter_empty_conv list_all_iff append_eq_Cons_conv)
qed

text \<open>The watch loop is silent exactly when nothing was touched: a tick emits no alert if and only if every file of the
  baseline is a readable regular file of the recorded length and digest, and every protected path exists and still has the
  immutable attribute.\<close>

theorem watch_silent_iff:
  "watch_tick H mc cfg aid mf uptime = [Heartbeat uptime] \<longleftrightarrow>
     list_all (\<lambda>e. \<exists>b. regular mc (me_path e) b \<and> length b = me_len e \<and> H b = me_sha256 e)
       (case mf of Some m \<Rightarrow> mf_entries m | None \<Rightarrow> [])
     \<and> list_all (\<lambda>p. path_exists mc p \<and> check_immutable mc p) (protected_paths cfg)"
  by (rule watch_quiet)

text \<open>A baseline detects change: for a file of the manifest that was taken on one machine state, verification on a
  later state reports no drift exactly when the path is then a readable regular file with the length and the
  digest of what was read at first.\<close>

theorem baseline_detects_change:
  assumes "from_paths H now mc ps = Some m" and "p \<in> set ps"
  shows "(p, Intact) \<in> set (verify_manifest H mc' m) \<longleftrightarrow>
    (\<exists>b b'. read_file mc p = Some b \<and> regular mc' p b' \<and> length b' = length b \<and> H b' = H b)"
proof -
  obtain es where es: "manifest_entries H mc ps = Some es" "m = \<lparr>mf_created_ns = now, mf_entries = es\<rparr>"
    using assms(1) by (auto simp: from_paths_def)
  note n = entries_of [OF es(1)]
  obtain k where k: "k < length ps" "ps ! k = p" using assms(2) by (auto simp: in_set_conv_nth)
  obtain b where b: "read_file mc p = Some b" using n k by auto
  have e: "e = \<lparr>me_path = p, me_sha256 = H b, me_len = length b\<rparr>" if m: "e \<in> set es" "me_path e = p" for e
  proof -
    obtain j where j: "j < length es" "es ! j = e" using m(1) by (auto simp: in_set_conv_nth)
    then obtain b' where "read_file mc (ps ! j) = Some b'" "e = \<lparr>me_path = ps ! j, me_sha256 = H b', me_len = length b'\<rparr>"
      using n by auto
    then show ?thesis using m(2) b by simp
  qed
  define e0 where "e0 = \<lparr>me_path = p, me_sha256 = H b, me_len = length b\<rparr>"
  have e0: "e0 \<in> set es" "me_path e0 = p"
  proof -
    have "k < length es" "es ! k = e0" using n k b by (auto simp: e0_def)
    then show "e0 \<in> set es" using nth_mem by metis
  qed (simp add: e0_def)
  have "(p, Intact) \<in> set (verify_manifest H mc' m) \<longleftrightarrow> (\<exists>x \<in> set es. me_path x = p \<and> verify_entry H mc' x = Intact)"
    by (auto simp: verify_manifest_def es(2))
  also have "\<dots> \<longleftrightarrow> verify_entry H mc' e0 = Intact" using e [folded e0_def] e0 by blast
  finally show ?thesis using b by (simp add: verify_intact e0_def)
qed

definition demo_machine :: "bytes \<Rightarrow> machine" where
  "demo_machine b =
     \<lparr>mc_files = [''/a'' \<mapsto> \<lparr>in_kind = File b, in_flags = 0x10, in_uid = 0, in_mode = 420\<rparr>], mc_hidden = (\<lambda>_. False),
      mc_unreadable = (\<lambda>_. False), mc_euid = 0, mc_init_comm = Some ''systemd'', mc_self_pid_ns = None, mc_init_pid_ns = None\<rparr>"

lemma baseline_detects_change_witness:
  "\<exists>m. from_paths bytes_str 1 (demo_machine [1, 2]) [''/a''] = Some m
     \<and> (''/a'', Intact) \<in> set (verify_manifest bytes_str (demo_machine [1, 2]) m)
     \<and> (''/a'', Intact) \<notin> set (verify_manifest bytes_str (demo_machine [1, 3]) m)"
proof -
  have r: "read_file (demo_machine b) ''/a'' = Some b" "regular (demo_machine b) ''/a'' b' \<longleftrightarrow> b' = b" for b b'
    by (auto simp: demo_machine_def read_file_def open_file_def regular_def follow.simps)
  obtain m where m: "from_paths bytes_str 1 (demo_machine [1, 2]) [''/a''] = Some m" by (simp add: from_paths_def r)
  have "bytes_str [1, 3] \<noteq> bytes_str [1, 2]" by code_simp
  then show ?thesis using m baseline_detects_change [OF m, of "''/a''"] by (simp add: r)
qed

end
