(* ===== verification/Install.thy ===== *)
theory Install
  imports Tamper
begin

text \<open>
  The installer of the protected agent (\<^verbatim>\<open>plugins/plugin-tamper/src/install.rs\<close>): the layout, the unit texts, installation,
  uninstallation and the guardian. The state \<open>world\<close> is the file system with the paths of running executables, which
  cannot be opened for writing, the \<^verbatim>\<open>systemctl\<close> commands issued, and a count of system calls. Any call
  can fail: \<open>ie_fault n\<close> says that call \<open>n\<close> does, with no effect. Of what the kernel does the model has:
  \<^verbatim>\<open>O_NOFOLLOW\<close> refuses a final symbolic link; an inode with the immutable attribute can be neither written nor removed; a
  file is created only in an existing directory. Which entries a failing recursive removal leaves is the argument
  \<open>ie_left\<close>. The JSON encoders are parameters.
\<close>

section \<open>Layout\<close>

record install_spec =
  service_name :: string
  guardian_name :: string
  install_path :: string
  server_url :: string
  run_as :: string
  unit_dir :: string
  state_dir :: string

definition install_spec_default :: install_spec where
  "install_spec_default =
     \<lparr>service_name = ''aegis-agent'', guardian_name = ''aegis-guardian'', install_path = ''/usr/local/sbin/aegis-agent'',
      server_url = ''https://127.0.0.1:8443'', run_as = ''root'', unit_dir = ''/etc/systemd/system'',
      state_dir = ''/var/lib/aegis''\<rparr>"

text \<open>\<^verbatim>\<open>Path::join\<close>.\<close>

definition path_join :: "string \<Rightarrow> string \<Rightarrow> string" where
  "path_join d n =
     (if n \<noteq> [] \<and> hd n = CHR ''/'' then n
      else if d = [] then n
      else if last d = CHR ''/'' then d @ n else d @ ''/'' @ n)"

definition service_unit_path :: "install_spec \<Rightarrow> string" where
  "service_unit_path spec = path_join (unit_dir spec) (service_name spec @ ''.service'')"

definition guardian_unit_path :: "install_spec \<Rightarrow> string" where
  "guardian_unit_path spec = path_join (unit_dir spec) (guardian_name spec @ ''.service'')"

definition baseline_path :: "install_spec \<Rightarrow> string" where
  "baseline_path spec = path_join (state_dir spec) ''manifest.json''"

definition token_path :: "install_spec \<Rightarrow> string" where
  "token_path spec = path_join (state_dir spec) ''uninstall.token''"

definition protected_files :: "install_spec \<Rightarrow> string list" where
  "protected_files spec = [install_path spec, service_unit_path spec, guardian_unit_path spec]"

definition text_lines :: "string list \<Rightarrow> string" where
  "text_lines ls = concat (map (\<lambda>l. l @ [CHR 0x0A]) ls)"

definition render_service_unit :: "install_spec \<Rightarrow> string" where
  "render_service_unit spec = text_lines
     [''[Unit]'',
      ''Description=Aegis behavioral threat-monitoring agent'',
      ''After=network-online.target'',
      ''Wants=network-online.target'',
      ''# The guardian restarts us if we are stopped; we bind to it.'',
      ''Requires='' @ guardian_name spec @ ''.service'',
      '''',
      ''[Service]'',
      ''Type=simple'',
      ''ExecStart='' @ install_path spec @ '' run --server '' @ server_url spec,
      ''Restart=always'',
      ''RestartSec=1'',
      ''User='' @ run_as spec,
      ''# Self-protection hardening:'',
      ''OOMScoreAdjust=-900'',
      ''# No privilege transition (defeats setuid/LD_PRELOAD escalation paths);'',
      ''# root can still uninstall via the authenticated systemctl/chattr path.'',
      ''NoNewPrivileges=yes'',
      ''# Resist casual signals/kills via cgroup; root can still override.'',
      ''KillMode=process'',
      '''',
      ''[Install]'',
      ''WantedBy=multi-user.target'']"

definition render_guardian_unit :: "install_spec \<Rightarrow> string" where
  "render_guardian_unit spec = text_lines
     [''[Unit]'',
      ''Description=Aegis agent guardian (anti-tamper watchdog)'',
      ''BindsTo='' @ service_name spec @ ''.service'',
      ''After='' @ service_name spec @ ''.service'',
      '''',
      ''[Service]'',
      ''Type=simple'',
      ''ExecStart='' @ install_path spec @ '' guard --service '' @ service_name spec,
      ''Restart=always'',
      ''RestartSec=1'',
      ''User=root'',
      '''',
      ''[Install]'',
      ''WantedBy=multi-user.target'']"

definition should_restart :: "string \<Rightarrow> bool" where
  "should_restart stdout \<longleftrightarrow> str_trim stdout \<noteq> ''active''"

record install_token =
  it_installed_ns :: u64
  it_install_path :: string
  it_version :: string
  it_unit_dir :: string
  it_service_name :: string
  it_guardian_name :: string

section \<open>System calls\<close>

datatype io_error = NotFound | Denied | Faulted | NotRoot | Failed

record world =
  wd_files :: files
  wd_running :: "string set"
  wd_commands :: "string list list"
  wd_clk :: nat

record install_env =
  ie_euid :: nat
  ie_fault :: "nat \<Rightarrow> bool"
  ie_left :: "string \<Rightarrow> bool"
  ie_exe :: "string option"
  ie_now :: u64
  ie_version :: string
  ie_hash :: hash
  ie_manifest :: "manifest codec"
  ie_token :: "install_token codec"

type_synonym 'a io = "world \<Rightarrow> (io_error + 'a) \<times> world"

text \<open>One system call: it may fail; otherwise it returns a result and the new files.\<close>

definition syscall :: "install_env \<Rightarrow> (files \<Rightarrow> io_error + ('a \<times> files)) \<Rightarrow> 'a io" where
  "syscall E f w =
     (let w1 = w\<lparr>wd_clk := Suc (wd_clk w)\<rparr>
      in if ie_fault E (wd_clk w) then (Inl Faulted, w1)
         else case f (wd_files w) of Inl e \<Rightarrow> (Inl e, w1) | Inr (x, fs) \<Rightarrow> (Inr x, w1\<lparr>wd_files := fs\<rparr>))"

text \<open>A sequence of calls with \<^verbatim>\<open>?\<close>: it ends at the first error.\<close>

fun run_steps :: "unit io list \<Rightarrow> unit io" where
  "run_steps [] w = (Inr (), w)"
| "run_steps (a # as) w = (case a w of (Inl e, w1) \<Rightarrow> (Inl e, w1) | (Inr _, w1) \<Rightarrow> run_steps as w1)"

definition best_effort :: "unit io \<Rightarrow> unit io" where
  "best_effort a w = (Inr (), snd (a w))"

fun final_path :: "nat \<Rightarrow> files \<Rightarrow> string \<Rightarrow> string option" where
  "final_path n fs p =
     (case fs p of
        None \<Rightarrow> None
      | Some i \<Rightarrow> (case in_kind i of Symlink q \<Rightarrow> (case n of 0 \<Rightarrow> None | Suc k \<Rightarrow> final_path k fs q) | _ \<Rightarrow> Some p))"

declare final_path.simps [simp del]

fun ancestors :: "string \<Rightarrow> string \<Rightarrow> string list" where
  "ancestors acc [] = []"
| "ancestors acc (c # cs) = (if c = CHR ''/'' \<and> acc \<noteq> [] then [acc] else []) @ ancestors (acc @ [c]) cs"

definition is_dir :: "files \<Rightarrow> string \<Rightarrow> bool" where
  "is_dir fs d \<longleftrightarrow> (case resolve fs d of Some i \<Rightarrow> in_kind i = Directory | None \<Rightarrow> False)"

definition make_dirs :: "string \<Rightarrow> files \<Rightarrow> files" where
  "make_dirs p fs =
     (\<lambda>d. if fs d = None \<and> d \<in> set (ancestors [] p)
          then Some \<lparr>in_kind = Directory, in_flags = 0, in_uid = 0, in_mode = 493\<rparr> else fs d)"

definition create_parents :: "install_env \<Rightarrow> string \<Rightarrow> unit io" where
  "create_parents E p =
     syscall E (\<lambda>fs. if list_all (\<lambda>d. fs d = None \<or> is_dir fs d) (ancestors [] p) then Inr ((), make_dirs p fs) else Inl Denied)"

definition set_immutable :: "install_env \<Rightarrow> string \<Rightarrow> bool \<Rightarrow> unit io" where
  "set_immutable E p immutable w =
     (case syscall E (\<lambda>fs. case resolve fs p of None \<Rightarrow> Inl NotFound | Some i \<Rightarrow> Inr (in_flags i, fs)) w of
        (Inl e, w1) \<Rightarrow> (Inl e, w1)
      | (Inr flags, w1) \<Rightarrow>
          (let new_flags = apply_immutable flags immutable
           in if new_flags = flags then (Inr (), w1)
              else syscall E
                (\<lambda>fs. case final_path 40 fs p of
                        None \<Rightarrow> Inl NotFound
                      | Some q \<Rightarrow> Inr ((), fs(q := map_option (\<lambda>i. i\<lparr>in_flags := new_flags\<rparr>) (fs q)))) w1))"

text \<open>\<^verbatim>\<open>open_nofollow_write\<close>, and what is done to the open file.\<close>

definition open_nofollow_write :: "install_env \<Rightarrow> string \<Rightarrow> nat \<Rightarrow> unit io" where
  "open_nofollow_write E p mode w =
     syscall E
       (\<lambda>fs. if \<not> list_all (is_dir fs) (ancestors [] p) then Inl NotFound
             else case fs p of
               None \<Rightarrow> Inr ((), fs(p \<mapsto> \<lparr>in_kind = File [], in_flags = 0, in_uid = ie_euid E, in_mode = mode\<rparr>))
             | Some i \<Rightarrow>
                 (case in_kind i of
                    File _ \<Rightarrow> if is_immutable (in_flags i) \<or> p \<in> wd_running w then Inl Denied
                              else Inr ((), fs(p \<mapsto> i\<lparr>in_kind := File []\<rparr>))
                  | _ \<Rightarrow> Inl Denied)) w"

definition on_file :: "install_env \<Rightarrow> string \<Rightarrow> (inode \<Rightarrow> inode) \<Rightarrow> unit io" where
  "on_file E p f = syscall E (\<lambda>fs. Inr ((), fs(p := map_option f (fs p))))"

definition fchown_root :: "install_env \<Rightarrow> string \<Rightarrow> unit io" where
  "fchown_root E p = on_file E p (\<lambda>i. i\<lparr>in_uid := 0\<rparr>)"

definition write_root_owned :: "install_env \<Rightarrow> string \<Rightarrow> bytes \<Rightarrow> nat \<Rightarrow> unit io" where
  "write_root_owned E p b mode =
     run_steps [create_parents E p, open_nofollow_write E p mode, on_file E p (\<lambda>i. i\<lparr>in_mode := mode\<rparr>),
                on_file E p (\<lambda>i. i\<lparr>in_kind := File b\<rparr>), fchown_root E p]"

text \<open>The source is opened first, but read only after the destination was truncated.\<close>

definition copy_root_owned :: "install_env \<Rightarrow> string \<Rightarrow> string \<Rightarrow> nat \<Rightarrow> unit io" where
  "copy_root_owned E src dst mode =
     run_steps
       [syscall E (\<lambda>fs. case resolve fs src of None \<Rightarrow> Inl NotFound | Some _ \<Rightarrow> Inr ((), fs)),
        open_nofollow_write E dst mode, on_file E dst (\<lambda>i. i\<lparr>in_mode := mode\<rparr>),
        syscall E (\<lambda>fs. case resolve fs src of
                     Some i \<Rightarrow> (case in_kind i of File b \<Rightarrow> Inr ((), fs(dst := map_option (\<lambda>j. j\<lparr>in_kind := File b\<rparr>) (fs dst)))
                                              | _ \<Rightarrow> Inl Failed)
                   | None \<Rightarrow> Inl NotFound),
        fchown_root E dst]"

definition systemctl :: "install_env \<Rightarrow> string list \<Rightarrow> unit io" where
  "systemctl E args w =
     (let w1 = w\<lparr>wd_clk := Suc (wd_clk w), wd_commands := wd_commands w @ [args]\<rparr>
      in (if ie_fault E (wd_clk w) then Inl Failed else Inr (), w1))"

definition remove_file :: "install_env \<Rightarrow> string \<Rightarrow> unit io" where
  "remove_file E p =
     syscall E
       (\<lambda>fs. case fs p of
               None \<Rightarrow> Inl NotFound
             | Some i \<Rightarrow> if in_kind i = Directory \<or> is_immutable (in_flags i) then Inl Denied else Inr ((), fs(p := None)))"

definition remove_if_present :: "install_env \<Rightarrow> string \<Rightarrow> unit io" where
  "remove_if_present E p w = (case remove_file E p w of (Inl NotFound, w1) \<Rightarrow> (Inr (), w1) | r \<Rightarrow> r)"

definition below :: "string \<Rightarrow> string \<Rightarrow> bool" where
  "below d p \<longleftrightarrow> p = d \<or> starts_with (d @ ''/'') p"

text \<open>\<^verbatim>\<open>remove_dir_all\<close>: a final link is removed, a file refused.\<close>

definition locked_below :: "files \<Rightarrow> string \<Rightarrow> string \<Rightarrow> bool" where
  "locked_below fs d p \<longleftrightarrow> below d p \<and> (case fs p of Some i \<Rightarrow> is_immutable (in_flags i) | None \<Rightarrow> False)"

definition remove_tree :: "install_env \<Rightarrow> string \<Rightarrow> unit io" where
  "remove_tree E d w =
     (let fs = wd_files w; w1 = w\<lparr>wd_clk := Suc (wd_clk w)\<rparr>
      in case fs d of
           None \<Rightarrow> (Inl NotFound, w1)
         | Some i \<Rightarrow>
             if ie_fault E (wd_clk w) \<or> (\<exists>p. locked_below fs d p)
             then (Inl Failed, w1\<lparr>wd_files := (\<lambda>p. if below d p \<and> \<not> ie_left E p \<and> \<not> locked_below fs d p then None else fs p)\<rparr>)
             else (Inr (), w1\<lparr>wd_files := (\<lambda>p. if below d p then None else fs p)\<rparr>))"

definition remove_empty_dir :: "install_env \<Rightarrow> string \<Rightarrow> unit io" where
  "remove_empty_dir E d =
     syscall E (\<lambda>fs. case fs d of
                   None \<Rightarrow> Inl NotFound
                 | Some i \<Rightarrow> if in_kind i = Directory \<and> \<not> (\<exists>p. p \<noteq> d \<and> below d p \<and> fs p \<noteq> None)
                             then Inr ((), fs(d := None)) else Inl Failed)"

section \<open>Install\<close>

definition machine_of :: "install_env \<Rightarrow> world \<Rightarrow> machine" where
  "machine_of E w =
     \<lparr>mc_files = wd_files w, mc_hidden = (\<lambda>_. False), mc_unreadable = (\<lambda>_. False), mc_euid = ie_euid E,
      mc_init_comm = None, mc_self_pid_ns = None, mc_init_pid_ns = None\<rparr>"

definition unit_file :: "string \<Rightarrow> string" where
  "unit_file name = name @ ''.service''"

definition write_baseline :: "install_env \<Rightarrow> install_spec \<Rightarrow> unit io" where
  "write_baseline E spec w =
     (let w1 = w\<lparr>wd_clk := Suc (wd_clk w)\<rparr>
      in if ie_fault E (wd_clk w) then (Inl Faulted, w1)
         else case from_paths (ie_hash E) (ie_now E) (machine_of E w) (protected_files spec) of
                None \<Rightarrow> (Inl Failed, w1)
              | Some m \<Rightarrow>
                  (case enc (ie_manifest E) m of
                     None \<Rightarrow> (Inl Failed, w1)
                   | Some b \<Rightarrow> write_root_owned E (baseline_path spec) b 420 w1))"

definition token_of :: "install_env \<Rightarrow> install_spec \<Rightarrow> install_token" where
  "token_of E spec =
     \<lparr>it_installed_ns = ie_now E, it_install_path = install_path spec, it_version = ie_version E,
      it_unit_dir = unit_dir spec, it_service_name = service_name spec, it_guardian_name = guardian_name spec\<rparr>"

definition write_token :: "install_env \<Rightarrow> install_spec \<Rightarrow> unit io" where
  "write_token E spec w =
     (case enc (ie_token E) (token_of E spec) of
        None \<Rightarrow> (Inl Failed, w)
      | Some b \<Rightarrow> write_root_owned E (token_path spec) b 384 w)"

definition locked_files :: "install_spec \<Rightarrow> string list" where
  "locked_files spec = protected_files spec @ [baseline_path spec]"

definition unlock_existing :: "install_env \<Rightarrow> string \<Rightarrow> unit io" where
  "unlock_existing E p w = (if resolve (wd_files w) p \<noteq> None then best_effort (set_immutable E p False) w else (Inr (), w))"

definition copy_binary :: "install_env \<Rightarrow> install_spec \<Rightarrow> unit io" where
  "copy_binary E spec w =
     (case ie_exe E of
        None \<Rightarrow> (Inl Failed, w)
      | Some exe \<Rightarrow>
          run_steps [create_parents E (install_path spec), copy_root_owned E exe (install_path spec) 493] w)"

definition install :: "install_env \<Rightarrow> install_spec \<Rightarrow> unit io" where
  "install E spec w =
     (if ie_euid E \<noteq> 0 then (Inl NotRoot, w)
      else run_steps
        ([unlock_existing E (install_path spec),
          copy_binary E spec,
          best_effort (set_immutable E (service_unit_path spec) False),
          best_effort (set_immutable E (guardian_unit_path spec) False),
          write_root_owned E (service_unit_path spec) (str_bytes (render_service_unit spec)) 420,
          write_root_owned E (guardian_unit_path spec) (str_bytes (render_guardian_unit spec)) 420,
          best_effort (set_immutable E (baseline_path spec) False),
          write_baseline E spec,
          write_token E spec,
          systemctl E [''daemon-reload''],
          systemctl E [''enable'', ''--now'', unit_file (service_name spec), unit_file (guardian_name spec)]]
         @ map (\<lambda>p. set_immutable E p True) (locked_files spec)) w)"

section \<open>Uninstall\<close>

definition load_spec_from_token :: "install_env \<Rightarrow> install_spec \<Rightarrow> world \<Rightarrow> install_spec option" where
  "load_spec_from_token E spec w =
     (case read_file (machine_of E w) (token_path spec) of
        None \<Rightarrow> None
      | Some raw \<Rightarrow>
          (case dec (ie_token E) raw of
             None \<Rightarrow> None
           | Some t \<Rightarrow> Some (spec\<lparr>install_path := it_install_path t, unit_dir := it_unit_dir t,
                                  service_name := it_service_name t, guardian_name := it_guardian_name t\<rparr>)))"

definition effective_spec :: "install_env \<Rightarrow> install_spec \<Rightarrow> world \<Rightarrow> install_spec" where
  "effective_spec E spec w =
     (if ie_fault E (wd_clk w) then spec
      else case load_spec_from_token E spec w of Some s \<Rightarrow> s | None \<Rightarrow> spec)"

definition removed_files :: "install_spec \<Rightarrow> string list" where
  "removed_files s =
     [service_unit_path s, guardian_unit_path s, install_path s, baseline_path s, token_path s]"

definition uninstall :: "install_env \<Rightarrow> install_spec \<Rightarrow> unit io" where
  "uninstall E spec w =
     (if ie_euid E \<noteq> 0 then (Inl NotRoot, w)
      else let s = effective_spec E spec w
           in run_steps
             (map (\<lambda>p. best_effort (set_immutable E p False)) (locked_files s)
              @ [best_effort (systemctl E [''disable'', ''--now'', unit_file (service_name s), unit_file (guardian_name s)]),
                 best_effort (systemctl E [''daemon-reload''])]
              @ map (remove_if_present E) (removed_files s)
              @ [best_effort (remove_tree E (path_join (state_dir s) ''plugin-transport'')),
                 best_effort (remove_if_present E (path_join (state_dir s) ''spill.redb'')),
                 best_effort (remove_empty_dir E (state_dir s)),
                 best_effort (systemctl E [''daemon-reload''])]) (w\<lparr>wd_clk := Suc (wd_clk w)\<rparr>))"

section \<open>Guardian\<close>

text \<open>One turn of the guardian's endless loop, on what \<^verbatim>\<open>systemctl is-active\<close> printed, if it ran.\<close>

definition guard_turn :: "install_env \<Rightarrow> string \<Rightarrow> string option \<Rightarrow> world \<Rightarrow> world" where
  "guard_turn E service answer w =
     (case answer of
        None \<Rightarrow> w
      | Some stdout \<Rightarrow>
          if should_restart stdout then snd (best_effort (systemctl E [''start'', unit_file service]) w) else w)"

definition guard_run :: "install_env \<Rightarrow> string \<Rightarrow> string option list \<Rightarrow> world \<Rightarrow> world" where
  "guard_run E service answers w = foldl (\<lambda>w a. guard_turn E service a w) w answers"

end
