(* ===== verification/Install_Facts.thy ===== *)
theory Install_Facts
  imports Install
begin

text \<open>
  What installation and uninstallation establish: frame lemmas for every call, the state after a successful
  install with the watch loop on it, complete removal by root, and the reinstallation over a running agent.
\<close>

section \<open>Calls and sequences\<close>

lemma run_steps_append:
  "run_steps (as @ bs) w = (case run_steps as w of (Inl e, w1) \<Rightarrow> (Inl e, w1) | (Inr _, w1) \<Rightarrow> run_steps bs w1)"
  by (induction as arbitrary: w) (auto split: prod.split sum.split)

lemma run_steps_ConsE:
  assumes "run_steps (a # as) w = (Inr (), w')"
  obtains w1 where "a w = (Inr (), w1)" "run_steps as w1 = (Inr (), w')"
  using assms by (auto split: prod.splits sum.splits)

lemma run_steps_appendE:
  assumes "run_steps (as @ bs) w = (Inr (), w')"
  obtains w1 where "run_steps as w = (Inr (), w1)" "run_steps bs w1 = (Inr (), w')"
  using assms by (auto simp: run_steps_append split: prod.splits sum.splits)

lemma syscall_files:
  "wd_files (snd (syscall E f w)) = wd_files w \<or> (\<exists>x. f (wd_files w) = Inr (x, wd_files (snd (syscall E f w))))"
  by (simp add: syscall_def Let_def split: sum.split prod.split)

lemma syscall_ok:
  "syscall E f w = (Inr x, w') \<longleftrightarrow> \<not> ie_fault E (wd_clk w)
     \<and> (\<exists>fs. f (wd_files w) = Inr (x, fs) \<and> w' = w\<lparr>wd_clk := Suc (wd_clk w), wd_files := fs\<rparr>)"
  by (auto simp: syscall_def Let_def split: sum.split prod.split)

lemma systemctl_files [simp]: "wd_files (snd (systemctl E args w)) = wd_files w"
  by (simp add: systemctl_def Let_def)

lemma final_path_file: "fs p = Some i \<Longrightarrow> in_kind i = File b \<Longrightarrow> final_path n fs p = Some p"
  by (simp add: final_path.simps)

section \<open>What a call changes\<close>

text \<open>Equal up to inode flags.\<close>

definition same_but_flags :: "files \<Rightarrow> files \<Rightarrow> bool" where
  "same_but_flags fs fs' \<longleftrightarrow> (\<forall>p. map_option (\<lambda>i. i\<lparr>in_flags := 0\<rparr>) (fs' p) = map_option (\<lambda>i. i\<lparr>in_flags := 0\<rparr>) (fs p))"

lemma same_but_flags_refl [simp]: "same_but_flags fs fs"
  by (simp add: same_but_flags_def)

lemma same_but_flags_trans: "same_but_flags a b \<Longrightarrow> same_but_flags b c \<Longrightarrow> same_but_flags a c"
  by (simp add: same_but_flags_def)

lemma set_immutable_files:
  "same_but_flags (wd_files w) (wd_files (snd (set_immutable E p b w)))"
proof -
  have s: "same_but_flags fs (fs(q := map_option (\<lambda>i. i\<lparr>in_flags := x\<rparr>) (fs q)))" for fs q x
    by (simp add: same_but_flags_def option.map_comp o_def)
  obtain r w1 where r: "syscall E (\<lambda>fs. case resolve fs p of None \<Rightarrow> Inl NotFound | Some i \<Rightarrow> Inr (in_flags i, fs)) w = (r, w1)"
    by fastforce
  have w1: "wd_files w1 = wd_files w"
    using syscall_files [of E "\<lambda>fs. case resolve fs p of None \<Rightarrow> Inl NotFound | Some i \<Rightarrow> Inr (in_flags i, fs)" w] r
    by (auto split: option.splits)
  let ?f = "\<lambda>x fs. case final_path 40 fs p of None \<Rightarrow> Inl NotFound
      | Some q \<Rightarrow> Inr ((), fs(q := map_option (\<lambda>i. i\<lparr>in_flags := x\<rparr>) (fs q)))"
  have "same_but_flags (wd_files w1) (wd_files (snd (syscall E (?f x) w1)))" for x
    using syscall_files [of E "?f x" w1] s by (auto split: option.splits) (metis fst_conv snd_conv)
  then show ?thesis using r w1 by (cases r) (simp_all add: set_immutable_def Let_def)
qed

text \<open>A root-owned file with these contents and mode, whatever its flags.\<close>

definition holds :: "files \<Rightarrow> string \<Rightarrow> bytes \<Rightarrow> nat \<Rightarrow> bool" where
  "holds fs p b mode \<longleftrightarrow> (\<exists>i. fs p = Some i \<and> in_kind i = File b \<and> in_uid i = 0 \<and> in_mode i = mode)"

lemma same_but_flags_Some:
  assumes "same_but_flags fs fs'" and "fs p = Some i"
  obtains j where "fs' p = Some j" "in_kind j = in_kind i" "in_uid j = in_uid i" "in_mode j = in_mode i"
proof -
  have "map_option (\<lambda>i. i\<lparr>in_flags := 0\<rparr>) (fs' p) = Some (i\<lparr>in_flags := 0\<rparr>)"
    using assms by (simp add: same_but_flags_def)
  then obtain j where j: "fs' p = Some j" "j\<lparr>in_flags := 0\<rparr> = i\<lparr>in_flags := 0\<rparr>" by auto
  then show thesis using that by (cases i; cases j) simp
qed

lemma holds_flags: "same_but_flags fs fs' \<Longrightarrow> holds fs p b mode \<Longrightarrow> holds fs' p b mode"
  unfolding holds_def by (metis same_but_flags_Some)

lemma best_effort_ok: "best_effort a w = (Inr (), w') \<longleftrightarrow> w' = snd (a w)"
  by (auto simp: best_effort_def)

text \<open>Every existing path but one is left alone.\<close>

definition only_at :: "string \<Rightarrow> files \<Rightarrow> files \<Rightarrow> bool" where
  "only_at p fs fs' \<longleftrightarrow> (\<forall>q i. q \<noteq> p \<longrightarrow> fs q = Some i \<longrightarrow> fs' q = Some i)"

lemma only_at_trans: "only_at p a b \<Longrightarrow> only_at p b c \<Longrightarrow> only_at p a c"
  by (simp add: only_at_def)

lemma holds_only_at: "only_at p fs fs' \<Longrightarrow> q \<noteq> p \<Longrightarrow> holds fs q b mode \<Longrightarrow> holds fs' q b mode"
  by (auto simp: only_at_def holds_def)

lemma create_parents_ok:
  "create_parents E p w = (Inr (), w') \<Longrightarrow> only_at q (wd_files w) (wd_files w')"
  by (auto simp: create_parents_def syscall_ok make_dirs_def only_at_def split: if_splits)

lemma open_ok:
  assumes "open_nofollow_write E p mode w = (Inr (), w')"
  shows "only_at p (wd_files w) (wd_files w') \<and> (\<exists>i. wd_files w' p = Some i \<and> in_kind i = File [] \<and> \<not> is_immutable (in_flags i))"
  using assms by (auto simp: open_nofollow_write_def syscall_ok only_at_def is_immutable_def split: if_splits option.splits file_kind.splits)

lemma on_file_ok:
  "on_file E p f w = (Inr (), w') \<Longrightarrow>
     only_at p (wd_files w) (wd_files w') \<and> wd_files w' p = map_option f (wd_files w p)"
  by (auto simp: on_file_def syscall_ok only_at_def)

lemma write_root_owned_ok:
  assumes "write_root_owned E p b mode w = (Inr (), w')"
  shows "only_at p (wd_files w) (wd_files w') \<and> holds (wd_files w') p b mode
    \<and> (\<exists>i. wd_files w' p = Some i \<and> \<not> is_immutable (in_flags i))"
proof -
  obtain w1 w2 w3 w4 where s: "create_parents E p w = (Inr (), w1)" "open_nofollow_write E p mode w1 = (Inr (), w2)"
      "on_file E p (\<lambda>i. i\<lparr>in_mode := mode\<rparr>) w2 = (Inr (), w3)" "on_file E p (\<lambda>i. i\<lparr>in_kind := File b\<rparr>) w3 = (Inr (), w4)"
      "on_file E p (\<lambda>i. i\<lparr>in_uid := 0\<rparr>) w4 = (Inr (), w')"
    using assms unfolding write_root_owned_def fchown_root_def by (auto elim!: run_steps_ConsE simp del: run_steps.simps(2))
  note o = create_parents_ok [OF s(1), of p] open_ok [OF s(2)] on_file_ok [OF s(3)] on_file_ok [OF s(4)] on_file_ok [OF s(5)]
  have "only_at p (wd_files w) (wd_files w')" using o by (meson only_at_trans)
  then show ?thesis using o by (auto simp: holds_def)
qed

lemma copy_root_owned_ok:
  assumes "copy_root_owned E src p mode w = (Inr (), w')"
  shows "only_at p (wd_files w) (wd_files w') \<and> (\<exists>b. holds (wd_files w') p b mode)"
proof -
  let ?cp = "syscall E (\<lambda>fs. case resolve fs src of
                     Some i \<Rightarrow> (case in_kind i of File b \<Rightarrow> Inr ((), fs(p := map_option (\<lambda>j. j\<lparr>in_kind := File b\<rparr>) (fs p)))
                                              | _ \<Rightarrow> Inl Failed)
                   | None \<Rightarrow> Inl NotFound)"
  obtain w1 w2 w3 w4 where s: "syscall E (\<lambda>fs. case resolve fs src of None \<Rightarrow> Inl NotFound | Some _ \<Rightarrow> Inr ((), fs)) w = (Inr (), w1)"
      "open_nofollow_write E p mode w1 = (Inr (), w2)"
      "on_file E p (\<lambda>i. i\<lparr>in_mode := mode\<rparr>) w2 = (Inr (), w3)" "?cp w3 = (Inr (), w4)"
      "on_file E p (\<lambda>i. i\<lparr>in_uid := 0\<rparr>) w4 = (Inr (), w')"
    using assms unfolding copy_root_owned_def fchown_root_def by (elim run_steps_ConsE) (simp only: run_steps.simps prod.inject)
  have w1: "wd_files w1 = wd_files w" using s(1) by (auto simp: syscall_ok split: option.splits)
  have c: "only_at p (wd_files w3) (wd_files w4) \<and> (\<exists>b. wd_files w4 p = map_option (\<lambda>j. j\<lparr>in_kind := File b\<rparr>) (wd_files w3 p))"
    using s(4) by (auto simp: syscall_ok only_at_def split: option.splits file_kind.splits)
  note o = open_ok [OF s(2)] on_file_ok [OF s(3)] on_file_ok [OF s(5)]
  have "only_at p (wd_files w) (wd_files w2)" using o(1) w1 by simp
  then have "only_at p (wd_files w) (wd_files w3)" using o(2) by (blast intro: only_at_trans)
  then have "only_at p (wd_files w) (wd_files w4)" using c by (blast intro: only_at_trans)
  then have only: "only_at p (wd_files w) (wd_files w')" using o(3) by (blast intro: only_at_trans)
  obtain i where i: "wd_files w2 p = Some i" using o(1) by blast
  obtain b where b: "wd_files w4 p = map_option (\<lambda>j. j\<lparr>in_kind := File b\<rparr>) (wd_files w3 p)" using c by blast
  have "holds (wd_files w') p b mode" using o(2,3) i b by (simp add: holds_def)
  then show ?thesis using only by blast
qed

section \<open>After an installation\<close>

definition intact_at :: "files \<Rightarrow> (string \<times> bytes \<times> nat) list \<Rightarrow> bool" where
  "intact_at fs rows \<longleftrightarrow> (\<forall>(p, b, mode) \<in> set rows. holds fs p b mode)"

lemma intact_flags: "same_but_flags fs fs' \<Longrightarrow> intact_at fs rows \<Longrightarrow> intact_at fs' rows"
  using holds_flags by (fastforce simp: intact_at_def)

lemma intact_only_at: "only_at p fs fs' \<Longrightarrow> p \<notin> fst ` set rows \<Longrightarrow> intact_at fs rows \<Longrightarrow> intact_at fs' rows"
  unfolding intact_at_def by (clarify, rule holds_only_at) (auto simp: rev_image_eqI)

lemma set_immutable_locks:
  assumes "set_immutable E p True w = (Inr (), w')" and "wd_files w p = Some i" and "in_kind i = File b"
  shows "(\<exists>j. wd_files w' p = Some j \<and> is_immutable (in_flags j)) \<and> only_at p (wd_files w) (wd_files w')
    \<and> (\<forall>q j. wd_files w q = Some j \<and> is_immutable (in_flags j) \<longrightarrow> (\<exists>k. wd_files w' q = Some k \<and> is_immutable (in_flags k)))"
proof -
  have r: "resolve (wd_files w) p = Some i" "final_path 40 (wd_files w) p = Some p"
    using assms(2,3) by (simp_all add: follow_file final_path_file)
  show ?thesis
    using assms(1,2) apply_immutable_exact [of "in_flags i" True] r
    by (auto simp: set_immutable_def syscall_def Let_def only_at_def split: if_splits)
qed

lemma locks_hold:
  "run_steps (map (\<lambda>p. set_immutable E p True) ps) w = (Inr (), w') \<Longrightarrow> \<forall>p \<in> set ps. \<exists>b m. holds (wd_files w) p b m \<Longrightarrow>
     same_but_flags (wd_files w) (wd_files w')
     \<and> (\<forall>q i. q \<notin> set ps \<longrightarrow> wd_files w q = Some i \<longrightarrow> wd_files w' q = Some i)
     \<and> (\<forall>p \<in> set ps. \<exists>i. wd_files w' p = Some i \<and> is_immutable (in_flags i))
     \<and> (\<forall>q j. wd_files w q = Some j \<and> is_immutable (in_flags j) \<longrightarrow> (\<exists>k. wd_files w' q = Some k \<and> is_immutable (in_flags k)))"
proof (induction ps arbitrary: w)
  case (Cons p ps)
  obtain w1 where w1: "set_immutable E p True w = (Inr (), w1)" "run_steps (map (\<lambda>p. set_immutable E p True) ps) w1 = (Inr (), w')"
    using Cons.prems(1) by (auto elim: run_steps_ConsE simp del: run_steps.simps(2))
  have f: "same_but_flags (wd_files w) (wd_files w1)" using set_immutable_files [of w E p True] w1(1) by simp
  have "\<exists>b m. holds (wd_files w1) q b m" if q: "q \<in> set ps" for q
  proof -
    obtain b m where "holds (wd_files w) q b m" using Cons.prems(2) q by auto
    then show ?thesis using holds_flags [OF f] by blast
  qed
  then have h: "\<forall>q \<in> set ps. \<exists>b m. holds (wd_files w1) q b m" by blast
  obtain i b where "wd_files w p = Some i" "in_kind i = File b" using Cons.prems(2) by (auto simp: holds_def)
  note l = set_immutable_locks [OF w1(1) this] and IH = Cons.IH [OF w1(2) h]
  have "same_but_flags (wd_files w) (wd_files w')" using f IH same_but_flags_trans by blast
  moreover have "\<forall>q i. q \<notin> set (p # ps) \<longrightarrow> wd_files w q = Some i \<longrightarrow> wd_files w' q = Some i"
    using l IH by (auto simp: only_at_def)
  moreover have keep: "\<exists>k. wd_files w' q = Some k \<and> is_immutable (in_flags k)" if "wd_files w q = Some j" "is_immutable (in_flags j)" for q j
  proof -
    have "\<exists>k. wd_files w1 q = Some k \<and> is_immutable (in_flags k)" using l that by blast
    then show ?thesis using IH by blast
  qed
  moreover have "\<exists>i. wd_files w' p = Some i \<and> is_immutable (in_flags i)" using l IH by blast
  ultimately show ?case using IH by simp
qed auto

lemma intact_Cons: "intact_at fs ((p, b, mode) # rows) \<longleftrightarrow> holds fs p b mode \<and> intact_at fs rows"
  by (simp add: intact_at_def)

lemma intact_append: "intact_at fs (as @ bs) \<longleftrightarrow> intact_at fs as \<and> intact_at fs bs"
  by (simp add: intact_at_def ball_Un)

lemma unlock_flags: "best_effort (set_immutable E p b) w = (Inr (), w') \<Longrightarrow> same_but_flags (wd_files w) (wd_files w')"
  using set_immutable_files [of w E p b] by (simp add: best_effort_ok)

lemma copy_binary_ok:
  assumes "copy_binary E spec w = (Inr (), w')"
  shows "\<exists>b. holds (wd_files w') (install_path spec) b 493"
proof -
  obtain exe where e: "ie_exe E = Some exe" using assms by (auto simp: copy_binary_def split: option.splits)
  then obtain w1 where "copy_root_owned E exe (install_path spec) 493 w1 = (Inr (), w')"
    using assms by (auto simp: copy_binary_def elim!: run_steps_ConsE simp del: run_steps.simps(2))
  then show ?thesis using copy_root_owned_ok by blast
qed

lemma write_baseline_ok:
  assumes "write_baseline E spec w = (Inr (), w')"
  obtains m b where "from_paths (ie_hash E) (ie_now E) (machine_of E w) (protected_files spec) = Some m"
    "enc (ie_manifest E) m = Some b" "only_at (baseline_path spec) (wd_files w) (wd_files w')"
    "holds (wd_files w') (baseline_path spec) b 420"
proof -
  obtain m b w1 where m: "from_paths (ie_hash E) (ie_now E) (machine_of E w) (protected_files spec) = Some m"
      "enc (ie_manifest E) m = Some b" "write_root_owned E (baseline_path spec) b 420 w1 = (Inr (), w')"
      "wd_files w1 = wd_files w"
    using assms by (auto simp: write_baseline_def Let_def split: if_splits option.splits)
  show thesis using that [OF m(1,2)] write_root_owned_ok [OF m(3)] m(4) by simp
qed

lemma write_token_ok:
  assumes "write_token E spec w = (Inr (), w')"
  obtains b where "enc (ie_token E) (token_of E spec) = Some b" "only_at (token_path spec) (wd_files w) (wd_files w')"
    "holds (wd_files w') (token_path spec) b 384" "\<exists>i. wd_files w' (token_path spec) = Some i \<and> \<not> is_immutable (in_flags i)"
proof -
  obtain b where b: "enc (ie_token E) (token_of E spec) = Some b" "write_root_owned E (token_path spec) b 384 w = (Inr (), w')"
    using assms by (auto simp: write_token_def split: option.splits)
  show thesis using that [OF b(1)] write_root_owned_ok [OF b(2)] by blast
qed

text \<open>The files of an installation: the protected ones as the baseline saw them, then the baseline and the token.\<close>

definition installed_rows :: "install_spec \<Rightarrow> bytes \<Rightarrow> (string \<times> bytes \<times> nat) list" where
  "installed_rows spec b =
     [(install_path spec, b, 493),
      (service_unit_path spec, str_bytes (render_service_unit spec), 420),
      (guardian_unit_path spec, str_bytes (render_guardian_unit spec), 420)]"

lemma units_written:
  assumes d: "distinct (removed_files spec)" and b: "holds (wd_files w) (install_path spec) b 493"
    and s: "run_steps [best_effort (set_immutable E (service_unit_path spec) False),
      best_effort (set_immutable E (guardian_unit_path spec) False),
      write_root_owned E (service_unit_path spec) (str_bytes (render_service_unit spec)) 420,
      write_root_owned E (guardian_unit_path spec) (str_bytes (render_guardian_unit spec)) 420,
      best_effort (set_immutable E (baseline_path spec) False)] w = (Inr (), w')"
  shows "intact_at (wd_files w') (installed_rows spec b)"
proof -
  obtain w1 w2 w3 w4 where f: "best_effort (set_immutable E (service_unit_path spec) False) w = (Inr (), w1)"
      "best_effort (set_immutable E (guardian_unit_path spec) False) w1 = (Inr (), w2)"
      "write_root_owned E (service_unit_path spec) (str_bytes (render_service_unit spec)) 420 w2 = (Inr (), w3)"
      "write_root_owned E (guardian_unit_path spec) (str_bytes (render_guardian_unit spec)) 420 w3 = (Inr (), w4)"
      "best_effort (set_immutable E (baseline_path spec) False) w4 = (Inr (), w')"
    using s by (elim run_steps_ConsE) (simp only: run_steps.simps prod.inject)
  have "holds (wd_files w2) (install_path spec) b 493"
    using b unlock_flags [OF f(1)] unlock_flags [OF f(2)] holds_flags by blast
  then have "intact_at (wd_files w3) [(install_path spec, b, 493), (service_unit_path spec, str_bytes (render_service_unit spec), 420)]"
    using write_root_owned_ok [OF f(3)] d by (auto simp: intact_at_def removed_files_def intro: holds_only_at)
  then have "intact_at (wd_files w4) (installed_rows spec b)"
    using write_root_owned_ok [OF f(4)] d by (auto simp: intact_at_def installed_rows_def removed_files_def intro: holds_only_at)
  then show ?thesis using intact_flags [OF unlock_flags [OF f(5)]] by blast
qed

text \<open>What a successful installation leaves: \<open>w1\<close> is the world the baseline was taken on.\<close>

lemma install_leaves:
  assumes i: "install E spec w = (Inr (), w')" and d: "distinct (removed_files spec)"
  obtains b m mb tb w1 where "intact_at (wd_files w1) (installed_rows spec b)"
    "from_paths (ie_hash E) (ie_now E) (machine_of E w1) (protected_files spec) = Some m"
    "enc (ie_manifest E) m = Some mb" "enc (ie_token E) (token_of E spec) = Some tb"
    "intact_at (wd_files w') (installed_rows spec b @ [(baseline_path spec, mb, 420), (token_path spec, tb, 384)])"
    "\<forall>p \<in> set (locked_files spec). \<exists>i. wd_files w' p = Some i \<and> is_immutable (in_flags i)"
    "\<exists>i. wd_files w' (token_path spec) = Some i \<and> \<not> is_immutable (in_flags i)"
proof -
  let ?units = "[best_effort (set_immutable E (service_unit_path spec) False),
      best_effort (set_immutable E (guardian_unit_path spec) False),
      write_root_owned E (service_unit_path spec) (str_bytes (render_service_unit spec)) 420,
      write_root_owned E (guardian_unit_path spec) (str_bytes (render_guardian_unit spec)) 420,
      best_effort (set_immutable E (baseline_path spec) False)]"
  let ?rest = "[write_baseline E spec, write_token E spec, systemctl E [''daemon-reload''],
         systemctl E [''enable'', ''--now'', unit_file (service_name spec), unit_file (guardian_name spec)]]"
  let ?locks = "map (\<lambda>p. set_immutable E p True) (locked_files spec)"
  have "run_steps ([unlock_existing E (install_path spec), copy_binary E spec] @ ?units @ ?rest @ ?locks) w = (Inr (), w')"
    using i by (simp add: install_def split: if_splits)
  then obtain wa where wa: "run_steps [unlock_existing E (install_path spec), copy_binary E spec] w = (Inr (), wa)"
      and ra: "run_steps (?units @ ?rest @ ?locks) wa = (Inr (), w')"
    by (rule run_steps_appendE)
  from ra obtain wb where wb: "run_steps ?units wa = (Inr (), wb)" and rb: "run_steps (?rest @ ?locks) wb = (Inr (), w')"
    by (rule run_steps_appendE)
  from rb obtain wl where wl: "run_steps ?rest wb = (Inr (), wl)" and l: "run_steps ?locks wl = (Inr (), w')"
    by (rule run_steps_appendE)
  obtain b where "holds (wd_files wa) (install_path spec) b 493"
    using wa by (elim run_steps_ConsE) (metis copy_binary_ok run_steps.simps(1) prod.inject)
  then have b: "intact_at (wd_files wb) (installed_rows spec b)" using units_written [OF d _ wb] by blast
  obtain wc wt wd where wc: "write_baseline E spec wb = (Inr (), wc)" and wt: "write_token E spec wc = (Inr (), wt)"
      and wd: "systemctl E [''daemon-reload''] wt = (Inr (), wd)"
      "systemctl E [''enable'', ''--now'', unit_file (service_name spec), unit_file (guardian_name spec)] wd = (Inr (), wl)"
    using wl by (elim run_steps_ConsE) (simp only: run_steps.simps prod.inject)
  have fl: "wd_files wl = wd_files wt" using wd systemctl_files by (metis snd_conv)
  from wc obtain m mb where m: "from_paths (ie_hash E) (ie_now E) (machine_of E wb) (protected_files spec) = Some m"
      "enc (ie_manifest E) m = Some mb" "only_at (baseline_path spec) (wd_files wb) (wd_files wc)"
      "holds (wd_files wc) (baseline_path spec) mb 420" by (rule write_baseline_ok)
  from wt obtain tb where t: "enc (ie_token E) (token_of E spec) = Some tb" "only_at (token_path spec) (wd_files wc) (wd_files wt)"
      "holds (wd_files wt) (token_path spec) tb 384" "\<exists>i. wd_files wt (token_path spec) = Some i \<and> \<not> is_immutable (in_flags i)"
    by (rule write_token_ok)
  have n: "baseline_path spec \<notin> fst ` set (installed_rows spec b)"
      "token_path spec \<notin> fst ` set (installed_rows spec b @ [(baseline_path spec, mb, 420)])"
    using d by (auto simp: installed_rows_def removed_files_def)
  have "intact_at (wd_files wc) (installed_rows spec b @ [(baseline_path spec, mb, 420)])"
    using intact_only_at [OF m(3) n(1) b] m(4) by (simp add: intact_append intact_Cons) (simp add: intact_at_def)
  then have it: "intact_at (wd_files wl) (installed_rows spec b @ [(baseline_path spec, mb, 420), (token_path spec, tb, 384)])"
    using intact_only_at [OF t(2) n(2)] t(3) fl by (simp add: intact_append intact_Cons)
  have "\<forall>p \<in> set (locked_files spec). \<exists>b m. holds (wd_files wl) p b m"
    using it by (auto simp: locked_files_def protected_files_def installed_rows_def intact_Cons)
  note lk = locks_hold [OF l this]
  have "token_path spec \<notin> set (locked_files spec)" using d by (auto simp: locked_files_def protected_files_def removed_files_def)
  then have "\<exists>i. wd_files w' (token_path spec) = Some i \<and> \<not> is_immutable (in_flags i)" using lk t(4) fl by metis
  then show thesis using that [OF b m(1,2) t(1)] it lk intact_flags by blast
qed

lemma intact_regular: "intact_at (wd_files w) rows \<Longrightarrow> (p, b, mode) \<in> set rows \<Longrightarrow> regular (machine_of E w) p b"
  by (auto simp: intact_at_def holds_def regular_def machine_of_def)

lemma baseline_of_intact:
  assumes "intact_at (wd_files w1) (installed_rows spec b)" and "intact_at (wd_files w') (installed_rows spec b)"
    and "from_paths (ie_hash E) now (machine_of E w1) (protected_files spec) = Some m" and "e \<in> set (mf_entries m)"
  shows "\<exists>c. regular (machine_of E w') (me_path e) c \<and> length c = me_len e \<and> ie_hash E c = me_sha256 e"
proof -
  have es: "manifest_entries (ie_hash E) (machine_of E w1) (protected_files spec) = Some (mf_entries m)"
    using assms(3) by (auto simp: from_paths_def)
  note n = entries_of [OF es]
  obtain k where k: "k < length (protected_files spec)" "e = mf_entries m ! k"
    using assms(4) n by (auto simp: in_set_conv_nth)
  then obtain c where c: "read_file (machine_of E w1) (protected_files spec ! k) = Some c"
      "e = \<lparr>me_path = protected_files spec ! k, me_sha256 = ie_hash E c, me_len = length c\<rparr>" using n by blast
  have "protected_files spec = map fst (installed_rows spec b)" by (simp add: protected_files_def installed_rows_def)
  then obtain c' mode where r: "(protected_files spec ! k, c', mode) \<in> set (installed_rows spec b)"
    using nth_mem [OF k(1)] by fastforce
  have "c' = c" using regular_reads [OF intact_regular [OF assms(1) r]] c(1) by simp
  then show ?thesis using intact_regular [OF assms(2) r] c(2) by auto
qed

lemma machine_files [simp]: "mc_files (machine_of E w) = wd_files w" "\<not> mc_hidden (machine_of E w) p"
    "\<not> mc_unreadable (machine_of E w) p"
  by (simp_all add: machine_of_def)

lemma installed_guarded:
  assumes "install E spec w = (Inr (), w')" and "distinct (removed_files spec)" and "codec_ok (ie_manifest E) UNIV"
    and "manifest_path cfg = Some (baseline_path spec)" and "protected_paths cfg = protected_files spec"
  shows "(\<exists>m. load_manifest (ie_manifest E) (machine_of E w') cfg = Some m
      \<and> map me_path (mf_entries m) = protected_files spec
      \<and> watch_tick (ie_hash E) (machine_of E w') cfg aid (Some m) uptime = [Heartbeat uptime])
    \<and> list_all (\<lambda>p. \<exists>i. wd_files w' p = Some i \<and> in_uid i = 0 \<and> is_immutable (in_flags i)) (locked_files spec)
    \<and> (\<exists>i. wd_files w' (token_path spec) = Some i \<and> in_mode i = 384 \<and> \<not> is_immutable (in_flags i))"
proof -
  from assms(1,2) obtain b m mb tb w1 where l: "intact_at (wd_files w1) (installed_rows spec b)"
    "from_paths (ie_hash E) (ie_now E) (machine_of E w1) (protected_files spec) = Some m"
    "enc (ie_manifest E) m = Some mb"
    "intact_at (wd_files w') (installed_rows spec b @ [(baseline_path spec, mb, 420), (token_path spec, tb, 384)])"
    "\<forall>p \<in> set (locked_files spec). \<exists>i. wd_files w' p = Some i \<and> is_immutable (in_flags i)"
    "\<exists>i. wd_files w' (token_path spec) = Some i \<and> \<not> is_immutable (in_flags i)"
    by (rule install_leaves)
  have r: "intact_at (wd_files w') (installed_rows spec b)" using l(4) by (simp add: intact_append)
  have "regular (machine_of E w') (baseline_path spec) mb" by (rule intact_regular [OF l(4), where mode = 420]) simp
  then have m: "load_manifest (ie_manifest E) (machine_of E w') cfg = Some m"
    using codec_okD [OF assms(3) UNIV_I l(3)] regular_reads assms(4) by (auto simp: load_manifest_def)
  have ex: "path_exists (machine_of E w') p \<and> check_immutable (machine_of E w') p" if "p \<in> set (protected_files spec)" for p
  proof -
    have "p \<in> fst ` set (installed_rows spec b)" using that by (simp add: protected_files_def installed_rows_def)
    then obtain c mode where "(p, c, mode) \<in> set (installed_rows spec b)" by auto
    then obtain i where "wd_files w' p = Some i" "in_kind i = File c" using r by (auto simp: intact_at_def holds_def)
    moreover have "p \<in> set (locked_files spec)" using that by (simp add: locked_files_def)
    ultimately show ?thesis using l(5)
      by (auto simp: path_exists_def check_immutable_def get_flags_def open_file_def follow_file)
  qed
  have "watch_tick (ie_hash E) (machine_of E w') cfg aid (Some m) uptime = [Heartbeat uptime]"
    using baseline_of_intact [OF l(1) r l(2)] ex by (auto simp: watch_quiet list_all_iff assms(5))
  moreover have "map me_path (mf_entries m) = protected_files spec"
    using manifest_covers [OF l(2)] .
  moreover have "list_all (\<lambda>p. \<exists>i. wd_files w' p = Some i \<and> in_uid i = 0 \<and> is_immutable (in_flags i)) (locked_files spec)"
    using l(4,5) by (auto simp: list_all_iff locked_files_def protected_files_def installed_rows_def intact_Cons holds_def)
  moreover have "\<exists>i. wd_files w' (token_path spec) = Some i \<and> in_mode i = 384 \<and> \<not> is_immutable (in_flags i)"
    using l(4,6) by (auto simp: intact_append intact_Cons holds_def)
  ultimately show ?thesis using m by blast
qed

text \<open>Installation protects: when the five paths are distinct and the encoder loses nothing, a successful installation,
  whatever calls failed without ending it and whatever was there before, leaves the binary, both units and the baseline
  root-owned and immutable and the token removable, and the agent's watch loop then finds its baseline and is silent.\<close>

theorem install_protects:
  assumes "install E spec w = (Inr (), w')" and "distinct (removed_files spec)" and "codec_ok (ie_manifest E) UNIV"
    and "manifest_path cfg = Some (baseline_path spec)" and "protected_paths cfg = protected_files spec"
  shows "(\<exists>m. load_manifest (ie_manifest E) (machine_of E w') cfg = Some m
      \<and> map me_path (mf_entries m) = protected_files spec
      \<and> watch_tick (ie_hash E) (machine_of E w') cfg aid (Some m) uptime = [Heartbeat uptime])
    \<and> list_all (\<lambda>p. \<exists>i. wd_files w' p = Some i \<and> in_uid i = 0 \<and> is_immutable (in_flags i)) (locked_files spec)
    \<and> (\<exists>i. wd_files w' (token_path spec) = Some i \<and> in_mode i = 384 \<and> \<not> is_immutable (in_flags i))"
  by (rule installed_guarded [OF assms])

definition demo_spec :: install_spec where
  "demo_spec = \<lparr>service_name = ''s'', guardian_name = ''g'', install_path = ''/b'', server_url = ''u'', run_as = ''r'',
     unit_dir = ''/'', state_dir = ''/v''\<rparr>"

definition demo_exe :: files where
  "demo_exe = [''/x'' \<mapsto> \<lparr>in_kind = File [1, 2], in_flags = 0, in_uid = 5, in_mode = 493\<rparr>,
     ''/b'' \<mapsto> \<lparr>in_kind = File [9], in_flags = 0x11, in_uid = 7, in_mode = 493\<rparr>]"

definition demo_world :: world where
  "demo_world = \<lparr>wd_files = demo_exe, wd_running = {}, wd_commands = [], wd_clk = 0\<rparr>"

definition demo_baseline :: manifest where
  "demo_baseline = \<lparr>mf_created_ns = 1, mf_entries =
     [\<lparr>me_path = ''/b'', me_sha256 = bytes_str [1, 2], me_len = 2\<rparr>,
      \<lparr>me_path = ''/s.service'', me_sha256 = bytes_str (str_bytes (render_service_unit demo_spec)), me_len = length (str_bytes (render_service_unit demo_spec))\<rparr>,
      \<lparr>me_path = ''/g.service'', me_sha256 = bytes_str (str_bytes (render_guardian_unit demo_spec)), me_len = length (str_bytes (render_guardian_unit demo_spec))\<rparr>]\<rparr>"

definition demo_install :: install_env where
  "demo_install = \<lparr>ie_euid = 0, ie_fault = (\<lambda>_. False), ie_left = (\<lambda>_. False), ie_exe = Some ''/x'', ie_now = 1, ie_version = ''0.1.0'',
     ie_hash = bytes_str, ie_manifest = table_codec [demo_baseline],
     ie_token = table_codec [\<lparr>it_installed_ns = 1, it_install_path = ''/b'', it_version = ''0.1.0'', it_unit_dir = ''/'',
       it_service_name = ''s'', it_guardian_name = ''g''\<rparr>]\<rparr>"

lemma demo_paths: "install_path demo_spec = ''/b''" "service_unit_path demo_spec = ''/s.service''"
    "guardian_unit_path demo_spec = ''/g.service''" "baseline_path demo_spec = ''/v/manifest.json''"
    "token_path demo_spec = ''/v/uninstall.token''"
  by code_simp+

lemma demo_env: "ie_euid demo_install = 0" "ie_fault demo_install n = False" "ie_exe demo_install = Some ''/x''"
    "ie_hash demo_install = bytes_str" "ie_now demo_install = 1"
    "ie_manifest demo_install = table_codec [demo_baseline]"
    "enc (ie_token demo_install) (token_of demo_install demo_spec) = Some [0]"
  by (simp_all add: demo_install_def token_of_def demo_spec_def table_codec_def)

lemma demo_anc: "ancestors [] ''/b'' = []" "ancestors [] ''/s.service'' = []" "ancestors [] ''/g.service'' = []"
    "ancestors [] ''/v/manifest.json'' = [''/v'']" "ancestors [] ''/v/uninstall.token'' = [''/v'']"
  by code_simp+

lemma demo_names: "service_name demo_spec = ''s''" "guardian_name demo_spec = ''g''"
  by (simp_all add: demo_spec_def)

lemmas demo_step = demo_paths demo_env demo_anc syscall_def best_effort_def unlock_existing_def set_immutable_def
  follow.simps final_path.simps write_root_owned_def copy_binary_def copy_root_owned_def create_parents_def make_dirs_def is_dir_def
  open_nofollow_write_def on_file_def fchown_root_def is_immutable_def apply_immutable_def FS_IMMUTABLE_FL_def Let_def

lemma demo_installs: "fst (install demo_install demo_spec demo_world) = Inr ()"
  by (simp add: demo_step demo_names install_def write_baseline_def write_token_def systemctl_def locked_files_def
      protected_files_def demo_world_def demo_exe_def from_paths_def read_file_def open_file_def table_codec_def demo_baseline_def)

lemma install_protects_witness:
  "\<exists>w'. install demo_install demo_spec demo_world = (Inr (), w')
     \<and> (\<exists>m. load_manifest (table_codec [demo_baseline]) (machine_of demo_install w')
            (tamper_default\<lparr>protected_paths := protected_files demo_spec, manifest_path := Some ''/v/manifest.json''\<rparr>) = Some m
         \<and> watch_tick bytes_str (machine_of demo_install w')
            (tamper_default\<lparr>protected_paths := protected_files demo_spec, manifest_path := Some ''/v/manifest.json''\<rparr>) ''a'' (Some m) 7
           = [Heartbeat 7])"
proof -
  obtain w' where w': "install demo_install demo_spec demo_world = (Inr (), w')" using demo_installs prod.collapse by metis
  have d: "distinct (removed_files demo_spec)" by (simp add: removed_files_def demo_paths)
  have c: "codec_ok (ie_manifest demo_install) UNIV" by (simp add: demo_env table_codec_ok)
  show ?thesis
    using w' install_protects [OF w' d c, of "tamper_default\<lparr>protected_paths := protected_files demo_spec, manifest_path := Some ''/v/manifest.json''\<rparr>" "''a''" 7]
    by (simp add: demo_paths demo_env) blast
qed

section \<open>After an uninstallation\<close>

definition plain :: "files \<Rightarrow> string \<Rightarrow> bool" where
  "plain fs p \<longleftrightarrow> (case fs p of None \<Rightarrow> True | Some i \<Rightarrow> \<exists>b. in_kind i = File b)"

definition unlocked :: "files \<Rightarrow> string \<Rightarrow> bool" where
  "unlocked fs p \<longleftrightarrow> plain fs p \<and> (case fs p of None \<Rightarrow> True | Some i \<Rightarrow> \<not> is_immutable (in_flags i))"

lemma unlock_clears:
  assumes "ie_fault E = (\<lambda>_. False)" and "plain (wd_files w) p"
  shows "unlocked (wd_files (snd (set_immutable E p False w))) p
    \<and> (\<forall>q. q \<noteq> p \<longrightarrow> wd_files (snd (set_immutable E p False w)) q = wd_files w q)"
proof (cases "wd_files w p")
  case None
  then show ?thesis by (simp add: set_immutable_def syscall_def assms(1) follow.simps unlocked_def plain_def Let_def)
next
  case (Some i)
  then obtain b where b: "in_kind i = File b" using assms(2) by (auto simp: plain_def)
  have r: "resolve (wd_files w) p = Some i" "final_path 40 (wd_files w) p = Some p"
    using Some b by (simp_all add: follow_file final_path_file)
  show ?thesis using Some b r apply_immutable_exact [of "in_flags i" False]
    by (auto simp: set_immutable_def syscall_def assms(1) unlocked_def plain_def Let_def)
qed

lemma unlocks_clear:
  assumes "ie_fault E = (\<lambda>_. False)"
  shows "\<forall>p \<in> set ps. plain (wd_files w) p \<Longrightarrow>
    \<exists>w'. run_steps (map (\<lambda>p. best_effort (set_immutable E p False)) ps) w = (Inr (), w')
      \<and> (\<forall>p \<in> set ps. unlocked (wd_files w') p) \<and> (\<forall>q. q \<notin> set ps \<longrightarrow> wd_files w' q = wd_files w q)"
proof (induction ps arbitrary: w)
  case (Cons p ps)
  let ?w1 = "snd (set_immutable E p False w)"
  have u: "unlocked (wd_files ?w1) p" "\<And>q. q \<noteq> p \<Longrightarrow> wd_files ?w1 q = wd_files w q"
    using unlock_clears [OF assms, of w p] Cons.prems by auto
  have "plain (wd_files ?w1) q" if "q \<in> set ps" for q
    using u Cons.prems that by (cases "q = p") (auto simp: unlocked_def plain_def)
  then obtain w' where w': "run_steps (map (\<lambda>p. best_effort (set_immutable E p False)) ps) ?w1 = (Inr (), w')"
      "\<forall>p \<in> set ps. unlocked (wd_files w') p" "\<And>q. q \<notin> set ps \<Longrightarrow> wd_files w' q = wd_files ?w1 q"
    using Cons.IH [of ?w1] by blast
  have "unlocked (wd_files w') p" using w'(2,3) u(1) by (cases "p \<in> set ps") (auto simp: unlocked_def plain_def)
  moreover have "run_steps (map (\<lambda>p. best_effort (set_immutable E p False)) (p # ps)) w = (Inr (), w')"
    using w'(1) by (simp add: best_effort_def [of "set_immutable E p False" w])
  moreover have "\<forall>q. q \<notin> set (p # ps) \<longrightarrow> wd_files w' q = wd_files w q" using w'(3) u(2) by simp
  ultimately show ?case using w'(2) by auto
qed simp

lemma removes_clear:
  assumes "ie_fault E = (\<lambda>_. False)"
  shows "\<forall>p \<in> set ps. unlocked (wd_files w) p \<Longrightarrow>
    \<exists>w'. run_steps (map (remove_if_present E) ps) w = (Inr (), w')
      \<and> wd_files w' = (\<lambda>q. if q \<in> set ps then None else wd_files w q)"
proof (induction ps arbitrary: w)
  case (Cons p ps)
  have "\<exists>w1. remove_if_present E p w = (Inr (), w1) \<and> wd_files w1 = (wd_files w)(p := None)"
    using Cons.prems
    by (cases "wd_files w p")
      (auto simp: remove_if_present_def remove_file_def syscall_def assms unlocked_def plain_def Let_def fun_upd_idem)
  then obtain w1 where w1: "remove_if_present E p w = (Inr (), w1)" "wd_files w1 = (wd_files w)(p := None)" by blast
  have "\<forall>q \<in> set ps. unlocked (wd_files w1) q" using Cons.prems w1(2) by (auto simp: unlocked_def plain_def)
  then obtain w' where w': "run_steps (map (remove_if_present E) ps) w1 = (Inr (), w')"
      "wd_files w' = (\<lambda>q. if q \<in> set ps then None else wd_files w1 q)"
    using Cons.IH [of w1] by blast
  have "wd_files w' = (\<lambda>q. if q \<in> set (p # ps) then None else wd_files w q)" by (simp add: w'(2) w1(2) fun_eq_iff)
  then show ?case using w'(1) w1(1) by simp
qed simp

text \<open>Removals never bring a file back.\<close>

definition shrinks :: "files \<Rightarrow> files \<Rightarrow> bool" where
  "shrinks fs fs' \<longleftrightarrow> (\<forall>p. fs p = None \<longrightarrow> fs' p = None)"

lemma cleanup_shrinks:
  "shrinks (wd_files w) (wd_files (snd (remove_tree E d w)))"
  "shrinks (wd_files w) (wd_files (snd (remove_if_present E p w)))"
  "shrinks (wd_files w) (wd_files (snd (remove_empty_dir E d w)))"
  "shrinks (wd_files w) (wd_files (snd (systemctl E args w)))"
  by (auto simp: shrinks_def remove_tree_def remove_if_present_def remove_file_def remove_empty_dir_def syscall_def Let_def
      split: option.splits sum.splits io_error.splits)

lemma cleanup_ok:
  "(\<And>a w. a \<in> set as \<Longrightarrow> shrinks (wd_files w) (wd_files (snd (a w)))) \<Longrightarrow>
     \<exists>w'. run_steps (map best_effort as) w = (Inr (), w') \<and> shrinks (wd_files w) (wd_files w')"
proof (induction as arbitrary: w)
  case (Cons a as)
  obtain w' where w': "run_steps (map best_effort as) (snd (a w)) = (Inr (), w')" "shrinks (wd_files (snd (a w))) (wd_files w')"
    using Cons.IH [of "snd (a w)"] Cons.prems by auto
  have "shrinks (wd_files w) (wd_files w')" using w'(2) Cons.prems [of a w] by (simp add: shrinks_def)
  then show ?case using w'(1) by (simp add: best_effort_def [of a w])
qed (simp add: shrinks_def)

lemma uninstall_removes:
  assumes root: "ie_euid E = 0" and nf: "ie_fault E = (\<lambda>_. False)"
    and s: "s = effective_spec E spec w" and pl: "\<forall>p \<in> set (removed_files s). plain (wd_files w) p"
    and tk: "unlocked (wd_files w) (token_path s)"
  shows "\<exists>w'. uninstall E spec w = (Inr (), w') \<and> (\<forall>p \<in> set (removed_files s). wd_files w' p = None)"
proof -
  let ?w0 = "w\<lparr>wd_clk := Suc (wd_clk w)\<rparr>"
  let ?ctl = "[systemctl E [''disable'', ''--now'', unit_file (service_name s), unit_file (guardian_name s)],
      systemctl E [''daemon-reload'']]"
  let ?clean = "[remove_tree E (path_join (state_dir s) ''plugin-transport''),
      remove_if_present E (path_join (state_dir s) ''spill.redb''),
      remove_empty_dir E (state_dir s), systemctl E [''daemon-reload'']]"
  have locked: "set (removed_files s) = insert (token_path s) (set (locked_files s))"
    by (auto simp: removed_files_def locked_files_def protected_files_def)
  have "\<forall>p \<in> set (locked_files s). plain (wd_files ?w0) p" using pl locked by simp
  from unlocks_clear [OF nf this] obtain w1 where
      w1: "run_steps (map (\<lambda>p. best_effort (set_immutable E p False)) (locked_files s)) ?w0 = (Inr (), w1)"
      "\<forall>p \<in> set (locked_files s). unlocked (wd_files w1) p" "\<forall>q. q \<notin> set (locked_files s) \<longrightarrow> wd_files w1 q = wd_files ?w0 q"
    by blast
  have "unlocked (wd_files w1) (token_path s)"
    using w1(2,3) tk by (cases "token_path s \<in> set (locked_files s)") (auto simp: unlocked_def plain_def)
  then have u: "\<forall>p \<in> set (removed_files s). unlocked (wd_files w1) p" using w1(2) locked by simp
  obtain w2 where w2: "run_steps (map best_effort ?ctl) w1 = (Inr (), w2)" "wd_files w2 = wd_files w1"
    by (simp add: best_effort_def)
  have "\<forall>p \<in> set (removed_files s). unlocked (wd_files w2) p" using u w2(2) by simp
  from removes_clear [OF nf this] obtain w3 where w3: "run_steps (map (remove_if_present E) (removed_files s)) w2 = (Inr (), w3)"
      "wd_files w3 = (\<lambda>q. if q \<in> set (removed_files s) then None else wd_files w2 q)" by blast
  have "shrinks (wd_files v) (wd_files (snd (a v)))" if "a \<in> set ?clean" for a v
    using that cleanup_shrinks by auto
  then obtain w4 where w4: "run_steps (map best_effort ?clean) w3 = (Inr (), w4)"
      "shrinks (wd_files w3) (wd_files w4)" using cleanup_ok [of ?clean w3] by blast
  have "uninstall E spec w = run_steps (map (\<lambda>p. best_effort (set_immutable E p False)) (locked_files s)
      @ map best_effort ?ctl @ map (remove_if_present E) (removed_files s) @ map best_effort ?clean) ?w0"
    by (simp only: uninstall_def root s Let_def list.map append.assoc append.simps) simp
  also have "\<dots> = (Inr (), w4)" using w1(1) w2(1) w3(1) w4(1) by (simp only: run_steps_append prod.case sum.case)
  finally show ?thesis using w3(2) w4(2) by (auto simp: shrinks_def)
qed

text \<open>C25: Installation can be undone completely: after a successful installation on distinct paths, an uninstallation by root
  in which no call fails succeeds and leaves none of the five installed files, whatever specification it is given, as long
  as that names the same state directory: the token tells it the rest.\<close>

theorem install_then_uninstall:
  assumes "install E spec w = (Inr (), w1)" and "distinct (removed_files spec)" and "codec_ok (ie_token E) UNIV"
    and "ie_euid E' = 0" and "ie_fault E' = (\<lambda>_. False)" and "ie_token E' = ie_token E" and "state_dir spec' = state_dir spec"
  shows "\<exists>w2. uninstall E' spec' w1 = (Inr (), w2) \<and> wd_files w2 ` set (removed_files spec) = {None}"
proof -
  from assms(1,2) obtain b m mb tb w0 where l: "enc (ie_token E) (token_of E spec) = Some tb"
    "intact_at (wd_files w1) (installed_rows spec b @ [(baseline_path spec, mb, 420), (token_path spec, tb, 384)])"
    "\<exists>i. wd_files w1 (token_path spec) = Some i \<and> \<not> is_immutable (in_flags i)"
    by (rule install_leaves)
  have t: "token_path spec' = token_path spec" by (simp add: token_path_def assms(7))
  have "regular (machine_of E' w1) (token_path spec) tb"
    using l(2) by (auto simp: intact_append intact_Cons holds_def regular_def)
  then have ld: "load_spec_from_token E' spec' w1 = Some (spec'\<lparr>install_path := install_path spec, unit_dir := unit_dir spec,
      service_name := service_name spec, guardian_name := guardian_name spec\<rparr>)"
    using codec_okD [OF assms(3) UNIV_I l(1)] regular_reads
    by (auto simp: load_spec_from_token_def t assms(6) token_of_def)
  define s where "s = effective_spec E' spec' w1"
  have s: "removed_files s = removed_files spec" "token_path s = token_path spec"
    by (simp_all add: s_def effective_spec_def assms(5,7) ld removed_files_def service_unit_path_def guardian_unit_path_def
        baseline_path_def token_path_def)
  have "\<forall>p \<in> set (removed_files s). plain (wd_files w1) p" unfolding s
    using l(2) by (auto simp: removed_files_def installed_rows_def intact_append intact_Cons holds_def plain_def)
  moreover have "unlocked (wd_files w1) (token_path s)"
    using l(2,3) by (auto simp: s intact_append intact_Cons holds_def plain_def unlocked_def)
  ultimately obtain w2 where "uninstall E' spec' w1 = (Inr (), w2)" "\<forall>p \<in> set (removed_files s). wd_files w2 p = None"
    using uninstall_removes [OF assms(4,5) s_def] by blast
  then show ?thesis unfolding s by (auto simp: removed_files_def)
qed

lemma install_then_uninstall_witness:
  "\<exists>w1 w2. install demo_install demo_spec demo_world = (Inr (), w1)
     \<and> uninstall demo_install (install_spec_default\<lparr>state_dir := ''/v''\<rparr>) w1 = (Inr (), w2)
     \<and> wd_files w2 ''/b'' = None"
proof -
  obtain w1 where w1: "install demo_install demo_spec demo_world = (Inr (), w1)" using demo_installs prod.collapse by metis
  have d: "distinct (removed_files demo_spec)" by (simp add: removed_files_def demo_paths)
  have c: "codec_ok (ie_token demo_install) UNIV" by (simp add: demo_install_def table_codec_ok)
  have f: "ie_fault demo_install = (\<lambda>_. False)" "state_dir (install_spec_default\<lparr>state_dir := ''/v''\<rparr>) = state_dir demo_spec"
    by (simp_all add: demo_install_def demo_spec_def)
  show ?thesis using w1 install_then_uninstall [OF w1 d c demo_env(1) f(1) refl f(2)]
    by (auto simp: removed_files_def demo_paths)
qed

section \<open>Reinstallation\<close>

lemma syscall_running [simp]: "wd_running (snd (syscall E f w)) = wd_running w"
  by (simp add: syscall_def Let_def split: sum.split prod.split)

lemma set_immutable_running [simp]: "wd_running (snd (set_immutable E p b w)) = wd_running w"
proof -
  obtain r w1 where r: "syscall E (\<lambda>fs. case resolve fs p of None \<Rightarrow> Inl NotFound | Some i \<Rightarrow> Inr (in_flags i, fs)) w = (r, w1)"
    by fastforce
  have "wd_running w1 = wd_running w" using arg_cong [OF r, of "\<lambda>x. wd_running (snd x)"] by simp
  then show ?thesis using r by (cases r) (simp_all add: set_immutable_def Let_def)
qed

lemma open_running:
  assumes "ie_fault E = (\<lambda>_. False)" and "wd_files w p = Some i" and "in_kind i = File b" and "p \<in> wd_running w"
  shows "\<exists>e. open_nofollow_write E p mode w = (Inl e, w\<lparr>wd_clk := Suc (wd_clk w)\<rparr>)"
  using assms by (cases "list_all (is_dir (wd_files w)) (ancestors [] p)")
    (simp_all add: open_nofollow_write_def syscall_def Let_def)

lemma copy_over_running:
  assumes "ie_fault E = (\<lambda>_. False)" and "wd_files w (install_path spec) = Some i" and "in_kind i = File b"
    and "install_path spec \<in> wd_running w"
  shows "\<exists>e w'. copy_binary E spec w = (Inl e, w') \<and> wd_files w' (install_path spec) = Some i"
proof (cases "ie_exe E")
  case (Some exe)
  obtain r w1 where r: "create_parents E (install_path spec) w = (r, w1)" by fastforce
  have w1: "wd_files w1 (install_path spec) = Some i" "install_path spec \<in> wd_running w1"
    using r assms by (auto simp: create_parents_def syscall_def make_dirs_def Let_def split: if_splits)
  show ?thesis
  proof (cases r)
    case (Inr u)
    have "\<exists>e w'. copy_root_owned E exe (install_path spec) 493 w1 = (Inl e, w') \<and> wd_files w' (install_path spec) = Some i"
    proof (cases "resolve (wd_files w1) exe")
      case None
      then show ?thesis using w1 by (simp add: copy_root_owned_def syscall_def Let_def assms(1))
    next
      case (Some x)
      let ?w2 = "w1\<lparr>wd_clk := Suc (wd_clk w1)\<rparr>"
      obtain e where "open_nofollow_write E (install_path spec) 493 ?w2 = (Inl e, ?w2\<lparr>wd_clk := Suc (wd_clk ?w2)\<rparr>)"
        using open_running [OF assms(1), of ?w2 "install_path spec" i b 493] w1 assms(3) by auto
      then show ?thesis using w1 Some by (simp add: copy_root_owned_def syscall_def Let_def assms(1))
    qed
    then show ?thesis using r Inr Some by (auto simp: copy_binary_def)
  qed (use r w1 Some in \<open>simp add: copy_binary_def\<close>)
qed (use assms in \<open>simp add: copy_binary_def\<close>)

text \<open>Reinstalling over a running agent removes its protection: when the binary is running and immutable and no
  call is made to fail, installation clears the attribute, is refused the write, and returns an error with the
  binary unchanged but no longer immutable.\<close>

theorem reinstall_while_running_unprotects:
  assumes "ie_euid E = 0" and "ie_fault E = (\<lambda>_. False)" and "install_path spec \<in> wd_running w"
    and "wd_files w (install_path spec) = Some i" and "in_kind i = File b" and "is_immutable (in_flags i)"
  shows "\<exists>e w' j. install E spec w = (Inl e, w') \<and> wd_files w' (install_path spec) = Some j
    \<and> in_kind j = File b \<and> \<not> is_immutable (in_flags j)"
proof -
  let ?p = "install_path spec" and ?w1 = "snd (set_immutable E (install_path spec) False w)"
  have u: "unlock_existing E ?p w = (Inr (), ?w1)"
    using assms(4,5) by (simp add: unlock_existing_def follow_file best_effort_def)
  obtain j where j: "wd_files ?w1 ?p = Some j" "in_kind j = in_kind i"
    using same_but_flags_Some [OF set_immutable_files assms(4)] by metis
  have "unlocked (wd_files ?w1) ?p" using unlock_clears [OF assms(2), of w ?p] assms(4,5) by (auto simp: plain_def)
  then have nj: "\<not> is_immutable (in_flags j)" using j by (auto simp: unlocked_def)
  obtain e w' where "copy_binary E spec ?w1 = (Inl e, w')" "wd_files w' ?p = Some j"
    using copy_over_running [OF assms(2) j(1), of b] j(2) assms(3,5) by auto
  then show ?thesis using u nj j(2) assms(1,5) by (simp add: install_def)
qed

lemma reinstall_while_running_unprotects_witness:
  "\<exists>e w' j. install demo_install demo_spec (demo_world\<lparr>wd_running := {''/b''}\<rparr>) = (Inl e, w') \<and> wd_files w' ''/b'' = Some j
    \<and> in_kind j = File [9] \<and> \<not> is_immutable (in_flags j)"
proof -
  have f: "ie_fault demo_install = (\<lambda>_. False)" by (simp add: demo_install_def)
  have i: "install_path demo_spec \<in> wd_running (demo_world\<lparr>wd_running := {''/b''}\<rparr>)" by (simp add: demo_paths)
  show ?thesis
    using reinstall_while_running_unprotects [OF demo_env(1) f i]
    by (simp add: demo_paths demo_world_def demo_exe_def is_immutable_def FS_IMMUTABLE_FL_def)
qed

end
