(* ===== verification/Tamper_Wire.thy ===== *)
theory Tamper_Wire
  imports Install_Facts Session
begin

text \<open>
  The alerts of the tamper plugin on their way to the operator: the agent's transport forwards them in batches, and the
  server's ingest accepts raw telemetry kinds only.
\<close>

text \<open>What the plugin emits from start to stop: at start-up, on a tick, and when a signal arrives.\<close>

definition tamper_emissions ::
  "hash \<Rightarrow> machine \<Rightarrow> tamper_config \<Rightarrow> string \<Rightarrow> manifest option \<Rightarrow> u64 \<Rightarrow> stop_signal \<Rightarrow> event_payload list" where
  "tamper_emissions H mc cfg aid mf uptime sig =
     tamper_init_alerts mc cfg aid @ watch_tick H mc cfg aid mf uptime @ signal_alerts aid sig"

lemma tamper_emissions_kind:
  "p \<in> set (tamper_emissions H mc cfg aid mf uptime sig) \<Longrightarrow> p = Heartbeat uptime \<or> default_kind p = ''alert''"
  by (cases sig) (auto simp: tamper_emissions_def tamper_init_alerts_def watch_tick_def integrity_alerts_def immutable_alerts_def
      missing_alerts_def tamper_alert_def Let_def split: option.splits if_splits)

lemma stamped_kind: "ev \<in> set (stamp_all aid stamps ps) \<Longrightarrow> \<exists>p \<in> set ps. kind ev = default_kind p"
  by (auto simp: stamp_all_def event_new_def dest: set_zip_rightD)

lemma ingest_drops:
  "list_all (\<lambda>ev. \<not> is_ingestible (kind ev)) evs \<Longrightarrow>
     \<exists>s'. ingest_events E aid evs n s = (n, s') \<and> sn_bus s' = sn_bus s \<and> sn_store s' = sn_store s \<and> sn_conn s' = sn_conn s"
proof (induction evs arbitrary: s)
  case (Cons ev evs)
  have "\<exists>s1. ingest_event E aid ev s = (False, s1) \<and> sn_bus s1 = sn_bus s \<and> sn_store s1 = sn_store s \<and> sn_conn s1 = sn_conn s"
    using Cons.prems by (simp add: ingest_event_def Let_def split: prod.split)
  then obtain s1 where s1: "ingest_event E aid ev s = (False, s1)" "sn_bus s1 = sn_bus s" "sn_store s1 = sn_store s" "sn_conn s1 = sn_conn s"
    by blast
  then show ?case using Cons.IH [of s1] Cons.prems by simp
qed simp

text \<open>C26: No tamper alert reaches the operator: for a batch of whatever alerts the tamper plugin emits, at start-up, on a
  tick or on a signal, the server answers that it accepted none, and its bus and its store are those before the batch, but
  for the agent's last-seen time.\<close>

theorem tamper_alerts_dropped:
  "\<exists>s'. on_message E aid (EventBatch b (stamp_all aid stamps
        (filter (\<lambda>p. p \<noteq> Heartbeat uptime) (tamper_emissions H mc cfg aid mf uptime sig)))) s
      = session_send E (BatchAck b 0) (session_touch E aid s')
    \<and> sn_bus s' = sn_bus s \<and> sn_store s' = sn_store s \<and> sn_conn s' = sn_conn s"
proof -
  let ?evs = "stamp_all aid stamps (filter (\<lambda>p. p \<noteq> Heartbeat uptime) (tamper_emissions H mc cfg aid mf uptime sig))"
  have "kind ev = ''alert''" if "ev \<in> set ?evs" for ev
    using stamped_kind [OF that] tamper_emissions_kind by fastforce
  moreover have "\<not> is_ingestible ''alert''" by (simp add: is_ingestible_def INGESTIBLE_KINDS_def)
  ultimately have "list_all (\<lambda>ev. \<not> is_ingestible (kind ev)) ?evs" by (simp add: list_all_iff)
  then show ?thesis using ingest_drops [of ?evs E aid 0 s] by (auto simp: on_message_def)
qed

end
