(* ===== verification/Process.thy ===== *)
theory Process
  imports Event Text
begin

text \<open>
  The process collector (\<^verbatim>\<open>plugins/plugin-process/src/lib.rs\<close>): a scan of \<^verbatim>\<open>/proc\<close>, the parsers of its \<^verbatim>\<open>status\<close> and
  \<^verbatim>\<open>stat\<close> files, and the tick that reports the processes not seen before. What a scan reads is the argument
  \<open>proc_dir\<close>: for every directory entry its name and the contents of its files, where they can be read.
\<close>

section \<open>Text\<close>

text \<open>\<^verbatim>\<open>String::from_utf8_lossy\<close>: each maximal ill-formed prefix of a sequence becomes U+FFFD.\<close>

definition cont_byte :: "bytes \<Rightarrow> nat \<Rightarrow> nat \<Rightarrow> nat \<Rightarrow> bool" where
  "cont_byte bs k lo hi \<longleftrightarrow> k < length bs \<and> in_range lo hi (bs ! k)"

definition utf8_step :: "bytes \<Rightarrow> nat \<times> bool" where
  "utf8_step bs =
     (let b = hd bs; n = unat b
      in if n < 128 then (1, True)
         else if in_range 194 223 b then (if cont_byte bs 1 128 191 then (2, True) else (1, False))
         else if in_range 224 239 b then
           (if \<not> cont_byte bs 1 (if n = 224 then 160 else 128) (if n = 237 then 159 else 191) then (1, False)
            else if \<not> cont_byte bs 2 128 191 then (2, False) else (3, True))
         else if in_range 240 244 b then
           (if \<not> cont_byte bs 1 (if n = 240 then 144 else 128) (if n = 244 then 143 else 191) then (1, False)
            else if \<not> cont_byte bs 2 128 191 then (2, False)
            else if \<not> cont_byte bs 3 128 191 then (3, False) else (4, True))
         else (1, False))"

lemma utf8_step_pos: "0 < fst (utf8_step bs)"
  by (simp add: utf8_step_def Let_def)

function from_utf8_lossy :: "bytes \<Rightarrow> string" where
  "from_utf8_lossy bs =
     (if bs = [] then []
      else case utf8_step bs of
        (n, ok) \<Rightarrow> (if ok then bytes_str (take n bs) else bytes_str [0xEF, 0xBF, 0xBD]) @ from_utf8_lossy (drop n bs))"
  by pat_completeness auto
termination
proof (relation "measure length")
  fix bs x y
  assume "bs \<noteq> []" and "(x, y) = utf8_step bs"
  then show "(drop x bs, bs) \<in> measure length" using utf8_step_pos [of bs] by (metis fst_conv in_measure length_drop length_greater_0_conv diff_less)
qed simp

declare from_utf8_lossy.simps [simp del]

text \<open>\<^verbatim>\<open>str::lines\<close> and \<^verbatim>\<open>str::split_whitespace\<close>.\<close>

definition strip_cr :: "string \<Rightarrow> string" where
  "strip_cr l = (if l \<noteq> [] \<and> last l = CHR 0x0D then butlast l else l)"

fun lines_from :: "string \<Rightarrow> string \<Rightarrow> string list" where
  "lines_from acc [] = (if acc = [] then [] else [acc])"
| "lines_from acc (c # cs) = (if c = CHR 0x0A then strip_cr acc # lines_from [] cs else lines_from (acc @ [c]) cs)"

definition str_lines :: "string \<Rightarrow> string list" where
  "str_lines s = lines_from [] s"

fun words_from :: "string \<Rightarrow> string list \<Rightarrow> string list" where
  "words_from acc [] = (if acc = [] then [] else [acc])"
| "words_from acc (c # cs) =
     (if char_is_whitespace c then (if acc = [] then [] else [acc]) @ words_from [] cs else words_from (acc @ c) cs)"

definition split_whitespace :: "string \<Rightarrow> string list" where
  "split_whitespace s = words_from [] (str_chars s)"

section \<open>Configuration and records\<close>

record process_config =
  pc_interval_ms :: u64
  interactive_uids_only :: bool
  cmdline_capture :: bool

definition process_default :: process_config where
  "process_default = \<lparr>pc_interval_ms = 2000, interactive_uids_only = False, cmdline_capture = False\<rparr>"

type_synonym proc_key = "u32 \<times> u64"

record proc_info =
  pi_pid :: u32
  pi_ppid :: u32
  pi_uid :: u32
  pi_comm :: string
  pi_cmdline :: "string list"
  pi_starttime :: u64

definition key_of :: "proc_info \<Rightarrow> proc_key" where
  "key_of p = (pi_pid p, pi_starttime p)"

section \<open>Scanning\<close>

text \<open>An entry of the directory; \<open>None\<close>: the file cannot be read.\<close>

record proc_entry =
  px_name :: bytes
  px_status :: "bytes option"
  px_stat :: "bytes option"
  px_comm :: "bytes option"
  px_cmdline :: "bytes option"

datatype proc_dir = NoProc | Unreadable | Listing "proc_entry option list"

definition parse_u32 :: "string \<Rightarrow> u32 option" where
  "parse_u32 s = map_option word_of_nat (parse_unsigned 32 s)"

definition parse_status_line :: "string \<Rightarrow> u32 \<times> u32 \<Rightarrow> u32 \<times> u32" where
  "parse_status_line line r =
     (case strip_prefix ''PPid:'' line of
        Some rest \<Rightarrow> (case parse_u32 (str_trim rest) of Some n \<Rightarrow> n | None \<Rightarrow> 0, snd r)
      | None \<Rightarrow>
          (case strip_prefix ''Uid:'' line of
             Some rest \<Rightarrow>
               (fst r, case split_whitespace rest of
                         [] \<Rightarrow> 0 | s # _ \<Rightarrow> (case parse_u32 s of Some n \<Rightarrow> n | None \<Rightarrow> 0))
           | None \<Rightarrow> r))"

definition parse_status :: "string \<Rightarrow> u32 \<times> u32" where
  "parse_status status = fold parse_status_line (str_lines status) (0, 0)"

definition parse_starttime :: "string \<Rightarrow> u64 option" where
  "parse_starttime stat =
     (case rsplit_once (CHR '')'') stat of
        None \<Rightarrow> None
      | Some (_, after) \<Rightarrow>
          (let ws = split_whitespace after
           in if 19 < length ws then map_option word_of_nat (parse_unsigned 64 (ws ! 19)) else None))"

fun split_nul :: "bytes \<Rightarrow> bytes \<Rightarrow> bytes list" where
  "split_nul acc [] = [acc]"
| "split_nul acc (b # bs) = (if b = 0 then acc # split_nul [] bs else split_nul (acc @ [b]) bs)"

definition argv_of :: "bytes \<Rightarrow> string list" where
  "argv_of b = map from_utf8_lossy (filter (\<lambda>s. s \<noteq> []) (split_nul [] b))"

definition read_text :: "bytes option \<Rightarrow> string option" where
  "read_text f = (case f of None \<Rightarrow> None | Some b \<Rightarrow> from_utf8 b)"

definition scan_entry :: "proc_entry \<Rightarrow> proc_info option" where
  "scan_entry e =
     (case parse_u32 (from_utf8_lossy (px_name e)) of
        None \<Rightarrow> None
      | Some pid \<Rightarrow>
          (case read_text (px_status e) of
             None \<Rightarrow> None
           | Some status \<Rightarrow>
               (let (ppid, uid) = parse_status status
                in Some \<lparr>pi_pid = pid, pi_ppid = ppid, pi_uid = uid,
                         pi_comm = (case read_text (px_comm e) of Some s \<Rightarrow> str_trim s | None \<Rightarrow> []),
                         pi_cmdline = (case px_cmdline e of Some b \<Rightarrow> argv_of b | None \<Rightarrow> []),
                         pi_starttime = (case read_text (px_stat e) of
                                           Some s \<Rightarrow> (case parse_starttime s of Some t \<Rightarrow> t | None \<Rightarrow> 0)
                                         | None \<Rightarrow> 0)\<rparr>)))"

fun scan_entries :: "proc_entry option list \<Rightarrow> proc_info list option" where
  "scan_entries [] = Some []"
| "scan_entries (None # es) = None"
| "scan_entries (Some e # es) =
     (case scan_entries es of
        None \<Rightarrow> None
      | Some ps \<Rightarrow> Some (case scan_entry e of None \<Rightarrow> ps | Some p \<Rightarrow> p # ps))"

fun scan :: "proc_dir \<Rightarrow> proc_info list option" where
  "scan NoProc = Some []"
| "scan Unreadable = None"
| "scan (Listing es) = scan_entries es"

section \<open>A tick\<close>

definition SEEN_CAP :: nat where "SEEN_CAP = 65536"

definition redact_cmdline :: "string list \<Rightarrow> string list" where
  "redact_cmdline cmdline = take 1 cmdline"

definition prune_seen :: "proc_info list \<Rightarrow> proc_key set \<Rightarrow> proc_key set" where
  "prune_seen snapshot seen = (if SEEN_CAP < card seen then seen \<inter> key_of ` set snapshot else seen)"

definition reportable :: "process_config \<Rightarrow> proc_info \<Rightarrow> bool" where
  "reportable cfg p \<longleftrightarrow> \<not> (interactive_uids_only cfg \<and> pi_uid p < 1000)"

fun take_new :: "process_config \<Rightarrow> proc_info list \<Rightarrow> proc_key set \<Rightarrow> proc_info list \<times> proc_key set" where
  "take_new cfg [] seen = ([], seen)"
| "take_new cfg (p # ps) seen =
     (if reportable cfg p \<and> key_of p \<notin> seen
      then (case take_new cfg ps (insert (key_of p) seen) of (out, s) \<Rightarrow> (p # out, s))
      else take_new cfg ps seen)"

definition exec_payload :: "process_config \<Rightarrow> proc_info \<Rightarrow> event_payload" where
  "exec_payload cfg p =
     ProcessExec (pi_pid p) (pi_ppid p) (pi_uid p) (pi_comm p)
       (if cmdline_capture cfg then pi_cmdline p else redact_cmdline (pi_cmdline p)) None"

definition process_tick :: "process_config \<Rightarrow> proc_info list option \<Rightarrow> proc_key set \<Rightarrow> proc_info list \<times> proc_key set" where
  "process_tick cfg snapshot seen =
     (case snapshot of
        None \<Rightarrow> ([], seen)
      | Some ps \<Rightarrow> take_new cfg ps (prune_seen ps seen))"

text \<open>The reports of successive ticks.\<close>

fun process_run :: "process_config \<Rightarrow> proc_info list option list \<Rightarrow> proc_key set \<Rightarrow> proc_info list list" where
  "process_run cfg [] seen = []"
| "process_run cfg (s # ss) seen = (case process_tick cfg s seen of (out, seen') \<Rightarrow> out # process_run cfg ss seen')"

definition process_events :: "process_config \<Rightarrow> proc_dir list \<Rightarrow> event_payload list list" where
  "process_events cfg ds = map (map (exec_payload cfg)) (process_run cfg (map scan ds) {})"

section \<open>What is reported\<close>

lemma take_new_spec:
  "take_new cfg ps seen = (out, seen') \<Longrightarrow>
     seen' = seen \<union> key_of ` set (filter (reportable cfg) ps) \<and> set out \<subseteq> set (filter (reportable cfg) ps)
     \<and> distinct (map key_of out) \<and> key_of ` set out = key_of ` set (filter (reportable cfg) ps) - seen"
proof (induction ps arbitrary: seen out seen')
  case (Cons p ps)
  show ?case
  proof (cases "reportable cfg p \<and> key_of p \<notin> seen")
    case True
    obtain o1 s1 where r: "take_new cfg ps (insert (key_of p) seen) = (o1, s1)" by fastforce
    then have "out = p # o1" "seen' = s1" using Cons.prems True by simp_all
    then show ?thesis using Cons.IH [OF r] True by auto
  next
    case False
    then have "take_new cfg ps seen = (out, seen')" using Cons.prems by (simp split: if_splits)
    from Cons.IH [OF this] show ?thesis using False by auto
  qed
qed simp

text \<open>The seen set before every tick.\<close>

fun seen_before :: "process_config \<Rightarrow> proc_info list option list \<Rightarrow> proc_key set \<Rightarrow> proc_key set list" where
  "seen_before cfg [] seen = [seen]"
| "seen_before cfg (s # ss) seen = seen # seen_before cfg ss (snd (process_tick cfg s seen))"

lemma length_process_run [simp]: "length (process_run cfg ss seen) = length ss"
  by (induction ss arbitrary: seen) (auto split: prod.split)

lemma length_seen_before [simp]: "length (seen_before cfg ss seen) = Suc (length ss)"
  by (induction ss arbitrary: seen) auto

lemma run_nth:
  "n < length ss \<Longrightarrow> process_tick cfg (ss ! n) (seen_before cfg ss seen ! n) = (process_run cfg ss seen ! n, seen_before cfg ss seen ! Suc n)"
proof (induction ss arbitrary: seen n)
  case (Cons s ss)
  obtain out seen' where t: "process_tick cfg s seen = (out, seen')" by fastforce
  show ?case
  proof (cases n)
    case 0
    then show ?thesis using t by (cases ss) auto
  next
    case (Suc m)
    then show ?thesis using Cons.IH [of m seen'] Cons.prems t by simp
  qed
qed simp

definition alive :: "proc_info list option \<Rightarrow> proc_key set" where
  "alive s = (case s of None \<Rightarrow> {} | Some ps \<Rightarrow> key_of ` set ps)"

definition reported :: "process_config \<Rightarrow> proc_info list option \<Rightarrow> proc_key set" where
  "reported cfg s = (case s of None \<Rightarrow> {} | Some ps \<Rightarrow> key_of ` set (filter (reportable cfg) ps))"

lemma tick_spec:
  assumes "process_tick cfg s seen = (out, seen')"
  shows "key_of ` set out = reported cfg s - seen" "distinct (map key_of out)" "seen' \<subseteq> seen \<union> reported cfg s"
    "reported cfg s \<subseteq> seen'" "k \<in> seen \<Longrightarrow> k \<notin> seen' \<Longrightarrow> s \<noteq> None \<and> k \<notin> alive s"
proof -
  consider (failed) "s = None" "out = []" "seen' = seen"
    | (scanned) ps where "s = Some ps" "take_new cfg ps (prune_seen ps seen) = (out, seen')"
    using assms by (cases s) (auto simp: process_tick_def)
  then have "key_of ` set out = reported cfg s - seen \<and> distinct (map key_of out) \<and> seen' \<subseteq> seen \<union> reported cfg s
      \<and> reported cfg s \<subseteq> seen' \<and> (k \<in> seen \<longrightarrow> k \<notin> seen' \<longrightarrow> s \<noteq> None \<and> k \<notin> alive s)"
  proof cases
    case scanned
    then show ?thesis using take_new_spec [OF scanned(2)] by (auto simp: reported_def alive_def prune_seen_def split: if_splits)
  qed (simp add: reported_def)
  then show "key_of ` set out = reported cfg s - seen" "distinct (map key_of out)" "seen' \<subseteq> seen \<union> reported cfg s"
    "reported cfg s \<subseteq> seen'" "k \<in> seen \<Longrightarrow> k \<notin> seen' \<Longrightarrow> s \<noteq> None \<and> k \<notin> alive s" by blast+
qed

definition reported_at :: "process_config \<Rightarrow> proc_info list option list \<Rightarrow> nat \<Rightarrow> proc_key set" where
  "reported_at cfg ss n = key_of ` set (process_run cfg ss {} ! n)"

lemma seen_was_reported:
  "n \<le> length ss \<Longrightarrow> k \<in> seen_before cfg ss {} ! n \<Longrightarrow> \<exists>m < n. k \<in> reported_at cfg ss m"
proof (induction n)
  case 0
  then show ?case by (cases ss) auto
next
  case (Suc n)
  note t = tick_spec [OF run_nth [of n ss cfg "{}"]]
  have "k \<in> seen_before cfg ss {} ! n \<or> k \<in> reported_at cfg ss n"
    using Suc.prems t(1,3) by (auto simp: reported_at_def)
  then show ?case using Suc by (auto intro: less_SucI)
qed

lemma stays_seen:
  assumes "k \<in> seen_before cfg ss {} ! Suc i"
  shows "Suc i + d \<le> length ss \<Longrightarrow> k \<in> seen_before cfg ss {} ! (Suc i + d)
    \<or> (\<exists>m. i < m \<and> m < Suc i + d \<and> ss ! m \<noteq> None \<and> k \<notin> alive (ss ! m))"
proof (induction d)
  case (Suc d)
  note t = tick_spec [OF run_nth [of "Suc i + d" ss cfg "{}"]]
  show ?case
  proof (cases "k \<in> seen_before cfg ss {} ! (Suc i + d)")
    case True
    then show ?thesis using t(5) [of k] Suc.prems by (metis add_Suc_right lessI less_add_Suc1 less_eq_Suc_le add.commute)
  next
    case False
    then show ?thesis using Suc by (auto intro: less_SucI)
  qed
qed (use assms in simp)

text \<open>C23: A process is reported once in its life: over any sequence of scans, failed ones included, a process that a scan
  finds and the filter admits has been reported by the end of that tick, and it is not reported at any later tick before which
  every successful scan since has found the same process identifier and start time.\<close>

theorem process_once_per_life:
  assumes "i < j" and "j < length ss" and "k \<in> reported cfg (ss ! i)"
    and "\<forall>m. i < m \<and> m < j \<longrightarrow> ss ! m = None \<or> k \<in> alive (ss ! m)"
  shows "(\<exists>m. m \<le> i \<and> k \<in> reported_at cfg ss m) \<and> k \<notin> reported_at cfg ss j"
proof
  have i: "i < length ss" using assms(1,2) by simp
  note ti = tick_spec [OF run_nth [OF i, of cfg "{}"]] and tj = tick_spec [OF run_nth [OF assms(2), of cfg "{}"]]
  show "\<exists>m. m \<le> i \<and> k \<in> reported_at cfg ss m"
  proof (cases "k \<in> seen_before cfg ss {} ! i")
    case True
    then show ?thesis using seen_was_reported [of i ss k cfg] i by (auto intro: less_imp_le)
  next
    case False
    then have "k \<in> reported_at cfg ss i" using ti(1) assms(3) by (simp add: reported_at_def)
    then show ?thesis by blast
  qed
  have "k \<in> seen_before cfg ss {} ! Suc i" using ti(4) assms(3) by blast
  then have "k \<in> seen_before cfg ss {} ! j" using stays_seen [of k cfg ss i "j - Suc i"] assms(1,2,4) by auto
  then show "k \<notin> reported_at cfg ss j" using tj(1) by (auto simp: reported_at_def)
qed

definition demo_proc :: proc_info where
  "demo_proc = \<lparr>pi_pid = 7, pi_ppid = 1, pi_uid = 1000, pi_comm = ''sh'', pi_cmdline = [''/bin/sh'', ''-c''], pi_starttime = 9\<rparr>"

lemma process_once_per_life_witness:
  "key_of demo_proc \<notin> reported_at process_default [Some [demo_proc], None, Some [demo_proc]] 2"
  using process_once_per_life [of 0 2 "[Some [demo_proc], None, Some [demo_proc]]" "key_of demo_proc" process_default]
  by (simp add: reported_def reportable_def process_default_def alive_def nth_Cons' less_Suc_eq)

lemma finite_seen: "n \<le> length ss \<Longrightarrow> finite (seen_before cfg ss {} ! n)"
proof (induction n)
  case 0
  then show ?case by (cases ss) auto
next
  case (Suc n)
  have "finite (reported cfg (ss ! n))" by (simp add: reported_def split: option.split)
  then show ?case using tick_spec(3) [OF run_nth [of n ss cfg "{}"]] Suc by (auto intro: finite_subset)
qed

text \<open>The seen set stays bounded when snapshots are.\<close>

lemma seen_bounded:
  assumes "\<forall>s \<in> set ss. case s of None \<Rightarrow> True | Some ps \<Rightarrow> length ps \<le> mx"
  shows "n \<le> length ss \<Longrightarrow> card (seen_before cfg ss {} ! n) \<le> max SEEN_CAP mx + mx"
proof (induction n)
  case 0
  then show ?case by (cases ss) auto
next
  case (Suc n)
  define B where "B = seen_before cfg ss {} ! n"
  have f: "finite B" using finite_seen [of n ss cfg] Suc.prems by (simp add: B_def)
  note t = run_nth [of n ss cfg "{}", folded B_def]
  show ?case
  proof (cases "ss ! n")
    case None
    then have "seen_before cfg ss {} ! Suc n = B" using t Suc.prems by (simp add: process_tick_def)
    then show ?thesis using Suc by (simp add: B_def)
  next
    case (Some ps)
    have len: "length ps \<le> mx" using assms Some Suc.prems nth_mem [of n ss] by fastforce
    have tn: "take_new cfg ps (prune_seen ps B) = (process_run cfg ss {} ! n, seen_before cfg ss {} ! Suc n)"
      using t Some Suc.prems by (simp add: process_tick_def)
    have "card (key_of ` set ps) \<le> mx" using card_image_le [OF finite_set, of key_of ps] card_length [of ps] len by linarith
    then have p: "card (prune_seen ps B) \<le> max SEEN_CAP mx"
      using card_mono [of "key_of ` set ps" "B \<inter> key_of ` set ps"] f by (auto simp: prune_seen_def le_max_iff_disj)
    have "card (key_of ` set (filter (reportable cfg) ps)) \<le> mx"
      using card_image_le [OF finite_set, of key_of "filter (reportable cfg) ps"] card_length [of "filter (reportable cfg) ps"] len
        length_filter_le [of "reportable cfg" ps] by linarith
    then show ?thesis using take_new_spec [OF tn] p card_Un_le [of "prune_seen ps B" "key_of ` set (filter (reportable cfg) ps)"]
      by simp
  qed
qed

section \<open>What a report holds\<close>

text \<open>Equal up to the arguments after the first.\<close>

definition same_program :: "proc_info \<Rightarrow> proc_info \<Rightarrow> bool" where
  "same_program p q \<longleftrightarrow> p\<lparr>pi_cmdline := take 1 (pi_cmdline p)\<rparr> = q\<lparr>pi_cmdline := take 1 (pi_cmdline q)\<rparr>"

lemma same_programD: "same_program p q \<Longrightarrow> key_of p = key_of q \<and> (reportable cfg p \<longleftrightarrow> reportable cfg q)
    \<and> (\<not> cmdline_capture cfg \<longrightarrow> exec_payload cfg p = exec_payload cfg q)"
  by (cases p; cases q) (simp add: same_program_def key_of_def reportable_def exec_payload_def redact_cmdline_def)

lemma take_new_same:
  assumes "\<not> cmdline_capture cfg"
  shows "list_all2 same_program ps qs \<Longrightarrow>
    map (exec_payload cfg) (fst (take_new cfg ps seen)) = map (exec_payload cfg) (fst (take_new cfg qs seen))
    \<and> snd (take_new cfg ps seen) = snd (take_new cfg qs seen)"
proof (induction ps qs arbitrary: seen rule: list_all2_induct)
  case (Cons p ps q qs)
  show ?case using same_programD [OF Cons.hyps(1), of cfg] Cons.IH assms by (simp split: prod.split) (metis fst_conv snd_conv)
qed simp

lemma prune_same: "list_all2 same_program ps qs \<Longrightarrow> prune_seen ps seen = prune_seen qs seen"
proof -
  assume "list_all2 same_program ps qs"
  then have "map key_of ps = map key_of qs" by (induction rule: list_all2_induct) (simp_all add: same_programD)
  then have "key_of ` set ps = key_of ` set qs" by (metis list.set_map)
  then show ?thesis by (simp add: prune_seen_def)
qed

text \<open>The bytes of the first non-empty argument.\<close>

definition first_arg :: "bytes \<Rightarrow> bytes" where
  "first_arg b = takeWhile (\<lambda>x. x \<noteq> 0) (dropWhile (\<lambda>x. x = 0) b)"

definition redact_entry :: "proc_entry \<Rightarrow> proc_entry" where
  "redact_entry e = e\<lparr>px_cmdline := map_option first_arg (px_cmdline e)\<rparr>"

fun redact_dir :: "proc_dir \<Rightarrow> proc_dir" where
  "redact_dir (Listing es) = Listing (map (map_option redact_entry) es)"
| "redact_dir d = d"

lemma split_nul_plain: "0 \<notin> set s \<Longrightarrow> split_nul acc s = [acc @ s]"
  by (induction s arbitrary: acc) auto

lemma split_nul_acc: "acc \<noteq> [] \<Longrightarrow> take 1 (filter (\<lambda>s. s \<noteq> []) (split_nul acc b)) = [acc @ takeWhile (\<lambda>x. x \<noteq> 0) b]"
  by (induction b arbitrary: acc) auto

lemma split_nul_first: "take 1 (filter (\<lambda>s. s \<noteq> []) (split_nul [] b)) = (if first_arg b = [] then [] else [first_arg b])"
proof (induction b)
  case (Cons x b)
  then show ?case using split_nul_acc [of "[x]" b] by (cases "x = 0") (auto simp: first_arg_def split: if_splits)
qed (simp add: first_arg_def)

lemma argv_first: "take 1 (argv_of (first_arg b)) = take 1 (argv_of b)"
proof -
  have "0 \<notin> set (first_arg b)" by (auto simp: first_arg_def dest: set_takeWhileD)
  then have "argv_of (first_arg b) = map from_utf8_lossy (if first_arg b = [] then [] else [first_arg b])"
    by (simp add: argv_of_def split_nul_plain)
  also have "\<dots> = take 1 (argv_of b)" unfolding argv_of_def take_map split_nul_first by simp
  finally show ?thesis by simp
qed

lemma scan_entry_redact: "rel_option same_program (scan_entry e) (scan_entry (redact_entry e))"
  by (cases "px_cmdline e")
    (simp_all add: scan_entry_def redact_entry_def same_program_def argv_first [simplified] Let_def split: option.split prod.split)

lemma scan_redact: "rel_option (list_all2 same_program) (scan d) (scan (redact_dir d))"
proof (cases d)
  case (Listing es)
  have "rel_option (list_all2 same_program) (scan_entries es) (scan_entries (map (map_option redact_entry) es))"
  proof (induction es rule: scan_entries.induct)
    case (3 e es)
    then show ?case using scan_entry_redact [of e]
      by (cases "scan_entries (map (map_option redact_entry) es)"; cases "scan_entry (redact_entry e)"; cases "scan_entry e";
          cases "scan_entries es") auto
  qed simp_all
  then show ?thesis using Listing by simp
qed (simp_all add: list_all2_refl)

lemma process_run_same:
  assumes "\<not> cmdline_capture cfg"
  shows "list_all2 (rel_option (list_all2 same_program)) ss ts \<Longrightarrow>
    map (map (exec_payload cfg)) (process_run cfg ss seen) = map (map (exec_payload cfg)) (process_run cfg ts seen)"
proof (induction ss ts arbitrary: seen rule: list_all2_induct)
  case (Cons s ss t ts)
  have "map (exec_payload cfg) (fst (process_tick cfg s seen)) = map (exec_payload cfg) (fst (process_tick cfg t seen))
      \<and> snd (process_tick cfg s seen) = snd (process_tick cfg t seen)"
    using Cons.hyps(1) take_new_same [OF assms] prune_same
    by (cases s; cases t) (fastforce simp: process_tick_def)+
  then show ?case using Cons.IH by (simp split: prod.split) (metis fst_conv snd_conv)
qed simp

text \<open>Without command-line capture the collector sees programs, not arguments: what it emits over any sequence of
  scans is what it would emit if every command line were cut after its first argument before it was read.\<close>

theorem process_arguments_unseen:
  assumes "\<not> cmdline_capture cfg"
  shows "process_events cfg ds = process_events cfg (map redact_dir ds)"
  unfolding process_events_def
  by (rule process_run_same [OF assms]) (simp add: list_all2_conv_all_nth scan_redact)

definition demo_entry :: proc_entry where
  "demo_entry = \<lparr>px_name = str_bytes ''7'', px_status = Some (str_bytes ''Uid: 1000''), px_stat = None, px_comm = None,
     px_cmdline = Some (str_bytes ''su'' @ [0] @ str_bytes ''-p'' @ [0])\<rparr>"

lemma process_arguments_unseen_witness:
  "process_events process_default [Listing [Some demo_entry]]
     = process_events process_default [Listing [Some (demo_entry\<lparr>px_cmdline := Some (str_bytes ''su'')\<rparr>)]]"
proof -
  have "first_arg (str_bytes ''su'' @ [0] @ str_bytes ''-p'' @ [0]) = str_bytes ''su''" by code_simp
  then have r: "redact_dir (Listing [Some demo_entry]) = Listing [Some (demo_entry\<lparr>px_cmdline := Some (str_bytes ''su'')\<rparr>)]"
    by (simp add: demo_entry_def redact_entry_def)
  show ?thesis using process_arguments_unseen [of process_default "[Listing [Some demo_entry]]"]
    unfolding list.map r by (simp add: process_default_def)
qed

section \<open>Parsing\<close>

lemma words_from_plain: "\<forall>c \<in> set w. \<not> char_is_whitespace [c] \<Longrightarrow> words_from acc (map (\<lambda>c. [c]) w @ r) = words_from (acc @ w) r"
  by (induction w arbitrary: acc) auto

definition spaced :: "string list \<Rightarrow> string" where
  "spaced ws = concat (map (\<lambda>w. '' '' @ w) ws)"

lemma words_from_spaced:
  assumes "\<forall>w \<in> set ws. w \<noteq> [] \<and> plain_text w"
  shows "words_from acc (map (\<lambda>c. [c]) (spaced ws @ [CHR 0x0A])) = (if acc = [] then [] else [acc]) @ ws"
  using assms
proof (induction ws arbitrary: acc)
  case (Cons w ws)
  have "\<forall>c \<in> set w. \<not> char_is_whitespace [c]" using Cons.prems by (simp add: plain_text_def)
  note p = words_from_plain [OF this, of "[]" "map (\<lambda>c. [c]) (spaced ws @ [CHR 0x0A])"]
  have "char_is_whitespace '' ''" by (simp add: char_is_whitespace_def)
  then show ?case using p Cons.IH [of w] Cons.prems by (simp add: spaced_def)
qed (simp add: spaced_def char_is_whitespace_def)

lemma split_spaced:
  assumes "\<forall>w \<in> set ws. w \<noteq> [] \<and> plain_text w"
  shows "split_whitespace (spaced ws @ [CHR 0x0A]) = ws"
proof -
  have "is_ascii (spaced ws @ [CHR 0x0A])" using assms by (auto simp: spaced_def plain_text_def is_ascii_def list_all_iff)
  then show ?thesis unfolding split_whitespace_def str_chars_ascii using words_from_spaced [OF assms, of "[]"] by (simp add: str_chars_ascii)
qed

lemma dec_str_plain: "plain_text (dec_str n) \<and> CHR '')'' \<notin> set (dec_str n)"
proof -
  have d: "is_digit c" if "c \<in> set (dec_str n)" for c using dec_str_digits [of n] that by (simp add: list_all_iff)
  have "\<not> is_digit (CHR '')'')" by (simp add: is_digit_def)
  then show ?thesis using d is_digit_props dec_str_props(1) by (metis plain_text_def)
qed

text \<open>A line of \<^verbatim>\<open>/proc/<pid>/stat\<close>: identifier, command name in parentheses, the other fields.\<close>

definition stat_line :: "nat \<Rightarrow> string \<Rightarrow> string list \<Rightarrow> string" where
  "stat_line pid comm cols = dec_str pid @ '' ('' @ comm @ '')'' @ spaced cols @ [CHR 0x0A]"

text \<open>The start time is read past any command name: whatever bytes, spaces and parentheses included, a process has for
  a name, the parser reads back the twentieth of the fields that follow it.\<close>

theorem starttime_roundtrip:
  assumes "\<forall>w \<in> set cols. w \<noteq> [] \<and> plain_text w \<and> CHR '')'' \<notin> set w" and "19 < length cols"
    and "cols ! 19 = dec_str t" and "t < 2 ^ 64"
  shows "parse_starttime (stat_line pid comm cols) = Some (word_of_nat t)"
proof -
  have "CHR '')'' \<notin> set (spaced cols @ [CHR 0x0A])" using assms(1) by (auto simp: spaced_def)
  from rsplit_once_append [OF this, of "dec_str pid @ '' ('' @ comm"]
  have r: "rsplit_once (CHR '')'') (stat_line pid comm cols) = Some (dec_str pid @ '' ('' @ comm, spaced cols @ [CHR 0x0A])"
    by (simp add: stat_line_def)
  have "split_whitespace (spaced cols @ [CHR 0x0A]) = cols" using assms(1) by (intro split_spaced) blast
  then show ?thesis using parse_unsigned_dec_str [OF assms(4)] assms(2,3) by (simp add: parse_starttime_def r Let_def)
qed

lemma starttime_roundtrip_witness:
  "parse_starttime (stat_line 7 ''a) R 1 (b'' (replicate 19 ''0'' @ [dec_str 4211])) = Some 4211"
proof -
  have "plain_text ''0''" by (simp add: plain_text_def char_is_whitespace_def)
  then show ?thesis
    using starttime_roundtrip [of "replicate 19 ''0'' @ [dec_str 4211]" 4211 7 "''a) R 1 (b''"] dec_str_digits [of 4211] dec_str_plain [of 4211]
    by (simp add: nth_append)
qed

end
