(* ===== verification/Agent.thy ===== *)
theory Agent
  imports Host Install_Facts
begin

text \<open>
  The endpoint agent's start-up (\<^verbatim>\<open>crates/aegis-agent/src/main.rs\<close>): the configuration that \<^verbatim>\<open>run\<close> gives to the plugin host, with
  the server address and the tamper layout filled in where the operator set neither, and how the tamper plugin
  reads it back. The result of reading the TOML file is an argument.
\<close>

section \<open>Arguments\<close>

record run_args =
  ra_config :: "string option"
  ra_agent_id :: string
  ra_data_dir :: string
  ra_server :: string
  ra_print_events :: bool

definition run_args_default :: run_args where
  "run_args_default =
     \<lparr>ra_config = None, ra_agent_id = ''agent-local'', ra_data_dir = ''./data/agent'', ra_server = ''https://127.0.0.1:8443'',
      ra_print_events = False\<rparr>"

text \<open>\<^verbatim>\<open>agent install --install-path p --server u\<close>.\<close>

definition install_command :: "string \<Rightarrow> string \<Rightarrow> install_spec" where
  "install_command p u = install_spec_default\<lparr>install_path := p, server_url := u\<rparr>"

section \<open>Configuration\<close>

text \<open>\<^verbatim>\<open>as_object_mut\<close> and an insertion under a key that is absent.\<close>

fun put_absent :: "string \<times> json \<Rightarrow> json \<Rightarrow> json" where
  "put_absent (k, v) (JObj kvs) = JObj (case map_of kvs k of Some _ \<Rightarrow> kvs | None \<Rightarrow> bt_insert k v kvs)"
| "put_absent kv j = j"

definition fill_absent :: "string \<Rightarrow> (string \<times> json) list \<Rightarrow> host_config \<Rightarrow> host_config" where
  "fill_absent name kvs cfg =
     (let entry = (case map_of (hc_plugins cfg) name of Some j \<Rightarrow> j | None \<Rightarrow> JObj [])
      in cfg\<lparr>hc_plugins := bt_insert name (fold put_absent kvs entry) (hc_plugins cfg)\<rparr>)"

definition inject_server :: "string \<Rightarrow> host_config \<Rightarrow> host_config" where
  "inject_server url = fill_absent ''plugin-transport'' [(''server'', JStr url)]"

definition inject_tamper_defaults :: "host_config \<Rightarrow> host_config" where
  "inject_tamper_defaults =
     fill_absent ''plugin-tamper''
       [(''protected_paths'', JArr (map JStr (protected_files install_spec_default))),
        (''manifest_path'', JStr (baseline_path install_spec_default))]"

definition run_config :: "host_config option \<Rightarrow> machine \<Rightarrow> run_args \<Rightarrow> host_config option" where
  "run_config toml mc args =
     (case (case ra_config args of None \<Rightarrow> Some (host_config_new (ra_agent_id args)) | Some _ \<Rightarrow> toml) of
        None \<Rightarrow> None
      | Some cfg \<Rightarrow>
          (let cfg1 = inject_server (ra_server args) (cfg\<lparr>hc_data_dir := ra_data_dir args\<rparr>)
           in Some (if is_root (posture mc) then inject_tamper_defaults cfg1 else cfg1)))"

text \<open>The plugin's directory (\<^verbatim>\<open>run\<close> in \<^verbatim>\<open>host.rs\<close>).\<close>

definition plugin_dir :: "host_config \<Rightarrow> string \<Rightarrow> string" where
  "plugin_dir cfg name = path_join (hc_data_dir cfg) name"

section \<open>Reading a subtree\<close>

fun json_u64 :: "json \<Rightarrow> u64 option" where
  "json_u64 (JNum t) = map_option word_of_nat (parse_unsigned 64 t)"
| "json_u64 j = None"

fun json_string :: "json \<Rightarrow> string option" where
  "json_string (JStr s) = Some s"
| "json_string j = None"

fun all_some :: "'a option list \<Rightarrow> 'a list option" where
  "all_some [] = Some []"
| "all_some (x # xs) = (case x of None \<Rightarrow> None | Some a \<Rightarrow> map_option ((#) a) (all_some xs))"

fun json_strings :: "json \<Rightarrow> string list option" where
  "json_strings (JArr js) = all_some (map json_string js)"
| "json_strings j = None"

fun json_opt_string :: "json \<Rightarrow> string option option" where
  "json_opt_string JNull = Some None"
| "json_opt_string j = map_option Some (json_string j)"

text \<open>A field under \<^verbatim>\<open>#[serde(default)]\<close>: absent, it is the default; of the wrong type, the whole is refused.\<close>

definition field_or :: "'a \<Rightarrow> (json \<Rightarrow> 'a option) \<Rightarrow> json option \<Rightarrow> 'a option" where
  "field_or d f v = (case v of None \<Rightarrow> Some d | Some j \<Rightarrow> f j)"

definition tamper_fields :: "json option \<Rightarrow> json option \<Rightarrow> json option \<Rightarrow> tamper_config option" where
  "tamper_fields a b c =
     (case (field_or (check_interval_s tamper_default) json_u64 a, field_or (protected_paths tamper_default) json_strings b,
            field_or (manifest_path tamper_default) json_opt_string c) of
        (Some i, Some ps, Some m) \<Rightarrow> Some \<lparr>check_interval_s = i, protected_paths = ps, manifest_path = m\<rparr>
      | _ \<Rightarrow> None)"

text \<open>\<^verbatim>\<open>config_as::<TamperConfig>\<close>: an object by field names, an array by position.\<close>

definition nth_opt :: "nat \<Rightarrow> 'a list \<Rightarrow> 'a option" where
  "nth_opt n xs = (if n < length xs then Some (xs ! n) else None)"

fun tamper_config_as :: "json \<Rightarrow> tamper_config option" where
  "tamper_config_as JNull = Some tamper_default"
| "tamper_config_as (JObj kvs) =
     tamper_fields (map_of kvs ''check_interval_s'') (map_of kvs ''protected_paths'') (map_of kvs ''manifest_path'')"
| "tamper_config_as (JArr js) =
     (if 3 < length js then None else tamper_fields (nth_opt 0 js) (nth_opt 1 js) (nth_opt 2 js))"
| "tamper_config_as j = None"

section \<open>What the agent watches\<close>

lemma map_of_fill: "bt_ok (hc_plugins cfg) \<Longrightarrow>
    map_of (hc_plugins (fill_absent name kvs cfg))
      = (map_of (hc_plugins cfg))(name \<mapsto> fold put_absent kvs (case map_of (hc_plugins cfg) name of Some j \<Rightarrow> j | None \<Rightarrow> JObj []))"
  by (simp add: fill_absent_def Let_def bt)

lemma fill_absent_ok: "bt_ok (hc_plugins cfg) \<Longrightarrow> bt_ok (hc_plugins (fill_absent name kvs cfg))"
  by (simp add: fill_absent_def Let_def bt)

lemma fill_absent_fields [simp]:
  "hc_data_dir (fill_absent name kvs cfg) = hc_data_dir cfg" "hc_agent_id (fill_absent name kvs cfg) = hc_agent_id cfg"
  by (simp_all add: fill_absent_def Let_def)

lemma all_some_map: "all_some (map (\<lambda>x. Some (f x)) xs) = Some (map f xs)"
  by (induction xs) auto

lemma put_absent_lookup:
  "put_absent (k, v) (JObj kvs) = JObj kvs' \<Longrightarrow> bt_ok kvs \<Longrightarrow>
     bt_ok kvs' \<and> map_of kvs' = (case map_of kvs k of None \<Rightarrow> (map_of kvs)(k \<mapsto> v) | Some _ \<Rightarrow> map_of kvs)"
  by (auto simp: bt split: option.splits)

text \<open>What the tamper plugin of an agent that runs as root is told, for a subtree that the operator wrote as an object.\<close>

lemma tamper_told:
  assumes "bt_ok kvs"
  shows "tamper_config_as (fold put_absent [(''protected_paths'', JArr (map JStr ps)), (''manifest_path'', JStr p)] (JObj kvs))
    = tamper_fields (map_of kvs ''check_interval_s'')
        (Some (case map_of kvs ''protected_paths'' of None \<Rightarrow> JArr (map JStr ps) | Some j \<Rightarrow> j))
        (Some (case map_of kvs ''manifest_path'' of None \<Rightarrow> JStr p | Some j \<Rightarrow> j))"
proof -
  obtain k1 where k1: "put_absent (''protected_paths'', JArr (map JStr ps)) (JObj kvs) = JObj k1" by simp
  obtain k2 where k2: "put_absent (''manifest_path'', JStr p) (JObj k1) = JObj k2" by simp
  note l1 = put_absent_lookup [OF k1 assms]
  note l2 = put_absent_lookup [OF k2 l1 [THEN conjunct1]]
  have "fold put_absent [(''protected_paths'', JArr (map JStr ps)), (''manifest_path'', JStr p)] (JObj kvs) = JObj k2"
    using k1 k2 by (simp del: put_absent.simps)
  then show ?thesis using l1 l2 by (auto split: option.splits)
qed

lemma default_told:
  assumes "ra_config args = None" and "is_root (posture mc)"
  shows "\<exists>cfg tc. run_config toml mc args = Some cfg \<and> tamper_config_as (plugin_config cfg ''plugin-tamper'') = Some tc
    \<and> protected_paths tc = protected_files install_spec_default \<and> manifest_path tc = Some (baseline_path install_spec_default)"
proof -
  let ?c0 = "(host_config_new (ra_agent_id args))\<lparr>hc_data_dir := ra_data_dir args\<rparr>"
  let ?c1 = "inject_server (ra_server args) ?c0"
  let ?cfg = "inject_tamper_defaults ?c1"
  have ok: "bt_ok (hc_plugins ?c1)" by (simp add: inject_server_def fill_absent_ok host_config_new_def)
  have "map_of (hc_plugins ?c1) ''plugin-tamper'' = None"
    by (simp add: inject_server_def map_of_fill host_config_new_def)
  then have "plugin_config ?cfg ''plugin-tamper'' = fold put_absent
      [(''protected_paths'', JArr (map JStr (protected_files install_spec_default))), (''manifest_path'', JStr (baseline_path install_spec_default))] (JObj [])"
    using ok by (simp add: plugin_config_def inject_tamper_defaults_def map_of_fill)
  then have "tamper_config_as (plugin_config ?cfg ''plugin-tamper'') = Some \<lparr>check_interval_s = 15,
      protected_paths = protected_files install_spec_default, manifest_path = Some (baseline_path install_spec_default)\<rparr>"
    by (simp only: tamper_told [of "[]"] bt_ok_Nil)
       (simp add: tamper_fields_def field_or_def tamper_default_def o_def all_some_map [of id, simplified])
  then show ?thesis using assms by (simp add: run_config_def Let_def)
qed

lemma default_distinct: "distinct (removed_files install_spec_default)"
  by code_simp

lemma removed_install_command: "removed_files (install_command p u) = (removed_files install_spec_default)[2 := p]"
  by (simp add: removed_files_def install_command_def service_unit_path_def guardian_unit_path_def baseline_path_def token_path_def)


text \<open>An agent that is installed elsewhere raises a false alarm at every tick: after a successful installation at a path other
  than the default one, at which there is nothing, the agent that is run as root without a configuration file reports the
  default path missing, for it never learns where it was installed.\<close>

theorem custom_path_false_alarm:
  assumes "install E (install_command p u) w = (Inr (), w')" and "distinct (removed_files (install_command p u))"
    and "p \<noteq> install_path install_spec_default" and "wd_files w' (install_path install_spec_default) = None"
    and "codec_ok (ie_manifest E) UNIV" and "ra_config args = None" and "is_root (posture mc)"
  shows "\<exists>cfg tc. run_config toml mc args = Some cfg \<and> tamper_config_as (plugin_config cfg ''plugin-tamper'') = Some tc
    \<and> tamper_alert aid ''Tamper detected'' (''protected path missing: '' @ install_path install_spec_default)
      \<in> set (watch_tick (ie_hash E) (machine_of E w') tc aid (load_manifest (ie_manifest E) (machine_of E w') tc) uptime)"
proof -
  let ?s = "install_command p u" and ?d = "install_path install_spec_default"
  have eq: "baseline_path ?s = baseline_path install_spec_default" "install_path ?s = p"
      "service_unit_path ?s = service_unit_path install_spec_default" "guardian_unit_path ?s = guardian_unit_path install_spec_default"
    by (simp_all add: install_command_def service_unit_path_def guardian_unit_path_def baseline_path_def)
  obtain cfg tc where tc: "run_config toml mc args = Some cfg" "tamper_config_as (plugin_config cfg ''plugin-tamper'') = Some tc"
      "protected_paths tc = protected_files install_spec_default" "manifest_path tc = Some (baseline_path ?s)"
    using default_told [OF assms(6,7), of toml] by (auto simp: eq)
  obtain m where m: "load_manifest (ie_manifest E) (machine_of E w') tc = Some m" "map me_path (mf_entries m) = protected_files ?s"
    using installed_guarded [OF assms(1,2,5), of "tc\<lparr>protected_paths := protected_files ?s\<rparr>" aid uptime] tc(4)
    by (auto simp: load_manifest_def)
  have "?d \<notin> set (protected_files ?s)"
    using default_distinct assms(3) by (auto simp: protected_files_def eq removed_files_def)
  moreover have "covered (Some m) q \<longleftrightarrow> q \<in> set (map me_path (mf_entries m))" for q by (auto simp: covered_def list_ex_iff)
  ultimately have "\<not> covered (Some m) ?d" unfolding m(2) by blast
  moreover have "\<not> path_exists (machine_of E w') ?d" using assms(4) by (simp add: path_exists_def follow.simps)
  moreover have "?d \<in> set (protected_paths tc)" by (simp add: tc(3) protected_files_def)
  ultimately have "tamper_alert aid ''Tamper detected'' (''protected path missing: '' @ ?d)
      \<in> set (missing_alerts (machine_of E w') aid (Some m) (protected_paths tc))"
    by (auto simp: missing_alerts_def)
  then show ?thesis using tc(1,2) m(1) by (auto simp: watch_tick_def)
qed

section \<open>An installation at the default and at another path\<close>

definition demo_manifest :: "install_spec \<Rightarrow> manifest" where
  "demo_manifest spec = \<lparr>mf_created_ns = 1, mf_entries =
     [\<lparr>me_path = install_path spec, me_sha256 = bytes_str [1, 2], me_len = 2\<rparr>,
      \<lparr>me_path = service_unit_path spec, me_sha256 = bytes_str (str_bytes (render_service_unit spec)), me_len = length (str_bytes (render_service_unit spec))\<rparr>,
      \<lparr>me_path = guardian_unit_path spec, me_sha256 = bytes_str (str_bytes (render_guardian_unit spec)), me_len = length (str_bytes (render_guardian_unit spec))\<rparr>]\<rparr>"

definition demo_installer :: "install_spec \<Rightarrow> install_env" where
  "demo_installer spec = demo_install\<lparr>ie_manifest := table_codec [demo_manifest spec], ie_token := table_codec [token_of demo_install spec]\<rparr>"

definition demo_host :: world where
  "demo_host = \<lparr>wd_files = [''/x'' \<mapsto> \<lparr>in_kind = File [1, 2], in_flags = 0, in_uid = 5, in_mode = 493\<rparr>], wd_running = {}, wd_commands = [], wd_clk = 0\<rparr>"

lemma demo_installer_simps:
  "ie_euid (demo_installer s) = 0" "ie_fault (demo_installer s) n = False" "ie_exe (demo_installer s) = Some ''/x''"
  "ie_hash (demo_installer s) = bytes_str" "ie_now (demo_installer s) = 1"
  "ie_manifest (demo_installer s) = table_codec [demo_manifest s]" "ie_token (demo_installer s) = table_codec [token_of demo_install s]"
  "token_of (demo_installer s) s' = token_of demo_install s'"
  by (simp_all add: demo_installer_def demo_install_def token_of_def)

lemma command_paths:
  "install_path (install_command p u) = p"
  "service_unit_path (install_command p u) = ''/etc/systemd/system/aegis-agent.service''"
  "guardian_unit_path (install_command p u) = ''/etc/systemd/system/aegis-guardian.service''"
  "baseline_path (install_command p u) = ''/var/lib/aegis/manifest.json''" "token_path (install_command p u) = ''/var/lib/aegis/uninstall.token''"
  "service_name (install_command p u) = ''aegis-agent''" "guardian_name (install_command p u) = ''aegis-guardian''"
  "install_path install_spec_default = ''/usr/local/sbin/aegis-agent''"
  by (simp_all add: install_command_def install_spec_default_def service_unit_path_def guardian_unit_path_def baseline_path_def
      token_path_def path_join_def)

lemma command_ancestors: "ancestors [] ''/b'' = []" "ancestors [] ''/usr/local/sbin/aegis-agent'' = [''/usr'', ''/usr/local'', ''/usr/local/sbin'']"
    "ancestors [] ''/etc/systemd/system/aegis-agent.service'' = [''/etc'', ''/etc/systemd'', ''/etc/systemd/system'']"
    "ancestors [] ''/etc/systemd/system/aegis-guardian.service'' = [''/etc'', ''/etc/systemd'', ''/etc/systemd/system'']"
    "ancestors [] ''/var/lib/aegis/manifest.json'' = [''/var'', ''/var/lib'', ''/var/lib/aegis'']"
    "ancestors [] ''/var/lib/aegis/uninstall.token'' = [''/var'', ''/var/lib'', ''/var/lib/aegis'']"
  by code_simp+

lemmas install_eval = demo_installer_simps command_paths command_ancestors syscall_def best_effort_def unlock_existing_def
  set_immutable_def follow.simps final_path.simps write_root_owned_def copy_binary_def copy_root_owned_def create_parents_def
  make_dirs_def is_dir_def open_nofollow_write_def on_file_def fchown_root_def is_immutable_def apply_immutable_def
  FS_IMMUTABLE_FL_def Let_def install_def write_baseline_def write_token_def systemctl_def locked_files_def protected_files_def
  from_paths_def read_file_def open_file_def table_codec_def

lemma custom_installs:
  "fst (install (demo_installer (install_command ''/b'' ''u'')) (install_command ''/b'' ''u'') demo_host) = Inr ()
   \<and> wd_files (snd (install (demo_installer (install_command ''/b'' ''u'')) (install_command ''/b'' ''u'') demo_host)) ''/usr/local/sbin/aegis-agent'' = None"
  by (simp add: install_eval demo_host_def demo_manifest_def)

lemma default_installs:
  "fst (install (demo_installer (install_command ''/usr/local/sbin/aegis-agent'' ''u''))
     (install_command ''/usr/local/sbin/aegis-agent'' ''u'') demo_host) = Inr ()"
  by (simp add: install_eval demo_host_def demo_manifest_def)

lemma root_posture: "is_root (posture (machine_of (demo_installer s) w))"
  by (simp add: posture_def machine_of_def demo_installer_simps)


lemma custom_path_false_alarm_witness:
  "\<exists>w' cfg tc. install (demo_installer (install_command ''/b'' ''u'')) (install_command ''/b'' ''u'') demo_host = (Inr (), w')
     \<and> run_config None (machine_of (demo_installer install_spec_default) w') run_args_default = Some cfg
     \<and> tamper_config_as (plugin_config cfg ''plugin-tamper'') = Some tc
     \<and> tamper_alert ''a'' ''Tamper detected'' ''protected path missing: /usr/local/sbin/aegis-agent''
       \<in> set (watch_tick bytes_str (machine_of (demo_installer (install_command ''/b'' ''u'')) w') tc ''a''
            (load_manifest (table_codec [demo_manifest (install_command ''/b'' ''u'')]) (machine_of (demo_installer (install_command ''/b'' ''u'')) w') tc) 9)"
proof -
  let ?s = "install_command ''/b'' ''u''" and ?E = "demo_installer (install_command ''/b'' ''u'')"
  obtain w' where w': "install ?E ?s demo_host = (Inr (), w')" "wd_files w' ''/usr/local/sbin/aegis-agent'' = None"
    using custom_installs prod.collapse by metis
  have d: "distinct (removed_files ?s)" "''/b'' \<noteq> install_path install_spec_default"
    by (simp_all add: removed_files_def command_paths)
  have a: "wd_files w' (install_path install_spec_default) = None" using w'(2) by (simp add: command_paths)
  have c: "codec_ok (ie_manifest ?E) UNIV" by (simp add: demo_installer_simps table_codec_ok)
  have r: "ra_config run_args_default = None" by (simp add: run_args_default_def)
  show ?thesis using w'(1) custom_path_false_alarm [OF w'(1) d a c r root_posture, of None install_spec_default w' "''a''" 9]
    by (auto simp: demo_installer_simps command_paths)
qed

end
