(* ===== verification/Agent_Facts.thy ===== *)
theory Agent_Facts
  imports Agent Auth
begin

text \<open>
  What an uninstallation leaves alone, and where the installed agent keeps its identity.
\<close>

section \<open>What an uninstallation leaves\<close>

text \<open>A file keeps all but its flags.\<close>

definition spares :: "string \<Rightarrow> files \<Rightarrow> files \<Rightarrow> bool" where
  "spares q fs fs' \<longleftrightarrow> (\<forall>i. fs q = Some i \<longrightarrow> (\<exists>j. fs' q = Some j \<and> j\<lparr>in_flags := 0\<rparr> = i\<lparr>in_flags := 0\<rparr>))"

definition sparing :: "string \<Rightarrow> unit io \<Rightarrow> bool" where
  "sparing q a \<longleftrightarrow> (\<forall>w. spares q (wd_files w) (wd_files (snd (a w))))"

lemma spares_trans: "spares q a b \<Longrightarrow> spares q b c \<Longrightarrow> spares q a c"
  unfolding spares_def by (metis (no_types))

lemma run_steps_sparing: "list_all (sparing q) as \<Longrightarrow> spares q (wd_files w) (wd_files (snd (run_steps as w)))"
proof (induction as arbitrary: w)
  case (Cons a as)
  obtain r w1 where a: "a w = (r, w1)" by fastforce
  have "sparing q a" using Cons.prems by simp
  then have s: "spares q (wd_files w) (wd_files (snd (a w)))" by (simp add: sparing_def)
  then show ?case using a Cons.IH [of w1] Cons.prems by (cases r) (auto intro: spares_trans [of q _ "wd_files w1"])
qed (simp add: spares_def)

lemma sparing_calls:
  "sparing q (set_immutable E p b)" "sparing q (systemctl E args)" "sparing q a \<Longrightarrow> sparing q (best_effort a)"
  "p \<noteq> q \<Longrightarrow> sparing q (remove_if_present E p)" "p \<noteq> q \<Longrightarrow> sparing q (remove_empty_dir E p)"
  "\<not> below d q \<Longrightarrow> sparing q (remove_tree E d)"
proof -
  have "spares q (wd_files w) (wd_files (snd (set_immutable E p b w)))" for w
    unfolding spares_def
  proof (intro allI impI)
    fix i
    assume i: "wd_files w q = Some i"
    have "map_option (\<lambda>i. i\<lparr>in_flags := 0\<rparr>) (wd_files (snd (set_immutable E p b w)) q) = map_option (\<lambda>i. i\<lparr>in_flags := 0\<rparr>) (wd_files w q)"
      using set_immutable_files [of w E p b] by (simp add: same_but_flags_def)
    then show "\<exists>j. wd_files (snd (set_immutable E p b w)) q = Some j \<and> j\<lparr>in_flags := 0\<rparr> = i\<lparr>in_flags := 0\<rparr>" using i by auto
  qed
  then show "sparing q (set_immutable E p b)" by (simp add: sparing_def)
  show "sparing q a \<Longrightarrow> sparing q (best_effort a)" by (simp add: sparing_def best_effort_def)
  show "sparing q (systemctl E args)" by (simp add: sparing_def spares_def)
  show "p \<noteq> q \<Longrightarrow> sparing q (remove_if_present E p)" "p \<noteq> q \<Longrightarrow> sparing q (remove_empty_dir E p)"
    by (auto simp: sparing_def spares_def remove_if_present_def remove_file_def remove_empty_dir_def syscall_def Let_def
        split: option.splits sum.splits io_error.splits)
  show "\<not> below d q \<Longrightarrow> sparing q (remove_tree E d)"
    by (auto simp: sparing_def spares_def remove_tree_def Let_def split: option.splits)
qed

lemma uninstall_spares:
  assumes "s = effective_spec E spec w" and "q \<notin> set (removed_files s)" and "\<not> below (path_join (state_dir spec) ''plugin-transport'') q"
    and "q \<noteq> path_join (state_dir spec) ''spill.redb''" and "q \<noteq> state_dir spec"
  shows "spares q (wd_files w) (wd_files (snd (uninstall E spec w)))"
proof (cases "ie_euid E = 0")
  case True
  have sd: "state_dir s = state_dir spec"
    by (auto simp: assms(1) effective_spec_def load_spec_from_token_def split: option.split)
  let ?steps = "map (\<lambda>p. best_effort (set_immutable E p False)) (locked_files s)
              @ [best_effort (systemctl E [''disable'', ''--now'', unit_file (service_name s), unit_file (guardian_name s)]),
                 best_effort (systemctl E [''daemon-reload''])]
              @ map (remove_if_present E) (removed_files s)
              @ [best_effort (remove_tree E (path_join (state_dir s) ''plugin-transport'')),
                 best_effort (remove_if_present E (path_join (state_dir s) ''spill.redb'')),
                 best_effort (remove_empty_dir E (state_dir s)),
                 best_effort (systemctl E [''daemon-reload''])]"
  have "list_all (sparing q) (map (remove_if_present E) (removed_files s))"
    unfolding list_all_iff using assms(2) by (auto intro!: sparing_calls(4))
  moreover have "list_all (sparing q) (map (\<lambda>p. best_effort (set_immutable E p False)) (locked_files s))"
    unfolding list_all_iff using sparing_calls(1,3) by auto
  ultimately have "list_all (sparing q) ?steps" using assms(3-5) sd by (simp add: sparing_calls)
  from run_steps_sparing [OF this, of "w\<lparr>wd_clk := Suc (wd_clk w)\<rparr>"] show ?thesis
    by (simp only: uninstall_def True Let_def flip: assms(1)) simp
qed (simp add: uninstall_def spares_def)

text \<open>The arguments in the unit's \<^verbatim>\<open>ExecStart\<close>, and the kernel's reading of a path relative to the root directory, in which the
  service manager starts a unit that names no other.\<close>

definition unit_args :: "install_spec \<Rightarrow> run_args" where
  "unit_args spec = run_args_default\<lparr>ra_server := server_url spec\<rparr>"

definition from_root :: "string \<Rightarrow> string" where
  "from_root p = path_join ''/'' (case strip_prefix ''./'' p of Some q \<Rightarrow> q | None \<Rightarrow> p)"

lemma unit_data_dir: "run_config toml mc (unit_args spec) = Some cfg \<Longrightarrow> hc_data_dir cfg = ''./data/agent''"
  by (auto simp: run_config_def unit_args_def run_args_default_def Let_def inject_server_def inject_tamper_defaults_def
      split: if_splits)

text \<open>Uninstallation leaves the agent's identity behind: whatever the installed agent, run by its unit, keeps in the
  directory of its transport plugin, its private key included, is still there after an uninstallation, whichever calls fail,
  as long as it is none of the five files that the uninstallation removes.\<close>

theorem uninstall_leaves_identity:
  assumes "run_config toml mc (unit_args spec) = Some cfg" and "state_dir spec = state_dir install_spec_default"
    and "uninstall E spec w = (r, w')" and "wd_files w (from_root (path_join (plugin_dir cfg ''plugin-transport'') KEY_FILE)) = Some i"
    and "from_root (path_join (plugin_dir cfg ''plugin-transport'') KEY_FILE) \<notin> set (removed_files (effective_spec E spec w))"
  shows "\<exists>j. wd_files w' (from_root (path_join (plugin_dir cfg ''plugin-transport'') KEY_FILE)) = Some j
    \<and> in_kind j = in_kind i \<and> in_uid j = in_uid i"
proof -
  have q: "from_root (path_join (plugin_dir cfg ''plugin-transport'') KEY_FILE) = ''/data/agent/plugin-transport/agent_ed25519.key''"
    by (simp add: from_root_def plugin_dir_def unit_data_dir [OF assms(1)] path_join_def KEY_FILE_def)
  have d: "\<not> below (path_join (state_dir spec) ''plugin-transport'') ''/data/agent/plugin-transport/agent_ed25519.key''"
    "path_join (state_dir spec) ''spill.redb'' \<noteq> ''/data/agent/plugin-transport/agent_ed25519.key''"
    "state_dir spec \<noteq> ''/data/agent/plugin-transport/agent_ed25519.key''"
    by (simp_all add: assms(2) install_spec_default_def path_join_def below_def starts_with_def)
  have "spares ''/data/agent/plugin-transport/agent_ed25519.key'' (wd_files w) (wd_files (snd (uninstall E spec w)))"
    by (rule uninstall_spares [OF refl]) (use assms(5) d in \<open>simp_all add: q [symmetric]\<close>)
  then obtain j where j: "wd_files w' ''/data/agent/plugin-transport/agent_ed25519.key'' = Some j"
      "j\<lparr>in_flags := 0\<rparr> = i\<lparr>in_flags := 0\<rparr>"
    using assms(3,4) by (auto simp: spares_def q)
  then have "in_kind j = in_kind i \<and> in_uid j = in_uid i" by (cases i; cases j) simp
  then show ?thesis using j(1) by (simp add: q)
qed

definition demo_residue :: world where
  "demo_residue = demo_world\<lparr>wd_files := [''/data/agent/plugin-transport/agent_ed25519.key'' \<mapsto>
     \<lparr>in_kind = File [7], in_flags = 0, in_uid = 0, in_mode = 384\<rparr>]\<rparr>"

lemma uninstall_leaves_identity_witness:
  "\<exists>j. wd_files (snd (uninstall demo_install install_spec_default demo_residue)) ''/data/agent/plugin-transport/agent_ed25519.key'' = Some j
    \<and> in_kind j = File [7]"
proof -
  obtain cfg where c: "run_config None (machine_of demo_install demo_residue) (unit_args install_spec_default) = Some cfg"
    by (simp add: run_config_def unit_args_def run_args_default_def Let_def)
  obtain r w' where u: "uninstall demo_install install_spec_default demo_residue = (r, w')" by fastforce
  have q: "from_root (path_join (plugin_dir cfg ''plugin-transport'') KEY_FILE) = ''/data/agent/plugin-transport/agent_ed25519.key''"
    by (simp add: from_root_def plugin_dir_def unit_data_dir [OF c] path_join_def KEY_FILE_def)
  have e: "effective_spec demo_install install_spec_default demo_residue = install_spec_default"
    by (simp add: effective_spec_def load_spec_from_token_def read_file_def open_file_def demo_residue_def follow.simps
        install_spec_default_def token_path_def path_join_def)
  have n: "''/data/agent/plugin-transport/agent_ed25519.key'' \<notin> set (removed_files install_spec_default)" by code_simp
  show ?thesis using uninstall_leaves_identity [OF c refl u, unfolded q] n by (simp add: u e) (auto simp: demo_residue_def)
qed

end
