(* ===== verification/Enroll_Client.thy ===== *)
theory Enroll_Client
  imports Interop
begin

text \<open>
  Enrollment from the endpoint's side (\<^verbatim>\<open>resolve_enroll_secret\<close> and \<^verbatim>\<open>enroll\<close> of \<^verbatim>\<open>crates/aegis-agent/src/main.rs\<close>), and both ends
  of an enrollment together. What the files and the standard input hold, the fresh key, the host facts, whether
  the server can be reached and the certificate it presents are arguments.
\<close>

section \<open>Arguments and environment\<close>

record enroll_args =
  ea_server :: string
  ea_token :: "string option"
  ea_token_file :: "string option"
  ea_pin :: "string option"
  ea_enroll_blob :: "string option"

record 'sk enroll_client_env =
  ec_crypto :: "'sk crypto"
  ec_messages :: "message codec"
  ec_identity :: "identity_file codec"
  ec_stdin :: "string option"
  ec_file :: "string \<Rightarrow> string option"
  ec_key :: 'sk
  ec_facts :: "string \<times> string"
  ec_reachable :: "string \<Rightarrow> u16 \<Rightarrow> bool"
  ec_cert :: "string \<Rightarrow> u16 \<Rightarrow> bytes"
  ec_write1 :: write_outcome
  ec_write2 :: write_outcome
  ec_now :: u64

datatype enroll_failure =
    SecretUnreadable | BadBlob blob_error | NoSecret | PinMissing | PinMalformed
  | BadServer url_error | Unreachable | CertificateRefused
  | SendFailed proto_error | ReadFailed proto_error
  | EnrollRejected string | UnexpectedReply | PersistFailed identity_error

section \<open>The secret\<close>

definition resolve_enroll_secret :: "'sk enroll_client_env \<Rightarrow> enroll_args \<Rightarrow> enroll_failure + string \<times> bytes" where
  "resolve_enroll_secret A args =
     (case ea_enroll_blob args of
        Some src \<Rightarrow>
          (case (if src = ''-'' then ec_stdin A else ec_file A src) of
             None \<Rightarrow> Inl SecretUnreadable
           | Some buf \<Rightarrow> map_sum BadBlob id (parse_enroll_blob (ec_crypto A) buf))
      | None \<Rightarrow>
     (case (case ea_token_file args of
              Some path \<Rightarrow> (case ec_file A path of None \<Rightarrow> Inl SecretUnreadable | Some t \<Rightarrow> Inr (str_trim t))
            | None \<Rightarrow> (case ea_token args of Some t \<Rightarrow> Inr t | None \<Rightarrow> Inl NoSecret)) of
        Inl e \<Rightarrow> Inl e
      | Inr token \<Rightarrow>
          (case ea_pin args of
             None \<Rightarrow> Inl PinMissing
           | Some hex \<Rightarrow>
               (case parse_pin_hex (ec_crypto A) hex of None \<Rightarrow> Inl PinMalformed | Some pin \<Rightarrow> Inr (token, pin)))))"

section \<open>The exchange\<close>

definition enroll_request :: "'sk enroll_client_env \<Rightarrow> string \<Rightarrow> message" where
  "enroll_request A token = EnrollRequest token (fst (ec_facts A)) (snd (ec_facts A)) (verifying_key (ec_crypto A) (ec_key A))"

definition enroll_exchange ::
  "'sk enroll_client_env \<Rightarrow> string \<Rightarrow> bytes \<Rightarrow> conn \<Rightarrow> dir \<Rightarrow> (enroll_failure + string) \<times> conn \<times> dir" where
  "enroll_exchange A token pin c d =
     (case send_msg (ec_messages A) (enroll_request A token) c of
        (Inl e, c1) \<Rightarrow> (Inl (SendFailed e), c1, d)
      | (Inr _, c1) \<Rightarrow>
     (case recv_msg (ec_messages A) c1 of
        (Inl e, c2) \<Rightarrow> (Inl (ReadFailed e), c2, d)
      | (Inr (EnrollResponse accepted aid reason), c2) \<Rightarrow>
          if accepted then
            (case persist_identity (ec_crypto A) (ec_identity A) (ec_write1 A) (ec_write2 A) (ec_now A) aid (ec_key A) [pin] d of
               (Inl e, d') \<Rightarrow> (Inl (PersistFailed e), c2, d')
             | (Inr _, d') \<Rightarrow> (Inr aid, c2, d'))
          else (Inl (EnrollRejected (case reason of Some r \<Rightarrow> r | None \<Rightarrow> ''no reason given'')), c2, d)
      | (Inr _, c2) \<Rightarrow> (Inl UnexpectedReply, c2, d)))"

definition enroll_client ::
  "'sk enroll_client_env \<Rightarrow> enroll_args \<Rightarrow> conn \<Rightarrow> dir \<Rightarrow> (enroll_failure + string) \<times> conn \<times> dir" where
  "enroll_client A args c d =
     (case resolve_enroll_secret A args of
        Inl e \<Rightarrow> (Inl e, c, d)
      | Inr (token, pin) \<Rightarrow>
     (case parse_server_url (ea_server args) of
        Inl e \<Rightarrow> (Inl (BadServer e), c, d)
      | Inr (host, port) \<Rightarrow>
          if \<not> ec_reachable A host port then (Inl Unreachable, c, d)
          else if \<not> verify_server_cert (ec_crypto A) [pin] (ec_cert A host port) then (Inl CertificateRefused, c, d)
          else enroll_exchange A token pin c d))"

section \<open>Secrets and pins\<close>

lemma resolve_pin_length: "resolve_enroll_secret A args = Inr (token, pin) \<Longrightarrow> length pin = PIN_LEN"
proof -
  assume r: "resolve_enroll_secret A args = Inr (token, pin)"
  show ?thesis
  proof (cases "ea_enroll_blob args")
    case None
    then show ?thesis using r by (auto simp: resolve_enroll_secret_def parse_pin_hex_def split: sum.splits option.splits if_splits)
  next
    case (Some src)
    then obtain buf where "parse_enroll_blob (ec_crypto A) buf = Inr (token, pin)"
      using r by (auto simp: resolve_enroll_secret_def map_sum_def split: option.splits sum.splits)
    then show ?thesis using parse_enroll_blob_sound by blast
  qed
qed

text \<open>C22: The enrollment token goes to the pinned server only: unless the secret resolves to a token and a pin and the
  certificate presented at the parsed address has the fingerprint of that pin, enrollment sends nothing and writes nothing.\<close>

theorem token_only_to_pinned_server:
  assumes "crypto_ok (ec_crypto A)" and "enroll_client A args c d = (r, c', d')" and "out c' \<noteq> out c \<or> d' \<noteq> d"
  shows "\<exists>token pin host port. resolve_enroll_secret A args = Inr (token, pin)
    \<and> parse_server_url (ea_server args) = Inr (host, port)
    \<and> fingerprint (ec_crypto A) (ec_cert A host port) = pin"
proof -
  obtain token pin where s: "resolve_enroll_secret A args = Inr (token, pin)"
    using assms(2,3) by (auto simp: enroll_client_def split: sum.splits)
  obtain host port where u: "parse_server_url (ea_server args) = Inr (host, port)"
    "verify_server_cert (ec_crypto A) [pin] (ec_cert A host port)"
    using assms(2,3) by (auto simp: enroll_client_def s split: sum.splits if_splits)
  have "fingerprint (ec_crypto A) (ec_cert A host port) = pin"
    using verify_server_cert_iff [OF assms(1), of "[pin]"] u(2) resolve_pin_length [OF s] by simp
  then show ?thesis using s u(1) by blast
qed

section \<open>Both ends\<close>

text \<open>The replies a server can give to an enrollment request for the id \<open>new_id\<close>.\<close>

definition enroll_replies :: "string \<Rightarrow> message list" where
  "enroll_replies new_id =
     [enroll_response (Inr (Accepted new_id)), EnrollResponse False [] (Some ''internal error'')]
     @ map (\<lambda>r. EnrollResponse False [] (Some (reject_reason r))) [UnknownToken, TokenUsed, TokenExpired]
     @ [EnrollResponse False [] (Some (''hostname/os too long (max '' @ dec_str MAX_ENROLL_FIELD_LEN @ '' bytes each)''))]"

lemma enroll_reply_listed:
  assumes "datastore T P" and "enroll T P io new_id now token host os pk st = (r, st')"
  shows "enroll_response r \<in> set (enroll_replies new_id)"
proof -
  have "a = new_id" if acc: "r = Inr (Accepted a)" for a
  proof -
    obtain row where "enroll_txn T P io new_id token now TOKEN_VALIDITY_NS host os pk st = (Inr (Inr (a, row)), st')"
      using datastore.enroll_accepted [OF assms(1) assms(2) [unfolded acc]] by blast
    from datastore.enroll_txn_accept [OF assms(1) this] show ?thesis by blast
  qed
  moreover have "reason \<in> {reject_reason UnknownToken, reject_reason TokenUsed, reject_reason TokenExpired,
      ''hostname/os too long (max '' @ dec_str MAX_ENROLL_FIELD_LEN @ '' bytes each)''}" if rej: "r = Inr (Rejected reason)" for reason
  proof (cases "MAX_ENROLL_FIELD_LEN < length host \<or> MAX_ENROLL_FIELD_LEN < length os")
    case True
    then show ?thesis using assms(2) rej by (simp add: enroll_def)
  next
    case False
    then obtain x where "reason = reject_reason x" using assms(2) rej by (auto simp: enroll_def split: prod.splits sum.splits)
    then show ?thesis by (cases x) simp_all
  qed
  ultimately show ?thesis by (cases r rule: enroll_response.cases) (auto simp: enroll_replies_def)
qed

text \<open>The server's half: what it answers and stores.\<close>

lemma server_enrolls:
  fixes E :: "('t, 'sk) server_env"
  assumes ds: "datastore (sv_tables E) (sv_postcard E)" and len: "length pk = 32"
    and req: "sendable (sv_messages E) (EnrollRequest token host os pk)"
    and rep: "list_all (sendable (sv_messages E)) (enroll_replies new_id)"
    and wire: "wok (sn_conn s) = []" "out (sn_conn s) = []" "stream_ok (inp (sn_conn s))"
      "stream_bytes (inp (sn_conn s)) = frame (sv_messages E) (EnrollRequest token host os pk)"
    and run: "handle_conn E M tx True (Some x) False el2 new_id cid ins s r = (e, s', r')"
  shows "\<exists>res st'. enroll (sv_tables E) (sv_postcard E) (sv_io E (sn_clk s)) new_id (sv_now E (sn_clk s)) token host os pk (sn_store s) = (res, st')
    \<and> sn_store s' = st' \<and> out (sn_conn s') = frame (sv_messages E) (enroll_response res) \<and> r' = r"
proof -
  obtain segs where rv: "recv_msg (sv_messages E) (sn_conn s) = (Inr (EnrollRequest token host os pk), (sn_conn s)\<lparr>inp := segs\<rparr>)"
    using recv_msg_frame [OF req wire(3), of "[]"] wire(4) by auto
  obtain res st' where en: "enroll (sv_tables E) (sv_postcard E) (sv_io E (sn_clk s)) new_id (sv_now E (sn_clk s)) token host os pk (sn_store s) = (res, st')"
    by fastforce
  let ?s1 = "(s\<lparr>sn_conn := (sn_conn s)\<lparr>inp := segs\<rparr>\<rparr>)\<lparr>sn_store := st', sn_clk := sn_clk s + 1\<rparr>"
  have "sendable (sv_messages E) (enroll_response res)"
    using rep enroll_reply_listed [OF ds en] by (simp add: list_all_iff)
  from session_send_sendable [OF this, of ?s1] wire(1,2)
  have "session_send E (enroll_response res) ?s1
      = (Inr (), ?s1\<lparr>sn_conn := (sn_conn ?s1)\<lparr>out := frame (sv_messages E) (enroll_response res)\<rparr>\<rparr>)" by simp
  then show ?thesis using run rv en len by (auto simp: handle_conn_def on_enroll_def coerce_pubkey_def close_with_def)
qed

lemma persisted_loads:
  assumes "crypto_ok C" and "codec_ok ic UNIV" and "length pin = PIN_LEN" and "persist_identity C ic w1 w2 now aid sk [pin] d = (Inr (), d')"
  shows "load_identity C ic d' = Inr (Some \<lparr>en_agent_id = aid, signing_key = sk, server_pins = [pin]\<rparr>)"
proof -
  let ?f = "\<lparr>if_agent_id = aid, if_server_pins = map (hex_encode C) [pin], if_enrolled_at_ns = now\<rparr>"
  obtain json where j: "enc ic ?f = Some json" "d' = d(IDENTITY_FILE \<mapsto> json, KEY_FILE \<mapsto> seed_of_key C sk)"
    using assms(4) by (auto simp: persist_identity_def write_private_def split: option.splits write_outcome.splits)
  have "KEY_FILE \<noteq> IDENTITY_FILE" by (simp add: KEY_FILE_def IDENTITY_FILE_def)
  moreover have "parse_pins C 0 (map (hex_encode C) [pin]) = Inr [pin]"
    by (rule parse_pins_encoded [OF assms(1)]) (simp add: assms(3))
  ultimately show ?thesis
    using codec_okD [OF assms(2) UNIV_I j(1)] j(2) crypto_okD(6,7) [OF assms(1)] by (simp add: load_identity_def)
qed

lemma exchange_out:
  assumes "sendable (ec_messages A) (enroll_request A token)" and "wok c = []" and "enroll_exchange A token pin c d = (r, c', d')"
  shows "out c' = out c @ frame (ec_messages A) (enroll_request A token)"
proof -
  let ?c1 = "c\<lparr>out := out c @ frame (ec_messages A) (enroll_request A token)\<rparr>"
  obtain q c2 where q: "recv_msg (ec_messages A) ?c1 = (q, c2)" by fastforce
  have "out c2 = out ?c1" using recv_msg_out(1) [of "ec_messages A" ?c1] by (simp add: q)
  moreover have "c' = c2"
    using assms(3) send_msg_sendable [OF assms(1,2)] q
    by (cases q) (auto simp: enroll_exchange_def split: message.splits prod.splits sum.splits if_splits)
  ultimately show ?thesis by simp
qed

lemma client_reads_reply:
  assumes "sendable (ec_messages A) (enroll_request A token)" and "wok c = []" and "stream_ok (inp c)"
    and "sendable (ec_messages A) reply" and "stream_bytes (inp c) = frame (ec_messages A) reply"
  obtains c2 where "send_msg (ec_messages A) (enroll_request A token) c = (Inr (), c\<lparr>out := out c @ frame (ec_messages A) (enroll_request A token)\<rparr>)"
    "recv_msg (ec_messages A) (c\<lparr>out := out c @ frame (ec_messages A) (enroll_request A token)\<rparr>) = (Inr reply, c2)"
proof -
  let ?c1 = "c\<lparr>out := out c @ frame (ec_messages A) (enroll_request A token)\<rparr>"
  obtain segs where "recv_msg (ec_messages A) ?c1 = (Inr reply, ?c1\<lparr>inp := segs\<rparr>)"
    using recv_msg_frame [OF assms(4), of ?c1 "[]"] assms(3,5) by auto
  then show thesis using that send_msg_sendable [OF assms(1,2)] by blast
qed

text \<open>C21: Both ends of an enrollment agree: when an endpoint and a server that exchange frames faithfully complete an
  enrollment, a successful endpoint has stored the id, key and pin that it will load, the server has registered exactly
  that key under that id, and the token is used up; a rejected endpoint has changed nothing on either side; and the
  only other outcome is that the endpoint failed to write its identity, after the server had registered it.\<close>

theorem enrollment_agreement:
  fixes E :: "('t, 'sk) server_env" and A :: "'k enroll_client_env"
  assumes "crypto_ok (ec_crypto A)" and "codec_ok (ec_identity A) UNIV" and "datastore (sv_tables E) (sv_postcard E)"
    and "length pin = PIN_LEN" and "ec_messages A = sv_messages E"
    and "sendable (sv_messages E) (enroll_request A token)" and "list_all (sendable (sv_messages E)) (enroll_replies new_id)"
    and "wok (sn_conn s) = []" and "out (sn_conn s) = []" and "stream_ok (inp (sn_conn s))"
    and "stream_bytes (inp (sn_conn s)) = frame (sv_messages E) (enroll_request A token)"
    and "handle_conn E M tx True (Some x) False el2 new_id cid ins s r = (e, s', r')"
    and "wok c = []" and "stream_ok (inp c)" and "stream_bytes (inp c) = out (sn_conn s')"
    and "enroll_exchange A token pin c d = (res, c', d')"
  shows "case res of
      Inr aid \<Rightarrow> aid = new_id
        \<and> load_identity (ec_crypto A) (ec_identity A) d' = Inr (Some \<lparr>en_agent_id = new_id, signing_key = ec_key A, server_pins = [pin]\<rparr>)
        \<and> map_option ag_pubkey (tbl (sv_tables E) (pc_agent (sv_postcard E)) (t_agents (sn_store s')) (str_bytes new_id))
            = Some (verifying_key (ec_crypto A) (ec_key A))
        \<and> dead_token (sv_tables E) (sv_postcard E) token (sn_store s')
    | Inl (PersistFailed _) \<Rightarrow>
        map_option ag_pubkey (tbl (sv_tables E) (pc_agent (sv_postcard E)) (t_agents (sn_store s')) (str_bytes new_id))
            = Some (verifying_key (ec_crypto A) (ec_key A))
        \<and> dead_token (sv_tables E) (sv_postcard E) token (sn_store s')
    | Inl (EnrollRejected _) \<Rightarrow> sn_store s' = sn_store s \<and> d' = d
    | _ \<Rightarrow> False"
proof -
  let ?pk = "verifying_key (ec_crypto A) (ec_key A)"
  have pk: "length ?pk = 32" using crypto_okD [OF assms(1)] by simp
  have req: "sendable (sv_messages E) (EnrollRequest token (fst (ec_facts A)) (snd (ec_facts A)) ?pk)"
    using assms(6) by (simp add: enroll_request_def)
  obtain o1 st' where en: "enroll (sv_tables E) (sv_postcard E) (sv_io E (sn_clk s)) new_id (sv_now E (sn_clk s)) token
      (fst (ec_facts A)) (snd (ec_facts A)) ?pk (sn_store s) = (o1, st')"
    and st: "sn_store s' = st'" and ou: "out (sn_conn s') = frame (sv_messages E) (enroll_response o1)"
    using server_enrolls [OF assms(3) pk req assms(7-10) assms(11) [unfolded enroll_request_def] assms(12)] by blast
  have snd: "sendable (sv_messages E) (enroll_response o1)"
    using assms(7) enroll_reply_listed [OF assms(3) en] by (simp add: list_all_iff)
  obtain c2 where c2: "send_msg (ec_messages A) (enroll_request A token) c
        = (Inr (), c\<lparr>out := out c @ frame (ec_messages A) (enroll_request A token)\<rparr>)"
      "recv_msg (ec_messages A) (c\<lparr>out := out c @ frame (ec_messages A) (enroll_request A token)\<rparr>) = (Inr (enroll_response o1), c2)"
    by (rule client_reads_reply [of A token c "enroll_response o1"]) (use assms(5,6,13-15) ou snd in simp_all)
  show ?thesis
  proof (cases "\<exists>a. o1 = Inr (Accepted a)")
    case True
    then obtain a where a: "o1 = Inr (Accepted a)" by blast
    obtain row where t: "enroll_txn (sv_tables E) (sv_postcard E) (sv_io E (sn_clk s)) new_id token (sv_now E (sn_clk s)) TOKEN_VALIDITY_NS
          (fst (ec_facts A)) (snd (ec_facts A)) ?pk (sn_store s) = (Inr (Inr (a, row)), st')"
      using datastore.enroll_accepted [OF assms(3) en [unfolded a]] by blast
    note acc = datastore.enroll_txn_accept [OF assms(3) t]
    obtain w d1 where p: "persist_identity (ec_crypto A) (ec_identity A) (ec_write1 A) (ec_write2 A) (ec_now A) a (ec_key A) [pin] d = (w, d1)"
      by fastforce
    have r: "res = (case w of Inl e \<Rightarrow> Inl (PersistFailed e) | Inr _ \<Rightarrow> Inr a)" "d' = d1"
      using assms(16) c2 a p by (auto simp: enroll_exchange_def split: sum.splits)
    have dt: "dead_token (sv_tables E) (sv_postcard E) token (sn_store s')" using acc st by (auto simp: dead_token_def)
    show ?thesis
    proof (cases w)
      case (Inr u)
      then show ?thesis using r p acc st dt persisted_loads [OF assms(1,2,4)] by auto
    qed (use r acc st dt in auto)
  next
    case False
    then have "st' = sn_store s" using datastore.enroll_not_accepted [OF assms(3) en] by blast
    moreover obtain reason where "enroll_response o1 = EnrollResponse False [] (Some reason)"
      using False by (cases o1 rule: enroll_response.cases) auto
    ultimately show ?thesis using assms(16) c2 st by (auto simp: enroll_exchange_def)
  qed
qed

section \<open>An enrollment\<close>

definition demo_identity_file :: identity_file where
  "demo_identity_file = \<lparr>if_agent_id = ''n'', if_server_pins = map (hex_encode toy_crypto) [demo_pin], if_enrolled_at_ns = 6\<rparr>"

definition demo_request :: message where
  "demo_request = EnrollRequest ''t'' ''h'' ''o'' (verifying_key toy_crypto demo_key)"

definition demo_frames_enroll :: "message list" where
  "demo_frames_enroll = demo_request # enroll_replies ''n''"

definition demo_client :: "256 word enroll_client_env" where
  "demo_client = \<lparr>ec_crypto = toy_crypto, ec_messages = table_codec demo_frames_enroll, ec_identity = table_codec [demo_identity_file],
     ec_stdin = None, ec_file = (\<lambda>_. None), ec_key = demo_key, ec_facts = (''h'', ''o''), ec_reachable = (\<lambda>_ _. True),
     ec_cert = (\<lambda>_ _. demo_leaf), ec_write1 = WriteOk, ec_write2 = WriteOk, ec_now = 6\<rparr>"

definition demo_new_agent :: agent_row where
  "demo_new_agent = \<lparr>ag_agent_id = ''n'', ag_hostname = ''h'', ag_os = ''o'', ag_pubkey = verifying_key toy_crypto demo_key,
     ag_enrolled_at_ns = 6, ag_last_seen_ns = 6\<rparr>"

definition demo_enroll_env :: "((bytes, bytes) rbt, 256 word) server_env" where
  "demo_enroll_env = demo_env\<lparr>sv_postcard := table_postcard [] [] [] [] [] [demo_new_agent] [demo_token, demo_token\<lparr>tk_used := True\<rparr>],
     sv_messages := table_codec demo_frames_enroll, sv_now := (\<lambda>_. 6)\<rparr>"

definition demo_enroll_session :: "(bytes, bytes) rbt session" where
  "demo_enroll_session = demo_session\<lparr>sn_conn := \<lparr>inp = [Data (frame (table_codec demo_frames_enroll) demo_request)], out = [], wok = []\<rparr>,
     sn_store := demo_enroll_store\<rparr>"

lemma demo_enroll_sendable: "m \<in> set demo_frames_enroll \<Longrightarrow> sendable (table_codec demo_frames_enroll) m"
  by (rule sendable_table) (simp_all add: demo_frames_enroll_def enroll_replies_def)

lemma demo_enroll_ok:
  "\<exists>st'. enroll (sv_tables demo_enroll_env) (sv_postcard demo_enroll_env) (sv_io demo_enroll_env 0) ''n'' (sv_now demo_enroll_env 0) ''t'' ''h'' ''o''
     (verifying_key toy_crypto demo_key) demo_enroll_store = (Inr (Accepted ''n''), st')"
proof -
  let ?P = "table_postcard [] [] [] [] [] [demo_new_agent] [demo_token, demo_token\<lparr>tk_used := True\<rparr>]"
  have r: "read_cell rbt_table (pc_token ?P) io_fine (str_bytes ''t'') (t_tokens demo_enroll_store) = Inr (Some demo_token)"
    by (simp add: read_cell_def demo_enroll_store_def table_postcard_def table_codec_def io_fine_def rbt.get_insert)
  have e: "enc (pc_token ?P) (demo_token\<lparr>tk_used := True\<rparr>) \<noteq> None" by (simp add: table_postcard_def table_codec_def)
  have a: "enc (pc_agent ?P) \<lparr>ag_agent_id = ''n'', ag_hostname = ''h'', ag_os = ''o'', ag_pubkey = verifying_key toy_crypto demo_key,
      ag_enrolled_at_ns = 6, ag_last_seen_ns = 6\<rparr> \<noteq> None"
    by (simp add: table_postcard_def table_codec_def demo_new_agent_def)
  have E: "sv_tables demo_enroll_env = rbt_table" "sv_postcard demo_enroll_env = ?P" "sv_io demo_enroll_env 0 = io_fine" "sv_now demo_enroll_env 0 = 6"
    by (simp_all add: demo_enroll_env_def demo_env_def)
  show ?thesis unfolding E using r e a
    by (auto simp: enroll_def enroll_txn_def MAX_ENROLL_FIELD_LEN_def TOKEN_VALIDITY_NS_def saturating_sub_def
        demo_token_def io_fine_def Let_def)
qed

lemma enrollment_agreement_witness:
  "\<exists>e s' r' c' d'. handle_conn demo_enroll_env (fifo_mpsc 1 :: (nat, nat \<Rightarrow> server_command list, server_command) mpsc) 0
        True (Some demo_exporter) False False ''n'' 7 [] demo_enroll_session Map.empty = (e, s', r')
     \<and> enroll_exchange demo_client ''t'' demo_pin \<lparr>inp = [Data (out (sn_conn s'))], out = [], wok = []\<rparr> Map.empty = (Inr ''n'', c', d')
     \<and> load_identity toy_crypto (table_codec [demo_identity_file]) d'
        = Inr (Some \<lparr>en_agent_id = ''n'', signing_key = demo_key, server_pins = [demo_pin]\<rparr>)"
proof -
  let ?M = "fifo_mpsc 1 :: (nat, nat \<Rightarrow> server_command list, server_command) mpsc" and ?mc = "table_codec demo_frames_enroll"
  obtain e s' r' where h: "handle_conn demo_enroll_env ?M 0 True (Some demo_exporter) False False ''n'' 7 [] demo_enroll_session Map.empty = (e, s', r')"
    by (cases "handle_conn demo_enroll_env ?M 0 True (Some demo_exporter) False False ''n'' 7 [] demo_enroll_session Map.empty") auto
  have E: "sv_messages demo_enroll_env = ?mc" "ec_messages demo_client = ?mc" "ec_crypto demo_client = toy_crypto" "ec_key demo_client = demo_key"
    "ec_facts demo_client = (''h'', ''o'')" "ec_identity demo_client = table_codec [demo_identity_file]"
    "ec_write1 demo_client = WriteOk" "ec_write2 demo_client = WriteOk" "ec_now demo_client = 6"
    by (simp_all add: demo_enroll_env_def demo_client_def)
  have rq: "enroll_request demo_client ''t'' = demo_request" by (simp add: enroll_request_def E demo_request_def)
  have mem: "demo_request \<in> set demo_frames_enroll" by (simp add: demo_frames_enroll_def)
  note sq = demo_enroll_sendable [OF mem]
  have sr: "list_all (sendable ?mc) (enroll_replies ''n'')"
    by (auto simp: list_all_iff demo_frames_enroll_def intro: demo_enroll_sendable [unfolded demo_frames_enroll_def])
  have ds: "datastore (sv_tables demo_enroll_env) (sv_postcard demo_enroll_env)"
    by (simp add: demo_enroll_env_def demo_env_def rbt_datastore)
  have ne: "frame ?mc demo_request \<noteq> []" using sq by (rule frame_nonempty)
  have ss: "wok (sn_conn demo_enroll_session) = []" "out (sn_conn demo_enroll_session) = []" "stream_ok (inp (sn_conn demo_enroll_session))"
    "stream_bytes (inp (sn_conn demo_enroll_session)) = frame ?mc demo_request" "sn_clk demo_enroll_session = 0" "sn_store demo_enroll_session = demo_enroll_store"
    using ne by (simp_all add: demo_enroll_session_def demo_session_def stream_ok_def)
  obtain st1 where en: "enroll (sv_tables demo_enroll_env) (sv_postcard demo_enroll_env) (sv_io demo_enroll_env 0) ''n'' (sv_now demo_enroll_env 0) ''t'' ''h'' ''o''
     (verifying_key toy_crypto demo_key) demo_enroll_store = (Inr (Accepted ''n''), st1)" using demo_enroll_ok by blast
  have pk: "length (verifying_key toy_crypto demo_key) = 32" using crypto_okD(2) [OF toy_crypto_ok] by blast
  have o: "out (sn_conn s') = frame ?mc (EnrollResponse True ''n'' None)"
    using server_enrolls [OF ds pk, of "''t''" "''h''" "''o''" "''n''" demo_enroll_session ?M 0 demo_exporter False 7 "[]" Map.empty e s' r']
      sq sr ss en h by (simp add: E demo_request_def)
  have sa: "sendable ?mc (EnrollResponse True ''n'' None)" using sr by (simp add: enroll_replies_def)
  let ?c = "\<lparr>inp = [Data (out (sn_conn s'))], out = [], wok = []\<rparr> :: conn"
  have cs: "stream_ok (inp ?c)" "stream_bytes (inp ?c) = frame ?mc (EnrollResponse True ''n'' None)"
    using frame_nonempty [OF sa] by (simp_all add: o stream_ok_def)
  obtain res c' d' where x: "enroll_exchange demo_client ''t'' demo_pin ?c Map.empty = (res, c', d')"
    by (cases "enroll_exchange demo_client ''t'' demo_pin ?c Map.empty") auto
  obtain c2 where c2: "send_msg ?mc demo_request ?c = (Inr (), ?c\<lparr>out := out ?c @ frame ?mc demo_request\<rparr>)"
      "recv_msg ?mc (?c\<lparr>out := out ?c @ frame ?mc demo_request\<rparr>) = (Inr (EnrollResponse True ''n'' None), c2)"
    using client_reads_reply [of demo_client "''t''" ?c "EnrollResponse True ''n'' None"] sq sa cs by (auto simp: E rq)
  have "\<exists>d. persist_identity toy_crypto (table_codec [demo_identity_file]) WriteOk WriteOk 6 ''n'' demo_key [demo_pin] Map.empty = (Inr (), d)"
    by (simp add: persist_identity_def write_private_def table_codec_def demo_identity_file_def)
  then have res: "res = Inr ''n''" using x c2 by (auto simp: enroll_exchange_def E rq)
  have pin: "length demo_pin = PIN_LEN" by (simp add: demo_pin_def fingerprint_def crypto_okD [OF toy_crypto_ok] PIN_LEN_def)
  have "load_identity toy_crypto (table_codec [demo_identity_file]) d'
      = Inr (Some \<lparr>en_agent_id = ''n'', signing_key = demo_key, server_pins = [demo_pin]\<rparr>)"
    using enrollment_agreement [of demo_client demo_enroll_env demo_pin "''t''" "''n''" demo_enroll_session ?M 0 demo_exporter False 7 "[]" Map.empty
        e s' r' ?c Map.empty res c' d'] toy_crypto_ok ds pin sq sr ss h cs x
    by (simp add: E rq o res)
  then show ?thesis using h x res by blast
qed

definition demo_enroll_args :: enroll_args where
  "demo_enroll_args = \<lparr>ea_server = ''https://h:'' @ dec_str 1, ea_token = Some ''t'', ea_token_file = None,
     ea_pin = Some (hex_encode toy_crypto demo_pin), ea_enroll_blob = None\<rparr>"

lemma token_only_to_pinned_server_witness:
  "\<exists>r c' d'. enroll_client demo_client demo_enroll_args \<lparr>inp = [], out = [], wok = []\<rparr> Map.empty = (r, c', d') \<and> out c' \<noteq> []
     \<and> (\<exists>host port. fingerprint toy_crypto (ec_cert demo_client host port) = demo_pin)"
proof -
  let ?c = "\<lparr>inp = [], out = [], wok = []\<rparr> :: conn" and ?mc = "table_codec demo_frames_enroll"
  have pin: "length demo_pin = PIN_LEN" by (simp add: demo_pin_def fingerprint_def crypto_okD [OF toy_crypto_ok] PIN_LEN_def)
  have E: "ec_messages demo_client = ?mc" "ec_crypto demo_client = toy_crypto" "\<And>h p. ec_cert demo_client h p = demo_leaf"
    "\<And>h p. ec_reachable demo_client h p" "enroll_request demo_client ''t'' = demo_request"
    by (simp_all add: demo_client_def enroll_request_def demo_request_def)
  have rs: "resolve_enroll_secret demo_client demo_enroll_args = Inr (''t'', demo_pin)"
    using crypto_okD(11,12) [OF toy_crypto_ok, of demo_pin] pin
    by (simp add: resolve_enroll_secret_def demo_enroll_args_def parse_pin_hex_def E)
  have u: "parse_server_url (ea_server demo_enroll_args) = Inr (''h'', 1)"
    using parse_server_url_address [of "''h''" 1 0] by (simp add: demo_enroll_args_def)
  have v: "verify_server_cert toy_crypto [demo_pin] demo_leaf"
    using verify_server_cert_iff [OF toy_crypto_ok, of "[demo_pin]"] pin by (simp add: demo_pin_def)
  have sq: "sendable ?mc demo_request" by (rule demo_enroll_sendable) (simp add: demo_frames_enroll_def)
  obtain r c' d' where x: "enroll_client demo_client demo_enroll_args ?c Map.empty = (r, c', d')"
    by (cases "enroll_client demo_client demo_enroll_args ?c Map.empty") auto
  have "enroll_exchange demo_client ''t'' demo_pin ?c Map.empty = (r, c', d')" using x by (simp add: enroll_client_def rs u v E)
  then have "out c' = frame ?mc demo_request" using exchange_out [of demo_client "''t''" ?c] sq by (auto simp: E)
  then have "out c' \<noteq> []" using frame_nonempty [OF sq] by simp
  then show ?thesis using x token_only_to_pinned_server [OF _ x] toy_crypto_ok by (auto simp: E rs)
qed

end
