(* ===== verification/Synth.thy ===== *)
theory Synth
  imports Features "HOL-Library.State_Monad"
begin

text \<open>
  The generator of labelled synthetic sessions (\<^verbatim>\<open>plugins/plugin-agent-detect/src/synth.rs\<close>): the SplitMix64 generator
  with its distributions, the profiles of the two classes, and a session as a stream of observations. Code that takes
  \<^verbatim>\<open>&mut Rng\<close> is a computation in the state monad over the generator's word, drawing in the order of the source.
  A \<^verbatim>\<open>SynthEvent\<close> is an \<open>observation\<close> and applying it is \<open>record_obs\<close>. The cosine of the platform's maths library is a
  parameter beside those of \<open>libm\<close>, and nothing is assumed of it.
\<close>

unbundle bit_operations_syntax

section \<open>The generator\<close>

type_synonym 'a rand = "(u64, 'a) state"

record maths =
  ma_libm :: libm
  ma_cos :: "f64 \<Rightarrow> f64"

abbreviation ma_rnd :: "maths \<Rightarrow> rounding" where
  "ma_rnd R \<equiv> lm_rnd (ma_libm R)"

definition GAMMA :: u64 where "GAMMA = 0x9E3779B97F4A7C15"

definition rng_new :: "u64 \<Rightarrow> u64" where
  "rng_new seed = seed XOR GAMMA"

text \<open>\<^verbatim>\<open>z ^ (z >> k)\<close>\<close>

definition xorshift :: "nat \<Rightarrow> u64 \<Rightarrow> u64" where
  "xorshift k z = z XOR drop_bit k z"

definition mix :: "u64 \<Rightarrow> u64" where
  "mix z = xorshift 31 (xorshift 27 (xorshift 30 z * 0xBF58476D1CE4E5B9) * 0x94D049BB133111EB)"

definition next_u64 :: "u64 rand" where
  "next_u64 = State (\<lambda>s. (mix (s + GAMMA), s + GAMMA))"

definition uniform :: "rounding \<Rightarrow> f64 rand" where
  "uniform rnd = do {
     x \<leftarrow> next_u64;
     State_Monad.return (f64_div rnd (f64_of_nat rnd (unat (drop_bit 11 x))) (f64_of_nat rnd (2 ^ 53)))
   }"

definition normal :: "maths \<Rightarrow> f64 \<Rightarrow> f64 \<Rightarrow> f64 rand" where
  "normal R mean std = do {
     u \<leftarrow> uniform (ma_rnd R);
     u2 \<leftarrow> uniform (ma_rnd R);
     let rnd = ma_rnd R;
         u1 = f64_max u (rnd (1 / 10 ^ 12));
         z = f64_mul rnd (f64_sqrt rnd (f64_mul rnd (Fin (- 2)) (lm_ln (ma_libm R) u1)))
               (ma_cos R (f64_mul rnd (rnd (2 * pi)) u2))
     in State_Monad.return (f64_add rnd mean (f64_mul rnd std z))
   }"

definition lognormal :: "maths \<Rightarrow> f64 \<Rightarrow> f64 \<Rightarrow> f64 rand" where
  "lognormal R mu sigma = do {
     x \<leftarrow> normal R mu sigma;
     State_Monad.return (lm_exp (ma_libm R) x)
   }"

definition bernoulli :: "rounding \<Rightarrow> f64 \<Rightarrow> bool rand" where
  "bernoulli rnd p = do {
     u \<leftarrow> uniform rnd;
     State_Monad.return (f64_lt u p)
   }"

text \<open>\<^verbatim>\<open>f64::round\<close>: half away from zero; \<^verbatim>\<open>as u32\<close> and \<^verbatim>\<open>as u64\<close>: towards zero, saturating, and 0 for NaN.\<close>

fun f64_round :: "f64 \<Rightarrow> f64" where
  "f64_round (Fin x) = Fin (real_of_int (if 0 \<le> x then \<lfloor>x + 1 / 2\<rfloor> else \<lceil>x - 1 / 2\<rceil>))"
| "f64_round x = x"

definition f64_to_u32 :: "f64 \<Rightarrow> u32" where
  "f64_to_u32 x = of_nat (min (2 ^ 32 - 1) (f64_to_usize x))"

definition f64_to_u64 :: "f64 \<Rightarrow> u64" where
  "f64_to_u64 x = of_nat (f64_to_usize x)"

definition count :: "maths \<Rightarrow> f64 \<Rightarrow> f64 \<Rightarrow> u32 \<Rightarrow> u32 rand" where
  "count R mean std least = do {
     v \<leftarrow> normal R mean std;
     State_Monad.return (f64_to_u32 (f64_max (f64_round v) (f64_of_nat (ma_rnd R) (unat least))))
   }"

section \<open>Profiles\<close>

datatype profile = HumanProfile | AgentProfile

record profile_params =
  keystroke_lognormal :: "f64 \<times> f64"
  think_lognormal :: "f64 \<times> f64"
  backspace_p :: f64
  paste_p :: f64
  pp_entropy :: "f64 \<times> f64"
  pp_commands :: "f64 \<times> f64"
  keystrokes_per_cmd :: "f64 \<times> f64"
  think_autocorr :: f64
  think_fatigue :: f64

definition human :: "rounding \<Rightarrow> profile_params" where
  "human rnd =
     \<lparr>keystroke_lognormal = (Fin 5, rnd (55 / 100)), think_lognormal = (Fin 8, rnd (85 / 100)),
      backspace_p = rnd (30 / 100), paste_p = rnd (2 / 100), pp_entropy = (rnd (36 / 10), rnd (3 / 10)),
      pp_commands = (Fin 8, Fin 2), keystrokes_per_cmd = (Fin 24, Fin 6), think_autocorr = rnd (45 / 100),
      think_fatigue = Fin (1 / 2)\<rparr>"

definition agent :: "rounding \<Rightarrow> profile_params" where
  "agent rnd =
     \<lparr>keystroke_lognormal = (rnd (29 / 10), rnd (12 / 100)), think_lognormal = (rnd (39 / 10), Fin (1 / 4)),
      backspace_p = rnd (3 / 100), paste_p = Fin (1 / 2), pp_entropy = (rnd (47 / 10), rnd (2 / 10)),
      pp_commands = (Fin 10, Fin 3), keystrokes_per_cmd = (Fin 28, Fin 8), think_autocorr = Fin 0,
      think_fatigue = Fin 0\<rparr>"

fun for_profile :: "rounding \<Rightarrow> profile \<Rightarrow> profile_params" where
  "for_profile rnd HumanProfile = human rnd"
| "for_profile rnd AgentProfile = agent rnd"

section \<open>Sessions\<close>

definition ns_of_ms :: "rounding \<Rightarrow> f64 \<Rightarrow> u64" where
  "ns_of_ms rnd ms = f64_to_u64 (f64_mul rnd ms (Fin 1000000))"

text \<open>The keystrokes of one command: a pasted line is one burst.\<close>

definition typed_key :: "maths \<Rightarrow> profile_params \<Rightarrow> observation rand" where
  "typed_key R params = do {
     gap \<leftarrow> lognormal R (fst (keystroke_lognormal params)) (snd (keystroke_lognormal params));
     State_Monad.return (Key (ns_of_ms (ma_rnd R) (f64_clamp (Fin 1) (Fin 5000) gap)) False 1)
   }"

definition synth_keys :: "maths \<Rightarrow> profile_params \<Rightarrow> bool \<Rightarrow> u32 \<Rightarrow> observation list rand" where
  "synth_keys R params paste cmd_len =
     (if paste
      then do {
        gap \<leftarrow> lognormal R (f64_min (fst (keystroke_lognormal params)) (Fin 3)) (ma_rnd R (2 / 10));
        State_Monad.return [Key (ns_of_ms (ma_rnd R) gap) True cmd_len]
      }
      else State_Monad.traverse_list (\<lambda>_. typed_key R params) [0..<unat cmd_len])"

text \<open>The deviation of the think time from its drifting mean, from the previous one when there is one.\<close>

definition ar1 :: "rounding \<Rightarrow> profile_params \<Rightarrow> f64 \<times> bool \<Rightarrow> f64 \<Rightarrow> f64" where
  "ar1 rnd params prev eps =
     (let phi = f64_clamp (Fin 0) (rnd (99 / 100)) (think_autocorr params);
          innov_scale = f64_sqrt rnd (f64_sub rnd (Fin 1) (f64_mul rnd phi phi))
      in if snd prev then f64_add rnd (f64_mul rnd phi (fst prev)) (f64_mul rnd innov_scale eps) else eps)"

definition drifted_mean :: "rounding \<Rightarrow> profile_params \<Rightarrow> u32 \<Rightarrow> nat \<Rightarrow> f64" where
  "drifted_mean rnd params n cmd_i =
     (let frac = (if 1 < n then f64_div rnd (f64_of_nat rnd cmd_i) (f64_of_nat rnd (unat (n - 1))) else Fin 0)
      in f64_add rnd (fst (think_lognormal params)) (f64_mul rnd (think_fatigue params) frac))"

definition synth_think :: "maths \<Rightarrow> profile_params \<Rightarrow> u32 \<Rightarrow> f64 \<times> bool \<Rightarrow> nat \<Rightarrow> (observation \<times> (f64 \<times> bool)) rand" where
  "synth_think R params n prev cmd_i = do {
     eps \<leftarrow> normal R (Fin 0) (snd (think_lognormal params));
     let dev = ar1 (ma_rnd R) params prev eps;
         think_ms = f64_clamp (Fin 1) (Fin 600000)
           (lm_exp (ma_libm R) (f64_add (ma_rnd R) (drifted_mean (ma_rnd R) params n cmd_i) dev))
     in do {
       back \<leftarrow> bernoulli (ma_rnd R) (backspace_p params);
       e \<leftarrow> normal R (fst (pp_entropy params)) (snd (pp_entropy params));
       State_Monad.return (Cmd (ns_of_ms (ma_rnd R) think_ms) back (f64_clamp (Fin 0) (Fin 8) e), (dev, True))
     }
   }"

definition synth_command :: "maths \<Rightarrow> profile_params \<Rightarrow> u32 \<Rightarrow> f64 \<times> bool \<Rightarrow> nat \<Rightarrow> (observation list \<times> (f64 \<times> bool)) rand" where
  "synth_command R params n prev cmd_i = do {
     paste \<leftarrow> bernoulli (ma_rnd R) (paste_p params);
     cmd_len \<leftarrow> count R (fst (keystrokes_per_cmd params)) (snd (keystrokes_per_cmd params)) 12;
     keys \<leftarrow> synth_keys R params paste cmd_len;
     (c, prev') \<leftarrow> synth_think R params n prev cmd_i;
     State_Monad.return (keys @ [c], prev')
   }"

fun synth_commands :: "maths \<Rightarrow> profile_params \<Rightarrow> u32 \<Rightarrow> f64 \<times> bool \<Rightarrow> nat list \<Rightarrow> observation list rand" where
  "synth_commands R params n prev [] = State_Monad.return []"
| "synth_commands R params n prev (i # is) = do {
     (evs, prev') \<leftarrow> synth_command R params n prev i;
     rest \<leftarrow> synth_commands R params n prev' is;
     State_Monad.return (evs @ rest)
   }"

definition synth_events :: "maths \<Rightarrow> profile_params \<Rightarrow> u32 \<Rightarrow> observation list rand" where
  "synth_events R params min_commands = do {
     n \<leftarrow> count R (f64_max (fst (pp_commands params)) (f64_of_nat (ma_rnd R) (unat min_commands)))
           (snd (pp_commands params)) (max min_commands 3);
     synth_commands R params n (Fin 0, False) [0..<unat n]
   }"

definition synth_session :: "maths \<Rightarrow> profile_params \<Rightarrow> session_accumulator rand" where
  "synth_session R params = do {
     events \<leftarrow> synth_events R params 0;
     State_Monad.return (accumulated (ma_rnd R) events)
   }"

section \<open>The stream of draws\<close>

lemma xorshift_inject:
  assumes "0 < k" and "xorshift k x = xorshift k y"
  shows "x = y"
proof -
  have "bit x n = bit y n" for n
  proof (induction "64 - n" arbitrary: n rule: less_induct)
    case less
    show ?case
    proof (cases "n < 64")
      case True
      then have "bit x (k + n) = bit y (k + n)" using less assms(1) by simp
      moreover have "bit (xorshift k x) n = bit (xorshift k y) n" using assms(2) by simp
      ultimately show ?thesis using True by (auto simp: xorshift_def bit_simps)
    qed (auto dest: bit_imp_le_length)
  qed
  then show ?thesis by (simp add: bit_word_eqI)
qed

lemma mult_unit_inject: "x = y" if "x * c = y * c" and "c * d = 1" for x y c d :: u64
proof -
  have "x = x * c * d" "y = y * c * d" using that(2) by (simp_all add: mult.assoc)
  then show ?thesis using that(1) by simp
qed

lemma mix_inject: "mix x = mix y \<longleftrightarrow> x = y"
proof
  assume "mix x = mix y"
  then have "xorshift 27 (xorshift 30 x * 0xBF58476D1CE4E5B9) * 0x94D049BB133111EB
      = xorshift 27 (xorshift 30 y * 0xBF58476D1CE4E5B9) * 0x94D049BB133111EB"
    unfolding mix_def by (rule xorshift_inject [rotated]) simp
  then have "xorshift 27 (xorshift 30 x * 0xBF58476D1CE4E5B9) = xorshift 27 (xorshift 30 y * 0xBF58476D1CE4E5B9)"
    by (rule mult_unit_inject [where d = "0x319642b2d24d8ec3"]) simp
  then have "xorshift 30 x * 0xBF58476D1CE4E5B9 = xorshift 30 y * 0xBF58476D1CE4E5B9"
    by (rule xorshift_inject [rotated]) simp
  then have "xorshift 30 x = xorshift 30 y"
    by (rule mult_unit_inject [where d = "0x96de1b173f119089"]) simp
  then show "x = y" by (rule xorshift_inject [rotated]) simp
qed simp

definition draws :: "nat \<Rightarrow> u64 list rand" where
  "draws n = State_Monad.traverse_list (\<lambda>_. next_u64) [0..<n]"

lemma run_draws:
  "run_state (draws n) s = (map (\<lambda>i. mix (s + of_nat (Suc i) * GAMMA)) [0..<n], s + of_nat n * GAMMA)"
  by (induction n) (simp_all add: draws_def next_u64_def algebra_simps split: prod.split)

text \<open>
  Two consecutive convergents of \<open>GAMMA / 2 ^ 64\<close> bound how close its small multiples come to a multiple of
  \<open>2 ^ 64\<close>.
\<close>

lemma gamma_approximation:
  fixes k h :: int
  assumes "0 < k" and "k < 2971215073"
  shows "6189034922 \<le> \<bar>k * 11400714819323198485 - h * 2 ^ 64\<bar>"
proof -
  define a b where "a = 1836311903 * k - 2971215073 * h" and "b = 1134903170 * h - 701408733 * k"
  have k: "k = a * 1134903170 + b * 2971215073" unfolding a_def b_def by presburger
  have d: "k * 11400714819323198485 - h * 2 ^ 64 = a * 6189034922 - b * 50920843" by (simp add: a_def b_def algebra_simps)
  consider "a = 0" | "1 \<le> a" "1 \<le> b" | "1 \<le> a" "b \<le> 0" | "a \<le> - 1" "0 \<le> b" | "a \<le> - 1" "b \<le> - 1" by linarith
  then show ?thesis
  proof cases
    case 1
    then show ?thesis using k assms by auto
  qed (use k d assms in linarith)+
qed

lemma xor_close:
  fixes a b :: u64
  assumes "a XOR b < 2 ^ 32"
  shows "\<bar>uint a - uint b\<bar> < 2 ^ 32"
proof -
  have "drop_bit 32 (a XOR b) = 0"
    using assms by (simp add: drop_bit_eq_div word_less_nat_alt word_arith_nat_div)
  then have "drop_bit 32 a XOR drop_bit 32 b = 0" by simp
  then have "drop_bit 32 a = drop_bit 32 b" by (simp only: bit_eq_iff bit_xor_iff bit_0_eq) auto
  then have "a div 2 ^ 32 = b div 2 ^ 32" by (simp only: drop_bit_eq_div)
  then have "uint (a div 2 ^ 32) = uint (b div 2 ^ 32)" by simp
  then have "uint a div 4294967296 = uint b div 4294967296" by (simp add: uint_div)
  then have "\<bar>uint a - uint b\<bar> < 4294967296" by presburger
  then show ?thesis by simp
qed

lemma gamma_apart:
  fixes a b :: u64
  assumes "\<bar>uint a - uint b\<bar> < 2 ^ 32" and "i < j" and "j - i < 2971215073"
  shows "a + of_nat i * GAMMA \<noteq> b + of_nat j * GAMMA"
proof
  let ?k = "int (j - i)"
  assume "a + of_nat i * GAMMA = b + of_nat j * GAMMA"
  then have "a - b = of_nat j * GAMMA - of_nat i * GAMMA" by (simp add: algebra_simps)
  also have "\<dots> = of_int (?k * 11400714819323198485)" using assms(2) by (simp add: GAMMA_def of_nat_diff algebra_simps)
  finally have "word_of_int (?k * 11400714819323198485) = (word_of_int (uint a - uint b) :: u64)" by simp
  then have "take_bit 64 (?k * 11400714819323198485) = take_bit 64 (uint a - uint b)"
    using word_of_int_eq_iff [where 'a = 64] by force
  then have "2 ^ 64 dvd ?k * 11400714819323198485 - (uint a - uint b)"
    unfolding take_bit_eq_mod mod_eq_dvd_iff .
  then obtain h where "?k * 11400714819323198485 - (uint a - uint b) = h * 2 ^ 64" by (metis dvdE mult.commute)
  then have "uint a - uint b = ?k * 11400714819323198485 - h * 2 ^ 64" by simp
  moreover have "0 < ?k" "?k < 2971215073" using assms(2,3) by auto
  ultimately show False using gamma_approximation [of ?k h] assms(1) by simp
qed

lemma rng_new_xor: "rng_new a XOR rng_new b = a XOR b"
  by (simp add: bit_eq_iff bit_simps rng_new_def) blast

text \<open>
  Two streams from seeds that differ in their low 32 bits only have no draw in common before 2971215073 draws, and one
  stream does not repeat a draw before its \<open>2 ^ 64\<close>-th.
\<close>

lemma streams_disjoint:
  assumes "a XOR b < 2 ^ 32" and "a \<noteq> b" and "m \<le> 2971215073" and "n \<le> 2971215073"
  shows "set (fst (run_state (draws m) (rng_new a))) \<inter> set (fst (run_state (draws n) (rng_new b))) = {}"
proof -
  have ab: "\<bar>uint (rng_new a) - uint (rng_new b)\<bar> < 2 ^ 32" "\<bar>uint (rng_new b) - uint (rng_new a)\<bar> < 2 ^ 32"
    using xor_close [of "rng_new a" "rng_new b"] assms(1) by (simp_all add: rng_new_xor abs_minus_commute)
  have ne: "rng_new a \<noteq> rng_new b" using assms(2) rng_new_xor [of a b] by (metis xor_self_eq rng_new_def xor.assoc xor.right_neutral)
  have "rng_new a + of_nat i * GAMMA \<noteq> rng_new b + of_nat j * GAMMA" if "0 < i" "0 < j" "i \<le> m" "j \<le> n" for i j
  proof (cases i j rule: linorder_cases)
    case less
    then show ?thesis using gamma_apart [OF ab(1) less] that assms(4) by auto
  next
    case equal
    then show ?thesis using ne by simp
  next
    case greater
    then show ?thesis using gamma_apart [OF ab(2) greater] that assms(3) by (metis diff_less_mono2 le_trans less_le_trans diff_le_self less_imp_diff_less order_le_less_trans nat_less_le)
  qed
  then show ?thesis by (fastforce simp: run_draws mix_inject simp del: of_nat_Suc)
qed

lemma stream_distinct:
  assumes "n \<le> 2 ^ 64"
  shows "distinct (fst (run_state (draws n) s))"
proof -
  have "i = j" if "of_nat i * GAMMA = of_nat j * GAMMA" "i < 2 ^ 64" "j < 2 ^ 64" for i j
  proof -
    have "(of_nat i :: u64) = of_nat j"
      by (rule mult_unit_inject [OF that(1), where d = "0xf1de83e19937733d"]) (simp add: GAMMA_def)
    then show ?thesis using that(2,3) by (simp add: word_of_nat_eq_iff take_bit_nat_eq_self)
  qed
  then show ?thesis using assms
    by (fastforce simp: run_draws distinct_map inj_on_def mix_inject algebra_simps)
qed

section \<open>What the distributions return\<close>

lemma uniform_exact:
  assumes "rounding_ok rnd binary64"
  shows "\<exists>k < 2 ^ 53. fst (run_state (uniform rnd) s) = Fin (real k / 2 ^ 53)"
proof -
  define k where "k = unat (drop_bit 11 (mix (s + GAMMA)))"
  have "k = unat (mix (s + GAMMA)) div 2 ^ 11" by (simp add: k_def drop_bit_eq_div unat_div)
  moreover have "unat (mix (s + GAMMA)) < 2 ^ 64" using unat_lt_exp [of "mix (s + GAMMA)"] by simp
  ultimately have k: "k < 2 ^ 53" by (simp add: less_mult_imp_div_less)
  have "real k / 2 ^ 53 \<in> binary64"
    using k by (intro binary64I [of _ "int k" "- 53"]) (simp_all add: power_int_minus field_simps)
  then have d: "rnd (real k / 2 ^ 53) = Fin (real k / 2 ^ 53)" by (rule rounding_okD(3) [OF assms])
  have o: "f64_of_nat rnd k = Fin (real k)" "f64_of_nat rnd (2 ^ 53) = Fin (2 ^ 53)"
    using k of_nat_exact [OF assms, of k] of_nat_exact [OF assms, of "2 ^ 53"] by simp_all
  have "fst (run_state (uniform rnd) s) = f64_div rnd (f64_of_nat rnd k) (f64_of_nat rnd (2 ^ 53))"
    by (simp only: uniform_def next_u64_def State_Monad.run_state_bind state.sel prod.case State_Monad.run_state_return fst_conv k_def)
  then have "fst (run_state (uniform rnd) s) = Fin (real k / 2 ^ 53)" unfolding o using d by simp
  then show ?thesis using k by blast
qed

lemma pred_bind:
  "pred_state Q m \<Longrightarrow> (\<And>x. Q x \<Longrightarrow> pred_state P (f x)) \<Longrightarrow> pred_state P (State_Monad.bind m f)"
  by (rule State_Monad.bind_predI) (erule state.pred_mono_strong, blast)

lemma pred_return [simp]: "pred_state P (State_Monad.return x) \<longleftrightarrow> P x"
  by (simp add: State_Monad.return_def pred_fun_def pred_prod_beta)

lemma pred_any [simp]: "pred_state (\<lambda>_. True) m"
  by (simp add: pred_stateI)

lemma to_u32_least:
  assumes "f64_le (Fin (real (unat least))) x"
  shows "least \<le> f64_to_u32 x"
proof -
  have l: "unat least \<le> 2 ^ 32 - 1" using unat_lt_exp [of least] by simp
  have "unat least \<le> f64_to_usize x"
  proof (cases x)
    case (Fin r)
    then have "int (unat least) \<le> \<lfloor>r\<rfloor>" using assms by (simp add: le_floor_iff)
    then have "unat least \<le> nat \<lfloor>r\<rfloor>" by (rule nat_int_comparison(3) [THEN iffD2, OF order_trans]) simp
    then show ?thesis using l Fin by simp
  qed (use assms l in auto)
  then have "unat least \<le> min (2 ^ 32 - 1) (f64_to_usize x)" using l by simp
  moreover have "min (2 ^ 32 - 1) (f64_to_usize x) < 2 ^ 32" by simp
  ultimately show ?thesis by (simp add: f64_to_u32_def word_le_nat_alt unat_of_nat)
qed

lemma count_least:
  assumes "rounding_ok (ma_rnd R) binary64"
  shows "pred_state (\<lambda>n. least \<le> n) (count R mean std least)"
proof -
  have "unat least \<le> 2 ^ 53" using unat_lt_exp [of least] by simp
  then have e: "f64_of_nat (ma_rnd R) (unat least) = Fin (real (unat least))" by (rule of_nat_exact [OF assms])
  have "f64_le (Fin r) (f64_max v (Fin r))" for v r by (cases v) (auto simp: f64_max_def)
  then show ?thesis unfolding count_def e
    by (intro pred_bind [where Q = "\<lambda>_. True"]) (simp_all add: to_u32_least)
qed

section \<open>Every session has evidence\<close>

definition key_only :: "observation list \<Rightarrow> bool" where
  "key_only os \<longleftrightarrow> List.map_filter cmd_gap os = []"

lemma typed_keys:
  "pred_state (\<lambda>os. key_only os \<and> sum_list (map weight_of os) = length js)
     (State_Monad.traverse_list (\<lambda>_. typed_key R params) js)"
proof (induction js)
  case (Cons j js)
  have "pred_state (\<lambda>ob. weight_of ob = 1 \<and> cmd_gap ob = None) (typed_key R params)"
    unfolding typed_key_def by (rule pred_bind [where Q = "\<lambda>_. True"]) (simp_all add: max_def)
  then show ?case
    using Cons by (auto intro!: pred_bind simp: key_only_def map_filter_def elim!: pred_bind)
qed (simp add: key_only_def map_filter_def)

lemma synth_keys_weight:
  assumes "1 \<le> cmd_len"
  shows "pred_state (\<lambda>os. key_only os \<and> sum_list (map weight_of os) = unat cmd_len) (synth_keys R params paste cmd_len)"
proof (cases paste)
  case True
  then show ?thesis unfolding synth_keys_def using assms
    by simp (rule pred_bind [where Q = "\<lambda>_. True"], simp_all add: key_only_def map_filter_def max_absorb1)
next
  case False
  then show ?thesis using typed_keys [of "[0..<unat cmd_len]" R params] by (simp add: synth_keys_def)
qed

definition composed :: "nat \<Rightarrow> observation list \<Rightarrow> bool" where
  "composed c os \<longleftrightarrow> length (filter (\<lambda>x. cmd_gap x \<noteq> None) os) = c
     \<and> 12 * c \<le> sum_list (map weight_of os) \<and> sum_list (map weight_of os) \<le> (2 ^ 32 - 1) * c"

lemma composed_append: "composed c os \<Longrightarrow> composed d ps \<Longrightarrow> composed (c + d) (os @ ps)"
  by (simp add: composed_def distrib_left)

lemma synth_think_command: "pred_state (\<lambda>(c, _). \<exists>g b e. c = Cmd g b e) (synth_think R params n prev i)"
  unfolding synth_think_def Let_def by (intro pred_bind [where Q = "\<lambda>_. True"] pred_any) simp

lemma synth_command_composed:
  assumes "rounding_ok (ma_rnd R) binary64"
  shows "pred_state (\<lambda>(os, _). composed 1 os) (synth_command R params n prev i)"
  unfolding synth_command_def
proof (rule pred_bind [OF pred_any], rule pred_bind [OF count_least [OF assms]], rule pred_bind [OF synth_keys_weight],
    goal_cases)
  case (1 paste len)
  then show ?case by (simp add: word_le_nat_alt)
next
  case (2 paste len os)
  then have "composed 1 (os @ [Cmd g b e])" for g b e
    using unat_lt_exp [of len] by (simp add: composed_def key_only_def word_le_nat_alt map_filter_def filter_empty_conv)
  then show ?case by (intro pred_bind [OF synth_think_command]) auto
qed

lemma synth_commands_composed:
  assumes "rounding_ok (ma_rnd R) binary64"
  shows "pred_state (composed (length is)) (synth_commands R params n prev is)"
proof (induction "is" arbitrary: prev)
  case Nil
  then show ?case by (simp add: composed_def)
next
  case (Cons i "is")
  show ?case unfolding synth_commands.simps
  proof (rule pred_bind [OF synth_command_composed [OF assms]])
    fix x :: "observation list \<times> f64 \<times> bool" assume "case x of (os, _) \<Rightarrow> composed 1 os"
    then obtain os st where x: "x = (os, st)" "composed 1 os" by (cases x) auto
    have "pred_state (composed (length (i # is))) (State_Monad.return (os @ rest))" if "composed (length is) rest" for rest
      using composed_append [OF x(2) that] by simp
    then show "pred_state (composed (length (i # is))) (case x of (evs, prev') \<Rightarrow> do {
        rest \<leftarrow> synth_commands R params n prev' is;
        State_Monad.return (evs @ rest)
      })" unfolding x(1) prod.case by (rule pred_bind [OF Cons.IH])
  qed
qed

lemma synth_events_composed:
  assumes "rounding_ok (ma_rnd R) binary64"
  shows "pred_state (\<lambda>os. \<exists>n :: u32. max least 3 \<le> n \<and> composed (unat n) os) (synth_events R params least)"
  unfolding synth_events_def
proof (rule pred_bind [OF count_least [OF assms]])
  fix n :: u32 assume "max least 3 \<le> n"
  then show "pred_state (\<lambda>os. \<exists>n :: u32. max least 3 \<le> n \<and> composed (unat n) os)
      (synth_commands R params n (Fin 0, False) [0..<unat n])"
    using synth_commands_composed [OF assms, of "[0..<unat n]" params n "(Fin 0, False)"]
    by (auto elim!: state.pred_mono_strong)
qed

lemma composed_enough:
  assumes "composed c os" and "3 \<le> c" and "c \<le> 2 ^ 32 - 1"
  shows "enough_evidence (accumulated rnd os)"
proof -
  have n: "length (List.map_filter cmd_gap os) = c" and w: "12 * c \<le> sum_list (map weight_of os)"
    "sum_list (map weight_of os) \<le> (2 ^ 32 - 1) * c"
    using assms(1) by (simp_all add: composed_def map_filter_def)
  have "(2 ^ 32 - 1) * c \<le> (2 ^ 32 - 1) * (2 ^ 32 - 1)" using assms(3) by (rule mult_le_mono2)
  then have k: "sum_list (map weight_of os) < 2 ^ 64" using w(2) by simp
  have "unat (sa_keystrokes (accumulated rnd os)) = sum_list (map weight_of os)" using k by (simp add: accumulated_counts unat_of_nat)
  moreover have "unat (sa_commands (accumulated rnd os)) = c" using assms(3) n by (simp add: accumulated_counts unat_of_nat)
  ultimately show ?thesis using assms(2) w(1) by (simp add: enough_evidence_def MIN_KEYSTROKES_def MIN_COMMANDS_def)
qed

lemma synth_events_evidence:
  assumes "rounding_ok (ma_rnd R) binary64"
  shows "pred_state (\<lambda>os. enough_evidence (accumulated rnd os)) (synth_events R params least)"
proof (rule state.pred_mono_strong [OF synth_events_composed [OF assms]])
  fix os assume "\<exists>n :: u32. max least 3 \<le> n \<and> composed (unat n) os"
  then obtain n :: u32 where "3 \<le> n" "composed (unat n) os" by auto
  then show "enough_evidence (accumulated rnd os)"
    using composed_enough [of "unat n" os rnd] unat_lt_exp [of n] by (simp add: word_le_nat_alt)
qed

lemma synth_session_evidence:
  assumes "rounding_ok (ma_rnd R) binary64"
  shows "pred_state (\<lambda>acc. enough_evidence acc) (synth_session R params)"
  unfolding synth_session_def by (rule pred_bind [OF synth_events_evidence [OF assms]]) simp

end
