(* ===== verification/Baseline.thy ===== *)
theory Baseline
  imports Model Synth
begin

text \<open>
  The learned logistic-regression baseline that cross-checks the transparent model
  (\<^verbatim>\<open>plugins/plugin-agent-detect/src/baseline.rs\<close>): the raw feature row, imputation with missingness indicators, the
  standardizer, full-batch gradient descent, and the prediction. All design rows have \<open>DESIGN_DIM\<close> columns, so
  zipping two of them loses nothing.
\<close>

section \<open>Rows\<close>

definition FEATURE_NAMES :: "string list" where
  "FEATURE_NAMES =
     [''keystroke_cv'', ''paste_ratio'', ''mean_inter_command_ms'', ''backspace_ratio'', ''entropy_mean'',
      ''cadence_regularity'', ''gap_autocorr'', ''think_tail_ratio'', ''throughput_decay'', ''reaction_floor_hits'',
      ''whole_line_paste_ratio'', ''keystroke_burst_cv'']"

definition N_FEATURES :: nat where "N_FEATURES = 12"

definition IMPUTABLE_INDICES :: "nat list" where "IMPUTABLE_INDICES = [6, 7, 8, 11]"

definition DESIGN_DIM :: nat where "DESIGN_DIM = N_FEATURES + length IMPUTABLE_INDICES"

definition feature_row :: "feature_vector \<Rightarrow> f64 list" where
  "feature_row f =
     [keystroke_cv f, paste_ratio f, mean_inter_command_ms f, backspace_ratio f, entropy_mean f, cadence_regularity f,
      gap_autocorr f, think_tail_ratio f, throughput_decay f, reaction_floor_hits f, whole_line_paste_ratio f,
      keystroke_burst_cv f]"

text \<open>The sum and the number of the finite cells of a column.\<close>

definition finite_cells :: "rounding \<Rightarrow> f64 list list \<Rightarrow> nat \<Rightarrow> f64 \<times> nat" where
  "finite_cells rnd rows j =
     foldl (\<lambda>(s, c) row. if f64_is_finite (row ! j) then (f64_add rnd s (row ! j), c + 1) else (s, c)) (Fin 0, 0) rows"

definition column_imputation_means :: "rounding \<Rightarrow> f64 list list \<Rightarrow> f64 list" where
  "column_imputation_means rnd rows =
     map (\<lambda>j. case finite_cells rnd rows j of (s, c) \<Rightarrow> if 0 < c then f64_div rnd s (f64_of_nat rnd c) else Fin 0)
       [0..<N_FEATURES]"

definition impute_and_indicate :: "f64 list \<Rightarrow> f64 list \<Rightarrow> f64 list" where
  "impute_and_indicate raw means =
     map (\<lambda>(x, m). if f64_is_finite x then x else m) (zip raw means)
     @ map (\<lambda>idx. if f64_is_finite (raw ! idx) then Fin 0 else Fin 1) IMPUTABLE_INDICES"

section \<open>The standardizer\<close>

record standardizer =
  sd_mean :: "f64 list"
  sd_std :: "f64 list"

definition fit :: "rounding \<Rightarrow> f64 list list \<Rightarrow> standardizer" where
  "fit rnd rows =
     (let d = (case rows of [] \<Rightarrow> DESIGN_DIM | r # _ \<Rightarrow> length r);
          stats = map (\<lambda>j. mean_std rnd (map (\<lambda>r. r ! j) rows)) [0..<d]
      in \<lparr>sd_mean = map fst stats, sd_std = map snd stats\<rparr>)"

definition standardize :: "rounding \<Rightarrow> f64 \<Rightarrow> f64 \<Rightarrow> f64 \<Rightarrow> f64" where
  "standardize rnd m s x = (if f64_le s (rnd (1 / 10 ^ 12)) then Fin 0 else f64_div rnd (f64_sub rnd x m) s)"

definition transform :: "rounding \<Rightarrow> standardizer \<Rightarrow> f64 list \<Rightarrow> f64 list" where
  "transform rnd sd row = map (\<lambda>(x, m, s). standardize rnd m s x) (zip row (zip (sd_mean sd) (sd_std sd)))"

section \<open>Training and prediction\<close>

record train_config =
  epochs :: nat
  tc_lr :: f64
  l2 :: f64

definition train_default :: "rounding \<Rightarrow> train_config" where
  "train_default rnd = \<lparr>epochs = 600, tc_lr = Fin (1 / 2), l2 = rnd (1 / 1000)\<rparr>"

record logistic_regression =
  lr_weights :: "f64 list"
  lr_bias :: f64
  lr_scaler :: standardizer
  lr_impute_means :: "f64 list"

definition linear_score :: "rounding \<Rightarrow> f64 list \<Rightarrow> f64 \<Rightarrow> f64 list \<Rightarrow> f64" where
  "linear_score rnd weights bias row = f64_add rnd (f64_sum rnd (map2 (f64_mul rnd) row weights)) bias"

definition design_row :: "rounding \<Rightarrow> logistic_regression \<Rightarrow> feature_vector \<Rightarrow> f64 list" where
  "design_row rnd lr f = transform rnd (lr_scaler lr) (impute_and_indicate (feature_row f) (lr_impute_means lr))"

definition predict_proba :: "libm \<Rightarrow> logistic_regression \<Rightarrow> feature_vector \<Rightarrow> f64" where
  "predict_proba M lr f = sigmoid M (linear_score (lm_rnd M) (lr_weights lr) (lr_bias lr) (design_row (lm_rnd M) lr f))"

definition gradient_row :: "libm \<Rightarrow> f64 list \<times> f64 \<Rightarrow> f64 list \<times> f64 \<Rightarrow> f64 list \<times> f64 \<Rightarrow> f64 list \<times> f64" where
  "gradient_row M wb g xy =
     (let rnd = lm_rnd M; resid = f64_sub rnd (sigmoid M (linear_score rnd (fst wb) (snd wb) (fst xy))) (snd xy)
      in (map2 (\<lambda>gj xj. f64_add rnd gj (f64_mul rnd resid xj)) (fst g) (fst xy), f64_add rnd (snd g) resid))"

definition epoch :: "libm \<Rightarrow> train_config \<Rightarrow> (f64 list \<times> f64) list \<Rightarrow> f64 list \<times> f64 \<Rightarrow> f64 list \<times> f64" where
  "epoch M cfg xys wb =
     (let rnd = lm_rnd M; inv_n = f64_div rnd (Fin 1) (f64_of_nat rnd (length xys));
          (grad_w, grad_b) = foldl (gradient_row M wb) (replicate DESIGN_DIM (Fin 0), Fin 0) xys;
          grad_w' = map2 (\<lambda>g w. f64_add rnd (f64_mul rnd g inv_n) (f64_mul rnd (l2 cfg) w)) grad_w (fst wb);
          grad_b' = f64_mul rnd grad_b inv_n
      in (map2 (\<lambda>w g. f64_sub rnd w (f64_mul rnd (tc_lr cfg) g)) (fst wb) grad_w',
          f64_sub rnd (snd wb) (f64_mul rnd (tc_lr cfg) grad_b')))"

definition train :: "libm \<Rightarrow> (feature_vector \<times> bool) list \<Rightarrow> train_config \<Rightarrow> logistic_regression" where
  "train M data cfg =
     (let rnd = lm_rnd M;
          raw_rows = map (\<lambda>(f, _). feature_row f) data;
          labels = map (\<lambda>(_, y). if y then Fin 1 else Fin 0) data;
          impute_means = column_imputation_means rnd raw_rows;
          design_rows = map (\<lambda>r. impute_and_indicate r impute_means) raw_rows;
          scaler = fit rnd design_rows;
          x = map (transform rnd scaler) design_rows;
          start = (replicate DESIGN_DIM (Fin 0), Fin 0);
          (weights, bias) = (if x = [] then start else (epoch M cfg (zip x labels) ^^ epochs cfg) start)
      in \<lparr>lr_weights = weights, lr_bias = bias, lr_scaler = scaler, lr_impute_means = impute_means\<rparr>)"

section \<open>Datasets\<close>

text \<open>The evidenced session of a profile, with its label.\<close>

definition sample :: "maths \<Rightarrow> profile_params \<times> bool \<Rightarrow> (feature_vector \<times> bool) list rand" where
  "sample R pl = do {
     acc \<leftarrow> synth_session R (fst pl);
     State_Monad.return (case features (ma_libm R) acc of Some f \<Rightarrow> [(f, snd pl)] | None \<Rightarrow> [])
   }"

definition make_dataset :: "maths \<Rightarrow> profile_params \<Rightarrow> profile_params \<Rightarrow> nat \<Rightarrow> (feature_vector \<times> bool) list rand" where
  "make_dataset R params_pos params_neg n_per_class = do {
     rounds \<leftarrow> State_Monad.traverse_list
       (\<lambda>_. State_Monad.traverse_list (sample R) [(params_neg, False), (params_pos, True)]) [0..<n_per_class];
     State_Monad.return (concat (concat rounds))
   }"

end
