(* ===== verification/Baseline_Facts.thy ===== *)
theory Baseline_Facts
  imports Baseline
begin

text \<open>
  What the learned baseline rests on: in exact arithmetic no value of the pipeline leaves the real numbers, however many
  features are missing, so a prediction is always a probability.
\<close>

section \<open>Finite values\<close>

named_theorems finite_ops \<open>operations that keep values finite in exact arithmetic\<close>

definition exact :: "libm \<Rightarrow> bool" where
  "exact M \<longleftrightarrow> lm_rnd M = Fin \<and> libm_ok M binary64 \<and> (\<forall>x. f64_is_finite (lm_exp M (Fin x)))"

lemma exact_rnd [simp]: "exact M \<Longrightarrow> lm_rnd M = Fin"
  by (simp add: exact_def)

lemma finite_add [finite_ops]: "f64_is_finite a \<Longrightarrow> f64_is_finite b \<Longrightarrow> f64_is_finite (f64_add Fin a b)"
  by (auto simp: f64_is_finite_iff)

lemma finite_sub [finite_ops]: "f64_is_finite a \<Longrightarrow> f64_is_finite b \<Longrightarrow> f64_is_finite (f64_sub Fin a b)"
  by (auto simp: f64_is_finite_iff f64_sub_def)

lemma finite_mul [finite_ops]: "f64_is_finite a \<Longrightarrow> f64_is_finite b \<Longrightarrow> f64_is_finite (f64_mul Fin a b)"
  by (auto simp: f64_is_finite_iff)

lemma finite_div: "f64_is_finite a \<Longrightarrow> f64_is_finite b \<Longrightarrow> b \<noteq> Fin 0 \<Longrightarrow> f64_is_finite (f64_div Fin a b)"
  by (auto simp: f64_is_finite_iff)

lemma finite_foldl_add: "f64_is_finite a \<Longrightarrow> list_all f64_is_finite xs \<Longrightarrow> f64_is_finite (foldl (f64_add Fin) a xs)"
  by (induction xs arbitrary: a) (simp_all add: finite_add)

lemma finite_sum [finite_ops]: "list_all f64_is_finite xs \<Longrightarrow> f64_is_finite (f64_sum Fin xs)"
  by (simp add: f64_sum_def finite_foldl_add)

lemma finite_map2 [finite_ops]:
  "(\<And>x y. f64_is_finite x \<Longrightarrow> f64_is_finite y \<Longrightarrow> f64_is_finite (h x y)) \<Longrightarrow> list_all f64_is_finite xs \<Longrightarrow>
     list_all f64_is_finite ys \<Longrightarrow> list_all f64_is_finite (map2 h xs ys)"
  by (simp add: list_all_length)

lemma finite_mean: "list_all f64_is_finite xs \<Longrightarrow> xs \<noteq> [] \<Longrightarrow> f64_is_finite (mean_of Fin xs)"
  unfolding mean_of_def f64_of_nat_def by (rule finite_div [OF finite_sum]) simp_all

lemma finite_mean_std: "list_all f64_is_finite xs \<Longrightarrow> f64_is_finite (fst (mean_std Fin xs)) \<and> f64_is_finite (snd (mean_std Fin xs))"
proof (cases "xs = []")
  case False
  let ?m = "mean_of Fin xs" and ?v = "mean_of Fin (map (squared_dev Fin (mean_of Fin xs)) xs)"
  assume xs: "list_all f64_is_finite xs"
  have m: "f64_is_finite ?m" by (rule finite_mean [OF xs False])
  then have "list_all f64_is_finite (map (squared_dev Fin ?m) xs)"
    using xs by (auto simp: list_all_iff squared_dev_def intro!: finite_ops)
  then have "f64_is_finite ?v" using False by (intro finite_mean) simp_all
  moreover have "f64_nonneg ?v"
    unfolding mean_of_def by (intro div_nonneg sum_nonneg of_nat_nonneg) (auto simp: squared_dev_def square_nonneg)
  ultimately have "f64_is_finite (f64_sqrt Fin ?v)" by (auto simp: f64_is_finite_iff)
  then show ?thesis using m False by (simp add: mean_std_def Let_def)
qed (simp add: mean_std_def)

lemma finite_sigmoid: "exact M \<Longrightarrow> f64_is_finite x \<Longrightarrow> f64_unit (sigmoid M x)"
proof -
  assume e: "exact M" and "f64_is_finite x"
  then have "x \<noteq> NaN" by auto
  then show "f64_unit (sigmoid M x)" using e sigmoid_evidence [of M x] sigmoid_unit [of M x] by (auto simp: exact_def)
qed

lemma unit_finite: "f64_unit x \<Longrightarrow> f64_is_finite x"
  by (auto simp: f64_unit_iff)

section \<open>The design matrix\<close>

lemma finite_cells_finite: "f64_is_finite (fst (finite_cells Fin rows j))"
proof -
  let ?step = "\<lambda>(s, c) row. if f64_is_finite (row ! j) then (f64_add Fin s (row ! j), c + 1) else (s, c)"
  have "f64_is_finite s \<Longrightarrow> f64_is_finite (fst (foldl ?step (s, c) rows))" for s and c :: nat
    by (induction rows arbitrary: s c) (simp_all add: finite_add)
  then show ?thesis by (simp add: finite_cells_def)
qed

lemma imputation_means_finite:
  "list_all f64_is_finite (column_imputation_means Fin rows) \<and> length (column_imputation_means Fin rows) = N_FEATURES"
  using finite_cells_finite [of rows]
  by (auto simp: column_imputation_means_def list_all_iff f64_of_nat_def case_prod_unfold intro!: finite_div)

lemma design_finite:
  assumes "list_all f64_is_finite means" and "length means = N_FEATURES"
  shows "list_all f64_is_finite (impute_and_indicate (feature_row f) means)
    \<and> length (impute_and_indicate (feature_row f) means) = DESIGN_DIM"
  using assms
  by (auto simp: impute_and_indicate_def list_all_iff DESIGN_DIM_def N_FEATURES_def feature_row_def dest: set_zip_rightD)

lemma fit_finite:
  assumes "\<And>r. r \<in> set rows \<Longrightarrow> list_all f64_is_finite r \<and> length r = DESIGN_DIM"
  shows "list_all f64_is_finite (sd_mean (fit Fin rows)) \<and> list_all f64_is_finite (sd_std (fit Fin rows))"
proof -
  have d: "(case rows of [] \<Rightarrow> DESIGN_DIM | r # _ \<Rightarrow> length r) = DESIGN_DIM" using assms by (cases rows) simp_all
  have "list_all f64_is_finite (map (\<lambda>r. r ! j) rows)" if "j < DESIGN_DIM" for j
    using assms that by (auto simp: list_all_length)
  then show ?thesis unfolding fit_def Let_def d using finite_mean_std by (auto simp: list_all_iff)
qed

lemma transform_finite:
  assumes "list_all f64_is_finite row" and "list_all f64_is_finite (sd_mean sd)" and "list_all f64_is_finite (sd_std sd)"
  shows "list_all f64_is_finite (transform Fin sd row)"
proof -
  have "f64_is_finite (standardize Fin m s x)" if "f64_is_finite m" "f64_is_finite s" "f64_is_finite x" for m s x
  proof (cases "f64_le s (Fin (1 / 10 ^ 12))")
    case False
    then have "s \<noteq> Fin 0" by auto
    then show ?thesis using False that by (auto simp: standardize_def intro!: finite_div finite_ops)
  qed (simp add: standardize_def)
  then show ?thesis using assms
    by (simp add: transform_def list_all_length)
qed

section \<open>Training\<close>

lemma linear_score_finite [finite_ops]:
  "list_all f64_is_finite w \<Longrightarrow> f64_is_finite b \<Longrightarrow> list_all f64_is_finite row \<Longrightarrow> f64_is_finite (linear_score Fin w b row)"
  unfolding linear_score_def by (intro finite_ops)

definition fine :: "f64 list \<times> f64 \<Rightarrow> bool" where
  "fine wb \<longleftrightarrow> list_all f64_is_finite (fst wb) \<and> f64_is_finite (snd wb)"

lemma gradient_row_fine: "exact M \<Longrightarrow> fine wb \<Longrightarrow> fine g \<Longrightarrow> fine xy \<Longrightarrow> fine (gradient_row M wb g xy)"
  unfolding fine_def gradient_row_def Let_def exact_rnd fst_conv snd_conv
  by (intro conjI finite_map2 finite_ops unit_finite [OF finite_sigmoid]) auto

lemma gradient_fine:
  "exact M \<Longrightarrow> fine wb \<Longrightarrow> list_all fine xys \<Longrightarrow> fine g \<Longrightarrow> fine (foldl (gradient_row M wb) g xys)"
  by (induction xys arbitrary: g) (simp_all add: gradient_row_fine)

lemma epoch_fine:
  assumes "exact M" and "f64_is_finite (tc_lr cfg)" and "f64_is_finite (l2 cfg)" and "list_all fine xys" and "xys \<noteq> []" and "fine wb"
  shows "fine (epoch M cfg xys wb)"
proof -
  obtain gw gb where g: "foldl (gradient_row M wb) (replicate DESIGN_DIM (Fin 0), Fin 0) xys = (gw, gb)" by (cases rule: prod.exhaust)
  have "fine (gw, gb)"
    unfolding g [symmetric] using assms by (intro gradient_fine) (simp_all add: fine_def list_all_iff)
  moreover have "f64_is_finite (f64_div Fin (Fin 1) (f64_of_nat Fin (length xys)))"
    using assms(5) by (simp add: f64_of_nat_def)
  ultimately show ?thesis using assms(2,3,6)
    unfolding epoch_def Let_def fine_def g prod.case fst_conv snd_conv exact_rnd [OF assms(1)]
    by (intro conjI finite_map2 finite_ops) auto
qed

lemma train_fine:
  fixes data :: "(feature_vector \<times> bool) list"
  assumes "exact M" and "f64_is_finite (tc_lr cfg)" and "f64_is_finite (l2 cfg)"
  defines "lr \<equiv> train M data cfg"
  shows "list_all f64_is_finite (lr_weights lr) \<and> f64_is_finite (lr_bias lr)
    \<and> list_all f64_is_finite (sd_mean (lr_scaler lr)) \<and> list_all f64_is_finite (sd_std (lr_scaler lr))
    \<and> list_all f64_is_finite (lr_impute_means lr) \<and> length (lr_impute_means lr) = N_FEATURES"
proof -
  define raw where "raw = map (\<lambda>(f, _). feature_row f) data"
  define means where "means = column_imputation_means Fin raw"
  define rows where "rows = map (\<lambda>r. impute_and_indicate r means) raw"
  define x where "x = map (transform Fin (fit Fin rows)) rows"
  define xys where "xys = zip x (map (\<lambda>(_, y). if y then Fin 1 else Fin 0) data)"
  let ?start = "(replicate DESIGN_DIM (Fin 0), Fin 0)"
  have m: "list_all f64_is_finite means" "length means = N_FEATURES"
    using imputation_means_finite by (simp_all add: means_def)
  have rows: "list_all f64_is_finite r \<and> length r = DESIGN_DIM" if "r \<in> set rows" for r
    using that design_finite [OF m] by (auto simp: rows_def raw_def)
  note fit = fit_finite [of rows, OF rows]
  have x: "list_all f64_is_finite r" if mem: "r \<in> set x" for r
  proof -
    obtain r' where r': "r = transform Fin (fit Fin rows) r'" "r' \<in> set rows" using mem by (auto simp: x_def)
    show ?thesis unfolding r'(1) by (rule transform_finite) (use rows [OF r'(2)] fit in blast)+
  qed
  have xys: "list_all fine xys"
  proof -
    have "f64_is_finite y" if "y \<in> set (map (\<lambda>(_, y). if y then Fin 1 else Fin 0) data)" for y using that by auto
    then show ?thesis using x unfolding xys_def list_all_iff [of fine] fine_def
      by (metis prod.collapse set_zip_leftD set_zip_rightD)
  qed
  have start: "fine ?start" by (simp add: fine_def list_all_iff)
  have "fine ((epoch M cfg xys ^^ k) ?start)" if "x \<noteq> []" for k
  proof (induction k)
    case (Suc k)
    have "xys \<noteq> []" using that by (cases data) (auto simp: xys_def x_def rows_def raw_def)
    then show ?case using epoch_fine [OF assms(1-3) xys] Suc by simp
  qed (simp add: start)
  then have "fine (if x = [] then ?start else (epoch M cfg xys ^^ epochs cfg) ?start)" using start by simp
  moreover have "lr = (let (weights, bias) = (if x = [] then ?start else (epoch M cfg xys ^^ epochs cfg) ?start)
      in \<lparr>lr_weights = weights, lr_bias = bias, lr_scaler = fit Fin rows, lr_impute_means = means\<rparr>)"
    by (simp add: lr_def train_def assms(1) raw_def means_def rows_def x_def xys_def Let_def)
  ultimately show ?thesis using m fit by (simp add: fine_def case_prod_unfold Let_def)
qed

text \<open>The learned baseline always predicts a probability: in exact arithmetic, trained on any data with any
  finite step and penalty, it maps every feature vector, NaN and infinite features included, to a number of the unit
  interval.\<close>

theorem learned_probability:
  assumes "exact M" and "f64_is_finite (tc_lr cfg)" and "f64_is_finite (l2 cfg)"
  shows "f64_unit (predict_proba M (train M data cfg) f)"
proof -
  let ?lr = "train M data cfg"
  note t = train_fine [OF assms, of data]
  have "list_all f64_is_finite (design_row Fin ?lr f)"
    unfolding design_row_def using t design_finite [of "lr_impute_means ?lr" f] by (intro transform_finite) auto
  then have "f64_is_finite (linear_score Fin (lr_weights ?lr) (lr_bias ?lr) (design_row Fin ?lr f))"
    using t by (intro finite_ops) auto
  then show ?thesis using finite_sigmoid [OF assms(1)] assms(1) by (simp add: predict_proba_def)
qed

lemma learned_probability_witness:
  "f64_unit (predict_proba real_libm (train real_libm [(human_like, False), (agent_like, True)] (train_default Fin)) wild_features)"
proof -
  have "exact real_libm" by (simp add: exact_def) (simp add: real_libm_def)
  then show ?thesis by (intro learned_probability) (simp_all add: train_default_def)
qed

end
