(* ===== verification/Roc.thy ===== *)
theory Roc
  imports F64 "HOL-Library.While_Combinator" "HOL-Library.Multiset"
begin

text \<open>
  The ROC-AUC estimator of the evaluation harness (\<^verbatim>\<open>roc_auc\<close> in \<^verbatim>\<open>plugins/plugin-agent-detect/src/eval.rs\<close>): indices
  sorted by score, ranks averaged over ties by a loop over groups of equal scores, and the Mann-Whitney statistic. The
  loop over the groups is a \<open>while_option\<close>, so that not returning would be the value \<open>None\<close>. Its
  specification counts, over all pairs of a positive and a negative, how often the positive scores higher.
\<close>

section \<open>The estimator\<close>

definition f64_eq :: "f64 \<Rightarrow> f64 \<Rightarrow> bool" where
  "f64_eq a b \<longleftrightarrow> f64_le a b \<and> f64_le b a"

type_synonym scored = "(f64 \<times> bool) list"

definition score_order :: "scored \<Rightarrow> nat list" where
  "score_order sc = sort_by (\<lambda>a b. f64_cmp_le (fst (sc ! a)) (fst (sc ! b))) [0..<length sc]"

text \<open>The end of the group of equal scores that starts at position \<open>i\<close>.\<close>

definition tie_end :: "scored \<Rightarrow> nat list \<Rightarrow> nat \<Rightarrow> nat" where
  "tie_end sc idx i =
     Suc i + length (takeWhile (\<lambda>k. f64_eq (fst (sc ! k)) (fst (sc ! (idx ! i)))) (drop (Suc i) idx))"

definition put_rank :: "f64 \<Rightarrow> f64 list \<Rightarrow> nat \<Rightarrow> f64 list" where
  "put_rank v ranks k = ranks[k := v]"

definition rank_group :: "rounding \<Rightarrow> scored \<Rightarrow> nat list \<Rightarrow> nat \<times> f64 list \<Rightarrow> nat \<times> f64 list" where
  "rank_group rnd sc idx s =
     (let i = fst s; j = tie_end sc idx i;
          avg = f64_div rnd (f64_of_nat rnd (i + 1 + j)) (Fin 2)
      in (j, foldl (put_rank avg) (snd s) (take (j - i) (drop i idx))))"

definition rank_loop :: "rounding \<Rightarrow> scored \<Rightarrow> nat list \<Rightarrow> (nat \<times> f64 list) option" where
  "rank_loop rnd sc idx =
     while_option (\<lambda>s. fst s < length idx) (rank_group rnd sc idx) (0, replicate (length sc) (Fin 0))"

definition roc_auc :: "rounding \<Rightarrow> scored \<Rightarrow> f64 option" where
  "roc_auc rnd sc =
     (let n_pos = length (filter snd sc); n_neg = length sc - n_pos
      in if n_pos = 0 \<or> n_neg = 0 then Some (Fin (1 / 2))
         else case rank_loop rnd sc (score_order sc) of
                None \<Rightarrow> None
              | Some (_, ranks) \<Rightarrow>
                  let sum_ranks_pos = f64_sum rnd (map snd (filter (\<lambda>(s, _). snd s) (zip sc ranks)));
                      u = f64_sub rnd sum_ranks_pos (f64_div rnd (f64_of_nat rnd (n_pos * (n_pos + 1))) (Fin 2))
                  in Some (f64_div rnd u (f64_mul rnd (f64_of_nat rnd n_pos) (f64_of_nat rnd n_neg))))"

section \<open>Sorting\<close>

lemma mset_insert_by: "mset (insert_by le x ys) = add_mset x (mset ys)"
  by (induction ys) auto

lemma mset_sort_by: "mset (sort_by le xs) = mset xs"
  by (induction xs) (simp_all add: sort_by_def mset_insert_by)

lemma sorted_insert_by:
  assumes "\<And>a b. le a b \<or> le b a" and "\<And>a b c. le a b \<Longrightarrow> le b c \<Longrightarrow> le a c" and "sorted_wrt le ys"
  shows "sorted_wrt le (insert_by le x ys)"
  using assms(3)
proof (induction ys)
  case (Cons y ys)
  have "le y z" if "le x y \<Longrightarrow> False" "z = x \<or> z \<in> set ys" for z
    using that assms(1) [of x y] Cons.prems by auto
  moreover have "le x z" if "le x y" "z \<in> set ys" for z using that assms(2) [of x y z] Cons.prems by simp
  ultimately show ?case using Cons by auto
qed simp

lemma sorted_sort_by:
  assumes "\<And>a b. le a b \<or> le b a" and "\<And>a b c. le a b \<Longrightarrow> le b c \<Longrightarrow> le a c"
  shows "sorted_wrt le (sort_by le xs)"
  by (induction xs) (simp_all add: sort_by_def sorted_insert_by [OF assms])

text \<open>The comparison agrees with one that is total and transitive on the elements at hand.\<close>

lemma insert_by_cong: "(\<And>y. y \<in> set ys \<Longrightarrow> le x y = le' x y) \<Longrightarrow> insert_by le x ys = insert_by le' x ys"
  by (induction ys) auto

lemma sort_by_cong: "(\<And>x y. x \<in> set xs \<Longrightarrow> y \<in> set xs \<Longrightarrow> le x y = le' x y) \<Longrightarrow> sort_by le xs = sort_by le' xs"
proof (induction xs)
  case (Cons x xs)
  then have "foldr (insert_by le) xs [] = foldr (insert_by le') xs []" by (simp add: sort_by_def)
  moreover have "set (foldr (insert_by le') xs []) = set xs" using set_sort_by [of le' xs] by (simp add: sort_by_def)
  ultimately show ?case using Cons.prems insert_by_cong [of "foldr (insert_by le') xs []" le x le'] by (simp add: sort_by_def)
qed (simp add: sort_by_def)

section \<open>Pairs\<close>

text \<open>Twice the credit of the first score against the second.\<close>

definition credit :: "f64 \<Rightarrow> f64 \<Rightarrow> nat" where
  "credit a b = (if f64_lt b a then 2 else if f64_lt a b then 0 else 1)"

definition positives :: "scored \<Rightarrow> f64 list" where
  "positives sc = map fst (filter snd sc)"

definition negatives :: "scored \<Rightarrow> f64 list" where
  "negatives sc = map fst (filter (\<lambda>x. \<not> snd x) sc)"

definition won_pairs :: "scored \<Rightarrow> real" where
  "won_pairs sc = (\<Sum>p\<leftarrow>positives sc. \<Sum>q\<leftarrow>negatives sc. if f64_lt q p then 1 else if f64_lt p q then 0 else 1 / 2)"

text \<open>Twice the average rank of a score among the scores of a list.\<close>

definition rank2 :: "scored \<Rightarrow> f64 \<Rightarrow> nat" where
  "rank2 sc v = 1 + (\<Sum>x\<leftarrow>sc. credit v (fst x))"

lemma f64_lt_asym: "f64_lt a b \<Longrightarrow> \<not> f64_lt b a"
  by (simp add: f64_lt_def)

lemma credit_sym: "credit a b + credit b a = 2"
  using f64_lt_asym [of a b] by (auto simp: credit_def)

lemma sum_partition: "(\<Sum>x\<leftarrow>sc. f (fst x)) = (\<Sum>p\<leftarrow>positives sc. f p) + (\<Sum>q\<leftarrow>negatives sc. (f q :: nat))"
  by (induction sc) (auto simp: positives_def negatives_def)

lemma credit_square: "(\<Sum>p\<leftarrow>ps. \<Sum>q\<leftarrow>ps. credit p q) = length ps * length ps"
proof (induction ps)
  case (Cons a ps)
  have pair: "(\<Sum>q\<leftarrow>ps. credit a q) + (\<Sum>p\<leftarrow>ps. credit p a) = 2 * length ps"
    by (induction ps) (use credit_sym in \<open>simp_all add: algebra_simps\<close>)
  have "credit a a = 1" using credit_sym [of a a] by simp
  then show ?case using Cons pair by (simp add: sum_list_addf)
qed simp

lemma rank_sum:
  "(\<Sum>p\<leftarrow>positives sc. rank2 sc p)
     = length (positives sc) * (length (positives sc) + 1) + (\<Sum>p\<leftarrow>positives sc. \<Sum>q\<leftarrow>negatives sc. credit p q)"
proof -
  have "(\<Sum>p\<leftarrow>ps. rank2 sc p) = length ps + (\<Sum>p\<leftarrow>ps. \<Sum>q\<leftarrow>positives sc. credit p q) + (\<Sum>p\<leftarrow>ps. \<Sum>q\<leftarrow>negatives sc. credit p q)" for ps
    by (induction ps) (simp_all add: rank2_def sum_partition)
  then show ?thesis by (simp add: credit_square)
qed

lemma won_pairs_credit: "won_pairs sc = real (\<Sum>p\<leftarrow>positives sc. \<Sum>q\<leftarrow>negatives sc. credit p q) / 2"
proof -
  have "(\<Sum>q\<leftarrow>qs. if f64_lt q p then 1 else if f64_lt p q then 0 else 1 / 2) = real (\<Sum>q\<leftarrow>qs. credit p q) / 2" for p qs
    by (induction qs) (simp_all add: credit_def field_simps)
  moreover have "(\<Sum>p\<leftarrow>ps. real (f p) / 2) = real (\<Sum>p\<leftarrow>ps. f p) / 2" for f and ps :: "f64 list"
    by (induction ps) (simp_all add: field_simps)
  ultimately show ?thesis unfolding won_pairs_def by presburger
qed

section \<open>The loop over the groups\<close>

lemma tie_end_bounds: "i < length idx \<Longrightarrow> i < tie_end sc idx i \<and> tie_end sc idx i \<le> length idx"
  using length_takeWhile_le [of "\<lambda>k. f64_eq (fst (sc ! k)) (fst (sc ! (idx ! i)))" "drop (Suc i) idx"]
  by (simp add: tie_end_def)

lemma rank_loop_returns: "\<exists>t. rank_loop rnd sc idx = Some t"
  unfolding rank_loop_def
proof (rule measure_while_option_Some [where P = "\<lambda>_. True" and f = "\<lambda>s. length idx - fst s"])
  fix s :: "nat \<times> f64 list" assume s: "fst s < length idx"
  then have "length idx - tie_end sc idx (fst s) < length idx - fst s"
    using tie_end_bounds [OF s, of sc] by (simp add: diff_less_mono2)
  then show "True \<and> length idx - fst (rank_group rnd sc idx s) < length idx - fst s"
    by (simp add: rank_group_def Let_def)
qed simp

definition no_nan :: "scored \<Rightarrow> bool" where
  "no_nan sc \<longleftrightarrow> (\<forall>x \<in> set sc. fst x \<noteq> NaN)"

lemma no_nan_nth: "no_nan sc \<Longrightarrow> k < length sc \<Longrightarrow> fst (sc ! k) \<noteq> NaN"
  by (simp add: no_nan_def)

lemma score_order_props:
  "distinct (score_order sc)" "set (score_order sc) = {..<length sc}" "length (score_order sc) = length sc"
  "mset (score_order sc) = mset [0..<length sc]"
proof -
  show m: "mset (score_order sc) = mset [0..<length sc]" by (simp add: score_order_def mset_sort_by)
  show "distinct (score_order sc)" using mset_eq_imp_distinct_iff [OF m] by simp
qed (simp_all add: score_order_def atLeast0LessThan)

lemma score_order_sorted:
  assumes "no_nan sc"
  shows "sorted_wrt (\<lambda>a b. f64_le (fst (sc ! a)) (fst (sc ! b))) (score_order sc)"
proof -
  let ?S = "\<lambda>k. fst (sc ! k)"
  let ?le = "\<lambda>a b. ?S a = NaN \<or> ?S b \<noteq> NaN \<and> f64_le (?S a) (?S b)"
  have c: "f64_cmp_le a b = f64_le a b" if "a \<noteq> NaN" "b \<noteq> NaN" for a b
    using f64_le_total [OF that] by (auto simp: f64_cmp_le_def f64_lt_def)
  have "score_order sc = sort_by ?le [0..<length sc]"
    unfolding score_order_def by (rule sort_by_cong) (simp add: c no_nan_nth [OF assms])
  moreover have "sorted_wrt ?le (sort_by ?le [0..<length sc])"
  proof (rule sorted_sort_by)
    show "?le a b \<or> ?le b a" for a b using f64_le_total [of "?S a" "?S b"] by blast
    show "?le a b \<Longrightarrow> ?le b c \<Longrightarrow> ?le a c" for a b c using f64_le_trans [of "?S a" "?S b" "?S c"] by blast
  qed
  ultimately have s: "sorted_wrt ?le (score_order sc)" by simp
  show ?thesis
  proof (rule sorted_wrt_mono_rel [OF _ s])
    show "f64_le (?S a) (?S b)" if "a \<in> set (score_order sc)" "?le a b" for a b
      using that no_nan_nth [OF assms] by (simp add: score_order_props)
  qed
qed

lemma group_scores:
  assumes "no_nan sc" and "i < length sc" and "idx = score_order sc"
  shows "\<forall>p. i \<le> p \<and> p < tie_end sc idx i \<longrightarrow> f64_eq (fst (sc ! (idx ! p))) (fst (sc ! (idx ! i)))"
    and "\<forall>p. tie_end sc idx i \<le> p \<and> p < length sc \<longrightarrow> f64_lt (fst (sc ! (idx ! i))) (fst (sc ! (idx ! p)))"
proof -
  let ?S = "\<lambda>p. fst (sc ! (idx ! p))"
  let ?P = "\<lambda>k. f64_eq (fst (sc ! k)) (?S i)" and ?zs = "drop (Suc i) idx"
  let ?m = "length (takeWhile ?P ?zs)"
  have len: "length idx = length sc" using assms(3) by (simp add: score_order_props)
  have nn: "?S p \<noteq> NaN" if "p < length sc" for p
  proof -
    have "idx ! p \<in> set idx" using that len by simp
    then show ?thesis using no_nan_nth [OF assms(1)] assms(3) by (simp add: score_order_props)
  qed
  have le: "f64_le (?S p) (?S q)" if "p < q" "q < length sc" for p q
    using score_order_sorted [OF assms(1)] that assms(3) len by (simp add: sorted_wrt_iff_nth_less)
  show "\<forall>p. i \<le> p \<and> p < tie_end sc idx i \<longrightarrow> f64_eq (?S p) (?S i)"
  proof (intro allI impI)
    fix p assume p: "i \<le> p \<and> p < tie_end sc idx i"
    show "f64_eq (?S p) (?S i)"
    proof (cases "p = i")
      case True
      then show ?thesis using f64_le_refl [OF nn [OF assms(2)]] by (simp add: f64_eq_def)
    next
      case False
      then obtain q where q: "p = Suc i + q" "q < ?m" using p by (metis tie_end_def add_less_cancel_left le_Suc_ex le_neq_implies_less Suc_leI)
      then have "?P (takeWhile ?P ?zs ! q)" using set_takeWhileD [of "takeWhile ?P ?zs ! q" ?P ?zs] nth_mem [of q "takeWhile ?P ?zs"] by blast
      moreover have "takeWhile ?P ?zs ! q = idx ! p"
        using q takeWhile_nth [OF q(2)] length_takeWhile_le [of ?P ?zs] by simp
      ultimately show ?thesis by simp
    qed
  qed
  show "\<forall>p. tie_end sc idx i \<le> p \<and> p < length sc \<longrightarrow> f64_lt (?S i) (?S p)"
  proof (intro allI impI)
    fix p assume p: "tie_end sc idx i \<le> p \<and> p < length sc"
    let ?j = "tie_end sc idx i"
    have j: "?j = Suc i + ?m" "?j < length sc" "i < ?j" using p by (simp_all add: tie_end_def)
    then have "?m < length ?zs" using len by simp
    then have "\<not> ?P (?zs ! ?m)" by (rule nth_length_takeWhile)
    then have "\<not> f64_eq (?S ?j) (?S i)" using j len by simp
    then have "\<not> f64_le (?S ?j) (?S i)" using le [OF j(3,2)] by (simp add: f64_eq_def)
    moreover have "f64_le (?S ?j) (?S p)"
      using le [of ?j p] p f64_le_refl [OF nn [OF j(2)]] by (cases "?j = p") auto
    ultimately have "\<not> f64_le (?S p) (?S i)" using f64_le_trans by blast
    then show "f64_lt (?S i) (?S p)" using f64_not_le nn p assms(2) by blast
  qed
qed

lemma f64_eq_imp: "f64_eq a b \<Longrightarrow> a = b"
  by (cases a; cases b) (auto simp: f64_eq_def)

lemma sum_const: "(\<And>x. x \<in> set xs \<Longrightarrow> f x = c) \<Longrightarrow> (\<Sum>x\<leftarrow>xs. f x) = c * length xs" for c :: nat
  by (induction xs) simp_all

lemma group_rank:
  assumes "no_nan sc" and "i < length sc" and "idx = score_order sc"
    and "\<forall>p < i. f64_lt (fst (sc ! (idx ! p))) (fst (sc ! (idx ! i)))"
  shows "rank2 sc (fst (sc ! (idx ! i))) = i + 1 + tie_end sc idx i"
proof -
  let ?v = "fst (sc ! (idx ! i))" and ?j = "tie_end sc idx i"
  let ?f = "\<lambda>k. credit ?v (fst (sc ! k))"
  have len: "length idx = length sc" using assms(3) by (simp add: score_order_props)
  have j: "i < ?j" "?j \<le> length sc" using tie_end_bounds [of i idx sc] assms(2) len by auto
  have "mset (map ?f [0..<length sc]) = mset (map ?f idx)"
    using score_order_props(4) [of sc] assms(3) by simp
  then have perm: "(\<Sum>k\<leftarrow>[0..<length sc]. ?f k) = (\<Sum>k\<leftarrow>idx. ?f k)" by (metis sum_mset_sum_list)
  have "map (\<lambda>x. credit ?v (fst x)) sc = map ?f [0..<length sc]"
    by (rule nth_equalityI) simp_all
  then have "(\<Sum>x\<leftarrow>sc. credit ?v (fst x)) = (\<Sum>k\<leftarrow>[0..<length sc]. ?f k)" by (rule arg_cong)
  also note perm
  also have "(\<Sum>k\<leftarrow>idx. ?f k) = (\<Sum>k\<leftarrow>take i idx @ take (?j - i) (drop i idx) @ drop ?j idx. ?f k)"
  proof -
    have "drop (?j - i) (drop i idx) = drop ?j idx" using j(1) by simp
    then have "take i idx @ take (?j - i) (drop i idx) @ drop ?j idx = idx"
      using append_take_drop_id [of i idx] append_take_drop_id [of "?j - i" "drop i idx"] by simp
    then show ?thesis by (rule arg_cong [where f = "\<lambda>ks. sum_list (map ?f ks)", OF sym])
  qed
  also have "(\<Sum>k\<leftarrow>take i idx @ take (?j - i) (drop i idx) @ drop ?j idx. ?f k) = i * 2 + (?j - i)"
  proof -
    have "(\<Sum>k\<leftarrow>take i idx. ?f k) = 2 * length (take i idx)"
      using assms(2,4) len by (intro sum_const) (auto simp: in_set_conv_nth credit_def)
    moreover have "(\<Sum>k\<leftarrow>take (?j - i) (drop i idx). ?f k) = 1 * length (take (?j - i) (drop i idx))"
    proof (rule sum_const)
      fix k assume "k \<in> set (take (?j - i) (drop i idx))"
      then obtain q where q: "q < ?j - i" "k = idx ! (i + q)" using j len by (auto simp: in_set_conv_nth)
      then have "f64_eq (fst (sc ! k)) ?v" using group_scores(1) [OF assms(1-3)] by simp
      then show "?f k = 1" by (auto dest!: f64_eq_imp simp: credit_def f64_lt_def)
    qed
    moreover have "(\<Sum>k\<leftarrow>drop ?j idx. ?f k) = 0 * length (drop ?j idx)"
    proof (rule sum_const)
      fix k assume "k \<in> set (drop ?j idx)"
      then obtain q where q: "q < length sc - ?j" "k = idx ! (?j + q)" using j len by (auto simp: in_set_conv_nth)
      then have "f64_lt ?v (fst (sc ! k))" using group_scores(2) [OF assms(1-3)] by simp
      then show "?f k = 0" using f64_lt_asym by (auto simp: credit_def)
    qed
    ultimately show ?thesis using j assms(2) len by simp
  qed
  finally show ?thesis using j(1) by (simp add: rank2_def)
qed

lemma half_exact:
  assumes "rounding_ok rnd binary64" and "n \<le> 2 ^ 53"
  shows "rnd (real n / 2) = Fin (real n / 2)"
proof -
  have "real n / 2 \<in> binary64"
    using assms(2) by (intro binary64I [of _ "int n" "- 1"]) (simp_all add: power_int_minus field_simps)
  then show ?thesis by (rule rounding_okD(3) [OF assms(1)])
qed

lemma foldl_put_rank:
  "length (foldl (put_rank v) rs ks) = length rs
   \<and> (\<forall>k < length rs. foldl (put_rank v) rs ks ! k = (if k \<in> set ks then v else rs ! k))"
  by (induction ks arbitrary: rs) (auto simp: put_rank_def nth_list_update)

text \<open>At the start of a round the positions before \<open>i\<close> have their ranks and lower scores than the rest.\<close>

definition ranked :: "scored \<Rightarrow> nat \<times> f64 list \<Rightarrow> bool" where
  "ranked sc s \<longleftrightarrow>
     (let idx = score_order sc; i = fst s
      in i \<le> length sc \<and> length (snd s) = length sc
         \<and> (\<forall>p < i. \<forall>q. i \<le> q \<and> q < length sc \<longrightarrow> f64_lt (fst (sc ! (idx ! p))) (fst (sc ! (idx ! q))))
         \<and> (\<forall>p < i. snd s ! (idx ! p) = Fin (real (rank2 sc (fst (sc ! (idx ! p)))) / 2)))"

lemma f64_lt_trans: "f64_lt a b \<Longrightarrow> f64_lt b c \<Longrightarrow> f64_lt a c"
  unfolding f64_lt_def by (meson f64_le_trans)

lemma rank_group_ranked:
  assumes "rounding_ok rnd binary64" and "no_nan sc" and "length sc \<le> 2 ^ 52" and "ranked sc s" and "fst s < length sc"
  shows "ranked sc (rank_group rnd sc (score_order sc) s)"
proof -
  obtain i rs where s: "s = (i, rs)" by (cases s)
  define idx where "idx = score_order sc"
  let ?j = "tie_end sc idx i" and ?S = "\<lambda>p. fst (sc ! (idx ! p))"
  have len: "length idx = length sc" and i: "i < length sc" and rs: "length rs = length sc"
    and low: "\<And>p q. p < i \<Longrightarrow> i \<le> q \<Longrightarrow> q < length sc \<Longrightarrow> f64_lt (?S p) (?S q)"
    and fin: "\<And>p. p < i \<Longrightarrow> rs ! (idx ! p) = Fin (real (rank2 sc (?S p)) / 2)"
    using assms(4,5) by (simp_all add: ranked_def Let_def s idx_def score_order_props)
  have j: "i < ?j" "?j \<le> length sc" using tie_end_bounds [of i idx sc] i len by auto
  have bound: "idx ! p < length sc" if "p < length sc" for p
    using that len nth_mem [of p idx] by (simp add: idx_def score_order_props)
  define avg where "avg = f64_div rnd (f64_of_nat rnd (i + 1 + ?j)) (Fin 2)"
  have "f64_of_nat rnd (i + 1 + ?j) = Fin (real (i + 1 + ?j))"
    by (rule of_nat_exact [OF assms(1)]) (use i j assms(3) in simp)
  then have avg: "avg = Fin (real (i + 1 + ?j) / 2)"
    using half_exact [OF assms(1), of "i + 1 + ?j"] i j assms(3) unfolding avg_def by simp
  have eq: "?S p = ?S i" if "i \<le> p" "p < ?j" for p
    using group_scores(1) [OF assms(2) i idx_def] that f64_eq_imp by blast
  have gt: "f64_lt (?S i) (?S q)" if "?j \<le> q" "q < length sc" for q
    using group_scores(2) [OF assms(2) i idx_def] that by blast
  have rank: "rank2 sc (?S i) = i + 1 + ?j" by (rule group_rank [OF assms(2) i idx_def]) (use low i in blast)
  let ?ks = "take (?j - i) (drop i idx)" and ?rs = "foldl (put_rank avg) rs (take (?j - i) (drop i idx))"
  have mem: "idx ! p \<in> set ?ks \<longleftrightarrow> i \<le> p" if "p < ?j" for p
  proof -
    have d: "distinct idx" by (simp add: idx_def score_order_props)
    have p: "p < length idx" using that j len by simp
    have "set ?ks = {idx ! (i + q) |q. q < ?j - i}" using j len by (force simp: set_conv_nth)
    moreover have "idx ! p = idx ! (i + q) \<longleftrightarrow> p = i + q" if "q < ?j - i" for q
      using nth_eq_iff_index_eq [OF d p, of "i + q"] that j len by simp
    ultimately have "idx ! p \<in> set ?ks \<longleftrightarrow> (\<exists>q < ?j - i. p = i + q)" by blast
    also have "\<dots> \<longleftrightarrow> i \<le> p" using that le_Suc_ex [of i p] by (auto simp: less_diff_conv)
    finally show ?thesis .
  qed
  have "?rs ! (idx ! p) = Fin (real (rank2 sc (?S p)) / 2)" if "p < ?j" for p
    using foldl_put_rank [of avg rs ?ks] mem [OF that] fin [of p] eq [of p] bound [of p] that j rs rank avg by auto
  moreover have "f64_lt (?S p) (?S q)" if "p < ?j" "?j \<le> q" "q < length sc" for p q
    using low [of p q] gt [of q] eq [of p] that j by (cases "p < i") auto
  moreover have "length ?rs = length sc" using foldl_put_rank [of avg rs ?ks] rs by simp
  ultimately show ?thesis using j
    by (simp add: ranked_def rank_group_def Let_def s avg_def flip: idx_def)
qed

lemma rank_loop_result:
  assumes "rounding_ok rnd binary64" and "no_nan sc" and "length sc \<le> 2 ^ 52"
  shows "\<exists>i. rank_loop rnd sc (score_order sc) = Some (i, map (\<lambda>x. Fin (real (rank2 sc (fst x)) / 2)) sc)"
proof -
  obtain i rs where t: "rank_loop rnd sc (score_order sc) = Some (i, rs)" using rank_loop_returns by (metis surj_pair)
  have stop: "\<not> i < length sc"
    using while_option_stop [OF t [unfolded rank_loop_def]] by (simp add: score_order_props)
  have inv: "ranked sc (i, rs)"
  proof (rule while_option_rule [OF _ t [unfolded rank_loop_def]])
    show "ranked sc (rank_group rnd sc (score_order sc) s)" if "ranked sc s" "fst s < length (score_order sc)" for s
      using rank_group_ranked [OF assms that(1)] that(2) by (simp add: score_order_props)
  qed (simp add: ranked_def)
  have "rs = map (\<lambda>x. Fin (real (rank2 sc (fst x)) / 2)) sc"
  proof (rule nth_equalityI)
    show "length rs = length (map (\<lambda>x. Fin (real (rank2 sc (fst x)) / 2)) sc)" using inv by (simp add: ranked_def Let_def)
    fix k assume "k < length rs"
    then have k: "k < length sc" using inv by (simp add: ranked_def Let_def)
    then have "k \<in> set (score_order sc)" by (simp add: score_order_props)
    then obtain p where "p < length sc" "score_order sc ! p = k" by (metis in_set_conv_nth score_order_props(3))
    then show "rs ! k = map (\<lambda>x. Fin (real (rank2 sc (fst x)) / 2)) sc ! k"
      using inv stop k by (auto simp: ranked_def Let_def)
  qed
  then show ?thesis using t by blast
qed

section \<open>Exact sums\<close>

lemma foldl_half_exact:
  "rounding_ok rnd binary64 \<Longrightarrow> a + sum_list ms \<le> 2 ^ 53 \<Longrightarrow>
     foldl (f64_add rnd) (Fin (real a / 2)) (map (\<lambda>m. Fin (real m / 2)) ms) = Fin (real (a + sum_list ms) / 2)"
proof (induction ms arbitrary: a)
  case (Cons m ms)
  have "rnd (real a / 2 + real m / 2) = Fin (real (a + m) / 2)"
    using half_exact [OF Cons.prems(1), of "a + m"] Cons.prems(2) by (simp add: add_divide_distrib)
  then show ?case using Cons.IH [OF Cons.prems(1), of "a + m"] Cons.prems(2) by (simp add: add.assoc)
qed simp

lemma positive_ranks:
  "map snd (filter (\<lambda>(s, _). snd s) (zip sc (map (\<lambda>x. g (fst x)) sc))) = map g (positives sc)"
  by (induction sc) (simp_all add: positives_def)

lemma class_sizes: "length (filter snd sc) = length (positives sc)" "length sc - length (positives sc) = length (negatives sc)"
  using sum_length_filter_compl [of snd sc] by (simp_all add: positives_def negatives_def)

lemma rank_sum_bound: "(\<Sum>p\<leftarrow>ps. rank2 sc p) \<le> length ps * (2 * length sc + 1)"
proof -
  have c: "credit a b \<le> 2" for a b by (simp add: credit_def)
  have "(\<Sum>x\<leftarrow>sc. credit v (fst x)) \<le> 2 * length sc" for v
  proof (induction sc)
    case (Cons x sc)
    then show ?case using c [of v "fst x"] by simp
  qed simp
  then have "rank2 sc v \<le> 2 * length sc + 1" for v by (simp add: rank2_def)
  then show ?thesis by (induction ps) (simp_all only: list.map sum_list.Cons length_Cons mult_Suc add_le_mono, simp)
qed

lemma won_pairs_unit: "0 \<le> won_pairs sc \<and> won_pairs sc \<le> real (length (positives sc)) * real (length (negatives sc))"
proof -
  let ?w = "\<lambda>p q. if f64_lt q p then 1 else if f64_lt p q then 0 else 1 / 2 :: real"
  have q: "0 \<le> (\<Sum>q\<leftarrow>qs. ?w p q) \<and> (\<Sum>q\<leftarrow>qs. ?w p q) \<le> real (length qs)" for p qs by (induction qs) auto
  have "0 \<le> (\<Sum>p\<leftarrow>ps. \<Sum>q\<leftarrow>qs. ?w p q) \<and> (\<Sum>p\<leftarrow>ps. \<Sum>q\<leftarrow>qs. ?w p q) \<le> real (length ps) * real (length qs)" for ps qs
    by (induction ps) (use q in \<open>auto simp: algebra_simps add_mono\<close>)
  then show ?thesis by (simp add: won_pairs_def)
qed

lemma roc_auc_value:
  assumes "rounding_ok rnd binary64" and "no_nan sc" and "length sc \<le> 2 ^ 25"
    and "positives sc \<noteq> []" and "negatives sc \<noteq> []"
  shows "roc_auc rnd sc = Some (rnd (won_pairs sc / (real (length (positives sc)) * real (length (negatives sc)))))"
proof -
  let ?np = "length (positives sc)" and ?nn = "length (negatives sc)" and ?R = "\<Sum>p\<leftarrow>positives sc. rank2 sc p"
  let ?W = "\<Sum>p\<leftarrow>positives sc. \<Sum>q\<leftarrow>negatives sc. credit p q"
  have n: "?np \<le> 2 ^ 25" "?nn \<le> 2 ^ 25"
    using assms(3) by (auto simp: positives_def negatives_def intro: order_trans [OF length_filter_le])
  have "?R \<le> 2 ^ 25 * (2 * 2 ^ 25 + 1)"
    using rank_sum_bound [of sc "positives sc"] mult_le_mono [OF n(1), of "2 * length sc + 1" "2 * 2 ^ 25 + 1"] assms(3) by simp
  then have R: "?R \<le> 2 ^ 53" by simp
  have "?np * (?np + 1) \<le> 2 ^ 25 * (2 ^ 25 + 1)" using n(1) by (intro mult_le_mono) auto
  then have P: "?np * (?np + 1) \<le> 2 ^ 53" by simp
  have "?np * ?nn \<le> 2 ^ 25 * 2 ^ 25" using n by (rule mult_le_mono)
  then have N: "?np * ?nn \<le> 2 ^ 53" by simp
  have "length sc \<le> 2 ^ 52" using assms(3) by simp
  then obtain i where loop: "rank_loop rnd sc (score_order sc) = Some (i, map (\<lambda>x. Fin (real (rank2 sc (fst x)) / 2)) sc)"
    using rank_loop_result [OF assms(1,2)] by blast
  have sum: "f64_sum rnd (map snd (filter (\<lambda>(s, _). snd s) (zip sc (map (\<lambda>x. Fin (real (rank2 sc (fst x)) / 2)) sc))))
      = Fin (real ?R / 2)"
    using foldl_half_exact [OF assms(1), of 0 "map (rank2 sc) (positives sc)"] R
    by (simp add: positive_ranks [of sc "\<lambda>v. Fin (real (rank2 sc v) / 2)"] f64_sum_def comp_def)
  have base: "f64_div rnd (f64_of_nat rnd (?np * (?np + 1))) (Fin 2) = Fin (real (?np * (?np + 1)) / 2)"
    using half_exact [OF assms(1) P] of_nat_exact [OF assms(1) P] by simp
  have "?R = ?np * (?np + 1) + ?W" by (rule rank_sum)
  then have u: "f64_sub rnd (Fin (real ?R / 2)) (Fin (real (?np * (?np + 1)) / 2)) = Fin (real ?W / 2)"
    using half_exact [OF assms(1), of ?W] R by (simp add: f64_sub_def add_divide_distrib)
  have prod: "f64_mul rnd (f64_of_nat rnd ?np) (f64_of_nat rnd ?nn) = Fin (real (?np * ?nn))"
    using of_nat_exact [OF assms(1) N] of_nat_exact [OF assms(1), of ?np] of_nat_exact [OF assms(1), of ?nn] n
    by (simp add: f64_of_nat_def)
  have "roc_auc rnd sc = Some (f64_div rnd (Fin (real ?W / 2)) (Fin (real (?np * ?nn))))"
    using assms(4,5) by (simp only: roc_auc_def Let_def class_sizes loop option.case prod.case sum base u prod) simp
  then show ?thesis using assms(4,5) by (simp add: won_pairs_credit)
qed

lemma roc_auc_class_empty: "positives sc = [] \<or> negatives sc = [] \<Longrightarrow> roc_auc rnd sc = Some (Fin (1 / 2))"
  unfolding roc_auc_def Let_def class_sizes by auto

lemma roc_auc_value_unit:
  assumes "rounding_ok rnd binary64" and "no_nan sc" and "length sc \<le> 2 ^ 25"
  shows "\<exists>v. roc_auc rnd sc = Some v \<and> f64_unit v"
proof (cases "positives sc = [] \<or> negatives sc = []")
  case False
  have "f64_unit (rnd (won_pairs sc / (real (length (positives sc)) * real (length (negatives sc)))))"
    using won_pairs_unit [of sc] False by (intro rnd_unit [OF assms(1)]) (simp_all add: divide_le_eq)
  then show ?thesis using roc_auc_value [OF assms] False by simp
qed (simp add: roc_auc_class_empty)

section \<open>The properties\<close>

text \<open>C28: The area under the ROC curve the harness reports is the fraction of pairs of a positive and a negative in which
  the positive scores higher, ties counting half, with one rounding only: up to \<open>2 ^ 25\<close> scored sessions every
  intermediate rank and sum is exact. It lies in the unit interval, and is one half when a class is empty.\<close>

theorem roc_auc_counts_pairs:
  assumes "rounding_ok rnd binary64" and "no_nan sc" and "length sc \<le> 2 ^ 25"
  shows "\<exists>v. roc_auc rnd sc = Some v \<and> f64_unit v
     \<and> v = (if positives sc = [] \<or> negatives sc = [] then Fin (1 / 2)
            else rnd (won_pairs sc / (real (length (positives sc)) * real (length (negatives sc)))))"
  using roc_auc_value_unit [OF assms] roc_auc_value [OF assms] roc_auc_class_empty [of sc rnd] by auto

text \<open>Two negatives and one positive, tied with one of them.\<close>

lemma roc_auc_counts_pairs_witness:
  "roc_auc Fin [(Fin 1, False), (Fin 2, True), (Fin 2, False)] = Some (Fin (3 / 4))"
  using roc_auc_counts_pairs [of Fin "[(Fin 1, False), (Fin 2, True), (Fin 2, False)]"]
  by (simp add: no_nan_def positives_def negatives_def won_pairs_def)


end
