(* ===== verification/Evaluation.thy ===== *)
theory Evaluation
  imports Baseline Roc Detect
begin

text \<open>
  The evaluation harness (\<^verbatim>\<open>plugins/plugin-agent-detect/src/eval.rs\<close>): evaders as interpolated profiles, the confusion
  counts and metrics at the production threshold, the head-to-head with the learned baseline, the replay of a session
  through the sequential test, the cost to evade, and the ablation by evasion family. What draws from the generator is a
  \<open>rand\<close> computation; what uses the ROC estimator is an \<open>option\<close>, which is never \<open>None\<close> since the estimator returns.
\<close>

section \<open>Evaders\<close>

definition lerp :: "rounding \<Rightarrow> f64 \<Rightarrow> f64 \<Rightarrow> f64 \<Rightarrow> f64" where
  "lerp rnd t x y = f64_add rnd x (f64_mul rnd (f64_sub rnd y x) t)"

definition lerp2 :: "rounding \<Rightarrow> f64 \<Rightarrow> f64 \<times> f64 \<Rightarrow> f64 \<times> f64 \<Rightarrow> f64 \<times> f64" where
  "lerp2 rnd t x y = (lerp rnd t (fst x) (fst y), lerp rnd t (snd x) (snd y))"

definition lerp_params :: "rounding \<Rightarrow> profile_params \<Rightarrow> profile_params \<Rightarrow> f64 \<Rightarrow> profile_params" where
  "lerp_params rnd a b t =
     \<lparr>keystroke_lognormal = lerp2 rnd t (keystroke_lognormal a) (keystroke_lognormal b),
      think_lognormal = lerp2 rnd t (think_lognormal a) (think_lognormal b),
      backspace_p = lerp rnd t (backspace_p a) (backspace_p b),
      paste_p = lerp rnd t (paste_p a) (paste_p b),
      pp_entropy = lerp2 rnd t (pp_entropy a) (pp_entropy b),
      pp_commands = lerp2 rnd t (pp_commands a) (pp_commands b),
      keystrokes_per_cmd = lerp2 rnd t (keystrokes_per_cmd a) (keystrokes_per_cmd b),
      think_autocorr = lerp rnd t (think_autocorr a) (think_autocorr b),
      think_fatigue = lerp rnd t (think_fatigue a) (think_fatigue b)\<rparr>"

definition evade :: "rounding \<Rightarrow> f64 \<Rightarrow> profile_params" where
  "evade rnd t = lerp_params rnd (agent rnd) (human rnd) t"

datatype evasion_tactic = KeystrokeTiming | ThinkTime | PasteAvoidance | FakeBackspaces | TemporalStructure

definition ALL_TACTICS :: "evasion_tactic list" where
  "ALL_TACTICS = [KeystrokeTiming, ThinkTime, PasteAvoidance, FakeBackspaces, TemporalStructure]"

fun tactic_label :: "evasion_tactic \<Rightarrow> string" where
  "tactic_label KeystrokeTiming = ''keystroke-timing''"
| "tactic_label ThinkTime = ''think-time''"
| "tactic_label PasteAvoidance = ''paste-avoidance''"
| "tactic_label FakeBackspaces = ''fake-backspaces''"
| "tactic_label TemporalStructure = ''temporal-structure''"

text \<open>\<^verbatim>\<open>as u64\<close>\<close>

fun discriminant :: "evasion_tactic \<Rightarrow> u64" where
  "discriminant KeystrokeTiming = 0"
| "discriminant ThinkTime = 1"
| "discriminant PasteAvoidance = 2"
| "discriminant FakeBackspaces = 3"
| "discriminant TemporalStructure = 4"

definition evade_tactic :: "rounding \<Rightarrow> evasion_tactic \<Rightarrow> f64 \<Rightarrow> profile_params" where
  "evade_tactic rnd tac t =
     (let a = agent rnd; h = human rnd
      in case tac of
           KeystrokeTiming \<Rightarrow> a\<lparr>keystroke_lognormal := lerp2 rnd t (keystroke_lognormal a) (keystroke_lognormal h)\<rparr>
         | ThinkTime \<Rightarrow> a\<lparr>think_lognormal := lerp2 rnd t (think_lognormal a) (think_lognormal h)\<rparr>
         | PasteAvoidance \<Rightarrow> a\<lparr>paste_p := lerp rnd t (paste_p a) (paste_p h)\<rparr>
         | FakeBackspaces \<Rightarrow> a\<lparr>backspace_p := lerp rnd t (backspace_p a) (backspace_p h)\<rparr>
         | TemporalStructure \<Rightarrow>
             a\<lparr>think_autocorr := lerp rnd t (think_autocorr a) (think_autocorr h),
               think_fatigue := lerp rnd t (think_fatigue a) (think_fatigue h)\<rparr>)"

section \<open>Metrics\<close>

record eval_report =
  er_n_per_class :: nat
  er_tp :: nat
  er_fp :: nat
  er_tn :: nat
  er_fn :: nat
  er_precision :: f64
  er_recall :: f64
  er_f1 :: f64
  er_accuracy :: f64
  er_auc :: f64
  er_uncertain_rate :: f64

definition safe_div :: "rounding \<Rightarrow> f64 \<Rightarrow> f64 \<Rightarrow> f64" where
  "safe_div rnd a b = (if f64_eq b (Fin 0) then Fin 0 else f64_div rnd a b)"

definition score :: "libm \<Rightarrow> model \<Rightarrow> session_accumulator \<Rightarrow> f64 option" where
  "score M m acc = map_option (\<lambda>f. p_agent (assess M m f)) (features M acc)"

text \<open>The score of a drawn session with its label, and whether its verdict is undecided.\<close>

definition scored_session :: "maths \<Rightarrow> model \<Rightarrow> profile_params \<times> bool \<Rightarrow> ((f64 \<times> bool) \<times> bool) list rand" where
  "scored_session R m pl = do {
     acc \<leftarrow> synth_session R (fst pl);
     State_Monad.return
       (case score (ma_libm R) m acc of
          None \<Rightarrow> []
        | Some p \<Rightarrow> [((p, snd pl),
            \<exists>f. features (ma_libm R) acc = Some f \<and> as_verdict (assess (ma_libm R) m f) = Uncertain)])
   }"

definition confusion :: "f64 \<Rightarrow> scored \<Rightarrow> bool \<Rightarrow> bool \<Rightarrow> nat" where
  "confusion threshold sc predicted is_agent =
     length (filter (\<lambda>(p, l). f64_le threshold p = predicted \<and> l = is_agent) sc)"

definition report_of :: "rounding \<Rightarrow> f64 \<Rightarrow> nat \<Rightarrow> ((f64 \<times> bool) \<times> bool) list \<Rightarrow> eval_report option" where
  "report_of rnd threshold n ss =
     (let sc = map fst ss; uncertain = length (filter snd ss); total = length ss;
          tp = confusion threshold sc True True; fp = confusion threshold sc True False;
          tn = confusion threshold sc False False; fn = confusion threshold sc False True;
          real_of = f64_of_nat rnd;
          precision = safe_div rnd (real_of tp) (real_of (tp + fp));
          recall = safe_div rnd (real_of tp) (real_of (tp + fn));
          f1 = safe_div rnd (f64_mul rnd (f64_mul rnd (Fin 2) precision) recall) (f64_add rnd precision recall);
          accuracy = safe_div rnd (real_of (tp + tn)) (real_of (length sc))
      in do {
        auc \<leftarrow> roc_auc rnd sc;
        Some \<lparr>er_n_per_class = n, er_tp = tp, er_fp = fp, er_tn = tn, er_fn = fn, er_precision = precision,
              er_recall = recall, er_f1 = f1, er_accuracy = accuracy, er_auc = auc,
              er_uncertain_rate = safe_div rnd (real_of uncertain) (real_of total)\<rparr>
      })"

definition evaluate_with_evasion :: "maths \<Rightarrow> model \<Rightarrow> nat \<Rightarrow> u64 \<Rightarrow> f64 \<Rightarrow> eval_report option" where
  "evaluate_with_evasion R m n_per_class seed evasion =
     (let classes = [(human (ma_rnd R), False), (evade (ma_rnd R) (f64_clamp (Fin 0) (Fin 1) evasion), True)];
          draw = State_Monad.traverse_list
            (\<lambda>_. State_Monad.traverse_list (scored_session R m) classes) [0..<n_per_class];
          rounds = fst (run_state draw (rng_new seed))
      in report_of (ma_rnd R) (agent_threshold m) n_per_class (concat (concat rounds)))"

definition evaluate :: "maths \<Rightarrow> model \<Rightarrow> nat \<Rightarrow> u64 \<Rightarrow> eval_report option" where
  "evaluate R m n_per_class seed = evaluate_with_evasion R m n_per_class seed (Fin 0)"

section \<open>Transparent model and learned baseline\<close>

record model_comparison =
  mc_evasion :: f64
  mc_transparent_auc :: f64
  mc_learned_auc :: f64

definition test_seed :: "u64 \<Rightarrow> nat \<Rightarrow> u64" where
  "test_seed seed i = seed XOR (0x7E570000 + of_nat i)"

definition compare_at :: "maths \<Rightarrow> logistic_regression \<Rightarrow> nat \<Rightarrow> u64 \<Rightarrow> nat \<Rightarrow> f64 \<Rightarrow> model_comparison option" where
  "compare_at R lr n_test_per_class seed i e =
     (let rnd = ma_rnd R; M = ma_libm R; e' = f64_clamp (Fin 0) (Fin 1) e;
          test = fst (run_state (make_dataset R (evade rnd e') (human rnd) n_test_per_class) (rng_new (test_seed seed i)))
      in do {
        transparent \<leftarrow> roc_auc rnd (map (\<lambda>(f, label). (p_agent (assess M (model_default rnd) f), label)) test);
        learned \<leftarrow> roc_auc rnd (map (\<lambda>(f, label). (predict_proba M lr f, label)) test);
        Some \<lparr>mc_evasion = e', mc_transparent_auc = transparent, mc_learned_auc = learned\<rparr>
      })"

definition compare_models_across_evasion :: "maths \<Rightarrow> nat \<Rightarrow> nat \<Rightarrow> u64 \<Rightarrow> f64 list \<Rightarrow> model_comparison option list" where
  "compare_models_across_evasion R n_train_per_class n_test_per_class seed budgets =
     (let rnd = ma_rnd R;
          data = fst (run_state (make_dataset R (agent rnd) (human rnd) n_train_per_class) (rng_new seed));
          lr = train (ma_libm R) data (train_default rnd)
      in map (\<lambda>(i, e). compare_at R lr n_test_per_class seed i e) (enumerate 0 budgets))"

end
