(* ===== verification/Evasion.thy ===== *)
theory Evasion
  imports Evaluation
begin

text \<open>
  The evasion measurements of the harness (\<^verbatim>\<open>plugins/plugin-agent-detect/src/eval.rs\<close>, second half): the replay of a
  synthetic session through the sequential test, the escape curves and the cost to evade, and the ablation by evasion family.
\<close>

unbundle bit_operations_syntax

section \<open>The replay of a session\<close>

record replay_state =
  rp_acc :: session_accumulator
  rp_since :: u32
  rp_logit :: f64
  rp_inited :: bool
  rp_escalated :: bool

definition replay_start :: replay_state where
  "replay_start = \<lparr>rp_acc = accumulator_default, rp_since = 0, rp_logit = Fin 0, rp_inited = False, rp_escalated = False\<rparr>"

definition replay_step :: "libm \<Rightarrow> model \<Rightarrow> detect_config \<Rightarrow> replay_state \<Rightarrow> replay_state" where
  "replay_step M m cfg st =
     (case features M (rp_acc st) of
        None \<Rightarrow> st
      | Some f \<Rightarrow>
          let a = assess M m f; llr = log_likelihood_ratio M a; rnd = lm_rnd M;
              logit = (if rp_inited st
                       then f64_add rnd (f64_mul rnd (ewma_alpha cfg) llr)
                              (f64_mul rnd (f64_sub rnd (Fin 1) (ewma_alpha cfg)) (rp_logit st))
                       else llr)
          in st\<lparr>rp_logit := logit, rp_inited := True,
                rp_escalated := (if f64_le (escalate_logit cfg) logit \<and> as_verdict a = Uncertain \<and> \<not> rp_escalated st
                                 then True else rp_escalated st)\<rparr>)"

definition replay_event :: "libm \<Rightarrow> model \<Rightarrow> detect_config \<Rightarrow> replay_state \<Rightarrow> observation \<Rightarrow> replay_state" where
  "replay_event M m cfg st ob =
     (let st1 = st\<lparr>rp_acc := record_obs (lm_rnd M) (rp_acc st) ob, rp_since := rp_since st + 1\<rparr>
      in if assess_every cfg \<le> rp_since st1 then replay_step M m cfg (st1\<lparr>rp_since := 0\<rparr>) else st1)"

text \<open>The verdict of the last snapshot, and the sequential verdict.\<close>

definition replay_session :: "libm \<Rightarrow> model \<Rightarrow> detect_config \<Rightarrow> observation list \<Rightarrow> verdict \<times> verdict" where
  "replay_session M m cfg events =
     (let st = foldl (replay_event M m cfg) replay_start events;
          single = (case features M (rp_acc st) of Some f \<Rightarrow> as_verdict (assess M m f) | None \<Rightarrow> Uncertain)
      in (single, if rp_escalated (replay_step M m cfg st) then Agent else single))"

definition run_session_sequential :: "maths \<Rightarrow> model \<Rightarrow> profile_params \<Rightarrow> detect_config \<Rightarrow> (verdict \<times> verdict) rand" where
  "run_session_sequential R m params cfg = do {
     events \<leftarrow> synth_events R params 22;
     State_Monad.return (replay_session (ma_libm R) m cfg events)
   }"

section \<open>Cost to evade\<close>

definition fraction :: "rounding \<Rightarrow> nat \<Rightarrow> nat \<Rightarrow> f64" where
  "fraction rnd k n = f64_div rnd (f64_of_nat rnd k) (f64_of_nat rnd n)"

definition agent_caught_fractions :: "maths \<Rightarrow> model \<Rightarrow> profile_params \<Rightarrow> nat \<Rightarrow> (f64 \<times> f64) rand" where
  "agent_caught_fractions R m params n = do {
     vs \<leftarrow> State_Monad.traverse_list
       (\<lambda>_. run_session_sequential R m params (detect_default (ma_rnd R))) [0..<n];
     State_Monad.return
       (fraction (ma_rnd R) (length (filter (\<lambda>v. fst v = Agent) vs)) n,
        fraction (ma_rnd R) (length (filter (\<lambda>v. snd v = Agent) vs)) n)
   }"

record escape_curve =
  ec_budget :: f64
  caught_single :: f64
  caught_seq :: f64

text \<open>The budget as the integer that salts the seeds.\<close>

definition per_mille :: "rounding \<Rightarrow> f64 \<Rightarrow> u64" where
  "per_mille rnd e = f64_to_u64 (f64_mul rnd e (Fin 1000))"

definition caught_at :: "maths \<Rightarrow> model \<Rightarrow> nat \<Rightarrow> f64 \<Rightarrow> u64 \<Rightarrow> f64 \<times> f64" where
  "caught_at R m n e seed =
     fst (run_state (agent_caught_fractions R m (evade (ma_rnd R) e) n)
            (rng_new (seed XOR (0xC0570000 + per_mille (ma_rnd R) e))))"

definition escape_at :: "maths \<Rightarrow> model \<Rightarrow> nat \<Rightarrow> u64 list \<Rightarrow> f64 \<Rightarrow> escape_curve" where
  "escape_at R m n_per_class seeds e0 =
     (let rnd = ma_rnd R; e = f64_clamp (Fin 0) (Fin 1) e0;
          caught = map (caught_at R m n_per_class e) seeds;
          n = f64_of_nat rnd (length seeds)
      in \<lparr>ec_budget = e, caught_single = f64_div rnd (f64_sum rnd (map fst caught)) n,
          caught_seq = f64_div rnd (f64_sum rnd (map snd caught)) n\<rparr>)"

definition escape_curves :: "maths \<Rightarrow> model \<Rightarrow> nat \<Rightarrow> u64 list \<Rightarrow> f64 list \<Rightarrow> escape_curve list" where
  "escape_curves R m n_per_class seeds grid = map (escape_at R m n_per_class seeds) grid"

definition human_seq_fp_rate :: "maths \<Rightarrow> model \<Rightarrow> nat \<Rightarrow> u64 list \<Rightarrow> f64" where
  "human_seq_fp_rate R m n_per_class seeds =
     (let rnd = ma_rnd R;
          caught = map (\<lambda>seed. snd (fst (run_state (agent_caught_fractions R m (human rnd) n_per_class)
                     (rng_new (seed XOR 0x40550000))))) seeds
      in f64_div rnd (f64_sum rnd caught) (f64_of_nat rnd (length seeds)))"

text \<open>The budget at which the curve passes the target between two grid points.\<close>

definition crossing_between :: "rounding \<Rightarrow> f64 \<Rightarrow> f64 \<times> f64 \<Rightarrow> f64 \<times> f64 \<Rightarrow> f64" where
  "crossing_between rnd tau a b =
     (let denom = f64_sub rnd (snd a) (snd b);
          frac = (if f64_lt (rnd (1 / 10 ^ 12)) (f64_abs denom)
                  then f64_clamp (Fin 0) (Fin 1) (f64_div rnd (f64_sub rnd (snd a) tau) denom) else Fin 0)
      in f64_add rnd (fst a) (f64_mul rnd (f64_sub rnd (fst b) (fst a)) frac))"

fun crossing_windows :: "rounding \<Rightarrow> f64 \<Rightarrow> (f64 \<times> f64) list \<Rightarrow> f64" where
  "crossing_windows rnd tau (a # b # rest) =
     (if f64_lt (snd b) tau then crossing_between rnd tau a b else crossing_windows rnd tau (b # rest))"
| "crossing_windows rnd tau _ = Fin 1"

definition crossing :: "rounding \<Rightarrow> f64 \<Rightarrow> (f64 \<times> f64) list \<Rightarrow> f64" where
  "crossing rnd tau curve =
     (case curve of
        [] \<Rightarrow> Fin 1
      | a # _ \<Rightarrow> if f64_lt (snd a) tau then fst a else crossing_windows rnd tau curve)"

record evade_cost =
  cte_tau :: f64
  e_single :: f64
  e_seq :: f64
  seq_premium :: f64
  human_seq_fp :: f64

definition cost_to_evade :: "maths \<Rightarrow> model \<Rightarrow> nat \<Rightarrow> u64 list \<Rightarrow> f64 list \<Rightarrow> f64 list \<Rightarrow> evade_cost list" where
  "cost_to_evade R m n_per_class seeds grid taus =
     (let rnd = ma_rnd R; curves = escape_curves R m n_per_class seeds grid;
          single = map (\<lambda>c. (ec_budget c, caught_single c)) curves;
          seq = map (\<lambda>c. (ec_budget c, caught_seq c)) curves;
          fp = human_seq_fp_rate R m n_per_class seeds
      in map (\<lambda>tau. let a = crossing rnd tau single; b = crossing rnd tau seq
                    in \<lparr>cte_tau = tau, e_single = a, e_seq = b, seq_premium = f64_max (f64_sub rnd b a) (Fin 0),
                        human_seq_fp = fp\<rparr>) taus)"

section \<open>Ablation by family of evasion\<close>

record ablation_point =
  ap_effort :: f64
  ap_auc :: f64
  mean_p_agent_agent :: f64

record tactic_ablation =
  ta_tactic :: evasion_tactic
  ta_points :: "ablation_point list"
  auc_drop :: f64
  p_agent_drop :: f64
  area_p_agent :: f64
  near_zero_slope :: f64

definition ablation_session :: "maths \<Rightarrow> model \<Rightarrow> u32 \<Rightarrow> profile_params \<times> bool \<Rightarrow> scored rand" where
  "ablation_session R m min_commands pl = do {
     events \<leftarrow> synth_events R (fst pl) min_commands;
     State_Monad.return
       (case score (ma_libm R) m (accumulated (ma_rnd R) events) of None \<Rightarrow> [] | Some p \<Rightarrow> [(p, snd pl)])
   }"

definition ablation_seed :: "rounding \<Rightarrow> evasion_tactic \<Rightarrow> f64 \<Rightarrow> u64 \<Rightarrow> u64" where
  "ablation_seed rnd tac t seed = seed XOR (discriminant tac * 0x9E3779B9 + per_mille rnd t)"

definition ablation_draw :: "maths \<Rightarrow> model \<Rightarrow> evasion_tactic \<Rightarrow> nat \<Rightarrow> u32 \<Rightarrow> f64 \<Rightarrow> u64 \<Rightarrow> scored" where
  "ablation_draw R m tac n min_commands t seed =
     (let classes = [(human (ma_rnd R), False), (evade_tactic (ma_rnd R) tac t, True)];
          draw = State_Monad.traverse_list
            (\<lambda>_. State_Monad.traverse_list (ablation_session R m min_commands) classes) [0..<n]
      in concat (concat (fst (run_state draw (rng_new (ablation_seed (ma_rnd R) tac t seed))))))"

definition mean_or_zero :: "rounding \<Rightarrow> f64 list \<Rightarrow> f64" where
  "mean_or_zero rnd ps = (if ps = [] then Fin 0 else mean_of rnd ps)"

text \<open>One seed adds to the sums of the areas and of the mean scores.\<close>

definition ablation_add :: "maths \<Rightarrow> model \<Rightarrow> evasion_tactic \<Rightarrow> nat \<Rightarrow> u32 \<Rightarrow> f64 \<Rightarrow> (f64 \<times> f64) option \<Rightarrow> u64 \<Rightarrow> (f64 \<times> f64) option" where
  "ablation_add R m tac n min_commands t totals seed =
     (let rnd = ma_rnd R; sc = ablation_draw R m tac n min_commands t seed
      in do {
        (a, p) \<leftarrow> totals;
        auc \<leftarrow> roc_auc rnd sc;
        Some (f64_add rnd a auc, f64_add rnd p (mean_or_zero rnd (positives sc)))
      })"

definition ablation_point_at :: "maths \<Rightarrow> model \<Rightarrow> evasion_tactic \<Rightarrow> nat \<Rightarrow> u64 list \<Rightarrow> u32 \<Rightarrow> f64 \<Rightarrow> ablation_point option" where
  "ablation_point_at R m tac n seeds min_commands t0 =
     (let rnd = ma_rnd R; t = f64_clamp (Fin 0) (Fin 1) t0; k = f64_of_nat rnd (length seeds)
      in do {
        (a, p) \<leftarrow> foldl (ablation_add R m tac n min_commands t) (Some (Fin 0, Fin 0)) seeds;
        Some \<lparr>ap_effort = t, ap_auc = f64_div rnd a k, mean_p_agent_agent = f64_div rnd p k\<rparr>
      })"

definition trapezoid :: "rounding \<Rightarrow> ablation_point \<times> ablation_point \<Rightarrow> f64" where
  "trapezoid rnd ab =
     (case ab of (a, b) \<Rightarrow>
        f64_mul rnd (f64_mul rnd (Fin (1 / 2)) (f64_add rnd (mean_p_agent_agent a) (mean_p_agent_agent b)))
          (f64_sub rnd (ap_effort b) (ap_effort a)))"

definition slope_at_zero :: "rounding \<Rightarrow> ablation_point list \<Rightarrow> f64" where
  "slope_at_zero rnd points =
     (case points of
        a # b # _ \<Rightarrow>
          let dt = f64_sub rnd (ap_effort b) (ap_effort a)
          in if f64_lt (rnd (1 / 10 ^ 12)) (f64_abs dt)
             then f64_div rnd (f64_sub rnd (mean_p_agent_agent a) (mean_p_agent_agent b)) dt else Fin 0
      | _ \<Rightarrow> Fin 0)"

definition ablation_of :: "rounding \<Rightarrow> evasion_tactic \<Rightarrow> ablation_point list \<Rightarrow> tactic_ablation" where
  "ablation_of rnd tac points =
     (let first = (case points of [] \<Rightarrow> \<lparr>ap_effort = Fin 0, ap_auc = Fin (1 / 2), mean_p_agent_agent = Fin 0\<rparr> | a # _ \<Rightarrow> a);
          final = (if points = [] then first else last points)
      in \<lparr>ta_tactic = tac, ta_points = points, auc_drop = f64_sub rnd (ap_auc first) (ap_auc final),
          p_agent_drop = f64_sub rnd (mean_p_agent_agent first) (mean_p_agent_agent final),
          area_p_agent = f64_sum rnd (map (trapezoid rnd) (zip points (tl points))),
          near_zero_slope = slope_at_zero rnd points\<rparr>)"

definition ablate_one :: "maths \<Rightarrow> model \<Rightarrow> evasion_tactic \<Rightarrow> nat \<Rightarrow> u64 list \<Rightarrow> f64 list \<Rightarrow> u32 \<Rightarrow> tactic_ablation option" where
  "ablate_one R m tac n seeds effort_grid min_commands =
     map_option (ablation_of (ma_rnd R) tac)
       (those (map (ablation_point_at R m tac n seeds min_commands) effort_grid))"

definition per_tactic_ablation_min_commands ::
  "maths \<Rightarrow> model \<Rightarrow> nat \<Rightarrow> u64 list \<Rightarrow> f64 list \<Rightarrow> u32 \<Rightarrow> tactic_ablation option list" where
  "per_tactic_ablation_min_commands R m n seeds effort_grid min_commands =
     map (\<lambda>tac. ablate_one R m tac n seeds effort_grid min_commands) ALL_TACTICS"

definition per_tactic_ablation :: "maths \<Rightarrow> model \<Rightarrow> nat \<Rightarrow> u64 list \<Rightarrow> f64 list \<Rightarrow> tactic_ablation option list" where
  "per_tactic_ablation R m n seeds effort_grid = per_tactic_ablation_min_commands R m n seeds effort_grid 0"

end
