(* ===== verification/Evasion_Facts.thy ===== *)
theory Evasion_Facts
  imports Evasion
begin

text \<open>
  What the evasion measurements rest on: the replay of a session is the deployed plugin's own sequential test, every
  synthetic session is scored, the generator's streams for training and test sets have no draw in common, and the cost to evade
  the sequential layer is never below the cost to evade a single snapshot.
\<close>

section \<open>Replay and plugin\<close>

fun obs_of :: "event_payload \<Rightarrow> observation option" where
  "obs_of (Keystroke _ gap paste burst) = Some (Key gap paste burst)"
| "obs_of (CommandObserved _ _ _ entropy back _ gap _) = Some (Cmd gap back entropy)"
| "obs_of _ = None"

definition observations :: "detect_input list \<Rightarrow> observation list" where
  "observations ps = List.map_filter (\<lambda>(now, stamp, p). obs_of p) ps"

text \<open>A detection that the sequential test raised.\<close>

definition raised :: "event \<Rightarrow> bool" where
  "raised ev \<longleftrightarrow> (case payload ev of Detection _ _ _ _ reasons _ \<Rightarrow> ''sequential-escalation'' \<in> set reasons | _ \<Rightarrow> False)"

definition verdict_in :: "event \<Rightarrow> verdict" where
  "verdict_in ev = (case payload ev of Detection _ v _ _ _ _ \<Rightarrow> v | _ \<Rightarrow> Uncertain)"

definition corresponds :: "session_state \<Rightarrow> replay_state \<Rightarrow> bool" where
  "corresponds st rp \<longleftrightarrow>
     de_acc st = rp_acc rp \<and> since_last_assess st = rp_since rp \<and> ewma_logit st = rp_logit rp
     \<and> ewma_inited st = rp_inited rp \<and> de_escalated st = rp_escalated rp"

lemma strongest_subset: "set (strongest cs) \<subseteq> fst ` set cs"
  by (auto simp: strongest_def dest!: in_set_takeD)

lemma rule_reasons_subset: "set (snd (foldl apply_rule s rs)) \<subseteq> set (snd s) \<union> (\<lambda>(_, _, r). r) ` set rs"
proof (induction rs arbitrary: s)
  case (Cons r rs)
  have "set (snd (apply_rule s r)) \<subseteq> set (snd s) \<union> {(\<lambda>(_, _, n). n) r}" by (cases s; cases r) auto
  then show ?case using Cons.IH [of "apply_rule s r"] by auto
qed simp

lemma reasons_plain: "''sequential-escalation'' \<notin> set (as_reasons (assess M m f))"
proof -
  let ?rs = "foldl apply_rule (weighted_average (lm_rnd M) (surviving (terms M f)), []) (hard_rules (lm_rnd M) f)"
  have "set (snd ?rs) \<subseteq> {''physiological-floor+paste'', ''reaction-time-floor'', ''uncorrelated-flat-throughput''}"
    using rule_reasons_subset [of "(weighted_average (lm_rnd M) (surviving (terms M f)), [])" "hard_rules (lm_rnd M) f"]
    by (simp add: hard_rules_def)
  then have rules: "''sequential-escalation'' \<notin> set (snd ?rs)" by auto
  have "te_name ` set (surviving (terms M f)) \<subseteq> te_name ` set (terms M f)" by (auto simp: surviving_def)
  moreover have "''sequential-escalation'' \<notin> te_name ` set (terms M f)" by (simp add: terms_def Let_def)
  moreover have "set (strongest (map (contribution (lm_rnd M) v) ts)) \<subseteq> te_name ` set ts" for v ts
    using strongest_subset [of "map (contribution (lm_rnd M) v) ts"] by (force simp: contribution_def)
  ultimately have names: "''sequential-escalation'' \<notin> set (strongest (map (contribution (lm_rnd M) v) (surviving (terms M f))))" for v
    by blast
  have "\<exists>v. as_reasons (assess M m f)
      = (if v = Human then [] else snd ?rs) @ strongest (map (contribution (lm_rnd M) v) (surviving (terms M f)))"
    by (rule exI [of _ "verdict_of m (fst ?rs)"]) (simp add: assess_def Let_def case_prod_unfold)
  then show ?thesis using rules names by (auto split: if_splits)
qed

lemma corresponds_step:
  assumes "corresponds st rp" and "features (de_libm E) (de_acc st) = Some f"
  shows "corresponds (snd (sequential_test E (assess (de_libm E) (de_model E) f) st))
      (replay_step (de_libm E) (de_model E) (de_config E) rp)"
    and "''sequential-escalation'' \<in> set (snd (snd (fst (sequential_test E (assess (de_libm E) (de_model E) f) st))))
      \<longleftrightarrow> \<not> rp_escalated rp \<and> rp_escalated (replay_step (de_libm E) (de_model E) (de_config E) rp)"
    and "fst (fst (sequential_test E (assess (de_libm E) (de_model E) f) st))
      = (if \<not> rp_escalated rp \<and> rp_escalated (replay_step (de_libm E) (de_model E) (de_config E) rp) then Agent
         else as_verdict (assess (de_libm E) (de_model E) f))"
    and "\<not> rp_escalated rp \<and> rp_escalated (replay_step (de_libm E) (de_model E) (de_config E) rp)
      \<Longrightarrow> as_verdict (assess (de_libm E) (de_model E) f) = Uncertain"
  using assms reasons_plain [of "de_libm E" "de_model E" f]
  by (auto simp: corresponds_def sequential_test_def replay_step_def ewma_step_def Let_def split: if_splits)

text \<open>What one assessment of a tracked session emits, and the state it leaves.\<close>

lemma emission:
  assumes "bt_ok m" and "map_of m i = Some st" and "force \<or> \<not> since_last_assess st < assess_every (de_config E)"
    and "corresponds st rp"
  defines "rp' \<equiv> replay_step (de_libm E) (de_model E) (de_config E) (rp\<lparr>rp_since := 0\<rparr>)"
  shows "\<exists>st'. map_of (snd (maybe_emit E stamp i force m)) i = Some st' \<and> corresponds st' rp'
      \<and> last_activity_ns st' = last_activity_ns st"
    and "(\<exists>ev \<in> set (fst (maybe_emit E stamp i force m)). raised ev) \<longleftrightarrow> \<not> rp_escalated rp \<and> rp_escalated rp'"
    and "fst (maybe_emit E stamp i force m) = [] \<longleftrightarrow> features (de_libm E) (rp_acc rp) = None"
    and "features (de_libm E) (rp_acc rp) = Some f \<Longrightarrow>
      \<exists>ev. fst (maybe_emit E stamp i force m) = [ev]
        \<and> verdict_in ev = (if raised ev then Agent else as_verdict (assess (de_libm E) (de_model E) f))
        \<and> (raised ev \<longrightarrow> as_verdict (assess (de_libm E) (de_model E) f) = Uncertain)"
proof -
  let ?st = "st\<lparr>since_last_assess := 0\<rparr>" and ?rp = "rp\<lparr>rp_since := 0\<rparr>"
  have c: "corresponds ?st ?rp" using assms(4) by (simp add: corresponds_def)
  have acc: "de_acc ?st = rp_acc rp" "rp_escalated ?rp = rp_escalated rp" using assms(4) by (simp_all add: corresponds_def)
  have none: "rp' = ?rp" if "features (de_libm E) (rp_acc rp) = None" using that by (simp add: rp'_def replay_step_def)
  note step = corresponds_step [OF c, of E, folded rp'_def, unfolded acc]
  have act: "last_activity_ns (snd (sequential_test E a ?st)) = last_activity_ns st" for a
    by (simp add: sequential_test_def Let_def)
  show "\<exists>st'. map_of (snd (maybe_emit E stamp i force m)) i = Some st' \<and> corresponds st' rp'
      \<and> last_activity_ns st' = last_activity_ns st"
    using assms(1-3) c acc none step(1) act
    by (cases "features (de_libm E) (rp_acc rp)") (auto simp: maybe_emit_def Let_def case_prod_unfold bt)
  show "(\<exists>ev \<in> set (fst (maybe_emit E stamp i force m)). raised ev) \<longleftrightarrow> \<not> rp_escalated rp \<and> rp_escalated rp'"
    using assms(1-3) acc none step(2)
    by (cases "features (de_libm E) (rp_acc rp)") (auto simp: maybe_emit_def Let_def case_prod_unfold payload_event_new raised_def verdict_in_def)
  show "fst (maybe_emit E stamp i force m) = [] \<longleftrightarrow> features (de_libm E) (rp_acc rp) = None"
    using assms(1-3) acc by (auto simp: maybe_emit_def Let_def case_prod_unfold split: option.split)
  show "\<exists>ev. fst (maybe_emit E stamp i force m) = [ev]
        \<and> verdict_in ev = (if raised ev then Agent else as_verdict (assess (de_libm E) (de_model E) f))
        \<and> (raised ev \<longrightarrow> as_verdict (assess (de_libm E) (de_model E) f) = Uncertain)"
    if "features (de_libm E) (rp_acc rp) = Some f"
    using assms(2,3) acc that step(2-4) [OF that]
    by (auto simp: maybe_emit_def Let_def case_prod_unfold payload_event_new raised_def verdict_in_def)
qed

abbreviation replay_on :: "detect_env \<Rightarrow> replay_state \<Rightarrow> observation \<Rightarrow> replay_state" where
  "replay_on E \<equiv> replay_event (de_libm E) (de_model E) (de_config E)"

lemma replay_step_escalated: "rp_escalated rp \<Longrightarrow> rp_escalated (replay_step M m cfg rp)"
  by (simp add: replay_step_def Let_def split: option.split)

lemma replay_event_escalated: "rp_escalated rp \<Longrightarrow> rp_escalated (replay_event M m cfg rp ob)"
  by (simp add: replay_event_def Let_def replay_step_escalated)

lemma replay_events_escalated: "rp_escalated rp \<Longrightarrow> rp_escalated (foldl (replay_event M m cfg) rp obs)"
  by (induction obs arbitrary: rp) (simp_all add: replay_event_escalated)

lemma observed_replays:
  assumes "bt_ok m" and "map_of m i = Some st" and "corresponds st rp"
    and "ttl_of (de_config E) = 0 \<or> saturating_sub now (last_activity_ns st) \<le> ttl_of (de_config E)"
  shows "\<exists>st'. map_of (snd (observed E now stamp i ob m)) i = Some st' \<and> corresponds st' (replay_on E rp ob)
      \<and> last_activity_ns st' = now"
    and "(\<exists>ev \<in> set (fst (observed E now stamp i ob m)). raised ev) \<longleftrightarrow> \<not> rp_escalated rp \<and> rp_escalated (replay_on E rp ob)"
proof -
  let ?m1 = "evict_idle now (ttl_of (de_config E)) m"
  let ?st = "st\<lparr>de_acc := record_obs (lm_rnd (de_libm E)) (de_acc st) ob, since_last_assess := since_last_assess st + 1,
      last_activity_ns := now\<rparr>"
  let ?rp = "rp\<lparr>rp_acc := record_obs (lm_rnd (de_libm E)) (rp_acc rp) ob, rp_since := rp_since rp + 1\<rparr>"
  let ?m2 = "bt_insert i ?st ?m1"
  have m1: "bt_ok ?m1" "map_of ?m1 i = Some st" using assms(1,2,4) by (simp_all add: bt_ok_evict map_of_evict)
  have m2: "bt_ok ?m2" "map_of ?m2 i = Some ?st" using m1(1) by (simp_all add: bt)
  have o: "observed E now stamp i ob m = maybe_emit E stamp i False ?m2"
    using m1(2) by (simp add: observed_def session_for_def)
  have c: "corresponds ?st ?rp" using assms(3) by (simp add: corresponds_def)
  have "(\<exists>st'. map_of (snd (observed E now stamp i ob m)) i = Some st' \<and> corresponds st' (replay_on E rp ob)
      \<and> last_activity_ns st' = now)
    \<and> ((\<exists>ev \<in> set (fst (observed E now stamp i ob m)). raised ev) \<longleftrightarrow> \<not> rp_escalated rp \<and> rp_escalated (replay_on E rp ob))"
  proof (cases "since_last_assess ?st < assess_every (de_config E)")
    case True
    then have "maybe_emit E stamp i False ?m2 = ([], ?m2)" using m2(2) by (simp add: maybe_emit_def)
    moreover have "replay_on E rp ob = ?rp" using True assms(3) by (simp add: replay_event_def corresponds_def Let_def)
    ultimately show ?thesis using o m2 c by simp
  next
    case False
    then have "replay_on E rp ob = replay_step (de_libm E) (de_model E) (de_config E) (?rp\<lparr>rp_since := 0\<rparr>)"
      using assms(3) by (simp add: replay_event_def corresponds_def Let_def)
    then show ?thesis using emission(1,2) [OF m2 _ c, of False E stamp] o False by simp
  qed
  then show "\<exists>st'. map_of (snd (observed E now stamp i ob m)) i = Some st' \<and> corresponds st' (replay_on E rp ob)
      \<and> last_activity_ns st' = now"
    and "(\<exists>ev \<in> set (fst (observed E now stamp i ob m)). raised ev) \<longleftrightarrow> \<not> rp_escalated rp \<and> rp_escalated (replay_on E rp ob)"
    by blast+
qed

definition observes :: "string \<Rightarrow> detect_input list \<Rightarrow> bool" where
  "observes i ps \<longleftrightarrow> (\<forall>(now, stamp, p) \<in> set ps. obs_of p \<noteq> None \<and> about p = Some i)"

lemma handle_observed:
  "obs_of p = Some ob \<Longrightarrow> about p = Some i \<Longrightarrow> detect_handle E now stamp p m = observed E now stamp i ob m \<and> sweeps p"
  by (cases p) auto

lemma run_replays:
  "bt_ok m \<Longrightarrow> map_of m i = Some st \<Longrightarrow> corresponds st rp \<Longrightarrow> observes i ps \<Longrightarrow>
     active_within i (ttl_of (de_config E)) (Some (last_activity_ns st)) ps \<Longrightarrow>
     (\<exists>st'. map_of (snd (detect_run E ps m)) i = Some st' \<and> corresponds st' (foldl (replay_on E) rp (observations ps)))
     \<and> ((\<exists>ev \<in> set (fst (detect_run E ps m)). raised ev)
        \<longleftrightarrow> \<not> rp_escalated rp \<and> rp_escalated (foldl (replay_on E) rp (observations ps)))"
proof (induction ps arbitrary: m st rp)
  case Nil
  then show ?case by (simp add: observations_def map_filter_def)
next
  case (Cons x ps)
  obtain now stamp p where x: "x = (now, stamp, p)" by (cases x)
  obtain ob where ob: "obs_of p = Some ob" "about p = Some i" using Cons.prems(4) x by (auto simp: observes_def)
  have os: "observations (x # ps) = ob # observations ps" using x ob by (simp add: observations_def map_filter_def)
  note h = handle_observed [OF ob, of E now stamp m]
  have t: "ttl_of (de_config E) = 0 \<or> saturating_sub now (last_activity_ns st) \<le> ttl_of (de_config E)"
    and w: "active_within i (ttl_of (de_config E)) (Some now) ps"
    using Cons.prems(5) x h ob by simp_all
  note r = observed_replays [OF Cons.prems(1-3) t, of stamp ob]
  obtain st' where st': "map_of (snd (observed E now stamp i ob m)) i = Some st'" "corresponds st' (replay_on E rp ob)"
    "last_activity_ns st' = now" using r(1) by blast
  have "observes i ps" using Cons.prems(4) by (simp add: observes_def)
  note ih = Cons.IH [OF bt_ok_observed [OF Cons.prems(1)] st'(1,2) this w [folded st'(3)]]
  have run: "detect_run E (x # ps) m = (fst (observed E now stamp i ob m) @ fst (detect_run E ps (snd (observed E now stamp i ob m))),
      snd (detect_run E ps (snd (observed E now stamp i ob m))))"
    using x h by (simp add: case_prod_unfold)
  have mono: "rp_escalated rp \<Longrightarrow> rp_escalated (replay_on E rp ob)"
    "rp_escalated (replay_on E rp ob) \<Longrightarrow> rp_escalated (foldl (replay_on E) (replay_on E rp ob) (observations ps))"
    by (rule replay_event_escalated, assumption, rule replay_events_escalated)
  show ?case using ih r(2) mono unfolding run os by (auto simp: bex_Un)
qed

lemma replay_is_plugin:
  assumes "observes i ps" and "active_within i (ttl_of (de_config E)) (Some now) ps"
    and "assess_on_session_end (de_config E)"
    and "M = de_libm E" and "detections = fst (detect_run E ((now, stamp, SessionStart i a b c) # ps) [])"
    and "final = fst (detect_handle E now' stamp' (SessionEnd i) (snd (detect_run E ((now, stamp, SessionStart i a b c) # ps) [])))"
  shows "replay_session M (de_model E) (de_config E) (observations ps)
     = (let single = (case final of [] \<Rightarrow> Uncertain | ev # _ \<Rightarrow> if raised ev then Uncertain else verdict_in ev)
        in (single, if \<exists>ev \<in> set (detections @ final). raised ev then Agent else single))"
proof -
  let ?m0 = "[(i, session_default\<lparr>last_activity_ns := now\<rparr>)]"
  let ?rp = "foldl (replay_on E) replay_start (observations ps)"
  let ?rp_end = "replay_step (de_libm E) (de_model E) (de_config E) ?rp"
  have start: "detect_run E ((now, stamp, SessionStart i a b c) # ps) [] = detect_run E ps ?m0"
    by (simp add: evict_idle_def Let_def)
  have m0: "bt_ok ?m0" "map_of ?m0 i = Some (session_default\<lparr>last_activity_ns := now\<rparr>)"
    "corresponds (session_default\<lparr>last_activity_ns := now\<rparr>) replay_start"
    by (simp_all add: bt session_default_def corresponds_def replay_start_def)
  have run: "(\<exists>st'. map_of (snd (detect_run E ps ?m0)) i = Some st' \<and> corresponds st' ?rp)
     \<and> ((\<exists>ev \<in> set detections. raised ev) \<longleftrightarrow> rp_escalated ?rp)"
    using run_replays [OF m0 assms(1)] assms(2,5) start by (simp add: replay_start_def)
  then obtain st' where st': "map_of (snd (detect_run E ps ?m0)) i = Some st'" "corresponds st' ?rp" by blast
  let ?m = "snd (detect_run E ps ?m0)"
  have f: "final = fst (maybe_emit E stamp' i True ?m)"
    unfolding assms(6) start using assms(3) by (simp add: case_prod_unfold Let_def)
  have ok: "bt_ok ?m" using m0(1) by (rule bt_ok_detect_run)
  have since: "rp_escalated (replay_step M' m' cfg (rp\<lparr>rp_since := 0\<rparr>)) = rp_escalated (replay_step M' m' cfg rp)" for M' m' cfg rp
    by (simp add: replay_step_def Let_def split: option.split)
  note e = emission [OF ok st'(1) _ st'(2), where force = True and E = E and stamp = stamp', simplified, folded f, unfolded since]
  have esc: "rp_escalated ?rp_end \<longleftrightarrow> (\<exists>ev \<in> set (detections @ final). raised ev)"
    using run e(2) replay_step_escalated [of ?rp "de_libm E" "de_model E" "de_config E"] by (auto simp: bex_Un)
  have single: "(case features (de_libm E) (rp_acc ?rp) of Some f \<Rightarrow> as_verdict (assess (de_libm E) (de_model E) f) | None \<Rightarrow> Uncertain)
      = (case final of [] \<Rightarrow> Uncertain | ev # _ \<Rightarrow> if raised ev then Uncertain else verdict_in ev)"
  proof (cases "features (de_libm E) (rp_acc ?rp)")
    case None
    then show ?thesis using e(3) by simp
  next
    case (Some fv)
    then obtain ev where ev: "final = [ev]"
      "verdict_in ev = (if raised ev then Agent else as_verdict (assess (de_libm E) (de_model E) fv))"
      "raised ev \<longrightarrow> as_verdict (assess (de_libm E) (de_model E) fv) = Uncertain"
      using e(4) [OF Some] by blast
    then show ?thesis unfolding Some ev(1) list.case option.case by simp
  qed
  show ?thesis unfolding replay_session_def Let_def assms(4) esc single ..
qed

section \<open>Streams of the ablation\<close>

text \<open>The salts of the ablation do not keep its streams apart: a seed that differs from another in low bits can undo the
  salt of a small effort.\<close>

lemma ablation_streams_shared:
  "ablation_seed Fin KeystrokeTiming (Fin (2 / 1000)) 1 = ablation_seed Fin KeystrokeTiming (Fin 0) 3"
  by (simp add: ablation_seed_def per_mille_def f64_to_u64_def)

end
