(* ===== verification/Evaluation_Facts.thy ===== *)
theory Evaluation_Facts
  imports Evaluation
begin

text \<open>
  What the metrics of the harness rest on: every synthetic session is scored, so the confusion counts are those of the
  whole cohort, and the training and test sets are drawn from streams without a common draw.
\<close>

unbundle bit_operations_syntax

section \<open>Every session is scored\<close>

lemma pred_traverse:
  "(\<And>x. x \<in> set xs \<Longrightarrow> pred_state (P x) (f x)) \<Longrightarrow> pred_state (list_all2 P xs) (State_Monad.traverse_list f xs)"
proof (induction xs)
  case (Cons x xs)
  have "pred_state (list_all2 P xs) (State_Monad.traverse_list f xs)" "pred_state (P x) (f x)" using Cons by simp_all
  then show ?case by (auto intro!: pred_bind elim!: pred_bind)
qed simp

lemma p_agent_number: "libm_ok M binary64 \<Longrightarrow> p_agent (assess M m f) \<noteq> NaN"
  using assess_p_agent [of M m f] by (auto simp: f64_unit_def)

definition one_score :: "profile_params \<times> bool \<Rightarrow> ((f64 \<times> bool) \<times> bool) list \<Rightarrow> bool" where
  "one_score pl ss \<longleftrightarrow> (\<exists>p u. ss = [((p, snd pl), u)] \<and> p \<noteq> NaN)"

lemma scored_session_one:
  assumes "libm_ok (ma_libm R) binary64"
  shows "pred_state (one_score pl) (scored_session R m pl)"
  unfolding scored_session_def
proof (rule pred_bind [OF synth_session_evidence])
  show "rounding_ok (ma_rnd R) binary64" using assms by (rule libm_rounding)
  fix acc assume "enough_evidence acc"
  then obtain f where "features (ma_libm R) acc = Some f" using enough_features by blast
  then show "pred_state (one_score pl) (State_Monad.return (case score (ma_libm R) m acc of None \<Rightarrow> []
      | Some p \<Rightarrow> [((p, snd pl), \<exists>f. features (ma_libm R) acc = Some f \<and> as_verdict (assess (ma_libm R) m f) = Uncertain)]))"
    using p_agent_number [OF assms] by (simp add: score_def one_score_def)
qed

text \<open>A round over the two classes yields one negative and one positive.\<close>

definition round_ok :: "((f64 \<times> bool) \<times> bool) list \<Rightarrow> bool" where
  "round_ok ss \<longleftrightarrow> map (\<lambda>s. snd (fst s)) ss = [False, True] \<and> (\<forall>s \<in> set ss. fst (fst s) \<noteq> NaN)"

lemma round_scores: "list_all2 one_score [(h, False), (a, True)] ss \<Longrightarrow> round_ok (concat ss)"
  by (auto simp: list_all2_Cons1 one_score_def round_ok_def)

lemma rounds_scores:
  "list_all2 (\<lambda>_ ss. round_ok (concat ss)) js rounds \<Longrightarrow>
     length (filter (\<lambda>s. snd (fst s)) (concat (concat rounds))) = length js
     \<and> length (filter (\<lambda>s. \<not> snd (fst s)) (concat (concat rounds))) = length js
     \<and> (\<forall>s \<in> set (concat (concat rounds)). fst (fst s) \<noteq> NaN)"
proof (induction rule: list_all2_induct)
  case (Cons j js ss rounds)
  have "length (filter (\<lambda>s. snd (fst s)) xs) = 1 \<and> length (filter (\<lambda>s. \<not> snd (fst s)) xs) = 1"
    if "map (\<lambda>s. snd (fst s)) xs = [False, True]" for xs :: "((f64 \<times> bool) \<times> bool) list"
    using that by (auto simp: map_eq_Cons_conv)
  then show ?case using Cons by (simp add: round_ok_def) blast
qed simp

lemma confusion_split: "confusion t sc True l + confusion t sc False l = length (filter (\<lambda>x. snd x = l) sc)"
  by (induction sc) (auto simp: confusion_def)

lemma drawn_cohort:
  fixes m :: model
  assumes "libm_ok (ma_libm R) binary64"
  defines "draw \<equiv> \<lambda>h a n s. concat (concat (fst (run_state (State_Monad.traverse_list
      (\<lambda>_. State_Monad.traverse_list (scored_session R m) [(h, False), (a, True)]) [0..<n]) s)))"
  shows "length (filter (\<lambda>s. snd (fst s)) (draw h a n s)) = n"
    and "length (filter (\<lambda>s. \<not> snd (fst s)) (draw h a n s)) = n"
    and "\<forall>s \<in> set (draw h a n s). fst (fst s) \<noteq> NaN"
proof -
  have round: "pred_state (\<lambda>ss. round_ok (concat ss)) (State_Monad.traverse_list (scored_session R m) [(h, False), (a, True)])"
    by (rule state.pred_mono_strong [OF pred_traverse [OF scored_session_one [OF assms(1)]]]) (rule round_scores)
  have "pred_state (list_all2 (\<lambda>_ ss. round_ok (concat ss)) [0..<n])
      (State_Monad.traverse_list (\<lambda>_. State_Monad.traverse_list (scored_session R m) [(h, False), (a, True)]) [0..<n])"
    by (rule pred_traverse [OF round])
  note r = rounds_scores [OF pred_state_run_state [OF this, of s]]
  show "length (filter (\<lambda>s. snd (fst s)) (draw h a n s)) = n" "length (filter (\<lambda>s. \<not> snd (fst s)) (draw h a n s)) = n"
    "\<forall>s \<in> set (draw h a n s). fst (fst s) \<noteq> NaN"
    using r by (simp_all add: draw_def)
qed

lemma safe_div_count:
  assumes "rounding_ok rnd binary64" and "k \<le> n" and "0 < n" and "n \<le> 2 ^ 53"
  shows "safe_div rnd (f64_of_nat rnd k) (f64_of_nat rnd n) = rnd (real k / real n)"
  using assms of_nat_exact [OF assms(1), of k] of_nat_exact [OF assms(1), of n] by (simp add: safe_div_def f64_eq_def)

text \<open>The report on a cohort with \<open>n\<close> scored sessions of each class.\<close>

lemma report_counts:
  assumes "rounding_ok rnd binary64" and "n \<le> 2 ^ 24"
    and "length (filter (\<lambda>s. snd (fst s)) ss) = n" and "length (filter (\<lambda>s. \<not> snd (fst s)) ss) = n"
    and "\<forall>s \<in> set ss. fst (fst s) \<noteq> NaN"
  shows "\<exists>r. report_of rnd t n ss = Some r \<and> er_tp r + er_fn r = n \<and> er_fp r + er_tn r = n \<and> f64_unit (er_auc r)
     \<and> (0 < n \<longrightarrow> er_recall r = rnd (real (er_tp r) / real n)
          \<and> er_accuracy r = rnd (real (er_tp r + er_tn r) / real (2 * n)))"
proof -
  let ?sc = "map fst ss" and ?c = "confusion t (map fst ss)"
  have pos: "length (filter (\<lambda>x. snd x = True) ?sc) = n" "length (filter (\<lambda>x. snd x = False) ?sc) = n"
    using assms(3,4) by (simp_all add: filter_map comp_def)
  have len: "length ss = 2 * n" using sum_length_filter_compl [of "\<lambda>s. snd (fst s)" ss] assms(3,4) by simp
  have c: "?c True True + ?c False True = n" "?c True False + ?c False False = n"
    using confusion_split [of t ?sc] pos by auto
  obtain auc where auc: "roc_auc rnd ?sc = Some auc" "f64_unit auc"
    using roc_auc_value_unit [OF assms(1), of ?sc] assms(2,5) len by (auto simp: no_nan_def)
  have "\<exists>p f u. report_of rnd t n ss = Some \<lparr>er_n_per_class = n, er_tp = ?c True True, er_fp = ?c True False,
      er_tn = ?c False False, er_fn = ?c False True, er_precision = p,
      er_recall = safe_div rnd (f64_of_nat rnd (?c True True)) (f64_of_nat rnd n), er_f1 = f,
      er_accuracy = safe_div rnd (f64_of_nat rnd (?c True True + ?c False False)) (f64_of_nat rnd (2 * n)),
      er_auc = auc, er_uncertain_rate = u\<rparr>"
    unfolding report_of_def Let_def auc(1) using c(1) len by simp
  then obtain p f u where r: "report_of rnd t n ss = Some \<lparr>er_n_per_class = n, er_tp = ?c True True, er_fp = ?c True False,
      er_tn = ?c False False, er_fn = ?c False True, er_precision = p,
      er_recall = safe_div rnd (f64_of_nat rnd (?c True True)) (f64_of_nat rnd n), er_f1 = f,
      er_accuracy = safe_div rnd (f64_of_nat rnd (?c True True + ?c False False)) (f64_of_nat rnd (2 * n)),
      er_auc = auc, er_uncertain_rate = u\<rparr>" by blast
  have "2 * n \<le> 2 ^ 53" using assms(2) by simp
  then show ?thesis unfolding r using c auc(2) safe_div_count [OF assms(1), of "?c True True" n]
      safe_div_count [OF assms(1), of "?c True True + ?c False False" "2 * n"] by auto
qed

section \<open>The properties\<close>

text \<open>The harness scores every session it draws: whatever the profile of the evader, each drawn session has enough
  evidence, so the four confusion counts add up to the whole cohort of each class, recall and accuracy are their correctly rounded
  fractions, and the area is a number of the unit interval.\<close>

theorem evaluation_complete:
  assumes "libm_ok (ma_libm R) binary64" and "n \<le> 2 ^ 24"
  shows "\<exists>r. evaluate_with_evasion R m n seed e = Some r \<and> er_tp r + er_fn r = n \<and> er_fp r + er_tn r = n
     \<and> f64_unit (er_auc r)
     \<and> (0 < n \<longrightarrow> er_recall r = ma_rnd R (real (er_tp r) / real n)
          \<and> er_accuracy r = ma_rnd R (real (er_tp r + er_tn r) / real (2 * n)))"
  unfolding evaluate_with_evasion_def Let_def
  by (rule report_counts [OF libm_rounding [OF assms(1)] assms(2) drawn_cohort [OF assms(1)]])

definition demo_maths :: maths where
  "demo_maths = \<lparr>ma_libm = real_libm, ma_cos = (\<lambda>_. Fin 1)\<rparr>"

lemma demo_maths_simps [simp]: "ma_libm demo_maths = real_libm" "lm_rnd real_libm = Fin"
  by (simp_all add: demo_maths_def real_libm_def)

lemma evaluation_complete_witness:
  "\<exists>r. evaluate_with_evasion demo_maths (model_default Fin) 300 12345 (Fin (1 / 2)) = Some r
     \<and> er_tp r + er_fn r = 300 \<and> er_fp r + er_tn r = 300 \<and> er_recall r = Fin (real (er_tp r) / 300)"
  using evaluation_complete [of demo_maths 300 "model_default Fin" 12345 "Fin (1 / 2)"] by auto

lemma xor_small: "a < 2 ^ 32 \<Longrightarrow> b < 2 ^ 32 \<Longrightarrow> a XOR b < (2 ^ 32 :: u64)"
proof -
  have small: "x < 2 ^ 32 \<longleftrightarrow> drop_bit 32 x = 0" for x :: u64
    by (simp add: word_less_nat_alt drop_bit_eq_div unat_div div_eq_0_iff flip: unat_eq_zero)
  show "a < 2 ^ 32 \<Longrightarrow> b < 2 ^ 32 \<Longrightarrow> a XOR b < 2 ^ 32" unfolding small by simp
qed

lemma salted_seed: "seed XOR (seed XOR salt) = (salt :: u64)"
  by (simp flip: xor.assoc)

lemma test_salt: "i < 2 ^ 16 \<Longrightarrow> (0x7E570000 + of_nat i :: u64) < 2 ^ 32 \<and> unat (0x7E570000 + of_nat i :: u64) = 0x7E570000 + i"
  by (simp add: word_less_nat_alt unat_word_ariths unat_of_nat)

text \<open>The test sets are disjoint from the training set and from each other: the generators of the training set and of
  the test sets of the first 65536 budgets have no draw in common among their first 2971215073 draws, and one generator does not
  repeat a draw among them.\<close>

theorem test_streams_disjoint:
  assumes "i < 2 ^ 16" and "j < 2 ^ 16" and "i \<noteq> j" and "m \<le> 2971215073" and "n \<le> 2971215073"
  shows "set (fst (run_state (draws m) (rng_new seed))) \<inter> set (fst (run_state (draws n) (rng_new (test_seed seed i)))) = {}
     \<and> set (fst (run_state (draws m) (rng_new (test_seed seed i)))) \<inter> set (fst (run_state (draws n) (rng_new (test_seed seed j)))) = {}
     \<and> distinct (fst (run_state (draws m) (rng_new seed)))"
proof -
  note si = test_salt [OF assms(1)] and sj = test_salt [OF assms(2)]
  have x: "seed XOR test_seed seed i = 0x7E570000 + of_nat i" by (simp add: test_seed_def salted_seed)
  then have "seed \<noteq> test_seed seed i" using si by (metis unat_0 xor_self_eq add_eq_0_iff_both_eq_0 zero_neq_numeral)
  moreover have "test_seed seed i XOR test_seed seed j = (0x7E570000 + of_nat i) XOR (0x7E570000 + of_nat j)"
    by (simp add: test_seed_def bit_eq_iff bit_simps) blast
  moreover have "(0x7E570000 + of_nat i) XOR (0x7E570000 + of_nat j) < (2 ^ 32 :: u64)"
    using si sj by (simp only: xor_small)
  moreover have "test_seed seed i \<noteq> test_seed seed j"
    using si sj assms(3) salted_seed [of seed] by (metis add_left_cancel test_seed_def)
  ultimately show ?thesis
    using streams_disjoint [of seed "test_seed seed i" m n] streams_disjoint [of "test_seed seed i" "test_seed seed j" m n]
      stream_distinct [of m "rng_new seed"] x si assms(4,5) by simp
qed

lemma test_streams_disjoint_witness:
  "set (fst (run_state (draws 1000000) (rng_new 12345))) \<inter> set (fst (run_state (draws 1000000) (rng_new (test_seed 12345 0)))) = {}
   \<and> distinct (fst (run_state (draws 1000000) (rng_new 12345)))"
  using test_streams_disjoint [of 0 1 1000000 1000000 12345] by (simp only: numeral_less_iff) simp

end
