(* ===== verification/Evasion_Cost.thy ===== *)
theory Evasion_Cost
  imports Evasion_Facts Evaluation_Facts
begin

text \<open>
  The cost to evade: the sequential layer catches every session a single snapshot catches, so its escape curve lies above, and
  the crossing of a higher curve comes later. The crossing is analysed in exact arithmetic.
\<close>

section \<open>Caught sessions\<close>

lemma replay_dominates: "fst (replay_session M m cfg os) = Agent \<Longrightarrow> snd (replay_session M m cfg os) = Agent"
  by (simp add: replay_session_def Let_def)

lemma length_filter_mono: "(\<And>x. x \<in> set xs \<Longrightarrow> P x \<Longrightarrow> Q x) \<Longrightarrow> length (filter P xs) \<le> length (filter Q xs)"
  by (induction xs) (auto simp: le_SucI)

text \<open>The counts behind the two fractions of a cohort.\<close>

definition counts_to :: "rounding \<Rightarrow> nat \<Rightarrow> f64 \<times> f64 \<Rightarrow> bool" where
  "counts_to rnd n c \<longleftrightarrow> (\<exists>k l. k \<le> l \<and> l \<le> n \<and> c = (fraction rnd k n, fraction rnd l n))"

lemma caught_counts: "pred_state (counts_to (ma_rnd R) n) (agent_caught_fractions R m params n)"
  unfolding agent_caught_fractions_def
proof (rule pred_bind [OF pred_traverse [where P = "\<lambda>_ v. fst v = Agent \<longrightarrow> snd v = Agent"]])
  show "pred_state (\<lambda>v. fst v = Agent \<longrightarrow> snd v = Agent) (run_session_sequential R m params (detect_default (ma_rnd R)))" for x :: nat
    unfolding run_session_sequential_def by (rule pred_bind [where Q = "\<lambda>_. True"]) (simp_all add: replay_dominates)
  fix vs :: "(verdict \<times> verdict) list"
  assume v: "list_all2 (\<lambda>_ v. fst v = Agent \<longrightarrow> snd v = Agent) [0..<n] vs"
  then have len: "length vs = n" using list_all2_lengthD by fastforce
  have "fst v = Agent \<longrightarrow> snd v = Agent" if "v \<in> set vs" for v
    using v that by (auto simp: list_all2_conv_all_nth in_set_conv_nth)
  then have "length (filter (\<lambda>v. fst v = Agent) vs) \<le> length (filter (\<lambda>v. snd v = Agent) vs)"
    by (intro length_filter_mono) blast
  moreover have "length (filter (\<lambda>v. snd v = Agent) vs) \<le> n" using len length_filter_le by fastforce
  ultimately show "pred_state (counts_to (ma_rnd R) n) (State_Monad.return
      (fraction (ma_rnd R) (length (filter (\<lambda>v. fst v = Agent) vs)) n,
       fraction (ma_rnd R) (length (filter (\<lambda>v. snd v = Agent) vs)) n))"
    by (auto simp: counts_to_def)
qed

lemma caught_at_counts: "counts_to (ma_rnd R) n (caught_at R m n e seed)"
  unfolding caught_at_def by (rule pred_state_run_state [OF caught_counts])

section \<open>Exact escape curves\<close>

lemma sum_fractions:
  "0 < n \<Longrightarrow> \<forall>c \<in> set cs. counts_to Fin n c \<Longrightarrow>
     \<exists>k l. k \<le> l \<and> l \<le> n * length cs
       \<and> foldl (f64_add Fin) (Fin a) (map fst cs) = Fin (a + real k / real n)
       \<and> foldl (f64_add Fin) (Fin b) (map snd cs) = Fin (b + real l / real n)"
proof (induction cs arbitrary: a b)
  case Nil
  then show ?case by (intro exI [of _ 0]) simp
next
  case (Cons c cs)
  obtain k l where c: "k \<le> l" "l \<le> n" "c = (Fin (real k / real n), Fin (real l / real n))"
    using Cons.prems by (auto simp: counts_to_def fraction_def f64_of_nat_def)
  obtain k' l' where r: "k' \<le> l'" "l' \<le> n * length cs"
    "foldl (f64_add Fin) (Fin (a + real k / real n)) (map fst cs) = Fin (a + real k / real n + real k' / real n)"
    "foldl (f64_add Fin) (Fin (b + real l / real n)) (map snd cs) = Fin (b + real l / real n + real l' / real n)"
    using Cons.IH [of "a + real k / real n" "b + real l / real n"] Cons.prems by auto
  show ?case
    by (rule exI [of _ "k + k'"], rule exI [of _ "l + l'"]) (use c r in \<open>simp add: add_divide_distrib\<close>)
qed

text \<open>A point of the curves as a budget and the two counts, over \<open>N\<close> sessions in all.\<close>

definition curve_point :: "nat \<Rightarrow> real \<times> nat \<times> nat \<Rightarrow> escape_curve" where
  "curve_point N p =
     \<lparr>ec_budget = Fin (fst p), caught_single = Fin (real (fst (snd p)) / real N), caught_seq = Fin (real (snd (snd p)) / real N)\<rparr>"

lemma escape_at_point:
  assumes "ma_rnd R = Fin" and "0 < n" and "seeds \<noteq> []"
  shows "\<exists>k l. k \<le> l \<and> escape_at R m n seeds (Fin g) = curve_point (n * length seeds) (max 0 (min 1 g), k, l)"
proof -
  let ?e = "f64_clamp (Fin 0) (Fin 1) (Fin g)"
  have e: "?e = Fin (max 0 (min 1 g))" by (auto simp: f64_clamp_def)
  have "\<forall>c \<in> set (map (caught_at R m n ?e) seeds). counts_to Fin n c"
    using caught_at_counts [of R n m ?e] assms(1) by auto
  then obtain k l where kl: "k \<le> l" "f64_sum Fin (map fst (map (caught_at R m n ?e) seeds)) = Fin (real k / real n)"
    "f64_sum Fin (map snd (map (caught_at R m n ?e) seeds)) = Fin (real l / real n)"
    using sum_fractions [OF assms(2), of "map (caught_at R m n ?e) seeds" 0 0] by (auto simp: f64_sum_def)
  have "escape_at R m n seeds (Fin g) = curve_point (n * length seeds) (max 0 (min 1 g), k, l)"
    unfolding escape_at_def Let_def assms(1) kl(2,3) using assms(2,3)
    by (simp add: curve_point_def e f64_of_nat_def)
  then show ?thesis using kl(1) by blast
qed

section \<open>Crossings\<close>

text \<open>A column of the curve: the budgets with the fractions of one layer.\<close>

definition column :: "nat \<Rightarrow> (nat \<times> nat \<Rightarrow> nat) \<Rightarrow> (real \<times> nat \<times> nat) list \<Rightarrow> (f64 \<times> f64) list" where
  "column N f ps = map (\<lambda>p. (Fin (fst p), Fin (real (f (snd p)) / real N))) ps"

definition meets :: "real \<Rightarrow> real \<Rightarrow> real \<Rightarrow> real \<Rightarrow> real \<Rightarrow> real" where
  "meets t e0 c0 e1 c1 = e0 + (e1 - e0) * ((c0 - t) / (c0 - c1))"

lemma fraction_gap:
  assumes "real k1 / real N < real k0 / real N" and "N < 10 ^ 12"
  shows "1 / 10 ^ 12 < real k0 / real N - real k1 / real N"
proof -
  have N: "0 < N" using assms(1) by (cases N) auto
  then have "k1 + 1 \<le> k0" using assms(1) by (simp add: divide_less_cancel)
  then have "1 / real N \<le> real k0 / real N - real k1 / real N"
    using N by (simp add: diff_divide_distrib [symmetric] divide_right_mono)
  moreover have "1 / 10 ^ 12 < 1 / real N" using N assms(2) by (simp add: frac_less2)
  ultimately show ?thesis by linarith
qed

lemma crossing_between_meets:
  assumes "t \<le> c0" and "c1 < t" and "1 / 10 ^ 12 < c0 - c1"
  shows "crossing_between Fin (Fin t) (Fin e0, Fin c0) (Fin e1, Fin c1) = Fin (meets t e0 c0 e1 c1)"
proof -
  define x where "x = (c0 - t) / (c0 - c1)"
  have x: "0 \<le> x" "x \<le> 1" using assms by (simp_all add: x_def)
  have "f64_div Fin (Fin (c0 - t)) (Fin (c0 - c1)) = Fin x" using assms by (simp add: x_def)
  then show ?thesis using assms x by (simp add: crossing_between_def Let_def f64_sub_def f64_clamp_def meets_def flip: x_def)
qed

lemma meets_range:
  assumes "t \<le> c0" and "c1 < t" and "e0 \<le> e1"
  shows "e0 \<le> meets t e0 c0 e1 c1 \<and> meets t e0 c0 e1 c1 \<le> e1"
proof -
  have "0 \<le> (c0 - t) / (c0 - c1)" "(c0 - t) / (c0 - c1) \<le> 1" using assms by simp_all
  then have "0 \<le> (e1 - e0) * ((c0 - t) / (c0 - c1))" "(e1 - e0) * ((c0 - t) / (c0 - c1)) \<le> e1 - e0"
    using assms(3) by (simp_all only: mult_nonneg_nonneg diff_ge_0_iff_ge mult_left_le)
  then show ?thesis by (simp add: meets_def)
qed

lemma meets_mono:
  assumes "t \<le> c0" and "c1 < t" and "d1 < t" and "c0 \<le> d0" and "c1 \<le> d1" and "e0 \<le> e1"
  shows "meets t e0 c0 e1 c1 \<le> meets t e0 d0 e1 d1"
proof -
  have "(c0 - t) * (t - d1) \<le> (d0 - t) * (t - c1)" using assms by (intro mult_mono) auto
  then have "(c0 - t) * (d0 - d1) \<le> (d0 - t) * (c0 - c1)" by (simp add: algebra_simps)
  then have "(c0 - t) / (c0 - c1) \<le> (d0 - t) / (d0 - d1)" using assms by (simp add: divide_le_eq pos_le_divide_eq mult.commute)
  then show ?thesis unfolding meets_def using assms(6) by (intro add_left_mono mult_left_mono) simp_all
qed

text \<open>From a point not below the target, the crossing lies between that point and the end of the scale.\<close>

lemma crossing_later:
  assumes "N < 10 ^ 12"
  shows "sorted (map fst (p # ps)) \<Longrightarrow> \<forall>q \<in> set (p # ps). fst q \<le> 1 \<Longrightarrow> t \<le> real (f (snd p)) / real N \<Longrightarrow>
     \<exists>b. crossing_windows Fin (Fin t) (column N f (p # ps)) = Fin b \<and> fst p \<le> b \<and> b \<le> 1"
proof (induction ps arbitrary: p)
  case Nil
  then show ?case by (simp add: column_def)
next
  case (Cons q ps)
  show ?case
  proof (cases "real (f (snd q)) / real N < t")
    case True
    then have "1 / 10 ^ 12 < real (f (snd p)) / real N - real (f (snd q)) / real N"
      using Cons.prems(3) by (intro fraction_gap [OF _ assms]) linarith
    note m = crossing_between_meets [OF Cons.prems(3) True this, of "fst p" "fst q"]
    have "fst p \<le> fst q" using Cons.prems(1) by simp
    note r = meets_range [OF Cons.prems(3) True this]
    have "fst q \<le> 1" using Cons.prems(2) by simp
    then show ?thesis using True m r by (simp add: column_def)
  next
    case False
    then have "\<exists>b. crossing_windows Fin (Fin t) (column N f (q # ps)) = Fin b \<and> fst q \<le> b \<and> b \<le> 1"
      using Cons.IH [of q] Cons.prems by simp
    then show ?thesis using False Cons.prems(1) by (auto simp: column_def)
  qed
qed

lemma crossing_later_dominates:
  assumes "N < 10 ^ 12"
  shows "sorted (map fst (p # ps)) \<Longrightarrow> \<forall>q \<in> set (p # ps). fst q \<le> 1 \<and> fst (snd q) \<le> snd (snd q) \<Longrightarrow>
     t \<le> real (fst (snd p)) / real N \<Longrightarrow>
     \<exists>a b. crossing_windows Fin (Fin t) (column N fst (p # ps)) = Fin a
       \<and> crossing_windows Fin (Fin t) (column N snd (p # ps)) = Fin b \<and> fst p \<le> a \<and> a \<le> b \<and> b \<le> 1"
proof (induction ps arbitrary: p)
  case Nil
  then show ?case by (simp add: column_def)
next
  case (Cons q ps)
  let ?c = "\<lambda>r. real (fst (snd r)) / real N" and ?d = "\<lambda>r. real (snd (snd r)) / real N"
  have le: "?c p \<le> ?d p" "?c q \<le> ?d q" "fst p \<le> fst q" "fst q \<le> 1" using Cons.prems by (auto intro: divide_right_mono)
  consider "t \<le> ?c q" | "?c q < t" "t \<le> ?d q" | "?c q < t" "?d q < t" by linarith
  then show ?case
  proof cases
    case 1
    then have "\<not> ?c q < t" "\<not> ?d q < t" using le by auto
    moreover have "\<exists>a b. crossing_windows Fin (Fin t) (column N fst (q # ps)) = Fin a
       \<and> crossing_windows Fin (Fin t) (column N snd (q # ps)) = Fin b \<and> fst q \<le> a \<and> a \<le> b \<and> b \<le> 1"
      using Cons.IH [of q] Cons.prems 1 by simp
    ultimately show ?thesis using le(3) by (auto simp: column_def)
  next
    case 2
    have "1 / 10 ^ 12 < ?c p - ?c q" using Cons.prems(3) 2 by (intro fraction_gap [OF _ assms]) linarith
    note m = crossing_between_meets [OF Cons.prems(3) 2(1) this, of "fst p" "fst q"]
      and r = meets_range [OF Cons.prems(3) 2(1) le(3)]
    obtain b where "crossing_windows Fin (Fin t) (column N snd (q # ps)) = Fin b" "fst q \<le> b" "b \<le> 1"
      using crossing_later [OF assms, of q ps t snd] Cons.prems 2 by auto
    then show ?thesis using 2 m r by (auto simp: column_def)
  next
    case 3
    have g: "1 / 10 ^ 12 < ?c p - ?c q" "1 / 10 ^ 12 < ?d p - ?d q"
      using Cons.prems(3) 3 le by (intro fraction_gap [OF _ assms]; linarith)+
    have t: "t \<le> ?d p" using Cons.prems(3) le by linarith
    note m = crossing_between_meets [OF Cons.prems(3) 3(1) g(1), of "fst p" "fst q"]
      crossing_between_meets [OF t 3(2) g(2), of "fst p" "fst q"]
    have "fst p \<le> meets t (fst p) (?c p) (fst q) (?c q)" "meets t (fst p) (?d p) (fst q) (?d q) \<le> 1"
      using meets_range [OF Cons.prems(3) 3(1) le(3)] meets_range [OF t 3(2) le(3)] le(4) by linarith+
    then show ?thesis using 3 m meets_mono [OF Cons.prems(3) 3 le(1,2,3)] by (simp add: column_def)
  qed
qed

lemma crossing_dominates:
  assumes "N < 10 ^ 12" and "sorted (map fst ps)" and "\<forall>q \<in> set ps. 0 \<le> fst q \<and> fst q \<le> 1 \<and> fst (snd q) \<le> snd (snd q)"
  shows "\<exists>a b. crossing Fin (Fin t) (column N fst ps) = Fin a \<and> crossing Fin (Fin t) (column N snd ps) = Fin b
     \<and> 0 \<le> a \<and> a \<le> b \<and> b \<le> 1"
proof (cases ps)
  case Nil
  then show ?thesis by (simp add: crossing_def column_def)
next
  case (Cons p qs)
  let ?c = "real (fst (snd p)) / real N" and ?d = "real (snd (snd p)) / real N"
  have le: "?c \<le> ?d" "0 \<le> fst p" "fst p \<le> 1" using assms(3) Cons by (auto intro: divide_right_mono)
  have at: "crossing Fin (Fin t) (column N f ps)
      = (if real (f (snd p)) / real N < t then Fin (fst p) else crossing_windows Fin (Fin t) (column N f (p # qs)))" for f
    using Cons by (simp add: crossing_def column_def)
  consider "t \<le> ?c" | "?c < t" "t \<le> ?d" | "?d < t" by linarith
  then show ?thesis
  proof cases
    case 1
    then have "\<exists>a b. crossing_windows Fin (Fin t) (column N fst (p # qs)) = Fin a
       \<and> crossing_windows Fin (Fin t) (column N snd (p # qs)) = Fin b \<and> fst p \<le> a \<and> a \<le> b \<and> b \<le> 1"
      using crossing_later_dominates [OF assms(1), of p qs t] assms(2,3) Cons by simp
    then obtain a b where ab: "crossing_windows Fin (Fin t) (column N fst (p # qs)) = Fin a"
      "crossing_windows Fin (Fin t) (column N snd (p # qs)) = Fin b" "fst p \<le> a" "a \<le> b" "b \<le> 1" by blast
    show ?thesis
      by (rule exI [of _ a], rule exI [of _ b], unfold at) (use ab 1 le in auto)
  next
    case 2
    then obtain b where b: "crossing_windows Fin (Fin t) (column N snd (p # qs)) = Fin b" "fst p \<le> b" "b \<le> 1"
      using crossing_later [OF assms(1), of p qs t snd] assms(2,3) Cons by auto
    show ?thesis
      by (rule exI [of _ "fst p"], rule exI [of _ b], unfold at) (use b 2 le in auto)
  next
    case 3
    show ?thesis
      by (rule exI [of _ "fst p"], rule exI [of _ "fst p"], unfold at) (use 3 le in auto)
  qed
qed

lemma escape_curves_points:
  assumes "ma_rnd R = Fin" and "0 < n" and "seeds \<noteq> []"
  shows "\<exists>ps. escape_curves R m n seeds (map Fin gs) = map (curve_point (n * length seeds)) ps
     \<and> map fst ps = map (\<lambda>g. max 0 (min 1 g)) gs \<and> (\<forall>p \<in> set ps. fst (snd p) \<le> snd (snd p))"
proof (induction gs)
  case (Cons g gs)
  then obtain ps where "escape_curves R m n seeds (map Fin gs) = map (curve_point (n * length seeds)) ps"
    "map fst ps = map (\<lambda>g. max 0 (min 1 g)) gs" "\<forall>p \<in> set ps. fst (snd p) \<le> snd (snd p)" by blast
  moreover obtain k l where "k \<le> l" "escape_at R m n seeds (Fin g) = curve_point (n * length seeds) (max 0 (min 1 g), k, l)"
    using escape_at_point [OF assms] by blast
  ultimately show ?case
    by (intro exI [of _ "(max 0 (min 1 g), k, l) # ps"]) (simp add: escape_curves_def)
qed (simp add: escape_curves_def)

section \<open>The properties\<close>

text \<open>C29: The replay of the harness is the deployed sequential test: on the observations of a session that stays within the
  idle limit, the sequential verdict is that of an agent exactly when the live plugin raised a detection of that session to
  one, and otherwise both verdicts are that of the detection the plugin emits at the end of the session (undecided when it
  emits none).\<close>

theorem replay_mirrors_plugin:
  assumes "observes i ps" and "active_within i (ttl_of (de_config E)) (Some now) ps" and "assess_on_session_end (de_config E)"
    and "detect_run E ((now, stamp, SessionStart i a b c) # ps) [] = (detections, m)"
    and "detect_handle E now' stamp' (SessionEnd i) m = (final, m')"
  shows "replay_session (de_libm E) (de_model E) (de_config E) (observations ps)
     = (let single = (case final of [] \<Rightarrow> Uncertain | ev # _ \<Rightarrow> if raised ev then Uncertain else verdict_in ev)
        in (single, if list_ex raised (detections @ final) then Agent else single))"
  unfolding list_ex_iff
  by (rule replay_is_plugin [OF assms(1-3) refl, where now' = now' and stamp' = stamp' and stamp = stamp and a = a and b = b and c = c]) (simp_all only: assms(4,5) fst_conv snd_conv)

lemma demo_observes:
  "observes ''a'' [typing ''a'' 2, command ''a'' 3]"
  "active_within ''a'' (ttl_of (de_config demo_detect)) (Some 1) [typing ''a'' 2, command ''a'' 3]"
  by (simp_all add: observes_def demo_inputs saturating_sub_def)

lemma replay_mirrors_plugin_witness:
  "\<exists>detections m final m'.
     detect_run demo_detect [starting ''a'' 1, typing ''a'' 2, command ''a'' 3] [] = (detections, m)
     \<and> detect_handle demo_detect 4 (0, 4) (SessionEnd ''a'') m = (final, m')
     \<and> replay_session real_libm (de_model demo_detect) (detect_default Fin) [Key 0 False 12, Cmd 0 False (Fin 3)]
       = (let single = (case final of [] \<Rightarrow> Uncertain | ev # _ \<Rightarrow> if raised ev then Uncertain else verdict_in ev)
          in (single, if list_ex raised (detections @ final) then Agent else single))"
proof -
  obtain dets m where d: "detect_run demo_detect [starting ''a'' 1, typing ''a'' 2, command ''a'' 3] [] = (dets, m)" by (cases rule: prod.exhaust)
  obtain final m' where f: "detect_handle demo_detect 4 (0, 4) (SessionEnd ''a'') m = (final, m')" by (cases rule: prod.exhaust)
  have os: "observations [typing ''a'' 2, command ''a'' 3] = [Key 0 False 12, Cmd 0 False (Fin 3)]"
    by (simp add: observations_def demo_inputs map_filter_def)
  have "assess_on_session_end (de_config demo_detect)" by simp
  note r = replay_mirrors_plugin [OF demo_observes this d [unfolded starting_def] f, unfolded os demo_detect_simps(1,2)]
  show ?thesis using d f r by blast
qed

text \<open>The sequential layer never lowers the cost to evade: in exact arithmetic, on any ordered grid of budgets and for any
  target, the budget at which evaders escape the sequential test is at least the budget at which they escape a single
  snapshot, both lie in the unit interval, and the reported premium is their difference.\<close>

theorem evasion_costs_more:
  assumes "ma_rnd R = Fin" and "0 < n" and "seeds \<noteq> []" and "n * length seeds < 10 ^ 12" and "sorted gs"
    and "c \<in> set (cost_to_evade R m n seeds (map Fin gs) (map Fin ts))"
  shows "\<exists>a b. e_single c = Fin a \<and> e_seq c = Fin b \<and> 0 \<le> a \<and> a \<le> b \<and> b \<le> 1 \<and> seq_premium c = Fin (b - a)"
proof -
  let ?N = "n * length seeds"
  obtain ps where ps: "escape_curves R m n seeds (map Fin gs) = map (curve_point ?N) ps"
    "map fst ps = map (\<lambda>g. max 0 (min 1 g)) gs" "\<forall>p \<in> set ps. fst (snd p) \<le> snd (snd p)"
    using escape_curves_points [OF assms(1-3)] by blast
  have "sorted (map (\<lambda>g. max 0 (min 1 g)) gs)" using assms(5) by (induction gs) (auto simp: max_def min_def)
  then have s: "sorted (map fst ps)" using ps(2) by simp
  have "fst p \<in> set (map (\<lambda>g. max 0 (min 1 g)) gs)" if "p \<in> set ps" for p using that ps(2) by (metis in_set_conv_nth length_map nth_map nth_mem)
  then have r: "\<forall>p \<in> set ps. 0 \<le> fst p \<and> fst p \<le> 1 \<and> fst (snd p) \<le> snd (snd p)" using ps(3) by fastforce
  have cols: "map (\<lambda>c. (ec_budget c, caught_single c)) (map (curve_point ?N) ps) = column ?N fst ps"
    "map (\<lambda>c. (ec_budget c, caught_seq c)) (map (curve_point ?N) ps) = column ?N snd ps"
    by (simp_all add: column_def curve_point_def comp_def)
  obtain t where "e_single c = crossing Fin (Fin t) (column ?N fst ps)" "e_seq c = crossing Fin (Fin t) (column ?N snd ps)"
    "seq_premium c = f64_max (f64_sub Fin (e_seq c) (e_single c)) (Fin 0)"
    using assms(6) unfolding cost_to_evade_def Let_def assms(1) ps(1) cols by auto
  moreover obtain a b where "crossing Fin (Fin t) (column ?N fst ps) = Fin a" "crossing Fin (Fin t) (column ?N snd ps) = Fin b"
    "0 \<le> a" "a \<le> b" "b \<le> 1" using crossing_dominates [OF assms(4) s r] by blast
  ultimately show ?thesis by (auto simp: f64_sub_def f64_max_def)
qed

lemma evasion_costs_more_witness:
  "\<exists>c a b. cost_to_evade demo_maths (model_default Fin) 200 [1, 2, 3] (map Fin [0, 1 / 2, 1]) (map Fin [1 / 20]) = [c]
     \<and> e_single c = Fin a \<and> e_seq c = Fin b \<and> a \<le> b"
proof -
  let ?cs = "cost_to_evade demo_maths (model_default Fin) 200 [1, 2, 3] (map Fin [0, 1 / 2, 1]) (map Fin [1 / 20])"
  obtain c where c: "?cs = [c]" by (simp add: cost_to_evade_def Let_def)
  then have "c \<in> set ?cs" by simp
  then show ?thesis
    using evasion_costs_more [of demo_maths 200 "[1, 2, 3]" "[0, 1 / 2, 1]" c "model_default Fin" "[1 / 20]"] c by auto
qed

end
