(* ===== verification/Http.thy ===== *)
theory Http
  imports Process
begin

text \<open>
  The management tool's HTTP client (\<^verbatim>\<open>crates/aegis-cli/src/http.rs\<close>) and the query strings it sends (\<^verbatim>\<open>with_query\<close>,
  \<^verbatim>\<open>percent_encode\<close> in \<^verbatim>\<open>main.rs\<close>): the address parser, the request bytes, the response parser. The network is the function
  \<open>net\<close>, from an address, the bytes sent and a state of the world to the bytes read until the end of the stream. The last
  section reads query strings as RFC 3986 does, which is the specification that the encoder is proved against.
\<close>

section \<open>Addresses\<close>

datatype http_error =
    HttpsUnsupported
  | EmptyServer
  | MalformedIpv6 string
  | BadPort string
  | ConnectFailed string
  | IoFailed
  | NoResponse
  | NoHeaderEnd
  | StatusNotUtf8
  | EmptyStatusLine
  | MissingStatus string
  | InvalidStatus string

record target =
  tg_authority :: string
  tg_host_header :: string

definition parse_port :: "string \<Rightarrow> http_error + nat" where
  "parse_port p = (case parse_unsigned 16 p of None \<Rightarrow> Inl (BadPort p) | Some n \<Rightarrow> Inr n)"

definition host_port :: "string \<Rightarrow> http_error + string \<times> nat" where
  "host_port authority =
     (case strip_prefix ''['' authority of
        Some rest \<Rightarrow>
          if CHR '']'' \<in> set rest
          then let host = takeWhile (\<lambda>c. c \<noteq> CHR '']'') rest; after = drop (length host + 1) rest
               in map_sum id (Pair (''['' @ host @ '']''))
                    (case strip_prefix '':'' after of Some p \<Rightarrow> parse_port p | None \<Rightarrow> Inr 80)
          else Inl (MalformedIpv6 authority)
      | None \<Rightarrow>
          (case rsplit_once CHR '':'' authority of
             Some (h, p) \<Rightarrow> if p \<noteq> [] then map_sum id (Pair h) (parse_port p) else Inr (authority, 80)
           | None \<Rightarrow> Inr (authority, 80)))"

definition with_port :: "string \<Rightarrow> nat \<Rightarrow> string" where
  "with_port host port = host @ '':'' @ dec_str port"

definition parse_target :: "string \<Rightarrow> http_error + target" where
  "parse_target server =
     (let s = str_trim server
      in if starts_with ''https://'' s then Inl HttpsUnsupported
         else let without_scheme = (case strip_prefix ''http://'' s of Some r \<Rightarrow> r | None \<Rightarrow> s);
                  authority = takeWhile (\<lambda>c. c \<notin> set ''/?#'') without_scheme
              in if authority = [] then Inl EmptyServer
                 else map_sum id
                   (\<lambda>(host, port). \<lparr>tg_authority = with_port host port,
                                    tg_host_header = (if port = 80 then host else with_port host port)\<rparr>)
                   (host_port authority))"

section \<open>Requests\<close>

definition crlf :: string where "crlf = [CHR 0x0D, CHR 0x0A]"

definition request_head :: "string \<Rightarrow> string \<Rightarrow> string \<Rightarrow> bytes option \<Rightarrow> string" where
  "request_head method path host body =
     method @ '' '' @ path @ '' HTTP/1.1'' @ crlf
     @ ''Host: '' @ host @ crlf
     @ ''User-Agent: aegisctl'' @ crlf
     @ ''Accept: application/json'' @ crlf
     @ ''Connection: close'' @ crlf
     @ (case body of None \<Rightarrow> []
        | Some b \<Rightarrow> ''Content-Type: application/json'' @ crlf @ ''Content-Length: '' @ dec_str (length b) @ crlf)
     @ crlf"

section \<open>Responses\<close>

record response =
  rp_status :: nat
  rp_body :: bytes

definition windows :: "nat \<Rightarrow> 'a list \<Rightarrow> 'a list list" where
  "windows n xs = map (\<lambda>i. take n (drop i xs)) [0..<length xs + 1 - n]"

fun position :: "('a \<Rightarrow> bool) \<Rightarrow> 'a list \<Rightarrow> nat option" where
  "position P [] = None"
| "position P (x # xs) = (if P x then Some 0 else map_option Suc (position P xs))"

definition find_subslice :: "'a list \<Rightarrow> 'a list \<Rightarrow> nat option" where
  "find_subslice haystack needle =
     (if needle = [] \<or> length haystack < length needle then None
      else position (\<lambda>w. w = needle) (windows (length needle) haystack))"

definition CRLF :: bytes where "CRLF = [0x0D, 0x0A]"

definition header_end :: "bytes \<Rightarrow> (nat \<times> nat) option" where
  "header_end raw =
     (case find_subslice raw (CRLF @ CRLF) of
        Some i \<Rightarrow> Some (i, i + 4)
      | None \<Rightarrow> map_option (\<lambda>i. (i, i + 2)) (find_subslice raw [0x0A, 0x0A]))"

definition status_code :: "string \<Rightarrow> http_error + nat" where
  "status_code line =
     (case split_whitespace line of
        [] \<Rightarrow> Inl EmptyStatusLine
      | [version] \<Rightarrow> Inl (MissingStatus line)
      | version # code # _ \<Rightarrow> (case parse_unsigned 16 code of None \<Rightarrow> Inl (InvalidStatus code) | Some n \<Rightarrow> Inr n))"

definition parse_response :: "bytes \<Rightarrow> http_error + response" where
  "parse_response raw =
     (if raw = [] then Inl NoResponse
      else case header_end raw of
        None \<Rightarrow> Inl NoHeaderEnd
      | Some (head_end, body_start) \<Rightarrow>
          let head = take head_end raw;
              line_end = (case find_subslice head CRLF of Some i \<Rightarrow> i | None \<Rightarrow> length head)
          in case from_utf8 (take line_end head) of
               None \<Rightarrow> Inl StatusNotUtf8
             | Some line \<Rightarrow> map_sum id (\<lambda>n. \<lparr>rp_status = n, rp_body = drop body_start raw\<rparr>) (status_code line))"

section \<open>Exchanges\<close>

type_synonym 'w net = "string \<Rightarrow> bytes \<Rightarrow> 'w \<Rightarrow> (http_error + bytes) \<times> 'w"

definition request ::
  "'w net \<Rightarrow> string \<Rightarrow> string \<Rightarrow> string \<Rightarrow> bytes option \<Rightarrow> 'w \<Rightarrow> (http_error + response) \<times> 'w" where
  "request net server method path body w =
     (case parse_target server of
        Inl e \<Rightarrow> (Inl e, w)
      | Inr t \<Rightarrow>
          (case net (tg_authority t)
                  (str_bytes (request_head method path (tg_host_header t) body) @ (case body of None \<Rightarrow> [] | Some b \<Rightarrow> b)) w of
             (Inl e, w') \<Rightarrow> (Inl e, w')
           | (Inr raw, w') \<Rightarrow> (parse_response raw, w')))"

definition http_get :: "'w net \<Rightarrow> string \<Rightarrow> string \<Rightarrow> 'w \<Rightarrow> (http_error + response) \<times> 'w" where
  "http_get net server path = request net server ''GET'' path None"

definition http_post :: "'w net \<Rightarrow> string \<Rightarrow> string \<Rightarrow> bytes \<Rightarrow> 'w \<Rightarrow> (http_error + response) \<times> 'w" where
  "http_post net server path json = request net server ''POST'' path (Some json)"

definition http_delete :: "'w net \<Rightarrow> string \<Rightarrow> string \<Rightarrow> 'w \<Rightarrow> (http_error + response) \<times> 'w" where
  "http_delete net server path = request net server ''DELETE'' path None"

section \<open>Query strings\<close>

definition hex_digit :: "nat \<Rightarrow> char" where
  "hex_digit n = char_of (if n < 10 then 48 + n else 55 + n)"

definition unreserved :: "char \<Rightarrow> bool" where
  "unreserved c \<longleftrightarrow>
     (65 \<le> byte_of c \<and> byte_of c \<le> 90) \<or> (97 \<le> byte_of c \<and> byte_of c \<le> 122) \<or> is_digit c \<or> c \<in> set ''-_.~''"

primrec percent_encode :: "string \<Rightarrow> string" where
  "percent_encode [] = []"
| "percent_encode (c # cs) =
     (if unreserved c then [c] else [CHR ''%'', hex_digit (byte_of c div 16), hex_digit (byte_of c mod 16)])
     @ percent_encode cs"

definition query_pair :: "string \<times> string \<Rightarrow> string" where
  "query_pair p = percent_encode (fst p) @ ''='' @ percent_encode (snd p)"

definition with_query :: "string \<Rightarrow> (string \<times> string) list \<Rightarrow> string" where
  "with_query path pairs =
     (case pairs of [] \<Rightarrow> path
      | p # ps \<Rightarrow> path @ ''?'' @ query_pair p @ concat (map (\<lambda>r. ''&'' @ query_pair r) ps))"

section \<open>Query strings as RFC 3986 reads them\<close>

definition hex_value :: "char \<Rightarrow> nat option" where
  "hex_value c =
     (let b = byte_of c
      in if 48 \<le> b \<and> b < 58 then Some (b - 48)
         else if 65 \<le> b \<and> b < 71 then Some (b - 55)
         else if 97 \<le> b \<and> b < 103 then Some (b - 87)
         else None)"

fun percent_decode :: "string \<Rightarrow> string option" where
  "percent_decode [] = Some []"
| "percent_decode (c # cs) =
     (if c \<noteq> CHR ''%'' then map_option ((#) c) (percent_decode cs)
      else case cs of
        h # l # rest \<Rightarrow>
          (case (hex_value h, hex_value l) of
             (Some a, Some b) \<Rightarrow> map_option ((#) (char_of (16 * a + b))) (percent_decode rest)
           | _ \<Rightarrow> None)
      | _ \<Rightarrow> None)"

text \<open>The parts between separators, and the text before and after the first one.\<close>

fun split_on :: "char \<Rightarrow> string \<Rightarrow> string \<Rightarrow> string list" where
  "split_on s acc [] = [acc]"
| "split_on s acc (c # cs) = (if c = s then acc # split_on s [] cs else split_on s (acc @ [c]) cs)"

definition split_first :: "char \<Rightarrow> string \<Rightarrow> string \<times> string" where
  "split_first s t = (takeWhile (\<lambda>c. c \<noteq> s) t, drop 1 (dropWhile (\<lambda>c. c \<noteq> s) t))"

definition decode_pair :: "string \<Rightarrow> (string \<times> string) option" where
  "decode_pair t =
     (case split_first CHR ''='' t of
        (k, v) \<Rightarrow> (case (percent_decode k, percent_decode v) of (Some a, Some b) \<Rightarrow> Some (a, b) | _ \<Rightarrow> None))"

definition query_pairs :: "string \<Rightarrow> (string \<times> string) list option" where
  "query_pairs q = (if q = [] then Some [] else those (map decode_pair (split_on CHR ''&'' [] q)))"

end
