(* ===== verification/Http_Facts.thy ===== *)
theory Http_Facts
  imports Http
begin

text \<open>
  What the client of Http.thy guarantees: the search for a byte string finds its first occurrence, a well-formed response is
  cut exactly where its headers end, whatever bytes its body holds, and whatever the operator types into a
  query, it reaches the other end as it was, in one request line.
\<close>

section \<open>Searching\<close>

lemma windows_Cons:
  "n \<le> Suc (length xs) \<Longrightarrow> windows n (x # xs) = take n (x # xs) # (if n \<le> length xs then windows n xs else [])"
proof -
  assume n: "n \<le> Suc (length xs)"
  have "[0..<Suc (Suc (length xs)) - n] = 0 # map Suc [0..<Suc (length xs) - n]"
    using n by (simp add: Suc_diff_le upt_conv_Cons map_Suc_upt del: upt_Suc)
  then show ?thesis using n by (auto simp: windows_def o_def)
qed

lemma find_subslice_Cons:
  assumes "n \<noteq> []"
  shows "find_subslice (x # xs) n = (if take (length n) (x # xs) = n then Some 0 else map_option Suc (find_subslice xs n))"
proof (cases "length n \<le> Suc (length xs)")
  case True
  then show ?thesis using assms by (auto simp: find_subslice_def windows_Cons not_less)
next
  case False
  then have "take (length n) (x # xs) \<noteq> n" by (metis length_take length_Cons min.absorb_iff1 min.commute)
  then show ?thesis using False assms by (simp add: find_subslice_def)
qed

lemma find_subslice_Nil: "n \<noteq> [] \<Longrightarrow> find_subslice [] n = None"
  by (simp add: find_subslice_def)

lemma find_subslice_skip:
  assumes "c \<notin> set l"
  shows "find_subslice (l @ r) (c # n) = map_option ((+) (length l)) (find_subslice r (c # n))"
  using assms by (induction l; cases "find_subslice r (c # n)") (auto simp: find_subslice_Cons)

lemma find_subslice_here: "find_subslice (n @ r) n = Some 0" if "n \<noteq> []"
proof -
  obtain x xs where n: "n = x # xs" using \<open>n \<noteq> []\<close> by (cases n) auto
  show ?thesis using find_subslice_Cons [of n x "xs @ r"] that by (simp add: n)
qed

text \<open>The index is that of the first occurrence.\<close>

lemma find_subslice_first:
  assumes "n \<noteq> []"
  shows "find_subslice h n = Some i \<Longrightarrow> take (length n) (drop i h) = n \<and> (\<forall>j<i. take (length n) (drop j h) \<noteq> n)"
    and "find_subslice h n = None \<Longrightarrow> take (length n) (drop j h) \<noteq> n"
proof (induction h arbitrary: i j)
  case Nil
  { case 1 then show ?case using assms by (simp add: find_subslice_Nil) }
  { case 2 then show ?case using assms by simp }
next
  case (Cons x h)
  { case 1
    then show ?case using Cons.IH(1) assms
      by (auto simp: find_subslice_Cons less_Suc_eq_0_disj split: if_splits) }
  { case 2
    then show ?case using Cons.IH(2) assms
      by (cases j) (auto simp: find_subslice_Cons split: if_splits) }
qed

section \<open>Responses\<close>

definition header_lines :: "string list \<Rightarrow> bytes" where
  "header_lines ls = concat (map (\<lambda>l. str_bytes l @ CRLF) ls)"

text \<open>A line of printable ASCII characters.\<close>

definition printable :: "string \<Rightarrow> bool" where
  "printable l \<longleftrightarrow> list_all (\<lambda>c. 32 \<le> byte_of c \<and> byte_of c < 127) l"

definition status_line :: "nat \<Rightarrow> string \<Rightarrow> string" where
  "status_line s reason = ''HTTP/1.1 '' @ dec_str s @ '' '' @ reason"

definition http_response :: "nat \<Rightarrow> string \<Rightarrow> string list \<Rightarrow> bytes \<Rightarrow> bytes" where
  "http_response s reason headers body = header_lines (status_line s reason # headers) @ CRLF @ body"

lemma str_bytes_simps [simp]: "str_bytes [] = []" "str_bytes (c # s) = word_of_nat (byte_of c) # str_bytes s"
  "str_bytes (s @ t) = str_bytes s @ str_bytes t"
  by (simp_all add: str_bytes_def)

lemma byte_of_less [simp]: "byte_of c < 256"
  by (metis of_char_mod_256 mod_less_divisor zero_less_numeral)

lemma printable_no_cr: "printable l \<Longrightarrow> 0x0D \<notin> set (str_bytes l)"
proof -
  assume "printable l"
  moreover have "word_of_nat (byte_of c) \<noteq> (0x0D :: u8)" if "32 \<le> byte_of c" for c
  proof
    assume "word_of_nat (byte_of c) = (0x0D :: u8)"
    then have "unat (word_of_nat (byte_of c) :: u8) = 13" by simp
    then show False using that by (simp add: unat_byte_of_nat)
  qed
  ultimately show ?thesis by (fastforce simp: printable_def list_all_iff str_bytes_def)
qed

lemma find_header_end:
  assumes "list_all (\<lambda>l. printable l \<and> l \<noteq> []) ls" and "printable l" and "l \<noteq> []"
  shows "find_subslice (header_lines (l # ls) @ CRLF @ body) (CRLF @ CRLF) = Some (length (header_lines (l # ls)) - 2)"
  using assms
proof (induction ls arbitrary: l)
  case Nil
  have "find_subslice (CRLF @ CRLF @ body) (CRLF @ CRLF) = Some 0"
    using find_subslice_here [of "CRLF @ CRLF" body] by (simp add: CRLF_def)
  then show ?case
    using find_subslice_skip [OF printable_no_cr [OF Nil(2)], of "CRLF @ CRLF @ body" "[0x0A, 0x0D, 0x0A]"]
    by (simp add: header_lines_def CRLF_def)
next
  case (Cons m ls)
  then have m: "printable m" "m \<noteq> []" and ls: "list_all (\<lambda>l. printable l \<and> l \<noteq> []) ls" by simp_all
  let ?rest = "header_lines (m # ls) @ CRLF @ body"
  have hd: "hd ?rest \<noteq> 0x0D" "?rest \<noteq> []"
    using m printable_no_cr [OF m(1)] by (cases m; auto simp: header_lines_def)+
  then obtain r rs where rest: "?rest = r # rs" "r \<noteq> 0x0D" by (cases ?rest) auto
  have n: "CRLF @ CRLF = 0x0D # [0x0A, 0x0D, 0x0A]" by (simp add: CRLF_def)
  have ih: "find_subslice ?rest (CRLF @ CRLF) = Some (length (header_lines (m # ls)) - 2)"
    by (rule Cons.IH [OF ls m])
  have "find_subslice (CRLF @ ?rest) (CRLF @ CRLF) = map_option (\<lambda>i. i + 2) (find_subslice ?rest (CRLF @ CRLF))"
    unfolding n rest(1) by (simp add: find_subslice_Cons CRLF_def rest(2) option.map_comp o_def)
  moreover have "2 \<le> length (header_lines (m # ls))" by (simp add: header_lines_def CRLF_def)
  ultimately have "find_subslice (str_bytes l @ CRLF @ ?rest) (CRLF @ CRLF) = Some (length l + length (header_lines (m # ls)))"
    using find_subslice_skip [OF printable_no_cr [OF Cons.prems(2)], of "CRLF @ ?rest" "[0x0A, 0x0D, 0x0A]"] ih by (simp add: n)
  then show ?case by (simp add: header_lines_def CRLF_def)
qed

lemma printable_utf8: "printable l \<Longrightarrow> utf8_valid (str_bytes l)"
  by (induction l) (auto simp: printable_def in_range_def unat_byte_of_nat)

lemma printable_dec_str: "printable (dec_str n)"
  using dec_str_digits [of n] by (auto simp: printable_def list_all_iff is_digit_def)

lemma split_whitespace_first:
  assumes "plain_text w" and "w \<noteq> []" and "is_ascii t"
  shows "split_whitespace (w @ '' '' @ t) = w # split_whitespace t"
proof -
  have "str_chars (w @ '' '' @ t) = map (\<lambda>c. [c]) (w @ '' '' @ t)" "str_chars t = map (\<lambda>c. [c]) t"
    using assms by (simp_all add: str_chars_ascii plain_text_def)
  moreover have "char_is_whitespace '' ''" by (simp add: char_is_whitespace_def)
  ultimately show ?thesis
    using assms words_from_plain [of w "[]"] by (simp add: split_whitespace_def plain_text_def)
qed

lemma split_whitespace_word: "plain_text w \<Longrightarrow> w \<noteq> [] \<Longrightarrow> split_whitespace w = [w]"
  using words_from_plain [of w "[]" "[]"] by (simp add: split_whitespace_def plain_text_def str_chars_ascii)

lemma printable_ascii: "printable l \<Longrightarrow> is_ascii l"
  by (auto simp: printable_def is_ascii_def list_all_iff)

lemma plain_text_dec_str: "plain_text (dec_str n)"
  using dec_str_props [of n] dec_str_digits [of n] by (auto simp: plain_text_def list_all_iff dest: is_digit_props)

lemma status_code_line:
  assumes "s < 65536" and "printable reason"
  shows "status_code (status_line s reason) = Inr s"
proof -
  have "split_whitespace (status_line s reason) = ''HTTP/1.1'' # split_whitespace (dec_str s @ '' '' @ reason)"
    using split_whitespace_first [of "''HTTP/1.1''" "dec_str s @ '' '' @ reason"] printable_ascii [OF assms(2)] dec_str_props(1) [of s]
    by (simp add: status_line_def plain_text_def char_is_whitespace_def)
  also have "split_whitespace (dec_str s @ '' '' @ reason) = dec_str s # split_whitespace reason"
    using dec_str_digits by (intro split_whitespace_first plain_text_dec_str printable_ascii [OF assms(2)]) simp
  finally show ?thesis using assms(1) parse_unsigned_dec_str [of s 16] by (simp add: status_code_def)
qed

text \<open>A response in the form of HTTP/1.1 is read back as its status and its body, whatever status below
  65536 it has, whatever printable reason phrase and header lines, and whatever bytes the body is made of, blank lines included.\<close>

theorem response_read_back:
  assumes "s < 65536" and "printable reason" and "list_all (\<lambda>l. printable l \<and> l \<noteq> []) headers"
  shows "parse_response (http_response s reason headers body) = Inr \<lparr>rp_status = s, rp_body = body\<rparr>"
proof -
  let ?line = "status_line s reason" and ?head = "header_lines (status_line s reason # headers)"
  have line: "printable ?line" "?line \<noteq> []"
    using assms(2) printable_dec_str [of s] by (simp_all add: status_line_def printable_def)
  have fnd: "find_subslice (?head @ CRLF @ body) (CRLF @ CRLF) = Some (length ?head - 2)"
    by (rule find_header_end [OF assms(3) line])
  have two: "2 \<le> length ?head" by (simp add: header_lines_def CRLF_def)
  have head: "take (length ?head - 2) (?head @ CRLF @ body)
      = (if headers = [] then str_bytes ?line else str_bytes ?line @ CRLF @ take (length (header_lines headers) - 2) (header_lines headers))"
    by (cases headers) (auto simp: header_lines_def CRLF_def take_Cons')
  let ?h = "take (length ?head - 2) (?head @ CRLF @ body)"
  have skip: "find_subslice (str_bytes ?line @ r) CRLF = map_option ((+) (length ?line)) (find_subslice r CRLF)" for r
    using find_subslice_skip [OF printable_no_cr [OF line(1)], of r "[0x0A]"] by (simp add: CRLF_def)
  have "take (case find_subslice ?h CRLF of Some i \<Rightarrow> i | None \<Rightarrow> length ?h) ?h = str_bytes ?line"
  proof (cases "headers = []")
    case True
    then show ?thesis using head skip [of "[]"] by (simp add: find_subslice_Nil CRLF_def)
  next
    case False
    have "find_subslice (CRLF @ r) CRLF = Some 0" for r by (rule find_subslice_here) (simp add: CRLF_def)
    then show ?thesis using head skip False by simp
  qed
  note cut = this
  define raw where "raw = ?head @ CRLF @ body"
  have "header_end raw = Some (length ?head - 2, length ?head - 2 + 4)" using fnd by (simp add: header_end_def raw_def)
  moreover have "from_utf8 (str_bytes ?line) = Some ?line" using printable_utf8 [OF line(1)] by (simp add: from_utf8_def)
  moreover have "drop (length ?head - 2 + 4) raw = body" using two by (simp add: raw_def CRLF_def)
  moreover have "raw \<noteq> []" by (simp add: raw_def CRLF_def)
  ultimately have "parse_response raw = Inr \<lparr>rp_status = s, rp_body = body\<rparr>"
    using cut status_code_line [OF assms(1,2)] unfolding parse_response_def Let_def raw_def [symmetric] by simp
  then show ?thesis by (simp add: http_response_def raw_def)
qed

text \<open>The fallback to a bare blank line looks at the body as well: with bare line feeds as line ends, a
  body that holds a CRLF blank line is cut there.\<close>

lemma bare_newline_response_cut:
  "parse_response (str_bytes (''HTTP/1.1 200 OK'' @ [CHR 0x0A, CHR 0x0A] @ ''a'' @ crlf @ crlf @ ''b''))
     = Inr \<lparr>rp_status = 200, rp_body = str_bytes ''b''\<rparr>"
proof -
  have "(char_of (50 :: nat) :: char) \<noteq> CHR ''+''"
  proof
    assume "(char_of (50 :: nat) :: char) = CHR ''+''"
    then have "byte_of (char_of (50 :: nat)) = byte_of CHR ''+''" by (rule arg_cong)
    then show False by simp
  qed
  then show ?thesis
    by (simp add: parse_response_def header_end_def find_subslice_Cons find_subslice_Nil CRLF_def crlf_def from_utf8_def in_range_def
        status_code_def split_whitespace_def is_cont_def char_is_whitespace_def parse_unsigned_def dec_value_def is_digit_def bytes_str_def)
qed

lemma response_read_back_witness:
  "parse_response (http_response 404 ''Not Found'' [''connection: close''] (CRLF @ CRLF)) = Inr \<lparr>rp_status = 404, rp_body = CRLF @ CRLF\<rparr>"
  by (rule response_read_back) (simp_all add: printable_def)

section \<open>Query strings\<close>

lemma hex_value_digit: "n < 16 \<Longrightarrow> hex_value (hex_digit n) = Some n"
  by (auto simp: hex_value_def hex_digit_def Let_def)

lemma byte_div_16: "byte_of c div 16 < 16"
  by (rule less_mult_imp_div_less) simp

lemma unreserved_not_percent: "unreserved c \<Longrightarrow> c \<noteq> CHR ''%''"
  by (auto simp: unreserved_def is_digit_def)

lemma percent_decode_encode: "percent_decode (percent_encode s) = Some s"
proof (induction s)
  case (Cons c s)
  have "hex_value (hex_digit (byte_of c div 16)) = Some (byte_of c div 16)"
    by (rule hex_value_digit [OF byte_div_16])
  moreover have "hex_value (hex_digit (byte_of c mod 16)) = Some (byte_of c mod 16)" by (rule hex_value_digit) simp
  ultimately show ?case using Cons by (auto dest: unreserved_not_percent)
qed simp

text \<open>What the encoder writes: unreserved characters and percent signs.\<close>

definition query_safe :: "char \<Rightarrow> bool" where
  "query_safe c \<longleftrightarrow> unreserved c \<or> c = CHR ''%''"

lemma hex_digit_safe: "n < 16 \<Longrightarrow> query_safe (hex_digit n)"
  by (auto simp: query_safe_def unreserved_def is_digit_def hex_digit_def)

lemma percent_encode_safe: "c \<in> set (percent_encode s) \<Longrightarrow> query_safe c"
proof (induction s)
  case (Cons d s)
  have "query_safe (hex_digit (byte_of d div 16))" "query_safe (hex_digit (byte_of d mod 16))"
    by (simp_all add: hex_digit_safe byte_div_16)
  with Cons show ?case by (auto simp: query_safe_def split: if_splits)
qed simp

lemma query_safe_props:
  "query_safe c \<Longrightarrow> c \<noteq> CHR ''='' \<and> c \<noteq> CHR ''&'' \<and> c \<noteq> CHR ''?'' \<and> 32 < byte_of c \<and> byte_of c < 127"
  by (auto simp: query_safe_def unreserved_def is_digit_def)

lemma encode_free: "CHR ''='' \<notin> set (percent_encode s)" "CHR ''&'' \<notin> set (percent_encode s)"
  using percent_encode_safe query_safe_props by blast+

lemma split_first_append: "s \<notin> set a \<Longrightarrow> split_first s (a @ s # b) = (a, b)"
  by (induction a) (auto simp: split_first_def)

lemma decode_query_pair: "decode_pair (query_pair p) = Some p"
  using split_first_append [OF encode_free(1), of "fst p" "percent_encode (snd p)"]
  by (simp add: decode_pair_def query_pair_def percent_decode_encode)

lemma query_pair_free: "CHR ''&'' \<notin> set (query_pair p)" and query_pair_not_Nil: "query_pair p \<noteq> []"
  by (simp_all add: query_pair_def encode_free)

lemma split_on_last: "s \<notin> set t \<Longrightarrow> split_on s acc t = [acc @ t]"
  by (induction t arbitrary: acc) auto

lemma split_on_next: "s \<notin> set t \<Longrightarrow> split_on s acc (t @ s # u) = (acc @ t) # split_on s [] u"
  by (induction t arbitrary: acc) auto

lemma split_query: "split_on CHR ''&'' [] (query_pair p @ concat (map (\<lambda>r. ''&'' @ query_pair r) ps)) = map query_pair (p # ps)"
proof (induction ps arbitrary: p)
  case Nil
  then show ?case by (simp add: split_on_last query_pair_free)
next
  case (Cons r ps)
  then show ?case using split_on_next [OF query_pair_free, of "[]" p] by simp
qed

lemma those_decode: "those (map (decode_pair \<circ> query_pair) ps) = Some ps"
  by (induction ps) (simp_all add: decode_query_pair)

lemma visible_plain:
  assumes "\<And>c. c \<in> set s \<Longrightarrow> 32 < byte_of c \<and> byte_of c < 127"
  shows "plain_text s"
proof -
  have "byte_of c < 128 \<and> \<not> char_is_whitespace [c]" if "c \<in> set s" for c
    using assms [OF that] by (simp add: char_is_whitespace_def)
  then show ?thesis by (simp add: plain_text_def is_ascii_def list_all_iff)
qed

lemma query_pair_visible: "c \<in> set (query_pair p) \<Longrightarrow> 32 < byte_of c \<and> byte_of c < 127"
proof -
  assume "c \<in> set (query_pair p)"
  then consider "c = CHR ''=''" | s where "c \<in> set (percent_encode s)" by (auto simp: query_pair_def)
  then show ?thesis by cases (simp, use percent_encode_safe query_safe_props in blast)
qed

lemma query_text_plain: "plain_text (query_pair p @ concat (map (\<lambda>r. ''&'' @ query_pair r) ps))"
proof (rule visible_plain)
  fix c assume "c \<in> set (query_pair p @ concat (map (\<lambda>r. ''&'' @ query_pair r) ps))"
  then consider "c = CHR ''&''" | r where "c \<in> set (query_pair r)"
    by (cases "c \<in> set (query_pair p)"; cases "c = CHR ''&''") (fastforce split: if_splits)+
  then show "32 < byte_of c \<and> byte_of c < 127" by cases (simp, use query_pair_visible in blast)
qed

lemma takeWhile_first: "s \<notin> set a \<Longrightarrow> takeWhile (\<lambda>c. c \<noteq> s) (a @ s # b) = a"
  by (induction a) auto

text \<open>C32: Whatever keys and values the operator gives, control characters, separators and line ends included, the
  request has one request line of three words, whose target is the given path and, after the question mark, a
  query that RFC 3986 reads as exactly those keys and values.\<close>

theorem query_arrives:
  assumes "plain_text path" and "path \<noteq> []" and "CHR ''?'' \<notin> set path"
  shows "\<exists>query. split_whitespace (takeWhile (\<lambda>c. c \<noteq> CHR 0x0D) (request_head ''GET'' (with_query path pairs) host None))
            = [''GET'', if pairs = [] then path else path @ ''?'' @ query, ''HTTP/1.1'']
          \<and> query_pairs query = Some pairs"
proof -
  define query where "query = (case pairs of [] \<Rightarrow> [] | p # ps \<Rightarrow> query_pair p @ concat (map (\<lambda>r. ''&'' @ query_pair r) ps))"
  let ?target = "with_query path pairs"
  have target: "?target = (if pairs = [] then path else path @ ''?'' @ query)"
    by (cases pairs) (simp_all add: with_query_def query_def)
  have "plain_text query"
    unfolding query_def by (cases pairs) (simp_all only: list.case query_text_plain, simp add: plain_text_def)
  then have plain: "plain_text ?target" "?target \<noteq> []"
    using assms by (auto simp: target plain_text_def char_is_whitespace_def)
  have dec: "query_pairs query = Some pairs"
  proof (cases pairs)
    case (Cons p ps)
    then show ?thesis
      using split_query [of p ps] those_decode [of pairs] by (simp add: query_def query_pairs_def query_pair_not_Nil)
  qed (simp add: query_def query_pairs_def)
  have "CHR 0x0D \<notin> set ?target" using plain(1) by (auto simp: plain_text_def char_is_whitespace_def)
  then have "takeWhile (\<lambda>c. c \<noteq> CHR 0x0D) (request_head ''GET'' ?target host None) = ''GET'' @ '' '' @ ?target @ '' '' @ ''HTTP/1.1''"
    using takeWhile_first [of "CHR 0x0D" "''GET '' @ ?target @ '' HTTP/1.1''"] by (simp add: request_head_def crlf_def)
  moreover have "split_whitespace (''GET'' @ '' '' @ ?target @ '' '' @ ''HTTP/1.1'') = [''GET'', ?target, ''HTTP/1.1'']"
  proof -
    have "plain_text ''GET''" "plain_text ''HTTP/1.1''" by (simp_all add: plain_text_def char_is_whitespace_def)
    then show ?thesis
      using plain split_whitespace_first [of "''GET''" "?target @ '' '' @ ''HTTP/1.1''"] split_whitespace_first [of ?target "''HTTP/1.1''"]
        split_whitespace_word [of "''HTTP/1.1''"] by (simp add: plain_text_def)
  qed
  ultimately show ?thesis using dec target by auto
qed

lemma query_arrives_witness:
  "\<exists>query. split_whitespace (takeWhile (\<lambda>c. c \<noteq> CHR 0x0D)
        (request_head ''GET'' (with_query ''/api/v1/alerts'' [(''severity'', [CHR 0x0D, CHR 0x0A, CHR ''&''])]) ''h'' None))
      = [''GET'', ''/api/v1/alerts?'' @ query, ''HTTP/1.1''] \<and> query_pairs query = Some [(''severity'', [CHR 0x0D, CHR 0x0A, CHR ''&''])]"
proof -
  have p: "plain_text ''/api/v1/alerts''" by (simp add: plain_text_def char_is_whitespace_def)
  show ?thesis using query_arrives [OF p, of "[(''severity'', [CHR 0x0D, CHR 0x0A, CHR ''&''])]" "''h''"] by simp
qed

end
