(* ===== verification/Cli.thy ===== *)
theory Cli
  imports Http_Facts Agent Api
begin

text \<open>
  The server-facing commands of \<^verbatim>\<open>aegisctl\<close> (\<^verbatim>\<open>crates/aegis-cli/src/main.rs\<close>) over the client of Http.thy. A command is a
  function of its arguments and the state of the world; it ends in an error or in the lines it prints. JSON
  text and the printing of floating-point numbers are serde's and the standard library's and are the fields of
  \<open>cli_env\<close>. Cli_Facts.thy states what they show of the answers of Api.thy.
\<close>

section \<open>JSON values\<close>

fun json_get :: "json \<Rightarrow> string \<Rightarrow> json option" where
  "json_get (JObj kvs) k = map_of kvs k"
| "json_get _ k = None"

definition json_at :: "json \<Rightarrow> string \<Rightarrow> json" where
  "json_at v k = (case json_get v k of Some j \<Rightarrow> j | None \<Rightarrow> JNull)"

fun as_bool :: "json \<Rightarrow> bool option" where
  "as_bool (JBool b) = Some b"
| "as_bool _ = None"

fun as_array :: "json \<Rightarrow> json list option" where
  "as_array (JArr js) = Some js"
| "as_array _ = None"

fun as_f64 :: "(string \<Rightarrow> f64) \<Rightarrow> json \<Rightarrow> f64 option" where
  "as_f64 num (JNum t) = Some (num t)"
| "as_f64 num _ = None"

definition or_default :: "'a \<Rightarrow> 'a option \<Rightarrow> 'a" where
  "or_default d v = (case v of Some x \<Rightarrow> x | None \<Rightarrow> d)"

definition str_of :: "json \<Rightarrow> string \<Rightarrow> string" where
  "str_of v k = or_default [] (json_string (json_at v k))"

definition bool_of :: "json \<Rightarrow> string \<Rightarrow> bool" where
  "bool_of v k = or_default False (as_bool (json_at v k))"

definition u64_of :: "json \<Rightarrow> string \<Rightarrow> u64" where
  "u64_of v k = or_default 0 (json_u64 (json_at v k))"

definition rows_of :: "json \<Rightarrow> json list" where
  "rows_of v = or_default [] (as_array v)"

section \<open>Environment, arguments, errors\<close>

record 'w cli_env =
  ce_net :: "'w net"
  ce_parse_json :: "bytes \<Rightarrow> json option"
  ce_show_json :: "json \<Rightarrow> bytes"
  ce_pretty :: "json \<Rightarrow> string"
  ce_num :: "string \<Rightarrow> f64"
  ce_show_f64 :: "f64 \<Rightarrow> string"
  ce_fixed :: "nat \<Rightarrow> f64 \<Rightarrow> string"

datatype cli_error = Transport http_error | InvalidJson | Server string

record server_args =
  sa_server :: string
  sa_json :: bool

record alerts_args =
  aa_limit :: "nat option"
  aa_severity :: "string option"
  aa_unacknowledged :: bool
  aa_server :: server_args

record scores_args =
  sc_agent :: "string option"
  sc_min_score :: "f64 option"
  sc_limit :: "nat option"
  sc_server :: server_args

record detections_args =
  dt_agent :: "string option"
  dt_verdict :: "string option"
  dt_min_confidence :: "f64 option"
  dt_limit :: "nat option"
  dt_server :: server_args

datatype token_command =
    TokenCreate string server_args
  | TokenList server_args
  | TokenRevoke string server_args

datatype cli_command =
    EnrollToken token_command
  | Status server_args
  | Agents server_args
  | Alerts alerts_args
  | Scores scores_args
  | Detections detections_args

type_synonym 'w run = "'w \<Rightarrow> (cli_error + string list) \<times> 'w"

section \<open>Text\<close>

definition pad_right :: "nat \<Rightarrow> string \<Rightarrow> string" where
  "pad_right w s = s @ replicate (w - length (str_chars s)) CHR '' ''"

definition pad_left :: "nat \<Rightarrow> string \<Rightarrow> string" where
  "pad_left w s = replicate (w - length (str_chars s)) CHR '' '' @ s"

definition ellipsis :: string where "ellipsis = [CHR 0xE2, CHR 0x80, CHR 0xA6]"

definition truncate_text :: "string \<Rightarrow> nat \<Rightarrow> string" where
  "truncate_text s m =
     (if length (str_chars s) \<le> m then s else concat (take (m - 1) (str_chars s)) @ ellipsis)"

definition bool_text :: "bool \<Rightarrow> string" where
  "bool_text b = (if b then ''true'' else ''false'')"

definition u64_text :: "u64 \<Rightarrow> string" where
  "u64_text n = dec_str (unat n)"

fun columns :: "string list \<Rightarrow> string" where
  "columns [] = []"
| "columns [c] = c"
| "columns (c # cs) = c @ ''  '' @ columns cs"

section \<open>Reading a response\<close>

definition error_detail :: "'w cli_env \<Rightarrow> response \<Rightarrow> string" where
  "error_detail E r =
     (case Option.bind (ce_parse_json E (rp_body r)) (\<lambda>v. Option.bind (json_get v ''error'') json_string) of
        Some msg \<Rightarrow> ''server error ('' @ dec_str (rp_status r) @ ''): '' @ msg
      | None \<Rightarrow>
          let body = str_trim (from_utf8_lossy (rp_body r)); summary = ''server returned HTTP '' @ dec_str (rp_status r)
          in if body = [] then summary else summary @ '': '' @ truncate_text body 200)"

definition response_json :: "'w cli_env \<Rightarrow> response \<Rightarrow> cli_error + json" where
  "response_json E r = (case ce_parse_json E (rp_body r) of None \<Rightarrow> Inl InvalidJson | Some v \<Rightarrow> Inr v)"

definition json_ok :: "'w cli_env \<Rightarrow> response \<Rightarrow> cli_error + json" where
  "json_ok E r =
     (if 200 \<le> rp_status r \<and> rp_status r < 300 then response_json E r else Inl (Server (error_detail E r)))"

text \<open>A request whose answer must be a success, and what is printed of it.\<close>

definition expect_json :: "'w cli_env \<Rightarrow> (http_error + response) \<times> 'w \<Rightarrow> (cli_error + json) \<times> 'w" where
  "expect_json E x =
     (case x of (Inl e, w) \<Rightarrow> (Inl (Transport e), w) | (Inr r, w) \<Rightarrow> (json_ok E r, w))"

definition print_as :: "'w cli_env \<Rightarrow> bool \<Rightarrow> (json \<Rightarrow> string list) \<Rightarrow> (cli_error + json) \<times> 'w \<Rightarrow> (cli_error + string list) \<times> 'w" where
  "print_as E js show x = (map_sum id (\<lambda>v. if js then [ce_pretty E v] else show v) (fst x), snd x)"

section \<open>Tokens, status, agents, alerts\<close>

definition token_table :: "json \<Rightarrow> string list" where
  "token_table v =
     columns [pad_right 64 ''TOKEN'', pad_right 6 ''USED'', pad_right 20 ''LABEL'', ''CREATED_AT_NS'']
     # map (\<lambda>r. columns [pad_right 64 (str_of r ''token''), pad_right 6 (bool_text (bool_of r ''used'')),
                         pad_right 20 (truncate_text (str_of r ''label'') 20), u64_text (u64_of r ''created_at_ns'')]) (rows_of v)"

fun cmd_enroll_token :: "'w cli_env \<Rightarrow> token_command \<Rightarrow> 'w run" where
  "cmd_enroll_token E (TokenCreate label sv) w =
     print_as E (sa_json sv)
       (\<lambda>v. [''token:       '' @ str_of v ''token'', ''fingerprint: '' @ str_of v ''fingerprint'', [],
             ''Pin the fingerprint on the agent, then enroll with the token above.''])
       (expect_json E (http_post (ce_net E) (sa_server sv) ''/api/v1/tokens'' (ce_show_json E (JObj [(''label'', JStr label)])) w))"
| "cmd_enroll_token E (TokenList sv) w =
     print_as E (sa_json sv) token_table (expect_json E (http_get (ce_net E) (sa_server sv) ''/api/v1/tokens'' w))"
| "cmd_enroll_token E (TokenRevoke token sv) w =
     (case http_delete (ce_net E) (sa_server sv) (''/api/v1/tokens/'' @ token) w of
        (Inl e, w') \<Rightarrow> (Inl (Transport e), w')
      | (Inr r, w') \<Rightarrow>
          (if sa_json sv
           then Inr [ce_pretty E (JObj [(''revoked'', JBool (rp_status r = 204)), (''status'', JNum (dec_str (rp_status r)))])]
           else if rp_status r = 204 then Inr [''revoked'']
           else if rp_status r = 409 then Inr [''already used or unknown'']
           else Inl (Server (error_detail E r)), w'))"

definition agent_count :: "'w cli_env \<Rightarrow> http_error + response \<Rightarrow> nat option" where
  "agent_count E x =
     (case x of
        Inl _ \<Rightarrow> None
      | Inr r \<Rightarrow> if rp_status r = 200 then Option.bind (ce_parse_json E (rp_body r)) (\<lambda>v. map_option length (as_array v)) else None)"

fun with_count :: "nat option \<Rightarrow> json \<Rightarrow> json" where
  "with_count (Some n) (JObj kvs) = JObj (bt_insert ''agent_count'' (JNum (dec_str n)) kvs)"
| "with_count _ v = v"

definition cmd_status :: "'w cli_env \<Rightarrow> server_args \<Rightarrow> 'w run" where
  "cmd_status E sv w =
     (case expect_json E (http_get (ce_net E) (sa_server sv) ''/api/v1/server-info'' w) of
        (Inl e, w1) \<Rightarrow> (Inl e, w1)
      | (Inr info, w1) \<Rightarrow>
          (case http_get (ce_net E) (sa_server sv) ''/api/v1/agents'' w1 of
             (x, w2) \<Rightarrow>
               let n = agent_count E x
               in (Inr (if sa_json sv then [ce_pretty E (with_count n info)]
                        else [''fingerprint:    '' @ str_of info ''fingerprint'',
                              ''proto version:  '' @ u64_text (u64_of info ''proto_version''),
                              ''agents:         '' @ (case n of Some k \<Rightarrow> dec_str k | None \<Rightarrow> ''(unavailable)'')]), w2)))"

definition agent_table :: "json \<Rightarrow> string list" where
  "agent_table v =
     columns [pad_right 36 ''AGENT_ID'', pad_right 24 ''HOSTNAME'', pad_right 10 ''OS'', ''LAST_SEEN_NS'']
     # map (\<lambda>r. columns [pad_right 36 (str_of r ''agent_id''), pad_right 24 (truncate_text (str_of r ''hostname'') 24),
                         pad_right 10 (truncate_text (str_of r ''os'') 10), u64_text (u64_of r ''last_seen_ns'')]) (rows_of v)"

definition cmd_agents :: "'w cli_env \<Rightarrow> server_args \<Rightarrow> 'w run" where
  "cmd_agents E sv w =
     print_as E (sa_json sv) agent_table (expect_json E (http_get (ce_net E) (sa_server sv) ''/api/v1/agents'' w))"

text \<open>A query parameter that is sent when the option is given.\<close>

definition param :: "string \<Rightarrow> ('a \<Rightarrow> string) \<Rightarrow> 'a option \<Rightarrow> (string \<times> string) list" where
  "param k show v = (case v of None \<Rightarrow> [] | Some x \<Rightarrow> [(k, show x)])"

definition alert_table :: "json \<Rightarrow> string list" where
  "alert_table v =
     columns [pad_right 10 ''SEVERITY'', pad_right 30 ''TITLE'', pad_right 36 ''AGENT_ID'', pad_right 5 ''ACK'', ''TS_NS'']
     # map (\<lambda>r. columns [pad_right 10 (truncate_text (str_of r ''severity'') 10), pad_right 30 (truncate_text (str_of r ''title'') 30),
                         pad_right 36 (str_of r ''agent_id''), pad_right 5 (bool_text (bool_of r ''acknowledged'')),
                         u64_text (u64_of r ''ts_ns'')]) (rows_of v)"

definition cmd_alerts :: "'w cli_env \<Rightarrow> alerts_args \<Rightarrow> 'w run" where
  "cmd_alerts E a w =
     (let qry = param ''limit'' dec_str (aa_limit a) @ param ''severity'' id (aa_severity a)
                @ (if aa_unacknowledged a then [(''acknowledged'', ''false'')] else [])
      in print_as E (sa_json (aa_server a)) alert_table
           (expect_json E (http_get (ce_net E) (sa_server (aa_server a)) (with_query ''/api/v1/alerts'' qry) w)))"

section \<open>Scores and detections\<close>

definition score_path :: "'w cli_env \<Rightarrow> scores_args \<Rightarrow> string" where
  "score_path E a =
     (case sc_agent a of
        Some agent \<Rightarrow> ''/api/v1/scores/'' @ percent_encode agent
      | None \<Rightarrow> with_query ''/api/v1/scores'' (param ''min_score'' (ce_show_f64 E) (sc_min_score a) @ param ''limit'' dec_str (sc_limit a)))"

definition f64_of :: "'w cli_env \<Rightarrow> json \<Rightarrow> string \<Rightarrow> f64" where
  "f64_of E r k = or_default (Fin 0) (as_f64 (ce_num E) (json_at r k))"

definition score_rows :: "'w cli_env \<Rightarrow> scores_args \<Rightarrow> json \<Rightarrow> json list" where
  "score_rows E a v =
     (let rows = rows_of v
      in if sc_agent a = None then rows
         else truncate_if (sc_limit a) (retain_if (sc_min_score a) (\<lambda>m r. f64_le m (f64_of E r ''score'')) rows))"

definition score_table :: "'w cli_env \<Rightarrow> json list \<Rightarrow> string list" where
  "score_table E rows =
     columns [pad_right 36 ''AGENT_ID'', pad_right 24 ''SUBJECT'', pad_left 8 ''SCORE'', pad_right 20 ''MODEL'', ''TS_NS'']
     # map (\<lambda>r. columns [pad_right 36 (str_of r ''agent_id''), pad_right 24 (truncate_text (str_of r ''subject'') 24),
                         pad_left 8 (ce_fixed E 1 (f64_of E r ''score'')), pad_right 20 (truncate_text (str_of r ''model'') 20),
                         u64_text (u64_of r ''ts_ns'')]) rows"

definition cmd_scores :: "'w cli_env \<Rightarrow> scores_args \<Rightarrow> 'w run" where
  "cmd_scores E a w =
     print_as E (sa_json (sc_server a)) (\<lambda>v. score_table E (score_rows E a v))
       (expect_json E (http_get (ce_net E) (sa_server (sc_server a)) (score_path E a) w))"

definition detection_path :: "'w cli_env \<Rightarrow> detections_args \<Rightarrow> string" where
  "detection_path E a =
     (case dt_agent a of
        Some agent \<Rightarrow> ''/api/v1/detections/'' @ percent_encode agent
      | None \<Rightarrow> with_query ''/api/v1/detections''
          (param ''verdict'' id (dt_verdict a) @ param ''min_confidence'' (ce_show_f64 E) (dt_min_confidence a)
           @ param ''limit'' dec_str (dt_limit a)))"

definition detection_rows :: "'w cli_env \<Rightarrow> detections_args \<Rightarrow> json \<Rightarrow> json list" where
  "detection_rows E a v =
     (let rows = rows_of v
      in if dt_agent a = None then rows
         else let rows1 = retain_if (dt_verdict a) (\<lambda>x r. json_string (json_at r ''verdict'') = Some x) rows;
                  rows2 = retain_if (dt_min_confidence a) (\<lambda>m r. f64_le m (f64_of E r ''confidence'')) rows1
              in truncate_if (dt_limit a) rows2)"

definition detection_table :: "'w cli_env \<Rightarrow> json list \<Rightarrow> string list" where
  "detection_table E rows =
     columns [pad_right 36 ''AGENT_ID'', pad_right 24 ''SUBJECT'', pad_right 9 ''VERDICT'', pad_left 6 ''CONF'', ''TS_NS'']
     # map (\<lambda>r. columns [pad_right 36 (str_of r ''agent_id''), pad_right 24 (truncate_text (str_of r ''subject'') 24),
                         pad_right 9 (truncate_text (str_of r ''verdict'') 9), pad_left 6 (ce_fixed E 2 (f64_of E r ''confidence'')),
                         u64_text (u64_of r ''ts_ns'')]) rows"

definition cmd_detections :: "'w cli_env \<Rightarrow> detections_args \<Rightarrow> 'w run" where
  "cmd_detections E a w =
     print_as E (sa_json (dt_server a)) (\<lambda>v. detection_table E (detection_rows E a v))
       (expect_json E (http_get (ce_net E) (sa_server (dt_server a)) (detection_path E a) w))"

fun run_command :: "'w cli_env \<Rightarrow> cli_command \<Rightarrow> 'w run" where
  "run_command E (EnrollToken c) = cmd_enroll_token E c"
| "run_command E (Status a) = cmd_status E a"
| "run_command E (Agents a) = cmd_agents E a"
| "run_command E (Alerts a) = cmd_alerts E a"
| "run_command E (Scores a) = cmd_scores E a"
| "run_command E (Detections a) = cmd_detections E a"

end
