(* ===== verification/Cli_Facts.thy ===== *)
theory Cli_Facts
  imports Cli
begin

text \<open>
  The commands of Cli.thy against the handlers of Api.thy: what a command prints or reports is what the handler
  answered, the filters the client applies to one agent's rows are those the server applies to all, and
  what --json leaves unfiltered.
\<close>

section \<open>Answers and errors\<close>

text \<open>The server answers a path with status 200 and a body that parses as the given value.\<close>

definition answers :: "'w cli_env \<Rightarrow> string \<Rightarrow> string \<Rightarrow> 'w \<Rightarrow> json \<Rightarrow> 'w \<Rightarrow> bool" where
  "answers E sv path w v w' \<longleftrightarrow>
     (\<exists>body. http_get (ce_net E) sv path w = (Inr \<lparr>rp_status = 200, rp_body = body\<rparr>, w') \<and> ce_parse_json E body = Some v)"

lemma expect_answer: "answers E sv path w v w' \<Longrightarrow> expect_json E (http_get (ce_net E) sv path w) = (Inr v, w')"
  by (auto simp: answers_def expect_json_def json_ok_def response_json_def)

lemma api_status_no_success: "\<not> (200 \<le> api_status e \<and> api_status e < 300)"
  by (cases e) simp_all

definition error_body :: "api_error \<Rightarrow> json" where
  "error_body e = JObj [(''error'', JStr (api_message e))]"

text \<open>An error of the server is reported with its status and its message, and nothing is printed.\<close>

lemma server_error_reported:
  assumes "http_get (ce_net E) sv path w = (Inr \<lparr>rp_status = api_status e, rp_body = body\<rparr>, w')" and "ce_parse_json E body = Some (error_body e)"
  shows "expect_json E (http_get (ce_net E) sv path w)
      = (Inl (Server (''server error ('' @ dec_str (api_status e) @ ''): '' @ api_message e)), w')"
  using assms api_status_no_success [of e] by (auto simp: expect_json_def json_ok_def error_detail_def error_body_def)

section \<open>Filters\<close>

definition json_f64 :: "(f64 \<Rightarrow> string) \<Rightarrow> f64 \<Rightarrow> json" where
  "json_f64 num_text x = (case x of Fin _ \<Rightarrow> JNum (num_text x) | _ \<Rightarrow> JNull)"

definition score_json :: "(f64 \<Rightarrow> string) \<Rightarrow> score_row \<Rightarrow> json" where
  "score_json num_text r =
     JObj [(''agent_id'', JStr (sr_agent_id r)), (''model'', JStr (sr_model r)), (''score'', json_f64 num_text (sr_score r)),
           (''subject'', JStr (sr_subject r)), (''ts_ns'', JNum (u64_text (sr_ts_ns r)))]"

text \<open>The number is finite and survives printing and parsing.\<close>

definition prints_exactly :: "'w cli_env \<Rightarrow> (f64 \<Rightarrow> string) \<Rightarrow> f64 \<Rightarrow> bool" where
  "prints_exactly E num_text x \<longleftrightarrow> (case x of Fin _ \<Rightarrow> True | _ \<Rightarrow> False) \<and> ce_num E (num_text x) = x"

lemma score_json_f64: "prints_exactly E num_text (sr_score r) \<Longrightarrow> f64_of E (score_json num_text r) ''score'' = sr_score r"
  by (auto simp: prints_exactly_def f64_of_def json_at_def score_json_def json_f64_def or_default_def split: f64.splits)

lemma retain_map:
  assumes "\<And>r. r \<in> set rows \<Longrightarrow> P x (f r) = Q x r"
  shows "retain_if (Some x) P (map f rows) = map f (retain_if (Some x) Q rows)"
  using assms by (simp add: retain_if_def filter_map o_def cong: filter_cong)

lemma truncate_map: "truncate_if n (map f rows) = map f (truncate_if n rows)"
  by (cases n) (simp_all add: truncate_if_def take_map)

lemma retain_filter: "retain_if x P (filter Q rows) = filter Q (retain_if x P rows)"
  by (cases x) (simp_all add: retain_if_def conj_commute)

text \<open>Asked for one agent, the tool shows exactly that agent's rows among those the server returns from the same store for
  the same minimum, in their order and cut to the limit, provided the scores are finite and their JSON
  text is read back exactly; but with --json it prints every row, whatever minimum and limit were given.\<close>

theorem agent_scores_filtered:
  assumes "api_scores_for_agent A io aid st = Inr rows"
    and "answers E sv (''/api/v1/scores/'' @ percent_encode aid) w (JArr (map (score_json num_text) rows)) w'"
    and "list_all (\<lambda>r. prints_exactly E num_text (sr_score r)) rows"
    and "list_scores A io \<lparr>qs_subject = None, qs_min_score = least, qs_limit = None\<rparr> st = Inr all"
    and "args = (\<lambda>js. \<lparr>sc_agent = Some aid, sc_min_score = least, sc_limit = limit, sc_server = \<lparr>sa_server = sv, sa_json = js\<rparr>\<rparr>)"
  shows "cmd_scores E (args False) w
        = (Inr (score_table E (map (score_json num_text) (truncate_if limit (filter (\<lambda>r. sr_agent_id r = aid) all)))), w')
    \<and> cmd_scores E (args True) w = (Inr [ce_pretty E (JArr (map (score_json num_text) rows))], w')"
proof -
  let ?least = "\<lambda>m r. f64_le m (sr_score r)"
  have "retain_if least (\<lambda>m r. f64_le m (f64_of E r ''score'')) (map (score_json num_text) rows)
      = map (score_json num_text) (retain_if least ?least rows)"
    using assms(3) by (cases least) (simp add: retain_if_def, auto simp: list_all_iff score_json_f64 intro!: retain_map)
  moreover have "retain_if least ?least rows = filter (\<lambda>r. sr_agent_id r = aid) all"
    using assms(1,4)
    by (auto simp: api_scores_for_agent_def api_result_def scores_for_agent_def list_scores_def retain_filter truncate_if_def
        retain_if_def [of None] split: sum.splits)
  ultimately show ?thesis
    using expect_answer [OF assms(2)] unfolding assms(5)
    by (simp add: cmd_scores_def score_path_def print_as_def score_rows_def rows_of_def or_default_def truncate_map)
qed

text \<open>The same for detections.\<close>

definition detection_json :: "(f64 \<Rightarrow> string) \<Rightarrow> detection_row \<Rightarrow> json" where
  "detection_json num_text r =
     JObj [(''agent_id'', JStr (dr_agent_id r)), (''confidence'', json_f64 num_text (dr_confidence r)), (''model'', JStr (dr_model r)),
           (''reasons'', JArr (map JStr (dr_reasons r))), (''subject'', JStr (dr_subject r)), (''ts_ns'', JNum (u64_text (dr_ts_ns r))),
           (''verdict'', JStr (dr_verdict r))]"

lemma detection_json_f64: "prints_exactly E num_text (dr_confidence r) \<Longrightarrow> f64_of E (detection_json num_text r) ''confidence'' = dr_confidence r"
  by (auto simp: prints_exactly_def f64_of_def json_at_def detection_json_def json_f64_def or_default_def split: f64.splits)

lemma detection_json_verdict: "json_string (json_at (detection_json num_text r) ''verdict'') = Some (dr_verdict r)"
  by (simp add: detection_json_def json_at_def)

lemma retain_if_map:
  assumes "\<And>x r. r \<in> set rows \<Longrightarrow> P x (f r) = Q x r"
  shows "retain_if y P (map f rows) = map f (retain_if y Q rows)"
  using assms by (cases y) (simp add: retain_if_def, auto intro!: retain_map)

lemma retain_if_subset: "set (retain_if y P rows) \<subseteq> set rows"
  by (cases y) (auto simp: retain_if_def)

lemma agent_detections_filtered:
  assumes "api_detections_for_agent A io aid st = Inr rows"
    and "answers E sv (''/api/v1/detections/'' @ percent_encode aid) w (JArr (map (detection_json num_text) rows)) w'"
    and "list_all (\<lambda>r. prints_exactly E num_text (dr_confidence r)) rows"
    and "list_detections A io \<lparr>qd_verdict = vd, qd_min_confidence = least, qd_limit = None\<rparr> st = Inr all"
  shows "cmd_detections E \<lparr>dt_agent = Some aid, dt_verdict = vd, dt_min_confidence = least, dt_limit = limit,
        dt_server = \<lparr>sa_server = sv, sa_json = False\<rparr>\<rparr> w
      = (Inr (detection_table E (map (detection_json num_text) (truncate_if limit (filter (\<lambda>r. dr_agent_id r = aid) all)))), w')"
proof -
  let ?least = "\<lambda>m r. f64_le m (dr_confidence r)" and ?verdict = "\<lambda>v r. dr_verdict r = v"
  have conf: "f64_of E (detection_json num_text r) ''confidence'' = dr_confidence r" if "r \<in> set (retain_if vd ?verdict rows)" for r
    using assms(3) subsetD [OF retain_if_subset that] by (simp add: list_all_iff detection_json_f64)
  have "retain_if vd (\<lambda>x r. json_string (json_at r ''verdict'') = Some x) (map (detection_json num_text) rows)
      = map (detection_json num_text) (retain_if vd ?verdict rows)"
    by (rule retain_if_map) (simp add: detection_json_verdict)
  moreover have "retain_if least (\<lambda>m r. f64_le m (f64_of E r ''confidence'')) (map (detection_json num_text) (retain_if vd ?verdict rows))
      = map (detection_json num_text) (retain_if least ?least (retain_if vd ?verdict rows))"
    by (rule retain_if_map) (simp add: conf)
  moreover have "retain_if least ?least (retain_if vd ?verdict rows) = filter (\<lambda>r. dr_agent_id r = aid) all"
    using assms(1,4)
    by (auto simp: api_detections_for_agent_def api_result_def detections_for_agent_def list_detections_def retain_filter truncate_if_def
        split: sum.splits)
  ultimately show ?thesis
    using expect_answer [OF assms(2)]
    by (simp add: cmd_detections_def detection_path_def print_as_def detection_rows_def rows_of_def or_default_def truncate_map Let_def)
qed

section \<open>Revocation\<close>

text \<open>What the tool says of a revocation is what became of the token.\<close>

lemma revocation_reported:
  assumes "datastore (ap_tables A) (ap_postcard A)"
    and "toks = (\<lambda>s. tbl (ap_tables A) (pc_token (ap_postcard A)) (t_tokens s))"
    and "api_revoke_token A io token st = (r, st')"
    and "http_delete (ce_net E) sv (''/api/v1/tokens/'' @ token) w
      = (Inr \<lparr>rp_status = (case r of Inl e \<Rightarrow> api_status e | Inr n \<Rightarrow> n), rp_body = body\<rparr>, w')"
  shows "case fst (cmd_enroll_token E (TokenRevoke token \<lparr>sa_server = sv, sa_json = False\<rparr>) w) of
      Inl _ \<Rightarrow> toks st' = toks st
    | Inr lines \<Rightarrow>
        if lines = [''revoked'']
        then (\<exists>row. toks st (str_bytes token) = Some row \<and> \<not> tk_used row) \<and> toks st' = (toks st)(str_bytes token := None)
        else lines = [''already used or unknown''] \<and> toks st' = toks st
          \<and> (case toks st (str_bytes token) of None \<Rightarrow> True | Some row \<Rightarrow> tk_used row)"
proof -
  obtain c st1 where c: "revoke_token_if_unused (ap_tables A) (ap_postcard A) io token st = (c, st1)" by fastforce
  then have r: "r = (case c of Inl e \<Rightarrow> Inl (internal e) | Inr b \<Rightarrow> if b then Inr 204 else Inl (Conflict ''token is unknown or already used''))"
    "st' = st1" using assms(3) by (auto simp: api_revoke_token_def revoke_token_def split: sum.splits)
  show ?thesis
  proof (cases c)
    case (Inl e)
    then show ?thesis using r c assms(4) datastore.revoke_token_error [OF assms(1)] by force
  next
    case (Inr b)
    from datastore.revoke_token_Inr [OF assms(1) c [unfolded Inr]] show ?thesis
      using r Inr assms(4) by (cases b) (auto simp: assms(2) split: option.splits)
  qed
qed

text \<open>The token goes into the path as it was typed: one with a space in it breaks the request line into four words, and
  what follows a question mark is not part of the token the server sees.\<close>

lemma revoke_unescaped:
  "split_whitespace (takeWhile (\<lambda>c. c \<noteq> CHR 0x0D) (request_head ''DELETE'' (''/api/v1/tokens/'' @ ''a b'') host None))
     = [''DELETE'', ''/api/v1/tokens/a'', ''b'', ''HTTP/1.1'']"
  "split_first CHR ''?'' (''/api/v1/tokens/'' @ ''a?b'') = (''/api/v1/tokens/a'', ''b'')"
  by (simp_all add: request_head_def crlf_def split_first_def split_whitespace_def is_cont_def char_is_whitespace_def)

section \<open>An exchange\<close>

definition demo_score_row :: score_row where
  "demo_score_row = \<lparr>sr_agent_id = ''aegisd'', sr_subject = ''uid:0'', sr_model = ''risk-aggregator/v1'', sr_score = Fin 1, sr_ts_ns = 9\<rparr>"

definition demo_scores :: "(bytes, bytes) rbt store" where
  "demo_scores = demo_empty\<lparr>t_scores := tinsert rbt_table [1] [0] (tempty rbt_table)\<rparr>"

text \<open>A server that gives the same answer to everything, over the wire.\<close>

definition demo_cli :: "json \<Rightarrow> unit cli_env" where
  "demo_cli v =
     \<lparr>ce_net = (\<lambda>_ _ w. (Inr (http_response 200 ''OK'' [''connection: close''] [7]), w)),
      ce_parse_json = (\<lambda>b. if b = [7] then Some v else None), ce_show_json = (\<lambda>_. []), ce_pretty = (\<lambda>_. ''[]''),
      ce_num = (\<lambda>_. Fin 1), ce_show_f64 = (\<lambda>_. ''1''), ce_fixed = (\<lambda>_ _. ''1.0'')\<rparr>"

lemma demo_answers: "answers (demo_cli v) ''h'' path w v w"
proof -
  have "str_trim ''h'' = ''h''" by (rule str_trim_plain) (simp add: plain_text_def char_is_whitespace_def)
  then have "parse_target ''h'' = Inr \<lparr>tg_authority = with_port ''h'' 80, tg_host_header = ''h''\<rparr>"
    by (simp add: parse_target_def starts_with_def host_port_def rsplit_once_def Let_def)
  moreover have "parse_response (http_response 200 ''OK'' [''connection: close''] [7]) = Inr \<lparr>rp_status = 200, rp_body = [7]\<rparr>"
    by (rule response_read_back) (simp_all add: printable_def)
  ultimately show ?thesis by (simp add: answers_def http_get_def request_def demo_cli_def)
qed

lemma demo_scores_rows:
  "api_scores_for_agent demo_api io_fine ''aegisd'' demo_scores = Inr [demo_score_row]"
  "list_scores demo_api io_fine \<lparr>qs_subject = None, qs_min_score = Some (Fin 1), qs_limit = None\<rparr> demo_scores = Inr [demo_score_row]"
  by (simp_all add: api_scores_for_agent_def api_result_def scores_for_agent_def store_scores_def read_all_def list_scores_def
      demo_scores_def demo_api_def demo_score_row_def rbt.rows_insert rbt.rows_empty demo_sink_simps retain_if_def truncate_if_def)

lemma agent_scores_filtered_witness:
  "cmd_scores (demo_cli (JArr [score_json (\<lambda>_. ''1'') demo_score_row]))
      \<lparr>sc_agent = Some ''aegisd'', sc_min_score = Some (Fin 1), sc_limit = Some 0, sc_server = \<lparr>sa_server = ''h'', sa_json = False\<rparr>\<rparr> ()
    = (Inr (score_table (demo_cli (JArr [score_json (\<lambda>_. ''1'') demo_score_row])) []), ())"
proof -
  let ?E = "demo_cli (JArr [score_json (\<lambda>_. ''1'') demo_score_row])"
  have served: "answers ?E ''h'' (''/api/v1/scores/'' @ percent_encode ''aegisd'') () (JArr (map (score_json (\<lambda>_. ''1'')) [demo_score_row])) ()"
    by (simp add: demo_answers)
  have exact: "list_all (\<lambda>r. prints_exactly ?E (\<lambda>_. ''1'') (sr_score r)) [demo_score_row]"
    by (simp add: prints_exactly_def demo_cli_def demo_score_row_def)
  show ?thesis
    using agent_scores_filtered [OF demo_scores_rows(1) served exact demo_scores_rows(2) refl, of "Some 0"] by (simp add: truncate_if_def)
qed

end
