(* ===== verification/Listener.thy ===== *)
theory Listener
  imports Install_Facts Ingest
begin

text \<open>
  The server's TLS material and its accept loop (\<^verbatim>\<open>load_or_create_server_cert\<close>, \<^verbatim>\<open>write_atomic\<close> and \<^verbatim>\<open>accept_loop\<close> in
  \<^verbatim>\<open>crates/aegis-server/src/ingest.rs\<close>) over the file system of Install.thy, in which any system call may fail. Minting a
  certificate and parsing PEM are the libraries' and are parameters. A run that is cut short is a run whose next system call
  fails and after which nothing is cleaned up, so what is proved of the steps of a write holds of a crash at any point.
\<close>

section \<open>Atomic writes\<close>

definition temp_path :: "nat \<Rightarrow> string \<Rightarrow> string" where
  "temp_path pid p =
     (case rsplit_once CHR ''/'' p of
        Some (d, n) \<Rightarrow> d @ ''/.'' @ n @ ''.tmp.'' @ dec_str pid
      | None \<Rightarrow> ''.'' @ p @ ''.tmp.'' @ dec_str pid)"

text \<open>\<^verbatim>\<open>create(true).truncate(true)\<close>. The private name is never a link; one that someone planted is refused here.\<close>

definition open_truncate :: "install_env \<Rightarrow> string \<Rightarrow> nat \<Rightarrow> unit io" where
  "open_truncate E p mode =
     syscall E
       (\<lambda>fs. if \<not> list_all (is_dir fs) (ancestors [] p) then Inl NotFound
             else case fs p of
               None \<Rightarrow> Inr ((), fs(p \<mapsto> \<lparr>in_kind = File [], in_flags = 0, in_uid = ie_euid E, in_mode = mode\<rparr>))
             | Some i \<Rightarrow>
                 (case in_kind i of
                    File _ \<Rightarrow> if is_immutable (in_flags i) then Inl Denied else Inr ((), fs(p \<mapsto> i\<lparr>in_kind := File []\<rparr>))
                  | _ \<Rightarrow> Inl Denied))"

fun contents :: "file_kind \<Rightarrow> bytes" where
  "contents (File b) = b"
| "contents _ = []"

text \<open>\<^verbatim>\<open>write_all\<close>: as many writes as the system takes; \<open>parts\<close> says what each of them takes.\<close>

definition write_all :: "install_env \<Rightarrow> (bytes \<Rightarrow> bytes list) \<Rightarrow> string \<Rightarrow> bytes \<Rightarrow> unit io list" where
  "write_all E parts p b = map (\<lambda>part. on_file E p (\<lambda>i. i\<lparr>in_kind := File (contents (in_kind i) @ part)\<rparr>)) (parts b)"

definition rename_file :: "install_env \<Rightarrow> string \<Rightarrow> string \<Rightarrow> unit io" where
  "rename_file E a b =
     syscall E
       (\<lambda>fs. case fs a of
               None \<Rightarrow> Inl NotFound
             | Some i \<Rightarrow>
                 if (case fs b of Some j \<Rightarrow> in_kind j = Directory \<or> is_immutable (in_flags j) | None \<Rightarrow> False) \<or> is_immutable (in_flags i)
                 then Inl Denied else Inr ((), (fs(a := None))(b \<mapsto> i)))"

definition write_steps :: "install_env \<Rightarrow> nat \<Rightarrow> (bytes \<Rightarrow> bytes list) \<Rightarrow> string \<Rightarrow> bytes \<Rightarrow> nat \<Rightarrow> unit io list" where
  "write_steps E pid parts p b mode =
     (let tmp = temp_path pid p
      in [open_truncate E tmp mode, on_file E tmp (\<lambda>i. i\<lparr>in_mode := mode\<rparr>)] @ write_all E parts tmp b
         @ [on_file E tmp (\<lambda>i. i), rename_file E tmp p])"

text \<open>The guard removes the temporary file when a step failed.\<close>

definition write_atomic :: "install_env \<Rightarrow> nat \<Rightarrow> (bytes \<Rightarrow> bytes list) \<Rightarrow> string \<Rightarrow> bytes \<Rightarrow> nat \<Rightarrow> unit io" where
  "write_atomic E pid parts p b mode w =
     (case run_steps (write_steps E pid parts p b mode) w of
        (Inl e, w1) \<Rightarrow> (Inl e, snd (remove_file E (temp_path pid p) w1))
      | (Inr _, w1) \<Rightarrow> (Inr (), w1))"

section \<open>Certificate bootstrap\<close>

record 'k pem_env =
  pe_mint :: "(bytes \<times> bytes) option"
  pe_certs :: "bytes \<Rightarrow> bytes list option"
  pe_key :: "bytes \<Rightarrow> 'k option"
  pe_pid :: nat
  pe_cut :: "bytes \<Rightarrow> bytes list"

datatype cert_error = CertIo io_error | MintFailed | BadCertPem | NoCerts | BadKeyPem

text \<open>\<^verbatim>\<open>Path::exists\<close>: an error of the call reads as absence.\<close>

definition stat_exists :: "install_env \<Rightarrow> string \<Rightarrow> world \<Rightarrow> bool \<times> world" where
  "stat_exists E p w =
     (case syscall E (\<lambda>fs. case resolve fs p of None \<Rightarrow> Inl NotFound | Some _ \<Rightarrow> Inr ((), fs)) w of
        (Inl _, w1) \<Rightarrow> (False, w1)
      | (Inr _, w1) \<Rightarrow> (True, w1))"

definition read_path :: "install_env \<Rightarrow> string \<Rightarrow> bytes io" where
  "read_path E p =
     syscall E (\<lambda>fs. case resolve fs p of
                   None \<Rightarrow> Inl NotFound
                 | Some i \<Rightarrow> (case in_kind i of File b \<Rightarrow> Inr (b, fs) | _ \<Rightarrow> Inl Failed))"

definition crt_path :: "string \<Rightarrow> string" where
  "crt_path data_dir = path_join (path_join data_dir ''server'') ''tls.crt''"

definition key_path :: "string \<Rightarrow> string" where
  "key_path data_dir = path_join (path_join data_dir ''server'') ''tls.key''"

definition both_exist :: "install_env \<Rightarrow> string \<Rightarrow> world \<Rightarrow> bool \<times> world" where
  "both_exist E data_dir w =
     (case stat_exists E (crt_path data_dir) w of
        (False, w1) \<Rightarrow> (False, w1)
      | (True, w1) \<Rightarrow> stat_exists E (key_path data_dir) w1)"

definition mint_pair :: "install_env \<Rightarrow> 'k pem_env \<Rightarrow> string \<Rightarrow> world \<Rightarrow> (cert_error + unit) \<times> world" where
  "mint_pair E P data_dir w =
     (case pe_mint P of
        None \<Rightarrow> (Inl MintFailed, w)
      | Some (crt, key) \<Rightarrow>
          (case run_steps [write_atomic E (pe_pid P) (pe_cut P) (crt_path data_dir) crt 0x1A4,
                           write_atomic E (pe_pid P) (pe_cut P) (key_path data_dir) key 0x180] w of
             (r, w1) \<Rightarrow> (map_sum CertIo id r, w1)))"

definition load_pair :: "install_env \<Rightarrow> 'k pem_env \<Rightarrow> 'sk crypto \<Rightarrow> string \<Rightarrow> world \<Rightarrow> (cert_error + bytes list \<times> 'k \<times> bytes) \<times> world" where
  "load_pair E P C data_dir w =
     (case read_path E (crt_path data_dir) w of
        (Inl e, w1) \<Rightarrow> (Inl (CertIo e), w1)
      | (Inr pem, w1) \<Rightarrow>
          (case pe_certs P pem of
             None \<Rightarrow> (Inl BadCertPem, w1)
           | Some [] \<Rightarrow> (Inl NoCerts, w1)
           | Some (leaf # rest) \<Rightarrow>
               (case read_path E (key_path data_dir) w1 of
                  (Inl e, w2) \<Rightarrow> (Inl (CertIo e), w2)
                | (Inr kpem, w2) \<Rightarrow>
                    (case pe_key P kpem of
                       None \<Rightarrow> (Inl BadKeyPem, w2)
                     | Some k \<Rightarrow> (Inr (leaf # rest, k, fingerprint C leaf), w2)))))"

definition load_or_create_server_cert ::
  "install_env \<Rightarrow> 'k pem_env \<Rightarrow> 'sk crypto \<Rightarrow> string \<Rightarrow> world \<Rightarrow> (cert_error + bytes list \<times> 'k \<times> bytes) \<times> world" where
  "load_or_create_server_cert E P C data_dir w =
     (case create_parents E (crt_path data_dir) w of
        (Inl e, w1) \<Rightarrow> (Inl (CertIo e), w1)
      | (Inr _, w1) \<Rightarrow>
          (case both_exist E data_dir w1 of
             (True, w2) \<Rightarrow> load_pair E P C data_dir w2
           | (False, w2) \<Rightarrow>
               (case mint_pair E P data_dir w2 of
                  (Inl e, w3) \<Rightarrow> (Inl e, w3)
                | (Inr _, w3) \<Rightarrow> load_pair E P C data_dir w3)))"

section \<open>The accept loop\<close>

datatype accept_event = AcceptFailed | Accepted | Ended nat

text \<open>The free permits, the connections being handled, numbered in the order of acceptance, and the next number.\<close>

record listener =
  permits :: nat
  open_conns :: "nat list"
  next_conn :: nat

definition listening :: listener where
  "listening = \<lparr>permits = MAX_CONNECTIONS, open_conns = [], next_conn = 0\<rparr>"

text \<open>The flag says whether a connection was turned away.\<close>

fun accept_turn :: "accept_event \<Rightarrow> listener \<Rightarrow> bool \<times> listener" where
  "accept_turn AcceptFailed l = (False, l)"
| "accept_turn Accepted l =
     (if permits l = 0 then (True, l\<lparr>next_conn := next_conn l + 1\<rparr>)
      else (False, l\<lparr>permits := permits l - 1, open_conns := open_conns l @ [next_conn l], next_conn := next_conn l + 1\<rparr>))"
| "accept_turn (Ended c) l =
     (False, if c \<in> set (open_conns l) then l\<lparr>permits := permits l + 1, open_conns := remove1 c (open_conns l)\<rparr> else l)"

definition accept_loop :: "accept_event list \<Rightarrow> listener" where
  "accept_loop evs = fold (\<lambda>ev l. snd (accept_turn ev l)) evs listening"

end
