(* ===== verification/Listener_Facts.thy ===== *)
theory Listener_Facts
  imports Listener
begin

text \<open>
  Atomicity of a write under every pattern of failures, the server's certificate and key over restarts, the
  pair that a failed first start can leave behind, and the cap on connections.
\<close>

section \<open>Atomic writes\<close>

lemma length_temp_path: "length p < length (temp_path pid p)"
proof -
  have "length p \<le> length d + length n + 1" if "rsplit_once c p = Some (d, n)" for c d n
    using that by (auto simp: rsplit_once_def Let_def split: if_splits)
  then show ?thesis by (fastforce simp: temp_path_def split: option.split)
qed

lemma temp_path_neq [simp]: "temp_path pid p \<noteq> p" "p \<noteq> temp_path pid p"
  using length_temp_path [of p pid] by (metis less_irrefl)+

text \<open>The target untouched, and at the temporary name a part of the contents, that has its mode once it is not empty.\<close>

definition half_written :: "files \<Rightarrow> string \<Rightarrow> nat \<Rightarrow> bytes \<Rightarrow> files \<Rightarrow> bool" where
  "half_written fs tmp mode b fs' \<longleftrightarrow>
     (\<exists>i c rest. fs' = fs(tmp \<mapsto> i) \<and> in_kind i = File c \<and> b = c @ rest \<and> (c = [] \<or> in_mode i = mode) \<and> \<not> is_immutable (in_flags i))"

lemma on_file_result:
  "on_file E p f w = (r, w1) \<Longrightarrow> wd_files w1 = (case r of Inl _ \<Rightarrow> wd_files w | Inr _ \<Rightarrow> (wd_files w)(p := map_option f (wd_files w p)))"
  by (auto simp: on_file_def syscall_def Let_def split: if_splits)

lemma write_all_result:
  assumes "run_steps (map (\<lambda>part. on_file E p (\<lambda>i. i\<lparr>in_kind := File (contents (in_kind i) @ part)\<rparr>)) ps) w = (r, w1)"
    and "wd_files w = fs(p \<mapsto> i)" and "in_kind i = File c" and "in_mode i = mode" and "\<not> is_immutable (in_flags i)"
  shows "case r of
      Inr _ \<Rightarrow> \<exists>j. wd_files w1 = fs(p \<mapsto> j) \<and> in_kind j = File (c @ concat ps) \<and> in_mode j = mode \<and> \<not> is_immutable (in_flags j)
    | Inl _ \<Rightarrow> half_written fs p mode (c @ concat ps) (wd_files w1)"
  using assms
proof (induction ps arbitrary: w i c)
  case Nil
  then have "r = Inr ()" "w1 = w" by simp_all
  moreover from this Nil(2) have "wd_files w1 = fs(p \<mapsto> i)" by (simp only:)
  moreover have "fs(p \<mapsto> i) = fs(p \<mapsto> i) \<and> in_kind i = File (c @ concat []) \<and> in_mode i = mode \<and> \<not> is_immutable (in_flags i)"
    using Nil(3-5) by simp
  ultimately show ?case by (simp only: sum.case) blast
next
  case (Cons a ps)
  obtain r0 w0 where s: "on_file E p (\<lambda>i. i\<lparr>in_kind := File (contents (in_kind i) @ a)\<rparr>) w = (r0, w0)" by fastforce
  show ?case
  proof (cases r0)
    case (Inl e)
    then have "r = Inl e" "wd_files w1 = fs(p \<mapsto> i)" using Cons.prems(1,2) s on_file_result [OF s] by auto
    moreover from Cons.prems(3-5) have "half_written fs p mode (c @ concat (a # ps)) (fs(p \<mapsto> i))"
      unfolding half_written_def by blast
    ultimately show ?thesis by simp
  next
    case (Inr u)
    let ?i = "i\<lparr>in_kind := File (c @ a)\<rparr>"
    have w0: "wd_files w0 = fs(p \<mapsto> ?i)" 
      using Cons.prems(2,3) on_file_result [OF s] Inr by (auto simp: fun_upd_def)
    have c: "(c @ a) @ concat ps = c @ concat (a # ps)" by simp
    show ?thesis using Cons.IH [OF _ w0, of "c @ a", unfolded c] Cons.prems(1,4,5) s Inr by simp
  qed
qed

lemma write_steps_result:
  assumes "concat (parts b) = b" and "run_steps (write_steps E pid parts p b mode) w = (r, w1)"
  shows "case r of
      Inr _ \<Rightarrow> \<exists>i. wd_files w1 = (wd_files w)(temp_path pid p := None, p \<mapsto> i) \<and> in_kind i = File b \<and> in_mode i = mode
    | Inl _ \<Rightarrow> wd_files w1 = wd_files w \<or> half_written (wd_files w) (temp_path pid p) mode b (wd_files w1)"
proof -
  let ?tmp = "temp_path pid p" and ?fs = "wd_files w"
  obtain r0 w0 where s0: "open_truncate E ?tmp mode w = (r0, w0)" by fastforce
  have f0: "case r0 of Inl _ \<Rightarrow> wd_files w0 = ?fs
      | Inr _ \<Rightarrow> \<exists>i. wd_files w0 = ?fs(?tmp \<mapsto> i) \<and> in_kind i = File [] \<and> \<not> is_immutable (in_flags i)"
    using s0
    by (auto simp: open_truncate_def syscall_def Let_def is_immutable_def split: if_splits option.splits file_kind.splits)
      (intro exI conjI, rule refl, simp_all)+
  show ?thesis
  proof (cases r0)
    case (Inl e)
    then show ?thesis using assms(2) s0 f0 by (auto simp: write_steps_def Let_def)
  next
    case (Inr u)
    then obtain i where i: "wd_files w0 = ?fs(?tmp \<mapsto> i)" "in_kind i = File []" "\<not> is_immutable (in_flags i)" using f0 by auto
    obtain r2 w2 where s2: "on_file E ?tmp (\<lambda>i. i\<lparr>in_mode := mode\<rparr>) w0 = (r2, w2)" by fastforce
    show ?thesis
    proof (cases r2)
      case (Inl e)
      then have "r = Inl e" "wd_files w1 = ?fs(?tmp \<mapsto> i)"
        using assms(2) s0 s2 \<open>r0 = Inr u\<close> on_file_result [OF s2] i by (auto simp: write_steps_def Let_def)
      with i show ?thesis by (auto simp: half_written_def)
    next
      case (Inr u2)
      let ?i = "i\<lparr>in_mode := mode\<rparr>"
      have w2: "wd_files w2 = ?fs(?tmp \<mapsto> ?i)" using on_file_result [OF s2] i Inr by simp
      obtain r3 w3 where s3: "run_steps (write_all E parts ?tmp b) w2 = (r3, w3)" by fastforce
      have f3: "case r3 of
          Inr _ \<Rightarrow> \<exists>j. wd_files w3 = ?fs(?tmp \<mapsto> j) \<and> in_kind j = File b \<and> in_mode j = mode \<and> \<not> is_immutable (in_flags j)
        | Inl _ \<Rightarrow> half_written ?fs ?tmp mode b (wd_files w3)"
        using write_all_result [OF s3 [unfolded write_all_def] w2, of "[]" mode, unfolded append_Nil assms(1)] i by simp
      have run: "(r, w1) = (case r3 of Inl e \<Rightarrow> (Inl e, w3) | Inr _ \<Rightarrow> run_steps [on_file E ?tmp (\<lambda>i. i), rename_file E ?tmp p] w3)"
        using assms(2) s0 s2 s3 \<open>r0 = Inr u\<close> Inr by (simp add: write_steps_def Let_def run_steps_append)
      show ?thesis
      proof (cases r3)
        case (Inl e)
        then show ?thesis using run f3 by simp
      next
        case (Inr u3)
        then obtain j where j: "wd_files w3 = ?fs(?tmp \<mapsto> j)" "in_kind j = File b" "in_mode j = mode" "\<not> is_immutable (in_flags j)"
          using f3 by auto
        then have half: "half_written ?fs ?tmp mode b (wd_files w3)" by (auto simp: half_written_def)
        obtain r4 w4 where s4: "on_file E ?tmp (\<lambda>i. i) w3 = (r4, w4)" by fastforce
        have w4: "wd_files w4 = ?fs(?tmp \<mapsto> j)" using on_file_result [OF s4] j by (auto simp: option.map_ident split: sum.splits)
        obtain r5 w5 where s5: "rename_file E ?tmp p w4 = (r5, w5)" by fastforce
        have f5: "case r5 of Inl _ \<Rightarrow> wd_files w5 = wd_files w4 | Inr _ \<Rightarrow> wd_files w5 = ?fs(?tmp := None, p \<mapsto> j)"
          using s5 w4 j(4) by (auto simp: rename_file_def syscall_def Let_def split: if_splits option.splits)
        show ?thesis using run s4 s5 f5 half w4 j Inr by (cases r4; cases r5) auto
      qed
    qed
  qed
qed

lemma remove_file_result:
  "wd_files (snd (remove_file E p w)) = wd_files w
    \<or> wd_files (snd (remove_file E p w)) = (wd_files w)(p := None)"
  by (auto simp: remove_file_def syscall_def Let_def split: if_splits option.splits)

text \<open>A write that reports success has put the whole contents, under the given mode, at its path; one that
  reports failure has changed nothing but the temporary name.\<close>

lemma write_atomic_result:
  assumes "concat (parts b) = b" and "write_atomic E pid parts p b mode w = (r, w1)"
  shows "case r of
      Inr _ \<Rightarrow> \<exists>i. wd_files w1 = (wd_files w)(temp_path pid p := None, p \<mapsto> i) \<and> in_kind i = File b \<and> in_mode i = mode
    | Inl _ \<Rightarrow> \<exists>x. wd_files w1 = (wd_files w)(temp_path pid p := x)"
proof -
  obtain r0 w0 where s: "run_steps (write_steps E pid parts p b mode) w = (r0, w0)" by fastforce
  show ?thesis
  proof (cases r0)
    case (Inl e)
    have "wd_files w0 = wd_files w \<or> half_written (wd_files w) (temp_path pid p) mode b (wd_files w0)"
      using write_steps_result [OF assms(1) s] Inl by simp
    then have "\<exists>x. wd_files w0 = (wd_files w)(temp_path pid p := x)" by (auto simp: half_written_def intro: exI [of _ "wd_files w (temp_path pid p)"])
    moreover have "r = Inl e" "w1 = snd (remove_file E (temp_path pid p) w0)" using assms(2) s Inl by (auto simp: write_atomic_def)
    ultimately show ?thesis using remove_file_result [of E "temp_path pid p" w0] by auto
  next
    case (Inr u)
    then have "r = Inr ()" "w1 = w0" using assms(2) s by (simp_all add: write_atomic_def)
    then show ?thesis using write_steps_result [OF assms(1) s] Inr by simp
  qed
qed

text \<open>Wherever a write is cut short, by a failing call or by a crash, every other file is as it was, the target is
  the old file or the whole new one under its mode, and what is visible at the temporary name has the given mode
  as soon as it holds a single byte.\<close>

theorem write_never_torn:
  assumes "\<And>b. concat (parts b) = b" and "run_steps (write_steps E pid parts p b mode) w = (r, w1)"
  shows "(\<exists>x y. wd_files w1 = (wd_files w)(temp_path pid p := x, p := y)
      \<and> (y = wd_files w p \<or> (\<exists>i. y = Some i \<and> in_kind i = File b \<and> in_mode i = mode))
      \<and> (x = wd_files w (temp_path pid p) \<or> x = None \<or> (\<exists>i c. x = Some i \<and> in_kind i = File c \<and> (c = [] \<or> in_mode i = mode))))"
proof (cases r)
  case (Inl e)
  then consider "wd_files w1 = wd_files w" | "half_written (wd_files w) (temp_path pid p) mode b (wd_files w1)"
    using write_steps_result [OF assms(1,2)] by auto
  then show ?thesis
  proof cases
    case 1
    then show ?thesis by (intro exI [of _ "wd_files w (temp_path pid p)"] exI [of _ "wd_files w p"]) simp
  next
    case 2
    then obtain i c where "wd_files w1 = (wd_files w)(temp_path pid p \<mapsto> i)" "in_kind i = File c" "c = [] \<or> in_mode i = mode"
      by (auto simp: half_written_def)
    then show ?thesis by (intro exI [of _ "Some i"] exI [of _ "wd_files w p"]) auto
  qed
next
  case (Inr u)
  then obtain i where "wd_files w1 = (wd_files w)(temp_path pid p := None, p \<mapsto> i)" "in_kind i = File b" "in_mode i = mode"
    using write_steps_result [OF assms(1,2)] by auto
  then show ?thesis by (intro exI [of _ None] exI [of _ "Some i"]) simp
qed

section \<open>Certificate and key over restarts\<close>

lemma follow_extend:
  assumes "\<And>q. fs q \<noteq> None \<Longrightarrow> fs' q = fs q"
  shows "follow n fs p = Some i \<Longrightarrow> follow n fs' p = Some i"
proof (induction n arbitrary: p)
  case 0
  then show ?case using assms [of p] by (auto simp: follow.simps split: option.splits file_kind.splits)
next
  case (Suc n)
  then show ?case using assms [of p] by (fastforce simp: follow.simps [of "Suc n"] split: option.splits file_kind.splits)
qed

lemma follow_regular: "fs p = Some i \<Longrightarrow> in_kind i = File b \<Longrightarrow> follow n fs p = Some i"
  by (simp add: follow.simps)

lemma crt_key_paths:
  "crt_path d \<noteq> key_path d" "temp_path pid (crt_path d) \<noteq> key_path d" "temp_path pid (key_path d) \<noteq> crt_path d"
proof -
  let ?dir = "path_join d ''server''"
  have "?dir \<noteq> [] \<and> last ?dir = CHR ''r''" by (simp add: path_join_def)
  then have dir: "crt_path d = ?dir @ ''/tls.crt''" "key_path d = ?dir @ ''/tls.key''"
    by (simp_all add: crt_path_def key_path_def path_join_def [of ?dir])
  then show "crt_path d \<noteq> key_path d" by simp
  have "length (crt_path d) = length (key_path d)" using dir by simp
  then show "temp_path pid (crt_path d) \<noteq> key_path d" "temp_path pid (key_path d) \<noteq> crt_path d"
    using length_temp_path [of "crt_path d" pid] length_temp_path [of "key_path d" pid] by auto
qed

lemma read_path_result: "read_path E p w = (r, w1) \<Longrightarrow> wd_files w1 = wd_files w
    \<and> (case r of Inl _ \<Rightarrow> True | Inr b \<Rightarrow> \<exists>i. resolve (wd_files w) p = Some i \<and> in_kind i = File b)"
  by (auto simp: read_path_def syscall_def Let_def split: if_splits option.splits file_kind.splits)

lemma stat_exists_result:
  "stat_exists E p w = (b, w1) \<Longrightarrow> wd_files w1 = wd_files w \<and> wd_clk w1 = Suc (wd_clk w)
     \<and> b = (\<not> ie_fault E (wd_clk w) \<and> resolve (wd_files w) p \<noteq> None)"
  by (auto simp: stat_exists_def syscall_def Let_def split: if_splits option.splits)

text \<open>What a successful load has read.\<close>

lemma load_pair_result:
  assumes "load_pair E P C d w = (Inr (chain, k, pin), w1)"
  obtains i j pem kpem where "resolve (wd_files w) (crt_path d) = Some i" "in_kind i = File pem" "pe_certs P pem = Some chain"
    "resolve (wd_files w) (key_path d) = Some j" "in_kind j = File kpem" "pe_key P kpem = Some k"
    "chain \<noteq> []" "pin = fingerprint C (hd chain)" "wd_files w1 = wd_files w"
  using assms
  by (auto simp: load_pair_def split: prod.splits sum.splits option.splits list.splits dest!: read_path_result)

lemma mint_pair_result:
  assumes "mint_pair E P d w = (Inr u, w1)" and "\<And>b. concat (pe_cut P b) = b"
  obtains crt key i j where "pe_mint P = Some (crt, key)" "wd_files w1 (crt_path d) = Some i" "in_kind i = File crt"
    "wd_files w1 (key_path d) = Some j" "in_kind j = File key" "in_mode j = 0x180"
proof -
  obtain crt key where m: "pe_mint P = Some (crt, key)" using assms(1) by (auto simp: mint_pair_def split: option.splits)
  let ?crt = "crt_path d" and ?key = "key_path d"
  have run: "run_steps [write_atomic E (pe_pid P) (pe_cut P) ?crt crt 0x1A4, write_atomic E (pe_pid P) (pe_cut P) ?key key 0x180] w = (Inr (), w1)"
    using assms(1) m by (auto simp: mint_pair_def split: prod.splits sum.splits)
  then obtain w0 where w0: "write_atomic E (pe_pid P) (pe_cut P) ?crt crt 0x1A4 w = (Inr (), w0)"
    "write_atomic E (pe_pid P) (pe_cut P) ?key key 0x180 w0 = (Inr (), w1)"
    by (auto split: prod.splits sum.splits)
  from write_atomic_result [OF assms(2) w0(1)] obtain i where i: "wd_files w0 ?crt = Some i" "in_kind i = File crt" by auto
  from write_atomic_result [OF assms(2) w0(2)] obtain j where
    j: "wd_files w1 = (wd_files w0)(temp_path (pe_pid P) ?key := None, ?key \<mapsto> j)" "in_kind j = File key" "in_mode j = 0x180" by auto
  from i j m that show ?thesis using crt_key_paths(1) [of d] crt_key_paths(3) [of "pe_pid P" d] by simp
qed

lemma ancestors_shorter: "a \<in> set (ancestors acc p) \<Longrightarrow> length a < length acc + length p"
  by (induction acc p rule: ancestors.induct) (fastforce split: if_splits)+

lemma create_parents_extends:
  assumes "create_parents E p w = (r, w1)"
  shows "(wd_files w q \<noteq> None \<longrightarrow> wd_files w1 q = wd_files w q) \<and> (length p \<le> length q \<longrightarrow> wd_files w1 q = wd_files w q)
    \<and> wd_clk w1 = Suc (wd_clk w)"
  using assms ancestors_shorter [of q "[]" p]
  by (auto simp: create_parents_def syscall_def Let_def make_dirs_def split: if_splits)

lemma length_key_path: "length (key_path d) = length (crt_path d)"
  by (simp add: crt_path_def key_path_def path_join_def)

text \<open>With both files in place and no failing look-up, a start reads what is there.\<close>

lemma load_existing:
  assumes "load_or_create_server_cert E P C d w = (Inr (chain, k, pin), w1)"
    and "resolve (wd_files w) (crt_path d) = Some i" and "resolve (wd_files w) (key_path d) = Some j"
    and "\<not> ie_fault E (Suc (wd_clk w))" and "\<not> ie_fault E (Suc (Suc (wd_clk w)))"
  shows "\<exists>pem kpem. in_kind i = File pem \<and> in_kind j = File kpem \<and> pe_certs P pem = Some chain \<and> pe_key P kpem = Some k
    \<and> pin = fingerprint C (hd chain)"
proof -
  obtain w0 where c: "create_parents E (crt_path d) w = (Inr (), w0)"
    using assms(1) by (auto simp: load_or_create_server_cert_def split: prod.splits sum.splits)
  have ext: "wd_files w q \<noteq> None \<Longrightarrow> wd_files w0 q = wd_files w q" for q using create_parents_extends [OF c] by blast
  have i: "resolve (wd_files w0) (crt_path d) = Some i" and j: "resolve (wd_files w0) (key_path d) = Some j"
    using follow_extend [of "wd_files w" "wd_files w0", OF ext] assms(2,3) by simp_all
  obtain b w2 where e: "both_exist E d w0 = (b, w2)" by fastforce
  have "b" "wd_files w2 = wd_files w0"
    using e i j assms(4,5) create_parents_extends [OF c]
    by (auto simp: both_exist_def split: prod.splits bool.splits dest!: stat_exists_result)
  then have l: "load_pair E P C d w2 = (Inr (chain, k, pin), w1)" "wd_files w2 = wd_files w0"
    using assms(1) c e by (simp_all add: load_or_create_server_cert_def)
  show ?thesis using load_pair_result [OF l(1)] l(2) i j by (metis option.inject)
qed

text \<open>What a start that succeeded leaves behind is what it returned.\<close>

lemma load_leaves:
  assumes "load_or_create_server_cert E P C d w = (Inr (chain, k, pin), w1)"
  obtains i j pem kpem where "resolve (wd_files w1) (crt_path d) = Some i" "in_kind i = File pem" "pe_certs P pem = Some chain"
    "resolve (wd_files w1) (key_path d) = Some j" "in_kind j = File kpem" "pe_key P kpem = Some k" "pin = fingerprint C (hd chain)"
proof -
  obtain w2 where "load_pair E P C d w2 = (Inr (chain, k, pin), w1)"
    using assms by (auto simp: load_or_create_server_cert_def split: prod.splits sum.splits bool.splits)
  from load_pair_result [OF this] that show ?thesis by metis
qed

lemma load_minted:
  assumes "load_or_create_server_cert E P C d w = (Inr (chain, k, pin), w1)" and "\<And>b. concat (pe_cut P b) = b"
    and "wd_files w (crt_path d) = None \<or> wd_files w (key_path d) = None"
  shows "\<exists>crt key j. pe_mint P = Some (crt, key) \<and> pe_certs P crt = Some chain \<and> pe_key P key = Some k
    \<and> wd_files w1 (key_path d) = Some j \<and> in_mode j = 0x180"
proof -
  obtain w0 where c: "create_parents E (crt_path d) w = (Inr (), w0)"
    using assms(1) by (auto simp: load_or_create_server_cert_def split: prod.splits sum.splits)
  have "wd_files w0 (crt_path d) = None \<or> wd_files w0 (key_path d) = None"
    using assms(3) create_parents_extends [OF c, of "crt_path d"] create_parents_extends [OF c, of "key_path d"]
    by (auto simp: length_key_path)
  then have "resolve (wd_files w0) (crt_path d) = None \<or> resolve (wd_files w0) (key_path d) = None"
    by (auto simp: follow.simps)
  moreover obtain b w2 where e: "both_exist E d w0 = (b, w2)" by fastforce
  ultimately have "\<not> b"
    by (auto simp: both_exist_def split: prod.splits bool.splits dest!: stat_exists_result)
  then obtain w3 where m: "mint_pair E P d w2 = (Inr (), w3)" and l: "load_pair E P C d w3 = (Inr (chain, k, pin), w1)"
    using assms(1) c e by (auto simp: load_or_create_server_cert_def split: prod.splits sum.splits)
  obtain crt key i j where x: "pe_mint P = Some (crt, key)" "wd_files w3 (crt_path d) = Some i" "in_kind i = File crt"
    "wd_files w3 (key_path d) = Some j" "in_kind j = File key" "in_mode j = 0x180"
    by (rule mint_pair_result [OF m assms(2)])
  then have "resolve (wd_files w3) (crt_path d) = Some i" "resolve (wd_files w3) (key_path d) = Some j" by (simp_all add: follow_regular)
  with x load_pair_result [OF l] show ?thesis by (metis file_kind.inject(1) option.inject)
qed

text \<open>C31: The server's identity survives restarts: two starts that succeed, with any failing calls but the look-ups of
  the second, return the same certificates, key and pin, whatever the second would have minted; and when the first found a
  file missing, all of it is the pair it minted, with the key under mode 0600.\<close>

theorem server_identity_stable:
  assumes "load_or_create_server_cert E P C d w = (Inr (chain, k, pin), w1)" and "\<And>b. concat (pe_cut P b) = b"
    and "load_or_create_server_cert E2 P2 C d w1 = (Inr (chain2, k2, pin2), w2)"
    and "pe_certs P2 = pe_certs P" and "pe_key P2 = pe_key P"
    and "\<not> ie_fault E2 (Suc (wd_clk w1))" and "\<not> ie_fault E2 (Suc (Suc (wd_clk w1)))"
  shows "(chain2, k2, pin2) = (chain, k, pin)
    \<and> (if wd_files w (crt_path d) = None \<or> wd_files w (key_path d) = None
       then \<exists>crt key j. pe_mint P = Some (crt, key) \<and> pe_certs P crt = Some chain \<and> pe_key P key = Some k
              \<and> wd_files w1 (key_path d) = Some j \<and> in_mode j = 0x180
       else True)"
proof -
  obtain i j pem kpem where x: "resolve (wd_files w1) (crt_path d) = Some i" "in_kind i = File pem" "pe_certs P pem = Some chain"
    "resolve (wd_files w1) (key_path d) = Some j" "in_kind j = File kpem" "pe_key P kpem = Some k" "pin = fingerprint C (hd chain)"
    by (rule load_leaves [OF assms(1)])
  from load_existing [OF assms(3) x(1,4) assms(6,7)] x assms(4,5) have "(chain2, k2, pin2) = (chain, k, pin)" by auto
  then show ?thesis using load_minted [OF assms(1,2)] by simp
qed

text \<open>A lost certificate beside a surviving key: when the new certificate is written and the write of the new key
  fails, the start fails, and the next one serves the new certificate with the old key.\<close>

theorem split_pair:
  assumes "mint_pair E P d w = (Inl e, w1)" and "\<And>b. concat (pe_cut P b) = b" and "pe_mint P = Some (crt, key)"
    and "wd_files w (crt_path d) = None" and "wd_files w1 (crt_path d) \<noteq> None"
    and "wd_files w (key_path d) = Some j" and "in_kind j = File old"
    and "load_or_create_server_cert E2 P2 C d w1 = (Inr (chain, k, pin), w2)"
    and "\<not> ie_fault E2 (Suc (wd_clk w1))" and "\<not> ie_fault E2 (Suc (Suc (wd_clk w1)))"
  shows "pe_certs P2 crt = Some chain \<and> pe_key P2 old = Some k"
proof -
  let ?crt = "crt_path d" and ?key = "key_path d"
  obtain r0 w0 where s: "write_atomic E (pe_pid P) (pe_cut P) ?crt crt 0x1A4 w = (r0, w0)" by fastforce
  obtain r2 w3 where s2: "write_atomic E (pe_pid P) (pe_cut P) ?key key 0x180 w0 = (r2, w3)" by fastforce
  have "r0 = Inr ()"
  proof (cases r0)
    case (Inl e0)
    then have "w1 = w0" using assms(1,3) s by (auto simp: mint_pair_def)
    then show ?thesis using write_atomic_result [OF assms(2) s] Inl assms(4,5) by auto
  qed simp
  moreover from this have "w1 = w3" "\<exists>e2. r2 = Inl e2" using assms(1,3) s s2 by (auto simp: mint_pair_def split: sum.splits)
  ultimately obtain i x where "wd_files w0 = (wd_files w)(temp_path (pe_pid P) ?crt := None, ?crt \<mapsto> i)" "in_kind i = File crt"
    "wd_files w1 = (wd_files w0)(temp_path (pe_pid P) ?key := x)"
    using write_atomic_result [OF assms(2) s] write_atomic_result [OF assms(2) s2] by auto
  then have "wd_files w1 ?crt = Some i" "in_kind i = File crt" "wd_files w1 ?key = Some j"
    using crt_key_paths(1) [of d] crt_key_paths(2) [of "pe_pid P" d] crt_key_paths(3) [of "pe_pid P" d] assms(6) by auto
  then have "resolve (wd_files w1) ?crt = Some i" "resolve (wd_files w1) ?key = Some j" "in_kind i = File crt"
    using assms(7) by (simp_all add: follow_regular)
  from load_existing [OF assms(8) this(1,2) assms(9,10)] this(3) assms(7) show ?thesis by auto
qed

section \<open>Connections\<close>

definition listener_ok :: "listener \<Rightarrow> bool" where
  "listener_ok l \<longleftrightarrow> permits l + length (open_conns l) = MAX_CONNECTIONS \<and> distinct (open_conns l) \<and> (\<forall>c \<in> set (open_conns l). c < next_conn l)"

lemma accept_turn_ok: "listener_ok l \<Longrightarrow> listener_ok (snd (accept_turn ev l))"
proof (cases ev)
  case (Ended c)
  assume ok: "listener_ok l"
  show ?thesis
  proof (cases "c \<in> set (open_conns l)")
    case True
    then obtain n where "length (open_conns l) = Suc n" by (cases "open_conns l") auto
    with ok True Ended show ?thesis by (auto simp: listener_ok_def length_remove1 dest: set_remove1_subset [THEN subsetD])
  qed (use ok Ended in simp)
qed (auto simp: listener_ok_def less_SucI)

lemma accept_loop_ok: "listener_ok (accept_loop evs)"
proof -
  have "listener_ok l \<Longrightarrow> listener_ok (fold (\<lambda>ev l. snd (accept_turn ev l)) evs l)" for l
    by (induction evs arbitrary: l) (simp_all add: accept_turn_ok)
  then show ?thesis by (simp add: accept_loop_def listening_def listener_ok_def)
qed

text \<open>Whatever connections come and go, at most 1024 are handled at a time; a connection is turned away exactly
  when 1024 are, and as soon as one of them ends the next is admitted.\<close>

theorem connection_cap:
  "length (open_conns (accept_loop evs)) \<le> 1024
   \<and> fst (accept_turn Accepted (accept_loop evs)) = (length (open_conns (accept_loop evs)) = 1024)
   \<and> list_all (\<lambda>c. \<not> fst (accept_turn Accepted (snd (accept_turn (Ended c) (accept_loop evs))))) (open_conns (accept_loop evs))"
  using accept_loop_ok [of evs] by (auto simp: listener_ok_def MAX_CONNECTIONS_def list_all_iff)

section \<open>A first start, and one that fails\<close>

definition demo_boot_files :: files where
  "demo_boot_files p =
     (if p = ''d'' \<or> p = ''d/server'' then Some \<lparr>in_kind = Directory, in_flags = 0, in_uid = 0, in_mode = 493\<rparr> else None)"

definition demo_boot :: "(nat \<Rightarrow> bool) \<Rightarrow> install_env" where
  "demo_boot fault =
     \<lparr>ie_euid = 0, ie_fault = fault, ie_left = (\<lambda>_. False), ie_exe = None, ie_now = 1, ie_version = ''1'', ie_hash = bytes_str,
      ie_manifest = table_codec [], ie_token = table_codec []\<rparr>"

definition demo_pem :: "bytes \<Rightarrow> bytes pem_env" where
  "demo_pem b =
     \<lparr>pe_mint = Some (b, b), pe_certs = (\<lambda>b. Some [b]), pe_key = (\<lambda>b. Some b), pe_pid = 1, pe_cut = (\<lambda>b. [b])\<rparr>"

definition boot_world :: "files \<Rightarrow> nat \<Rightarrow> world" where
  "boot_world fs n = \<lparr>wd_files = fs, wd_running = {}, wd_commands = [], wd_clk = n\<rparr>"

lemma dec_str_1: "dec_str 1 = ''1''"
proof -
  have "(char_of (byte_of CHR ''1'') :: char) = CHR ''1''" by (rule char_of_char)
  then have "(char_of (49 :: nat) :: char) = CHR ''1''" by simp
  then show ?thesis by (simp add: dec_str.simps)
qed

lemma demo_boot_paths:
  "crt_path ''d'' = ''d/server/tls.crt''" "key_path ''d'' = ''d/server/tls.key''"
  "temp_path (Suc 0) ''d/server/tls.crt'' = ''d/server/.tls.crt.tmp.1''" "temp_path (Suc 0) ''d/server/tls.key'' = ''d/server/.tls.key.tmp.1''"
  using dec_str_1 by (simp_all add: crt_path_def key_path_def path_join_def temp_path_def rsplit_once_def Let_def)

lemma demo_boot_ancestors:
  "ancestors [] ''d/server/tls.crt'' = [''d'', ''d/server'']"
  "ancestors [] ''d/server/.tls.crt.tmp.1'' = [''d'', ''d/server'']" "ancestors [] ''d/server/.tls.key.tmp.1'' = [''d'', ''d/server'']"
  by simp_all

lemmas demo_boot_simps = demo_boot_paths demo_boot_ancestors demo_boot_files_def demo_boot_def demo_pem_def boot_world_def is_dir_def
  follow.simps syscall_def on_file_def Let_def is_immutable_def create_parents_def stat_exists_def read_path_def both_exist_def load_pair_def
  load_or_create_server_cert_def

text \<open>The certificate's directory with the key of an earlier pair.\<close>

definition demo_old_key :: files where
  "demo_old_key = demo_boot_files(''d/server/tls.key'' \<mapsto> \<lparr>in_kind = File [9], in_flags = 0, in_uid = 0, in_mode = 0x180\<rparr>)"

definition demo_new_crt :: files where
  "demo_new_crt = demo_old_key(''d/server/.tls.crt.tmp.1'' := None, ''d/server/tls.crt'' \<mapsto> \<lparr>in_kind = File [1], in_flags = 0, in_uid = 0, in_mode = 0x1A4\<rparr>)"

lemma demo_mint_fails:
  "mint_pair (demo_boot (\<lambda>n. n = 5)) (demo_pem [1]) ''d'' (boot_world demo_old_key 0)
     = (Inl (CertIo Faulted), boot_world demo_new_crt 7)"
  by (simp add: demo_boot_simps mint_pair_def write_atomic_def write_steps_def write_all_def open_truncate_def rename_file_def remove_file_def
      demo_old_key_def demo_new_crt_def)

lemma demo_loads:
  "load_or_create_server_cert (demo_boot (\<lambda>_. False)) (demo_pem b) toy_crypto ''d'' (boot_world demo_new_crt n)
     = (Inr ([[1]], [9], toy_hash [1]), boot_world demo_new_crt (n + 5))"
proof -
  have "make_dirs ''d/server/tls.crt'' demo_new_crt = demo_new_crt"
    by (rule ext) (simp add: make_dirs_def demo_boot_ancestors demo_new_crt_def demo_old_key_def demo_boot_files_def)
  then show ?thesis
    by (simp add: demo_boot_simps demo_new_crt_def demo_old_key_def fingerprint_def toy_crypto_def)
qed

lemma server_identity_stable_witness:
  "load_or_create_server_cert (demo_boot (\<lambda>n. n = 4)) (demo_pem [3]) toy_crypto ''d'' (boot_world demo_new_crt 5)
     = (Inr ([[1]], [9], toy_hash [1]), boot_world demo_new_crt 10)"
proof -
  have second: "load_or_create_server_cert (demo_boot (\<lambda>n. n = 4)) (demo_pem [3]) toy_crypto ''d'' (boot_world demo_new_crt 5)
      = (Inr ([[1]], [9], toy_hash [1]), boot_world demo_new_crt 10)"
  proof -
    have "make_dirs ''d/server/tls.crt'' demo_new_crt = demo_new_crt"
      by (rule ext) (simp add: make_dirs_def demo_boot_ancestors demo_new_crt_def demo_old_key_def demo_boot_files_def)
    then show ?thesis
      by (simp add: demo_boot_simps demo_new_crt_def demo_old_key_def fingerprint_def toy_crypto_def)
  qed
  then obtain chain k pin w2 where l: "load_or_create_server_cert (demo_boot (\<lambda>n. n = 4)) (demo_pem [3]) toy_crypto ''d''
      (boot_world demo_new_crt (0 + 5)) = (Inr (chain, k, pin), w2)" by simp
  have "(chain, k, pin) = ([[1]], [9], toy_hash [1])"
    using server_identity_stable [OF demo_loads [of "[2]" 0] _ l] by (simp add: demo_pem_def demo_boot_def boot_world_def)
  with l second show ?thesis by simp
qed

lemma split_pair_witness:
  "pe_certs (demo_pem [2]) [1] = Some [[1]] \<and> pe_key (demo_pem [2]) [9] = Some [9]
    \<and> pe_mint (demo_pem [1]) = Some ([1], [1])"
proof -
  have m: "pe_mint (demo_pem [1]) = Some ([1], [1])" and c: "concat (pe_cut (demo_pem [1]) b) = b" for b by (simp_all add: demo_pem_def)
  have k: "wd_files (boot_world demo_old_key 0) (key_path ''d'')
      = Some \<lparr>in_kind = File [9], in_flags = 0, in_uid = 0, in_mode = 0x180\<rparr>"
    by (simp add: boot_world_def demo_old_key_def demo_boot_paths)
  show ?thesis
    using split_pair [OF demo_mint_fails c m _ _ k _ demo_loads] m
    by (simp add: boot_world_def demo_old_key_def demo_new_crt_def demo_boot_files_def demo_boot_paths demo_boot_def)
qed

end
