(* ===== verification/Spec2Isabelle.thy ===== *)
theory Spec2Isabelle
  imports Interop Actor_Facts Tty_Facts Api Pipeline Verdicts Tamper_Wire Process Agent_Facts Enroll_Client
    Baseline_Facts Evasion_Cost Cli_Facts Listener_Facts
begin

text \<open>
  A model of the insider-threat profiling system: agents that collect events on endpoints, a
  transport that carries them durably, and a server that authenticates, stores, scores and
  distributes them. A host process (agent or server) is a set of plugins around an event bus. On an agent
  the collectors emit telemetry and the transport plugin forwards it; on the server the ingest path puts what
  authenticated agents sent on the bus, where detection, scoring and the store sink consume it.

  \<^bold>\<open>Shared theories.\<close>

  \<^item> \<open>Prelude\<close>: machine words with the saturating operations of Rust, big-endian bytes, \<open>BTreeMap\<close> as
    a sorted association list, codecs. \<open>Text\<close>: the parts of \<^verbatim>\<open>str\<close> the code uses, over UTF-8 bytes.
    \<open>F64\<close>: the values of \<open>f64\<close> with comparisons, and arithmetic as the exact result rounded by a parameter.
  \<^item> \<open>Redb\<close>: the locale \<open>ordered_table\<close>, the laws the code relies on of an ordered database table, and the
    outcomes of its calls; it is interpreted on red-black trees.
  \<^item> \<open>Event\<close>: \<^verbatim>\<open>aegis-sdk/src/event.rs\<close> and the subscriptions of \<^verbatim>\<open>plugin.rs\<close>.

  \<^bold>\<open>The host.\<close> \<open>Host\<close> has the load policy of \<^verbatim>\<open>aegis-core\<close> (\<^verbatim>\<open>config.rs\<close>, \<^verbatim>\<open>loader.rs\<close>, \<^verbatim>\<open>build_host\<close> of \<^verbatim>\<open>host.rs\<close>);
  \<open>Bus\<close> the bounded queues, dispatcher and handler tasks of \<^verbatim>\<open>bus.rs\<close> and \<^verbatim>\<open>host.rs\<close> as atomic steps whose
  interleavings are input lists. Its lemmas show that critical events are never lost, and that they can
  dead-lock the bus.

  \<^bold>\<open>The agent.\<close> \<open>Ring\<close> and \<open>Spill\<close> are the front buffer and the durable queue of the forwarder
  (\<^verbatim>\<open>plugin-transport/src/ring.rs\<close>, \<^verbatim>\<open>spill.rs\<close>); \<open>Handshake\<close> and \<open>Actor\<close> its connection actor (\<^verbatim>\<open>actor.rs\<close>), with every
  step of the online phase a constructor of \<open>online_input\<close>; \<open>Actor_Facts\<close> the invariants of the online
  phase, what an acknowledgement deletes, and progress. \<open>Levenshtein\<close>, \<open>Tty\<close>, \<open>Tty_Facts\<close> are the keystroke collector
  (\<^verbatim>\<open>plugin-tty\<close>): its statistics, the equivalence of its edit distance with a reference definition, the bounds of
  its buffers and the independence of what it emits from the typed text.

  \<^bold>\<open>The wire.\<close> \<open>Proto\<close>, \<open>Config\<close>, \<open>Auth\<close>: frames, addresses, pinning, the authentication digest and identity files
  (\<^verbatim>\<open>aegis-proto\<close> and the transport's \<^verbatim>\<open>config.rs\<close>, \<^verbatim>\<open>identity.rs\<close>). \<open>Interop\<close> puts both ends together.

  \<^bold>\<open>The server\<close> (\<^verbatim>\<open>aegis-server\<close>). \<open>Store\<close> has the operations of \<^verbatim>\<open>store.rs\<close> and \<open>Store_Facts\<close> their
  specification in the locale \<open>datastore\<close>; \<open>Enroll\<close>, \<open>Router\<close>, \<open>Ingest\<close>, \<open>Session\<close> the enrollment policy, command routing and
  a connection from accept to close (\<^verbatim>\<open>enroll.rs\<close>, \<^verbatim>\<open>router.rs\<close>, \<^verbatim>\<open>ingest.rs\<close>); \<open>Sink\<close> and \<open>Api\<close> the store sink and the operator API;
  \<open>Scoring\<close> the risk aggregation (\<^verbatim>\<open>plugin-scoring\<close>), refined to one independent risk per subject. \<open>Pipeline\<close> has the
  theorems that span ingest, bus, scoring and sink.

  \<open>Listener\<close> has the server's TLS material and the accept loop of \<^verbatim>\<open>ingest.rs\<close> over a file system whose every call may fail;
  \<open>Listener_Facts\<close> that a write is never torn, that certificate, key and pin survive restarts, how a failed start can leave a
  certificate beside a key of another pair, and the cap on connections. \<open>Http\<close> and \<open>Cli\<close> are \<^verbatim>\<open>aegisctl\<close> (\<^verbatim>\<open>aegis-cli\<close>): its HTTP
  client over a network that maps requests to response bytes, and its server-facing commands; \<open>Http_Facts\<close> shows that queries
  arrive as typed and responses are cut where their headers end, \<open>Cli_Facts\<close> that the commands show what the handlers of \<open>Api\<close> answered.

  \<^bold>\<open>Detection\<close> (\<^verbatim>\<open>plugin-agent-detect\<close>). \<open>Features\<close> has the accumulator and the statistics of \<^verbatim>\<open>features.rs\<close>, with a
  specification of what it remembers; \<open>Model\<close> the additive model of \<^verbatim>\<open>model.rs\<close> with its hard rules, its range and
  its monotonicity; \<open>Detect\<close> the session table, sequential test and handler of \<^verbatim>\<open>lib.rs\<close>, refined to one session
  alone; \<open>Verdicts\<close> the detector feeding risk aggregation.

  \<^bold>\<open>Self-protection\<close> (\<^verbatim>\<open>plugin-tamper\<close>). \<open>Tamper\<close> has the posture check, baseline manifest and watch loop of \<^verbatim>\<open>lib.rs\<close>,
  \<^verbatim>\<open>manifest.rs\<close> and \<^verbatim>\<open>immutable.rs\<close> over a file system snapshot; \<open>Install\<close> the installer of \<^verbatim>\<open>install.rs\<close> as sequences of
  system calls that can each fail; \<open>Install_Facts\<close> what an installation establishes, that an uninstallation undoes
  it, and what a reinstallation over a running agent does; \<open>Tamper_Wire\<close> what becomes of the alerts at the server.

  \<^bold>\<open>The agent process.\<close> \<open>Agent\<close> has the configuration that \<^verbatim>\<open>aegis-agent\<close> (\<^verbatim>\<open>main.rs\<close>) composes for the host and how the
  tamper plugin reads it, joined to the installer; \<open>Agent_Facts\<close> what an uninstallation leaves alone; \<open>Enroll_Client\<close> the
  enrollment exchange, alone and against the server's end; \<open>Process\<close> the process collector (\<^verbatim>\<open>plugin-process\<close>).

  \<^bold>\<open>Offline evaluation\<close> (\<^verbatim>\<open>plugin-agent-detect\<close>). \<open>Synth\<close> has the session generator of \<^verbatim>\<open>synth.rs\<close> in the state monad over its
  random word: its draws never repeat, and every session it makes has enough evidence. \<open>Baseline\<close> and \<open>Baseline_Facts\<close> are the
  logistic regression of \<^verbatim>\<open>baseline.rs\<close>, whose predictions stay probabilities. \<open>Roc\<close> is the area estimator of \<^verbatim>\<open>eval.rs\<close> with its
  loop over ties as a \<open>while_option\<close> that is proved to return, and to count pairs; \<open>Evaluation\<close>, \<open>Evasion\<close> the rest
  of \<^verbatim>\<open>eval.rs\<close>; \<open>Evaluation_Facts\<close> the completeness of the metrics and the disjointness of training and test
  streams; \<open>Evasion_Facts\<close> and \<open>Evasion_Cost\<close> that the replay of the harness is the plugin's own sequential test, and that
  this layer never lowers the cost to evade.

  \<^bold>\<open>Parameters.\<close> Code that is not in the repository is an argument: the database (\<open>table_ops\<close>, one outcome per call), the
  postcard and JSON codecs, hashes, signatures and randomness, clocks, the file system, float rounding and the maths library. What a
  theorem needs of them is a named hypothesis, and its witness instantiates it.

  \<^bold>\<open>Bounds and fuel.\<close> Rust integers that can reach their limits are words or saturate explicitly; counters
  bounded by memory are \<open>nat\<close>. Unbounded service loops are runs over finite input lists of any length, so no
  theorem depends on a fuel bound; the loops of a single operation are recursions with termination proofs, or
  in \<open>Roc\<close> a \<open>while_option\<close> with a theorem that it returns.

  \<^bold>\<open>Not modelled.\<close> Sockets, TLS and the async runtime below the level of messages and steps; start-up
  wiring and command lines; command-line parsing; static dashboard files; the offline subcommands of
  \<^verbatim>\<open>aegisctl\<close>, which print build facts; tests and benchmarks.
\<close>

end
